(* ===== verification/Prelude.thy ===== *)
theory Prelude
  imports Main "HOL-Library.Word" "HOL-Library.Monad_Syntax" "HOL-Library.Multiset"
begin

text \<open>
  Shared vocabulary of the development: the machine types of
  \<^verbatim>\<open>src/freestanding/arch/ia32/inttypes.h\<close>, the status codes of
  \<^verbatim>\<open>src/freestanding/common/ktypes.h\<close>, the alignment and bit macros of
  \<^verbatim>\<open>macros.h\<close> and \<^verbatim>\<open>bits.h\<close>, arrays of 32-bit bitmap words (the
  representation of every slot allocator of the kernel), chains of \<open>next\<close>
  pointers (the representation of every list of the kernel), and the contract that
  the slot allocators share (locale \<open>slot_alloc\<close>).

  A kernel operation that can fault (a \<open>FatalError\<close>, a read through a null or
  dangling pointer, an unmapped address, a loop that does not end) has a result of
  type \<open>option\<close>: \<open>None\<close> means that the kernel does not come back from
  the call. An error the code reports to its caller is a \<open>Status\<close> value.
\<close>

unbundle bit_operations_syntax

section \<open>Machine types\<close>

type_synonym u8 = "8 word"
type_synonym u16 = "16 word"
type_synonym u32 = "32 word"
type_synonym u64 = "64 word"

text \<open>A pointer is its 32-bit address; the null pointer is 0.\<close>

type_synonym ptr = u32

text \<open>A static array of words, by index.\<close>

type_synonym words = "nat \<Rightarrow> u32"

section \<open>Status codes\<close>

datatype Status =
    STATUS_OK | STATUS_BAD | STATUS_OUT_OF_MEMORY | STATUS_BAD_ARGUMENT
  | STATUS_RETRY | STATUS_UNSUPPORTED | STATUS_NOT_FOUND | STATUS_OUT_OF_BOUNDS
  | STATUS_TIMEOUT | STATUS_NO_ENDPOINT | STATUS_BAD_SYSCALL | STATUS_MSGQUEUE_FULL

fun status_code :: "Status \<Rightarrow> int" where
  "status_code STATUS_OK = 0"
| "status_code STATUS_BAD = -1"
| "status_code STATUS_OUT_OF_MEMORY = -2"
| "status_code STATUS_BAD_ARGUMENT = -3"
| "status_code STATUS_RETRY = -4"
| "status_code STATUS_UNSUPPORTED = -5"
| "status_code STATUS_NOT_FOUND = -6"
| "status_code STATUS_OUT_OF_BOUNDS = -7"
| "status_code STATUS_TIMEOUT = -8"
| "status_code STATUS_NO_ENDPOINT = -9"
| "status_code STATUS_BAD_SYSCALL = -10"
| "status_code STATUS_MSGQUEUE_FULL = -11"

section \<open>Macros\<close>

abbreviation PAGE_SIZE :: u32 where "PAGE_SIZE \<equiv> 0x1000"

abbreviation FRAME_SIZE :: u32 where "FRAME_SIZE \<equiv> 0x1000"

definition inrange :: "'a::ord \<Rightarrow> 'a \<Rightarrow> 'a \<Rightarrow> bool" where
  "inrange num low up \<longleftrightarrow> num \<le> up \<and> low \<le> num"

definition alignup :: "u32 \<Rightarrow> u32 \<Rightarrow> u32" where
  "alignup x align = (x + (align - 1)) div align * align"

definition pagealign :: "u32 \<Rightarrow> u32" where
  "pagealign x = alignup x PAGE_SIZE"

definition aligndown :: "u32 \<Rightarrow> u32 \<Rightarrow> u32" where
  "aligndown x align = x div align * align"

definition isaligned :: "u32 \<Rightarrow> u32 \<Rightarrow> bool" where
  "isaligned x align \<longleftrightarrow> x mod align = 0"

definition SET_BIT :: "u32 \<Rightarrow> nat \<Rightarrow> u32" where
  "SET_BIT x n = x OR push_bit n 1"

definition CLEAR_BIT :: "u32 \<Rightarrow> nat \<Rightarrow> u32" where
  "CLEAR_BIT x n = x AND NOT (push_bit n 1)"

definition IS_SET :: "u32 \<Rightarrow> nat \<Rightarrow> bool" where
  "IS_SET x n \<longleftrightarrow> x AND push_bit n 1 \<noteq> 0"

text \<open>
  The compiler builtin \<^verbatim>\<open>__builtin_ctz\<close>: the index of the lowest set bit.
  C leaves it undefined at 0; every call of the kernel is guarded against 0.
\<close>

fun ctz_from :: "u32 \<Rightarrow> nat \<Rightarrow> nat" where
  "ctz_from w 0 = 32"
| "ctz_from w (Suc n) = (if bit w (31 - n) then 31 - n else ctz_from w n)"

definition builtin_ctz :: "u32 \<Rightarrow> nat" where
  "builtin_ctz w = ctz_from w 32"

section \<open>Bitmap words\<close>

text \<open>The bit of slot \<open>i\<close> is bit \<open>i mod 32\<close> of word \<open>i div 32\<close>.\<close>

definition bm_used :: "words \<Rightarrow> nat \<Rightarrow> bool" where
  "bm_used bm i = IS_SET (bm (i div 32)) (i mod 32)"

definition bm_mark :: "nat \<Rightarrow> words \<Rightarrow> words" where
  "bm_mark i bm = bm(i div 32 := SET_BIT (bm (i div 32)) (i mod 32))"

definition bm_clear :: "nat \<Rightarrow> words \<Rightarrow> words" where
  "bm_clear i bm = bm(i div 32 := CLEAR_BIT (bm (i div 32)) (i mod 32))"

text \<open>
  The scan all the allocators share: skip the full words, take the lowest clear bit of
  the first word that has one.
\<close>

function bm_scan :: "words \<Rightarrow> nat \<Rightarrow> nat \<Rightarrow> nat option" where
  "bm_scan bm i n =
     (if i < n then
        if bm i = 0xFFFFFFFF then bm_scan bm (Suc i) n
        else Some (i * 32 + builtin_ctz (NOT (bm i)))
      else None)"
  by pat_completeness auto
termination
  by (relation "measure (\<lambda>(bm, i, n). n - i)") auto

declare bm_scan.simps [simp del]


section \<open>Chains of next pointers\<close>

text \<open>
  \<open>chain nx p xs\<close>: from \<open>p\<close>, following \<open>nx\<close>, the nodes are \<open>xs\<close> and the
  last one's \<open>next\<close> is null. \<open>nx x = None\<close> stands for a node that is not
  allocated: reading its \<open>next\<close> field faults.
\<close>

primrec chain :: "(ptr \<Rightarrow> ptr option) \<Rightarrow> ptr \<Rightarrow> ptr list \<Rightarrow> bool" where
  "chain nx p [] \<longleftrightarrow> p = 0"
| "chain nx p (x # xs) \<longleftrightarrow> p = x \<and> x \<noteq> 0 \<and> (\<exists>q. nx x = Some q \<and> chain nx q xs)"

text \<open>
  The loop \<^verbatim>\<open>while (iter->next) iter = iter->next;\<close>, which the scheduler, the process
  list, the device tree and the output list use to find their last node.
\<close>

partial_function (option) last_node :: "(ptr \<Rightarrow> ptr option) \<Rightarrow> ptr \<Rightarrow> ptr option" where
  "last_node nx p = Option.bind (nx p) (\<lambda>q. if q \<noteq> 0 then last_node nx q else Some p)"

declare last_node.simps [code]

section \<open>Lemma collections\<close>

named_theorems bm_simps \<open>reading a bitmap after marking and clearing slots\<close>
named_theorems align_simps \<open>page alignment of 32-bit addresses\<close>

subsection \<open>Single bits\<close>

lemma bit_SET_BIT [bm_simps]: "n < 32 \<Longrightarrow> bit (SET_BIT x n) j \<longleftrightarrow> bit x j \<or> j = n"
  by (auto simp: SET_BIT_def bit_simps)

lemma bit_CLEAR_BIT [bm_simps]: "n < 32 \<Longrightarrow> bit (CLEAR_BIT x n) j \<longleftrightarrow> bit x j \<and> j \<noteq> n"
  by (auto simp: CLEAR_BIT_def bit_simps dest: bit_imp_le_length)

lemma IS_SET_bit [bm_simps]: "n < 32 \<Longrightarrow> IS_SET x n \<longleftrightarrow> bit x n"
proof -
  assume n: "n < 32"
  have "bit (x AND push_bit n 1) j \<longleftrightarrow> bit x n \<and> j = n" for j
    using n by (auto simp: bit_simps)
  then show ?thesis
    unfolding IS_SET_def by (metis bit_0_eq bot_apply bot_bool_def bit_word_eqI)
qed

lemma all_ones_iff: "(x :: u32) = 0xFFFFFFFF \<longleftrightarrow> (\<forall>i<32. bit x i)"
proof -
  have "(0xFFFFFFFF :: u32) = - 1" by simp
  then show ?thesis by (auto simp: bit_eq_iff)
qed

lemma not_zero_iff: "NOT (x :: u32) = 0 \<longleftrightarrow> x = 0xFFFFFFFF"
proof -
  have "(0xFFFFFFFF :: u32) = NOT 0" by simp
  then show ?thesis by (metis bit.double_compl)
qed

lemma bit_below_32: "bit (x :: u32) n \<Longrightarrow> n < 32"
  by (drule bit_imp_le_length) simp

lemma ctz_from_spec:
  assumes "\<exists>i. 32 - k \<le> i \<and> i < 32 \<and> bit w i" and "k \<le> 32"
  shows "32 - k \<le> ctz_from w k \<and> ctz_from w k < 32 \<and> bit w (ctz_from w k) \<and>
         (\<forall>i. 32 - k \<le> i \<and> i < ctz_from w k \<longrightarrow> \<not> bit w i)"
  using assms
proof (induction k)
  case 0
  then show ?case by auto
next
  case (Suc k)
  have k: "32 - Suc k = 31 - k" "k \<le> 31" using Suc.prems by auto
  show ?case
  proof (cases "bit w (31 - k)")
    case True
    with k show ?thesis by auto
  next
    case False
    with Suc.prems k have ex: "\<exists>i. 32 - k \<le> i \<and> i < 32 \<and> bit w i"
      by (metis Suc_diff_le Suc_leI diff_Suc_Suc le_neq_implies_less numeral_eq_Suc pred_numeral_simps(3) BitM.simps)
    note ih = Suc.IH [OF ex]
    have "\<forall>i. 31 - k \<le> i \<and> i < ctz_from w k \<longrightarrow> \<not> bit w i"
    proof (intro allI impI)
      fix i assume "31 - k \<le> i \<and> i < ctz_from w k"
      with ih k False show "\<not> bit w i" by (cases "i = 31 - k") auto
    qed
    with ih k False show ?thesis by auto
  qed
qed

lemma builtin_ctz_spec:
  assumes "w \<noteq> 0"
  shows "builtin_ctz w < 32" and "bit w (builtin_ctz w)"
    and "\<And>i. i < builtin_ctz w \<Longrightarrow> \<not> bit w i"
proof -
  have "\<exists>i. bit w i" using assms by (metis bit_0_eq bit_word_eqI bot_apply bot_bool_def)
  then have "\<exists>i. 32 - 32 \<le> i \<and> i < 32 \<and> bit w i" by (auto intro: bit_below_32)
  from ctz_from_spec [OF this]
  show "builtin_ctz w < 32" and "bit w (builtin_ctz w)" and "\<And>i. i < builtin_ctz w \<Longrightarrow> \<not> bit w i"
    unfolding builtin_ctz_def by auto
qed

subsection \<open>Bitmaps\<close>

lemma bm_used_bit: "bm_used bm i \<longleftrightarrow> bit (bm (i div 32)) (i mod 32)"
  by (simp add: bm_used_def bm_simps)

lemma div_mod_32_eq: "i div 32 = j div 32 \<Longrightarrow> i mod 32 = j mod 32 \<Longrightarrow> (i :: nat) = j"
  by (metis mult_div_mod_eq)

lemma bm_used_mark [bm_simps]: "bm_used (bm_mark i bm) j \<longleftrightarrow> j = i \<or> bm_used bm j"
  by (auto simp: bm_used_bit bm_mark_def bm_simps dest: div_mod_32_eq)

lemma bm_used_clear [bm_simps]: "bm_used (bm_clear i bm) j \<longleftrightarrow> j \<noteq> i \<and> bm_used bm j"
  by (auto simp: bm_used_bit bm_clear_def bm_simps dest: div_mod_32_eq)

lemma bm_used_ones [bm_simps]: "bm_used (\<lambda>_. 0xFFFFFFFF) j"
proof -
  have "(0xFFFFFFFF :: u32) = - 1" by simp
  then show ?thesis by (simp only: bm_used_bit bit_minus_1_iff) simp
qed

lemma bm_word_full: "bm w = 0xFFFFFFFF \<longleftrightarrow> (\<forall>i. i div 32 = w \<longrightarrow> bm_used bm i)"
proof
  assume "bm w = 0xFFFFFFFF"
  then show "\<forall>i. i div 32 = w \<longrightarrow> bm_used bm i" by (simp add: bm_used_bit all_ones_iff)
next
  assume *: "\<forall>i. i div 32 = w \<longrightarrow> bm_used bm i"
  have "bit (bm w) k" if "k < 32" for k
    using * [rule_format, of "w * 32 + k"] that by (simp add: bm_used_bit)
  then show "bm w = 0xFFFFFFFF" by (simp add: all_ones_iff)
qed

lemma bm_eqI: "(\<And>i. bm_used a i = bm_used b i) \<Longrightarrow> a = b"
proof (rule ext, rule bit_word_eqI)
  fix w n assume *: "\<And>i. bm_used a i = bm_used b i" and n: "n < LENGTH(32)"
  from * [of "w * 32 + n"] n show "bit (a w) n = bit (b w) n" by (simp add: bm_used_bit)
qed

lemma bm_clear_mark: "\<not> bm_used bm i \<Longrightarrow> bm_clear i (bm_mark i bm) = bm"
  by (rule bm_eqI) (auto simp: bm_simps)

lemma bm_scan_Some:
  "bm_scan bm i n = Some k \<Longrightarrow>
     i * 32 \<le> k \<and> k < n * 32 \<and> \<not> bm_used bm k \<and> (\<forall>j. i * 32 \<le> j \<and> j < k \<longrightarrow> bm_used bm j)"
proof (induction bm i n rule: bm_scan.induct)
  case (1 bm i n)
  show ?case
  proof (cases "i < n \<and> bm i = 0xFFFFFFFF")
    case True
    with "1.prems" have "bm_scan bm (Suc i) n = Some k" by (simp add: bm_scan.simps [of bm i n])
    with "1.IH" True have IH: "Suc i * 32 \<le> k \<and> k < n * 32 \<and> \<not> bm_used bm k \<and>
      (\<forall>j. Suc i * 32 \<le> j \<and> j < k \<longrightarrow> bm_used bm j)" by blast
    have full: "bm_used bm j" if "i * 32 \<le> j" "j < Suc i * 32" for j
    proof -
      have "j div 32 = i" using that by auto
      with True show ?thesis using bm_word_full by blast
    qed
    have "bm_used bm j" if "i * 32 \<le> j" "j < k" for j
      using full [of j] IH that by (cases "j < Suc i * 32") auto
    with IH show ?thesis by auto
  next
    case False
    with "1.prems" have i: "i < n" "bm i \<noteq> 0xFFFFFFFF" and k: "k = i * 32 + builtin_ctz (NOT (bm i))"
      by (auto simp: bm_scan.simps [of bm i n] split: if_splits)
    have nz: "NOT (bm i) \<noteq> 0" using i(2) not_zero_iff by blast
    note ctz = builtin_ctz_spec [OF nz]
    have kd: "k div 32 = i" "k mod 32 = builtin_ctz (NOT (bm i))" using k ctz(1) by auto
    have "\<not> bm_used bm k" using ctz(1,2) kd by (simp add: bm_used_bit bit_simps)
    moreover have "bm_used bm j" if "i * 32 \<le> j" "j < k" for j
    proof -
      obtain d where d: "j = i * 32 + d" using \<open>i * 32 \<le> j\<close> le_iff_add by blast
      with that k ctz(1) have j: "j div 32 = i" "j mod 32 < builtin_ctz (NOT (bm i))" by auto
      with ctz(3) [OF j(2)] show ?thesis by (simp add: bm_used_bit bit_simps)
    qed
    ultimately show ?thesis using k ctz(1) i(1) by auto
  qed
qed

lemma bm_scan_None: "bm_scan bm i n = None \<longleftrightarrow> (\<forall>j. i * 32 \<le> j \<and> j < n * 32 \<longrightarrow> bm_used bm j)"
proof (induction bm i n rule: bm_scan.induct)
  case (1 bm i n)
  show ?case
  proof (cases "i < n \<and> bm i = 0xFFFFFFFF")
    case True
    have "bm_used bm j" if "i * 32 \<le> j" "j < Suc i * 32" for j
    proof -
      have "j div 32 = i" using that by auto
      with True show ?thesis using bm_word_full by blast
    qed
    then have "(\<forall>j. i * 32 \<le> j \<and> j < n * 32 \<longrightarrow> bm_used bm j) \<longleftrightarrow>
               (\<forall>j. Suc i * 32 \<le> j \<and> j < n * 32 \<longrightarrow> bm_used bm j)"
      by (auto simp: not_less) (metis not_less)
    with True "1.IH" show ?thesis by (simp add: bm_scan.simps [of bm i n])
  next
    case False
    show ?thesis
    proof (cases "i < n")
      case True
      with False obtain k where "k div 32 = i" "\<not> bm_used bm k" using bm_word_full by blast
      then have "i * 32 \<le> k" "k < n * 32" using True by auto
      with \<open>\<not> bm_used bm k\<close> False True show ?thesis by (auto simp: bm_scan.simps [of bm i n])
    next
      case False
      then show ?thesis by (auto simp: bm_scan.simps [of bm i n])
    qed
  qed
qed

lemma mod_drop_base: "c dvd a \<Longrightarrow> (a + b) mod c = b mod (c :: nat)"
  by (auto elim!: dvdE)

subsection \<open>Words as natural numbers\<close>

lemma unat_u32_less [simp]: "unat (x :: u32) < 4294967296"
  using unsigned_less [of x] by simp

lemma unat_plus_no_wrap: "unat (x :: u32) + unat y < 4294967296 \<Longrightarrow> unat (x + y) = unat x + unat y"
  by (simp add: unat_word_ariths)

lemma unat_mult_no_wrap: "unat (x :: u32) * unat y < 4294967296 \<Longrightarrow> unat (x * y) = unat x * unat y"
  by (simp add: unat_word_ariths)

lemma unat_of_nat_small: "n < 4294967296 \<Longrightarrow> unat (of_nat n :: u32) = n"
  by (simp add: unat_of_nat)

subsection \<open>Alignment\<close>

lemma aligndown_nat [align_simps]: "unat (aligndown a PAGE_SIZE) = unat a div 4096 * 4096"
proof -
  have "unat a div 4096 * 4096 < 4294967296"
    using unat_u32_less [of a] by (meson div_times_less_eq_dividend le_less_trans)
  then show ?thesis by (simp add: aligndown_def unat_word_ariths unat_div)
qed

lemma pagealign_down: "pagealign a = aligndown (a + 0xFFF) PAGE_SIZE"
  by (simp add: pagealign_def alignup_def aligndown_def)

lemma pagealign_nat [align_simps]:
  "unat a \<le> 0xFFFFF000 \<Longrightarrow> unat (pagealign a) = (unat a + 4095) div 4096 * 4096"
  by (simp add: pagealign_down aligndown_nat unat_plus_no_wrap)

lemma isaligned_nat [align_simps]: "isaligned a PAGE_SIZE \<longleftrightarrow> unat a mod 4096 = 0"
proof -
  have "unat (a mod PAGE_SIZE) = unat a mod 4096" by (simp add: unat_mod)
  then show ?thesis unfolding isaligned_def by (metis unat_eq_0)
qed

lemma isaligned_aligndown [simp]: "isaligned (aligndown a PAGE_SIZE) PAGE_SIZE"
  by (simp add: align_simps)

lemma isaligned_pagealign [simp]: "isaligned (pagealign a) PAGE_SIZE"
  by (simp add: pagealign_down)

subsection \<open>Chains\<close>

lemma chain_null [simp]: "chain nx 0 xs \<longleftrightarrow> xs = []"
  by (cases xs) auto

lemma chain_nonnull: "chain nx p xs \<Longrightarrow> p \<noteq> 0 \<Longrightarrow> \<exists>q ys. xs = p # ys \<and> nx p = Some q \<and> chain nx q ys"
  by (cases xs) auto

lemma chain_det: "chain nx p xs \<Longrightarrow> chain nx p ys \<Longrightarrow> xs = ys"
proof (induction xs arbitrary: p ys)
  case Nil
  then show ?case by simp
next
  case (Cons x xs)
  then show ?case by (cases ys) auto
qed

lemma chain_cong: "(\<And>x. x \<in> set xs \<Longrightarrow> nx' x = nx x) \<Longrightarrow> chain nx' p xs = chain nx p xs"
  by (induction xs arbitrary: p) auto

lemma chain_suffix: "chain nx p (xs @ y # ys) \<Longrightarrow> chain nx y (y # ys)"
  by (induction xs arbitrary: p) auto

lemma chain_distinct: "chain nx p xs \<Longrightarrow> distinct xs"
proof (induction xs arbitrary: p)
  case Nil
  then show ?case by simp
next
  case (Cons x xs)
  have "x \<notin> set xs"
  proof
    assume "x \<in> set xs"
    then obtain as bs where xs: "xs = as @ x # bs" by (auto dest: split_list)
    with Cons.prems have "chain nx x (x # as @ x # bs)" "chain nx p ((x # as) @ x # bs)" by auto
    then have "x # as @ x # bs = x # bs" using chain_det chain_suffix by blast
    then show False by simp
  qed
  with Cons show ?case by auto
qed

lemma chain_zero_notin: "chain nx p xs \<Longrightarrow> 0 \<notin> set xs"
  by (induction xs arbitrary: p) auto

lemma chain_snoc: "chain nx p (xs @ [x]) \<Longrightarrow> last_node nx p = Some x"
proof (induction xs arbitrary: p)
  case Nil
  then show ?case by (auto simp: last_node.simps [of nx])
next
  case (Cons y xs)
  then obtain q where q: "p = y" "nx y = Some q" "chain nx q (xs @ [x])" by auto
  then have "q \<noteq> 0" by (cases xs) auto
  with q Cons.IH show ?case by (subst last_node.simps) simp
qed

section \<open>The contract of a slot allocator\<close>

text \<open>
  What the clients of an allocator over numbered slots rely on: \<open>take_slot\<close> hands out
  a slot that was not in use (or reports that none is left), \<open>drop_slot\<close> gives one back,
  and neither disturbs the other slots. The physical frame manager, the temporary mapping
  window and the handle table each provide it.

  \<open>slot_run\<close> is a client: it takes slots and gives back slots it owns, in any order.
\<close>

datatype slot_op = Grab | Release nat

fun slot_step :: "('s \<Rightarrow> (nat \<times> 's) option) \<Rightarrow> (nat \<Rightarrow> 's \<Rightarrow> 's) \<Rightarrow> slot_op \<Rightarrow>
    's \<times> nat list \<Rightarrow> 's \<times> nat list" where
  "slot_step take_slot drop_slot Grab (s, own) =
     (case take_slot s of None \<Rightarrow> (s, own) | Some (k, s') \<Rightarrow> (s', k # own))"
| "slot_step take_slot drop_slot (Release i) (s, own) =
     (if i < length own then (drop_slot (own ! i) s, remove1 (own ! i) own) else (s, own))"

definition slot_run :: "('s \<Rightarrow> (nat \<times> 's) option) \<Rightarrow> (nat \<Rightarrow> 's \<Rightarrow> 's) \<Rightarrow> slot_op list \<Rightarrow>
    's \<times> nat list \<Rightarrow> 's \<times> nat list" where
  "slot_run take_slot drop_slot ops = fold (slot_step take_slot drop_slot) ops"

locale slot_alloc =
  fixes inv :: "'s \<Rightarrow> bool"
    and slot :: "'s \<Rightarrow> nat \<Rightarrow> bool"
    and used :: "'s \<Rightarrow> nat \<Rightarrow> bool"
    and take_slot :: "'s \<Rightarrow> (nat \<times> 's) option"
    and drop_slot :: "nat \<Rightarrow> 's \<Rightarrow> 's"
  assumes take_fresh: "inv s \<Longrightarrow> take_slot s = Some (k, s') \<Longrightarrow> slot s k \<and> \<not> used s k"
    and take_used: "inv s \<Longrightarrow> take_slot s = Some (k, s') \<Longrightarrow> used s' j \<longleftrightarrow> j = k \<or> used s j"
    and take_inv: "inv s \<Longrightarrow> take_slot s = Some (k, s') \<Longrightarrow> inv s' \<and> slot s' = slot s"
    and take_full: "inv s \<Longrightarrow> take_slot s = None \<Longrightarrow> slot s k \<Longrightarrow> used s k"
    and drop_used: "inv s \<Longrightarrow> slot s k \<Longrightarrow> used s k \<Longrightarrow> used (drop_slot k s) j \<longleftrightarrow> j \<noteq> k \<and> used s j"
    and drop_inv: "inv s \<Longrightarrow> slot s k \<Longrightarrow> used s k \<Longrightarrow> inv (drop_slot k s) \<and> slot (drop_slot k s) = slot s"
begin

definition owned :: "'s \<Rightarrow> nat list \<Rightarrow> bool" where
  "owned s own \<longleftrightarrow> inv s \<and> distinct own \<and> (\<forall>k \<in> set own. slot s k \<and> used s k)"

lemma owned_take:
  assumes "owned s own" and "take_slot s = Some (k, s')"
  shows "owned s' (k # own)"
proof -
  from assms have "inv s" by (simp add: owned_def)
  note t = take_fresh [OF this assms(2)] take_used [OF this assms(2)] take_inv [OF this assms(2)]
  from t assms(1) show ?thesis by (auto simp: owned_def)
qed

lemma owned_drop:
  assumes "owned s own" and "k \<in> set own"
  shows "owned (drop_slot k s) (remove1 k own)"
proof -
  from assms have k: "inv s" "slot s k" "used s k" by (auto simp: owned_def)
  from drop_used [OF k] drop_inv [OF k] assms show ?thesis by (auto simp: owned_def)
qed

lemma owned_step: "owned s own \<Longrightarrow> slot_step take_slot drop_slot op (s, own) = (s', own') \<Longrightarrow> owned s' own'"
  by (cases op) (auto split: option.splits if_splits intro: owned_take owned_drop)

lemma owned_run: "owned s own \<Longrightarrow> slot_run take_slot drop_slot ops (s, own) = (s', own') \<Longrightarrow> owned s' own'"
proof (induction ops arbitrary: s own)
  case Nil
  then show ?case by (simp add: slot_run_def)
next
  case (Cons op ops)
  obtain s1 own1 where s1: "slot_step take_slot drop_slot op (s, own) = (s1, own1)" by fastforce
  from Cons.IH [OF owned_step [OF Cons.prems(1) s1]] Cons.prems(2) s1 show ?case
    by (simp add: slot_run_def)
qed

lemma take_after_drop:
  assumes "inv s" "slot s k" "used s k" shows "take_slot (drop_slot k s) \<noteq> None"
  using take_full [of "drop_slot k s" k] drop_inv [OF assms] drop_used [OF assms] assms(2) by (auto simp: not_None_eq [symmetric] simp del: not_None_eq)

end

end
