(* ===== verification/Regions.thy ===== *)
theory Regions
  imports Prelude
begin

text \<open>
  Memory probing, \<^verbatim>\<open>src/sys/mem/mm.c\<close>: the memory map of the boot loader is cut
  around the kernel image and the boot modules and recorded in the table
  \<open>mem_regions\<close>. The loader's memory is an argument: \<open>mmap\<close> gives the map entry
  that lies at an address and \<open>mods\<close> the module descriptors; the linker symbols
  \<^verbatim>\<open>_begin\<close> and \<^verbatim>\<open>_end\<close> are the arguments \<open>kbegin\<close> and \<open>kend\<close>.
  The walk over the map advances by what the loader wrote in the \<open>size\<close> field of
  each entry, so it is a \<open>partial_function\<close>, and that it ends is part of what is proved.
\<close>

section \<open>Data\<close>

abbreviation MAX_MEM_REGIONS :: nat where "MAX_MEM_REGIONS \<equiv> 64"

abbreviation MAX_RESERVED :: nat where "MAX_RESERVED \<equiv> 64"

abbreviation REGION_AVAILABLE :: u32 where "REGION_AVAILABLE \<equiv> 1"
abbreviation REGION_ACPI_RECLAIMABLE :: u32 where "REGION_ACPI_RECLAIMABLE \<equiv> 3"

abbreviation MULTIBOOT_MODS :: u32 where "MULTIBOOT_MODS \<equiv> 0x00000008"

abbreviation PTR32_MAX_ADDRESSABLE :: u64 where "PTR32_MAX_ADDRESSABLE \<equiv> 0xFFFFFFFF"

abbreviation KERNEL_VM_BASE :: u32 where "KERNEL_VM_BASE \<equiv> 0xC0000000"
abbreviation KERNEL_LMA_BASE :: u32 where "KERNEL_LMA_BASE \<equiv> 0x00100000"

record MemoryRegion =
  mr_available :: bool
  mr_start :: u32
  mr_len :: u32
  mr_type :: u32

record Multiboot =
  mb_flags :: u32
  mb_mods_count :: u32
  mb_mods_addr :: u32
  mb_mmap_len :: u32
  mb_mmap_addr :: u32

record MultibootModule =
  mod_start :: u32
  mod_end :: u32

record MultibootMMapEntry =
  me_size :: u32
  me_addr :: u64
  me_len :: u64
  me_type :: u32

record ReservedRegion =
  rr_start :: u32
  rr_end :: u32

record region_state =
  mem_regions :: "nat \<Rightarrow> MemoryRegion"
  mem_regions_idx :: nat

definition zero_region :: MemoryRegion where
  "zero_region = \<lparr>mr_available = False, mr_start = 0, mr_len = 0, mr_type = 0\<rparr>"

section \<open>Operations\<close>

definition kernel_phys_start :: "u32 \<Rightarrow> u32" where
  "kernel_phys_start kbegin = kbegin - KERNEL_VM_BASE + KERNEL_LMA_BASE"

definition kernel_phys_end :: "u32 \<Rightarrow> u32" where
  "kernel_phys_end kend = kend - KERNEL_VM_BASE + KERNEL_LMA_BASE"

text \<open>The body of the inner loop: exchange neighbours that are out of order.\<close>

definition sort_step :: "ReservedRegion list \<Rightarrow> nat \<Rightarrow> ReservedRegion list" where
  "sort_step regions j =
     (if rr_start (regions ! j) < rr_start (regions ! (j - 1))
      then regions[j := regions ! (j - 1), j - 1 := regions ! j]
      else regions)"

text \<open>\<^verbatim>\<open>for (j = n - 1; j >= i; j--)\<close>; the outer loop starts at 1, so \<open>i\<close> is positive.\<close>

fun sort_pass :: "ReservedRegion list \<Rightarrow> nat \<Rightarrow> nat \<Rightarrow> ReservedRegion list" where
  "sort_pass regions i 0 = regions"
| "sort_pass regions i (Suc j) =
     (if Suc j \<ge> i then sort_pass (sort_step regions (Suc j)) i j else regions)"

function sort_from :: "ReservedRegion list \<Rightarrow> nat \<Rightarrow> nat \<Rightarrow> ReservedRegion list" where
  "sort_from regions i n =
     (if i < n then sort_from (sort_pass regions i (n - 1)) (Suc i) n else regions)"
  by pat_completeness auto
termination
  by (relation "measure (\<lambda>(regions, i, n). n - i)") auto

declare sort_from.simps [simp del]

definition SortReservedChunks :: "ReservedRegion list \<Rightarrow> nat \<Rightarrow> ReservedRegion list" where
  "SortReservedChunks regions n = sort_from regions 1 n"

text \<open>Collecting the chunks to keep free: the kernel image, then the modules while there is room.\<close>

definition reserved_kernel :: "u32 \<Rightarrow> u32 \<Rightarrow> ReservedRegion" where
  "reserved_kernel kbegin kend =
     \<lparr>rr_start = aligndown (kernel_phys_start kbegin) PAGE_SIZE,
      rr_end = pagealign (kernel_phys_end kend)\<rparr>"

definition reserved_module :: "MultibootModule \<Rightarrow> ReservedRegion" where
  "reserved_module m =
     \<lparr>rr_start = aligndown (mod_start m) PAGE_SIZE, rr_end = pagealign (mod_end m)\<rparr>"

function reserve_modules ::
    "(nat \<Rightarrow> MultibootModule) \<Rightarrow> nat \<Rightarrow> nat \<Rightarrow> ReservedRegion list \<Rightarrow> ReservedRegion list" where
  "reserve_modules mods j n reserved =
     (if j < n then
        if length reserved \<ge> MAX_RESERVED then reserved
        else reserve_modules mods (Suc j) n (reserved @ [reserved_module (mods j)])
      else reserved)"
  by pat_completeness auto
termination
  by (relation "measure (\<lambda>(mods, j, n, reserved). n - j)") auto

declare reserve_modules.simps [simp del]

definition reserved_chunks ::
    "Multiboot \<Rightarrow> (nat \<Rightarrow> MultibootModule) \<Rightarrow> u32 \<Rightarrow> u32 \<Rightarrow> ReservedRegion list" where
  "reserved_chunks bootinfo mods kbegin kend =
     (let reserved = [reserved_kernel kbegin kend] in
      if mb_flags bootinfo AND MULTIBOOT_MODS \<noteq> 0 \<and> mb_mods_count bootinfo > 0
      then reserve_modules mods 0 (unat (mb_mods_count bootinfo)) reserved
      else reserved)"

definition push_region :: "MemoryRegion \<Rightarrow> 'a region_state_scheme \<Rightarrow> 'a region_state_scheme" where
  "push_region mm s =
     (if mem_regions_idx s < MAX_MEM_REGIONS
      then s\<lparr>mem_regions := (mem_regions s)(mem_regions_idx s := mm),
             mem_regions_idx := mem_regions_idx s + 1\<rparr>
      else s)"

definition mk_region :: "u32 \<Rightarrow> u32 \<Rightarrow> u32 \<Rightarrow> MemoryRegion" where
  "mk_region ty lo hi =
     \<lparr>mr_available = True, mr_start = lo, mr_len = hi - lo, mr_type = ty\<rparr>"

text \<open>The loop over the reserved chunks of one map entry; returns \<open>curr_start\<close> too.\<close>

fun carve :: "ReservedRegion list \<Rightarrow> u32 \<Rightarrow> u32 \<Rightarrow> u32 \<Rightarrow> 'a region_state_scheme \<Rightarrow>
    u32 \<times> 'a region_state_scheme" where
  "carve [] curr_start region_end ty s = (curr_start, s)"
| "carve (r # rs) curr_start region_end ty s =
     (if rr_end r \<le> curr_start then carve rs curr_start region_end ty s
      else if rr_start r \<ge> region_end then (curr_start, s)
      else carve rs (if rr_end r > curr_start then rr_end r else curr_start) region_end ty
             (if curr_start < rr_start r
              then push_region (mk_region ty curr_start (rr_start r)) s else s))"

definition entry_end :: "MultibootMMapEntry \<Rightarrow> u64" where
  "entry_end e =
     (let end = me_addr e + me_len e - 1
      in if end \<ge> PTR32_MAX_ADDRESSABLE then PTR32_MAX_ADDRESSABLE - 1 else end)"

definition entry_addressable :: "MultibootMMapEntry \<Rightarrow> bool" where
  "entry_addressable e \<longleftrightarrow> \<not> me_addr e \<ge> PTR32_MAX_ADDRESSABLE"

definition entry_usable :: "MultibootMMapEntry \<Rightarrow> bool" where
  "entry_usable e \<longleftrightarrow> me_type e = REGION_AVAILABLE \<or> me_type e = REGION_ACPI_RECLAIMABLE"

definition add_entry ::
    "ReservedRegion list \<Rightarrow> MultibootMMapEntry \<Rightarrow> 'a region_state_scheme \<Rightarrow> 'a region_state_scheme" where
  "add_entry reserved e s =
     (if entry_usable e then
        let region_start = ucast (me_addr e); region_end = ucast (entry_end e);
            (curr_start, s1) = carve reserved region_start region_end (me_type e) s
        in if curr_start < region_end
           then push_region (mk_region (me_type e) curr_start region_end) s1 else s1
      else s)"

partial_function (option) walk_mmap ::
    "(u32 \<Rightarrow> MultibootMMapEntry) \<Rightarrow> u32 \<Rightarrow> u32 \<Rightarrow> ReservedRegion list \<Rightarrow>
     'a region_state_scheme \<Rightarrow> 'a region_state_scheme option" where
  "walk_mmap mmap idx endaddr reserved s =
     (if idx < endaddr then
        let e = mmap idx; next_idx = idx + (me_size e + 4) in
        if \<not> entry_addressable e then walk_mmap mmap next_idx endaddr reserved s
        else let s1 = add_entry reserved e s in
          if mem_regions_idx s1 \<ge> MAX_MEM_REGIONS then Some s1
          else walk_mmap mmap next_idx endaddr reserved s1
      else Some s)"

declare walk_mmap.simps [code]

definition AddMemoryRegions ::
    "Multiboot option \<Rightarrow> (u32 \<Rightarrow> MultibootMMapEntry) \<Rightarrow> (nat \<Rightarrow> MultibootModule) \<Rightarrow> u32 \<Rightarrow> u32 \<Rightarrow>
     'a region_state_scheme \<Rightarrow> (Status \<times> 'a region_state_scheme) option" where
  "AddMemoryRegions bootinfo mmap mods kbegin kend s =
     (case bootinfo of
        None \<Rightarrow> None
      | Some bi \<Rightarrow>
          if mb_mmap_addr bi = 0 then None
          else do {
            let s0 = s\<lparr>mem_regions := (\<lambda>_. zero_region), mem_regions_idx := 0\<rparr>;
            let chunks = reserved_chunks bi mods kbegin kend;
            let reserved = SortReservedChunks chunks (length chunks);
            let idx = mb_mmap_addr bi;
            s1 \<leftarrow> walk_mmap mmap idx (idx + mb_mmap_len bi) reserved s0;
            Some (STATUS_OK, s1)
          })"

definition FetchMemoryRegions ::
    "'a region_state_scheme \<Rightarrow> (nat \<Rightarrow> MemoryRegion) \<times> nat" where
  "FetchMemoryRegions s = (mem_regions s, mem_regions_idx s)"

section \<open>Sorting\<close>

lemma sort_step_length [simp]: "length (sort_step rs j) = length rs"
  by (simp add: sort_step_def)

lemma sort_step_mset: "j < length rs \<Longrightarrow> mset (sort_step rs j) = mset rs"
  by (simp add: sort_step_def mset_swap)

text \<open>\<open>least_at rs a\<close>: no element from \<open>a\<close> on starts before the one at \<open>a\<close>.\<close>

definition least_at :: "ReservedRegion list \<Rightarrow> nat \<Rightarrow> bool" where
  "least_at rs a \<longleftrightarrow> (\<forall>b. a \<le> b \<and> b < length rs \<longrightarrow> rr_start (rs ! a) \<le> rr_start (rs ! b))"

lemma sort_step_least:
  assumes "least_at rs (Suc j)" and "Suc j < length rs"
  shows "least_at (sort_step rs (Suc j)) j"
  unfolding least_at_def
proof (intro allI impI)
  fix b assume b: "j \<le> b \<and> b < length (sort_step rs (Suc j))"
  have "rr_start (rs ! Suc j) \<le> rr_start (rs ! b)" if "Suc j \<le> b"
    using assms(1) b that by (auto simp: least_at_def)
  with b assms(2) show "rr_start (sort_step rs (Suc j) ! j) \<le> rr_start (sort_step rs (Suc j) ! b)"
    by (cases "b = j"; cases "b = Suc j") (force simp: sort_step_def nth_list_update)+
qed

lemma sort_step_keeps_least:
  assumes "least_at rs a" and "a < j" and "Suc j < length rs"
  shows "least_at (sort_step rs (Suc j)) a"
  using assms unfolding least_at_def sort_step_def by (auto simp: nth_list_update)

lemma sort_pass_spec:
  assumes "1 \<le> i" and "i - 1 \<le> j" and "j < length rs" and "least_at rs j"
    and "\<forall>a < i - 1. least_at rs a"
  shows "length (sort_pass rs i j) = length rs \<and> mset (sort_pass rs i j) = mset rs \<and>
         (\<forall>a < i. least_at (sort_pass rs i j) a)"
  using assms
proof (induction j arbitrary: rs)
  case 0
  then show ?case by (auto simp: less_Suc_eq_0_disj Suc_le_eq dest: le_antisym)
next
  case (Suc j)
  show ?case
  proof (cases "i \<le> Suc j")
    case True
    with Suc.prems have "\<forall>a < i - 1. least_at (sort_step rs (Suc j)) a"
      by (auto intro!: sort_step_keeps_least)
    moreover have "least_at (sort_step rs (Suc j)) j" using Suc.prems by (intro sort_step_least)
    ultimately show ?thesis using True Suc.prems Suc.IH [of "sort_step rs (Suc j)"]
      by (simp add: sort_step_mset)
  next
    case False
    with Suc.prems have "i = Suc (Suc j)" by simp
    with Suc.prems show ?thesis by (auto simp: less_Suc_eq)
  qed
qed

lemma sort_from_spec:
  assumes "1 \<le> i" and "length rs = n" and "\<forall>a < i - 1. least_at rs a"
  shows "mset (sort_from rs i n) = mset rs \<and> (\<forall>a < n - 1. least_at (sort_from rs i n) a)"
  using assms
proof (induction rs i n rule: sort_from.induct)
  case (1 rs i n)
  show ?case
  proof (cases "i < n")
    case True
    have last: "least_at rs (n - 1)" using "1.prems" True 
      unfolding least_at_def by (metis Suc_diff_1 le_antisym less_Suc_eq_le less_trans nat_le_linear not_less_zero order_refl zero_less_iff_neq_zero)
    from sort_pass_spec [OF "1.prems"(1) _ _ last "1.prems"(3)] True "1.prems"(2)
    have *: "length (sort_pass rs i (n - 1)) = n" "mset (sort_pass rs i (n - 1)) = mset rs"
      "\<forall>a < Suc i - 1. least_at (sort_pass rs i (n - 1)) a" by auto
    from "1.IH" [OF True _ *(1,3)] True *(2) show ?thesis
      by (simp add: sort_from.simps [of rs i n])
  next
    case False
    with "1.prems" show ?thesis by (simp add: sort_from.simps [of rs i n])
  qed
qed

lemma least_at_sorted:
  assumes "\<forall>a < length rs - 1. least_at rs a"
  shows "sorted_wrt (\<lambda>r r'. rr_start r \<le> rr_start r') rs"
  unfolding sorted_wrt_iff_nth_less
proof (intro allI impI)
  fix i j assume "i < j" "j < length rs"
  then have "i < length rs - 1" by simp
  with assms \<open>i < j\<close> \<open>j < length rs\<close> show "rr_start (rs ! i) \<le> rr_start (rs ! j)"
    unfolding least_at_def by simp
qed

lemma SortReservedChunks_spec:
  "mset (SortReservedChunks rs (length rs)) = mset rs"
  "sorted_wrt (\<lambda>r r'. rr_start r \<le> rr_start r') (SortReservedChunks rs (length rs))"
proof -
  have *: "mset (SortReservedChunks rs (length rs)) = mset rs \<and>
    (\<forall>a < length rs - 1. least_at (SortReservedChunks rs (length rs)) a)"
    unfolding SortReservedChunks_def by (rule sort_from_spec) auto
  then show "mset (SortReservedChunks rs (length rs)) = mset rs" by simp
  then have "length (SortReservedChunks rs (length rs)) = length rs" by (rule mset_eq_length)
  with * show "sorted_wrt (\<lambda>r r'. rr_start r \<le> rr_start r') (SortReservedChunks rs (length rs))"
    by (intro least_at_sorted) simp
qed

section \<open>Cutting the map\<close>

text \<open>The bytes the recorded regions cover, and those a chunk keeps away.\<close>

definition region_has :: "MemoryRegion \<Rightarrow> u32 \<Rightarrow> bool" where
  "region_has m x \<longleftrightarrow> mr_start m \<le> x \<and> x < mr_start m + mr_len m"

definition covered :: "'a region_state_scheme \<Rightarrow> u32 \<Rightarrow> bool" where
  "covered s x \<longleftrightarrow> (\<exists>i < mem_regions_idx s. region_has (mem_regions s i) x)"

definition in_chunk :: "ReservedRegion list \<Rightarrow> u32 \<Rightarrow> bool" where
  "in_chunk rs x \<longleftrightarrow> (\<exists>r \<in> set rs. rr_start r \<le> x \<and> x < rr_end r)"

text \<open>The bytes of a map entry that the kernel may use: what the regions should cover.\<close>

definition entry_bytes :: "MultibootMMapEntry \<Rightarrow> u32 \<Rightarrow> bool" where
  "entry_bytes e x \<longleftrightarrow>
     entry_addressable e \<and> entry_usable e \<and> ucast (me_addr e) \<le> x \<and> x < ucast (entry_end e)"

definition regions_ok :: "'a region_state_scheme \<Rightarrow> bool" where
  "regions_ok s \<longleftrightarrow> mem_regions_idx s \<le> MAX_MEM_REGIONS \<and>
     (\<forall>i < mem_regions_idx s. mr_available (mem_regions s i) \<and> mr_len (mem_regions s i) \<noteq> 0 \<and>
        mr_start (mem_regions s i) \<le> mr_start (mem_regions s i) + mr_len (mem_regions s i))"

lemma region_has_mk [simp]: "region_has (mk_region ty lo hi) x \<longleftrightarrow> lo \<le> x \<and> x < hi"
  by (simp add: region_has_def mk_region_def)

lemma push_region_full:
  "mem_regions_idx s \<ge> MAX_MEM_REGIONS \<Longrightarrow> push_region mm s = s"
  by (simp add: push_region_def)

lemma push_region_idx:
  "mem_regions_idx s \<le> mem_regions_idx (push_region mm s)"
  by (simp add: push_region_def)

lemma covered_push:
  "mem_regions_idx s < MAX_MEM_REGIONS \<Longrightarrow>
     covered (push_region mm s) x \<longleftrightarrow> covered s x \<or> region_has mm x"
  by (auto simp: push_region_def covered_def less_Suc_eq) (metis less_irrefl)

lemma covered_push_mono: "covered s x \<Longrightarrow> covered (push_region mm s) x"
  by (cases "mem_regions_idx s < MAX_MEM_REGIONS") (simp_all add: covered_push push_region_full)

lemma covered_push_sub: "covered (push_region mm s) x \<Longrightarrow> covered s x \<or> region_has mm x"
  by (cases "mem_regions_idx s < MAX_MEM_REGIONS") (simp_all add: covered_push push_region_full)

lemma regions_ok_push:
  "regions_ok s \<Longrightarrow> lo < hi \<Longrightarrow> regions_ok (push_region (mk_region ty lo hi) s)"
  by (auto simp: regions_ok_def push_region_def mk_region_def less_Suc_eq)

lemma carve_idx: "mem_regions_idx s \<le> mem_regions_idx (snd (carve rs c e ty s))"
proof (induction rs c e ty s rule: carve.induct)
  case (2 r rs c e ty s)
  then show ?case by (auto intro: order_trans [OF push_region_idx])
qed simp

lemma carve_regions_ok: "regions_ok s \<Longrightarrow> regions_ok (snd (carve rs c e ty s))"
  by (induction rs c e ty s rule: carve.induct) (simp_all add: regions_ok_push)

text \<open>
  One entry, exactly: what the loop has recorded, together with the rest after the loop, is
  the entry minus the chunks.
\<close>

lemma carve_sound:
  "sorted_wrt (\<lambda>r r'. rr_start r \<le> rr_start r') rs \<Longrightarrow> carve rs c e ty s = (c', s') \<Longrightarrow>
   covered s' x \<or> (c' \<le> x \<and> x < e) \<Longrightarrow> covered s x \<or> (c \<le> x \<and> x < e \<and> \<not> in_chunk rs x)"
proof (induction rs c e ty s rule: carve.induct)
  case (1 c e ty s)
  then show ?case by (auto simp: in_chunk_def)
next
  case (2 r rs c e ty s)
  let ?s1 = "if c < rr_start r then push_region (mk_region ty c (rr_start r)) s else s"
  have before: "\<not> in_chunk (r # rs) x" if "x < rr_start r"
    using that "2.prems"(1) by (force simp: in_chunk_def)
  have after: "in_chunk (r # rs) x = in_chunk rs x" if "rr_end r \<le> x"
    using that by (auto simp: in_chunk_def)
  consider (skip) "rr_end r \<le> c" | (stop) "\<not> rr_end r \<le> c" "e \<le> rr_start r"
    | (cut) "\<not> rr_end r \<le> c" "\<not> e \<le> rr_start r" by blast
  then show ?case
  proof cases
    case skip
    with "2.IH"(1) "2.prems" after show ?thesis by fastforce
  next
    case stop
    with "2.prems" before show ?thesis by force
  next
    case cut
    with "2.prems" have "covered ?s1 x \<or> (rr_end r \<le> x \<and> x < e \<and> \<not> in_chunk rs x)"
      using "2.IH"(2) by (simp split: if_splits)
    then show ?thesis
    proof
      assume "covered ?s1 x"
      then have "covered s x \<or> (c \<le> x \<and> x < rr_start r)"
        by (auto split: if_splits dest: covered_push_sub)
      with before cut show ?thesis by force
    next
      assume "rr_end r \<le> x \<and> x < e \<and> \<not> in_chunk rs x"
      with after cut show ?thesis by force
    qed
  qed
qed

lemma carve_mono: "covered s x \<Longrightarrow> covered (snd (carve rs c e ty s)) x"
  by (induction rs c e ty s rule: carve.induct) (simp_all add: covered_push_mono)

lemma carve_complete:
  "c \<le> x \<Longrightarrow> x < e \<Longrightarrow> \<not> in_chunk rs x \<Longrightarrow>
   mem_regions_idx (snd (carve rs c e ty s)) < MAX_MEM_REGIONS \<Longrightarrow>
   covered (snd (carve rs c e ty s)) x \<or> fst (carve rs c e ty s) \<le> x"
proof (induction rs c e ty s rule: carve.induct)
  case (1 c e ty s)
  then show ?case by simp
next
  case (2 r rs c e ty s)
  let ?s1 = "if c < rr_start r then push_region (mk_region ty c (rr_start r)) s else s"
  have nin: "\<not> in_chunk rs x" "\<not> (rr_start r \<le> x \<and> x < rr_end r)"
    using "2.prems"(3) by (auto simp: in_chunk_def)
  consider (skip) "rr_end r \<le> c" | (stop) "\<not> rr_end r \<le> c" "e \<le> rr_start r"
    | (cut) "\<not> rr_end r \<le> c" "\<not> e \<le> rr_start r" by blast
  then show ?case
  proof cases
    case skip
    with "2.prems"(4) have "mem_regions_idx (snd (carve rs c e ty s)) < MAX_MEM_REGIONS" by simp
    from "2.IH"(1) [OF skip "2.prems"(1,2) nin(1) this] skip show ?thesis by simp
  next
    case stop
    with "2.prems"(1) show ?thesis by simp
  next
    case cut
    let ?c = "carve rs (rr_end r) e ty ?s1"
    have c1: "(if rr_end r > c then rr_end r else c) = rr_end r" using cut(1) by auto
    then have eq: "carve (r # rs) c e ty s = ?c" using cut by simp
    have idx: "mem_regions_idx (snd ?c) < MAX_MEM_REGIONS" using "2.prems"(4) unfolding eq .
    show ?thesis
    proof (cases "rr_end r \<le> x")
      case True
      from "2.IH"(2) [OF cut, unfolded c1, OF True "2.prems"(2) nin(1) idx] show ?thesis
        unfolding eq .
    next
      case x: False
      have "mem_regions_idx s \<le> mem_regions_idx ?s1" by (simp add: push_region_idx)
      also have "\<dots> \<le> mem_regions_idx (snd ?c)" by (rule carve_idx)
      finally have "mem_regions_idx s < MAX_MEM_REGIONS" using idx by simp
      with x nin "2.prems"(1) have "covered ?s1 x" by (auto simp: covered_push)
      then have "covered (snd ?c) x" by (rule carve_mono)
      then show ?thesis unfolding eq by blast
    qed
  qed
qed

lemma add_entry_idx: "mem_regions_idx s \<le> mem_regions_idx (add_entry rs e s)"
  using carve_idx [of s rs "ucast (me_addr e)" "ucast (entry_end e)" "me_type e"]
  by (auto simp: add_entry_def split_beta Let_def intro: order_trans [OF _ push_region_idx])

lemma add_entry_ok: "regions_ok s \<Longrightarrow> regions_ok (add_entry rs e s)"
  by (auto simp: add_entry_def split_beta Let_def intro: regions_ok_push carve_regions_ok)

lemma add_entry_sound:
  assumes "sorted_wrt (\<lambda>r r'. rr_start r \<le> rr_start r') rs" and "entry_addressable e"
    and "covered (add_entry rs e s) x"
  shows "covered s x \<or> (entry_bytes e x \<and> \<not> in_chunk rs x)"
proof (cases "entry_usable e")
  case True
  obtain c s1 where c: "carve rs (ucast (me_addr e)) (ucast (entry_end e)) (me_type e) s = (c, s1)"
    by fastforce
  with assms(3) True have "covered s1 x \<or> (c \<le> x \<and> x < ucast (entry_end e))"
    by (auto simp: add_entry_def Let_def split: if_splits dest: covered_push_sub)
  from carve_sound [OF assms(1) c this] True assms(2) show ?thesis by (auto simp: entry_bytes_def)
qed (use assms in \<open>simp add: add_entry_def\<close>)

lemma add_entry_mono: "covered s x \<Longrightarrow> covered (add_entry rs e s) x"
  by (auto simp: add_entry_def split_beta Let_def intro: covered_push_mono carve_mono)

lemma add_entry_complete:
  assumes "entry_bytes e x" and "\<not> in_chunk rs x"
    and full: "mem_regions_idx (add_entry rs e s) < MAX_MEM_REGIONS"
  shows "covered (add_entry rs e s) x"
proof -
  obtain c s1 where c: "carve rs (ucast (me_addr e)) (ucast (entry_end e)) (me_type e) s = (c, s1)"
    by fastforce
  let ?m = "push_region (mk_region (me_type e) c (ucast (entry_end e))) s1"
  have eq: "add_entry rs e s = (if c < ucast (entry_end e) then ?m else s1)"
    using assms(1) c by (auto simp: add_entry_def entry_bytes_def Let_def)
  have "mem_regions_idx s1 \<le> mem_regions_idx (add_entry rs e s)"
    by (simp add: eq push_region_idx)
  with full have s1: "mem_regions_idx s1 < MAX_MEM_REGIONS" by simp
  from carve_complete [of "ucast (me_addr e)" x "ucast (entry_end e)" rs "me_type e" s] assms s1 c
  have "covered s1 x \<or> c \<le> x" by (simp add: entry_bytes_def)
  then show ?thesis
    using assms(1) unfolding eq by (simp add: entry_bytes_def covered_push [OF s1]) (metis le_less_trans)
qed

section \<open>Walking the map\<close>

text \<open>The loader's map from \<open>idx\<close> to \<open>endaddr\<close> holds the entries \<open>es\<close>.\<close>

primrec mmap_list :: "(u32 \<Rightarrow> MultibootMMapEntry) \<Rightarrow> u32 \<Rightarrow> u32 \<Rightarrow> MultibootMMapEntry list \<Rightarrow> bool" where
  "mmap_list mmap idx endaddr [] \<longleftrightarrow> endaddr \<le> idx"
| "mmap_list mmap idx endaddr (e # es) \<longleftrightarrow>
     idx < endaddr \<and> mmap idx = e \<and> mmap_list mmap (idx + (me_size e + 4)) endaddr es"

lemma walk_mmap_spec:
  assumes "sorted_wrt (\<lambda>r r'. rr_start r \<le> rr_start r') rs"
    and "mmap_list mmap idx endaddr es" and "regions_ok s"
  shows "\<exists>s'. walk_mmap mmap idx endaddr rs s = Some s' \<and> regions_ok s' \<and>
    (\<forall>x. covered s x \<longrightarrow> covered s' x) \<and>
    (\<forall>x. covered s' x \<longrightarrow> covered s x \<or> ((\<exists>e \<in> set es. entry_bytes e x) \<and> \<not> in_chunk rs x)) \<and>
    (mem_regions_idx s' < MAX_MEM_REGIONS \<longrightarrow>
       (\<forall>x. (\<exists>e \<in> set es. entry_bytes e x) \<and> \<not> in_chunk rs x \<longrightarrow> covered s' x))"
  using assms(2,3)
proof (induction es arbitrary: idx s)
  case Nil
  then show ?case by (simp add: walk_mmap.simps [of mmap idx] leD)
next
  case (Cons e es)
  let ?n = "idx + (me_size e + 4)" and ?s1 = "add_entry rs e s"
  from Cons.prems have idx: "idx < endaddr" "mmap idx = e" and es: "mmap_list mmap ?n endaddr es"
    by auto
  consider (far) "\<not> entry_addressable e"
    | (full) "entry_addressable e" "MAX_MEM_REGIONS \<le> mem_regions_idx ?s1"
    | (go) "entry_addressable e" "\<not> MAX_MEM_REGIONS \<le> mem_regions_idx ?s1" by blast
  then show ?case
  proof cases
    case far
    from Cons.IH [OF es Cons.prems(2)] far idx show ?thesis
      by (simp add: walk_mmap.simps [of mmap idx] entry_bytes_def)
  next
    case full
    with idx have "walk_mmap mmap idx endaddr rs s = Some ?s1"
      by (simp add: walk_mmap.simps [of mmap idx] Let_def)
    moreover have "\<forall>x. covered ?s1 x \<longrightarrow>
        covered s x \<or> ((\<exists>e' \<in> set (e # es). entry_bytes e' x) \<and> \<not> in_chunk rs x)"
      using add_entry_sound [OF assms(1) full(1), of s] by auto
    ultimately show ?thesis using full(2) add_entry_ok [OF Cons.prems(2)] add_entry_mono [of s _ rs e]
      by (simp del: set_simps)
  next
    case go
    with idx have eq: "walk_mmap mmap idx endaddr rs s = walk_mmap mmap ?n endaddr rs ?s1"
      by (simp add: walk_mmap.simps [of mmap idx] Let_def)
    from Cons.IH [OF es add_entry_ok [OF Cons.prems(2)]] obtain s' where
      s': "walk_mmap mmap ?n endaddr rs ?s1 = Some s'" "regions_ok s'"
        "\<forall>x. covered ?s1 x \<longrightarrow> covered s' x"
        "\<forall>x. covered s' x \<longrightarrow> covered ?s1 x \<or> ((\<exists>e \<in> set es. entry_bytes e x) \<and> \<not> in_chunk rs x)"
        "mem_regions_idx s' < MAX_MEM_REGIONS \<longrightarrow>
           (\<forall>x. (\<exists>e \<in> set es. entry_bytes e x) \<and> \<not> in_chunk rs x \<longrightarrow> covered s' x)" by blast
    have "covered s' x" if "entry_bytes e x" "\<not> in_chunk rs x" for x
      using add_entry_complete [OF that, of s] go(2) s'(3) by simp
    with s'(5) have "mem_regions_idx s' < MAX_MEM_REGIONS \<longrightarrow>
        (\<forall>x. (\<exists>e' \<in> set (e # es). entry_bytes e' x) \<and> \<not> in_chunk rs x \<longrightarrow> covered s' x)" by auto
    moreover have "\<forall>x. covered s' x \<longrightarrow>
        covered s x \<or> ((\<exists>e' \<in> set (e # es). entry_bytes e' x) \<and> \<not> in_chunk rs x)"
      using s'(4) add_entry_sound [OF assms(1) go(1), of s] by auto
    moreover have "\<forall>x. covered s x \<longrightarrow> covered s' x" using s'(3) add_entry_mono by blast
    ultimately show ?thesis using s'(1,2) unfolding eq by blast
  qed
qed

text \<open>
  Facts about the single regions: where they start (at the entry's start or the end of a
  chunk) and where they end (within the entry).
\<close>

definition all_regions :: "(MemoryRegion \<Rightarrow> bool) \<Rightarrow> 'a region_state_scheme \<Rightarrow> bool" where
  "all_regions P s \<longleftrightarrow> (\<forall>i < mem_regions_idx s. P (mem_regions s i))"

definition region_shape :: "(u32 \<Rightarrow> bool) \<Rightarrow> u32 \<Rightarrow> MemoryRegion \<Rightarrow> bool" where
  "region_shape A lim m \<longleftrightarrow> A (mr_start m) \<and> mr_start m + mr_len m \<le> lim"

lemma all_regions_push:
  "all_regions P s \<Longrightarrow> P m \<Longrightarrow> all_regions P (push_region m s)"
  by (auto simp: all_regions_def push_region_def less_Suc_eq)

lemma region_shape_mk [simp]: "region_shape A lim (mk_region ty lo hi) \<longleftrightarrow> A lo \<and> hi \<le> lim"
  by (simp add: region_shape_def mk_region_def)

lemma carve_shape:
  "all_regions (region_shape A lim) s \<Longrightarrow> A c \<Longrightarrow> \<forall>r \<in> set rs. A (rr_end r) \<Longrightarrow> e \<le> lim \<Longrightarrow>
   all_regions (region_shape A lim) (snd (carve rs c e ty s)) \<and> A (fst (carve rs c e ty s))"
proof (induction rs c e ty s rule: carve.induct)
  case (2 r rs c e ty s)
  consider (skip) "rr_end r \<le> c" | (stop) "\<not> rr_end r \<le> c" "e \<le> rr_start r"
    | (cut) "\<not> rr_end r \<le> c" "\<not> e \<le> rr_start r" by blast
  then show ?case
  proof cases
    case cut
    then have "rr_start r \<le> lim" using "2.prems"(4) by (meson less_imp_le less_le_trans not_le)
    then have "all_regions (region_shape A lim)
        (if c < rr_start r then push_region (mk_region ty c (rr_start r)) s else s)"
      using "2.prems" by (simp add: all_regions_push)
    from "2.IH"(2) [OF cut this] "2.prems" cut show ?thesis by (simp split del: if_split) (simp split: if_split)
  qed (use 2 in simp_all)
qed simp

lemma add_entry_shape:
  assumes "all_regions (region_shape A lim) s" and "\<forall>r \<in> set rs. A (rr_end r)"
    and "entry_usable e \<Longrightarrow> A (ucast (me_addr e)) \<and> ucast (entry_end e) \<le> lim"
  shows "all_regions (region_shape A lim) (add_entry rs e s)"
  using carve_shape [OF assms(1) _ assms(2), of "ucast (me_addr e)" "ucast (entry_end e)" "me_type e"] assms
  by (auto simp: add_entry_def split_beta Let_def intro!: all_regions_push)

lemma walk_mmap_shape:
  assumes "mmap_list mmap idx endaddr es" and "all_regions (region_shape A lim) s"
    and "\<forall>r \<in> set rs. A (rr_end r)"
    and "\<forall>e \<in> set es. entry_addressable e \<and> entry_usable e \<longrightarrow> A (ucast (me_addr e)) \<and> ucast (entry_end e) \<le> lim"
    and "walk_mmap mmap idx endaddr rs s = Some s'"
  shows "all_regions (region_shape A lim) s'"
  using assms(1,2,4,5)
proof (induction es arbitrary: idx s)
  case Nil
  then show ?case by (simp add: walk_mmap.simps [of mmap idx] leD)
next
  case (Cons e es)
  have "all_regions (region_shape A lim) (add_entry rs e s)" if "entry_addressable e"
    using that Cons.prems assms(3) by (intro add_entry_shape) auto
  with Cons show ?case
    by (auto simp: walk_mmap.simps [of mmap idx] Let_def split: if_splits)
qed

lemma set_reserve_modules:
  "length reserved \<le> MAX_RESERVED \<Longrightarrow> set (reserve_modules mods j n reserved) =
     set reserved \<union> (\<lambda>i. reserved_module (mods i)) ` {j ..< min n (j + (MAX_RESERVED - length reserved))}"
proof (induction mods j n reserved rule: reserve_modules.induct)
  case (1 mods j n reserved)
  consider "\<not> j < n" | "j < n" "length reserved \<ge> MAX_RESERVED" | "j < n" "\<not> length reserved \<ge> MAX_RESERVED" by blast
  then show ?case
  proof cases
    case 3
    let ?m = "min n (j + (MAX_RESERVED - length reserved))"
    have "{j ..< ?m} = insert j {Suc j ..< ?m}" using 3 by auto
    moreover have "min n (Suc j + (MAX_RESERVED - length (reserved @ [reserved_module (mods j)]))) = ?m" using 3 by simp
    ultimately show ?thesis using "1.IH" 3 by (subst reserve_modules.simps) simp
  qed (use "1.prems" in \<open>subst reserve_modules.simps, simp\<close>)+
qed

section \<open>The memory the kernel may use\<close>

text \<open>
  What the map says, in terms of numbers: the bytes of a usable entry, the last one apart, which the code leaves out, up to
  the end of the 32-bit addresses; and the bytes of the pages that a range of addresses touches.
\<close>

definition usable_byte :: "MultibootMMapEntry \<Rightarrow> nat \<Rightarrow> bool" where
  "usable_byte e x \<longleftrightarrow> (me_type e = REGION_AVAILABLE \<or> me_type e = REGION_ACPI_RECLAIMABLE) \<and>
     unat (me_addr e) \<le> x \<and> x + 1 < unat (me_addr e) + unat (me_len e) \<and> x < 0xFFFFFFFE"

definition touched :: "nat \<Rightarrow> nat \<Rightarrow> nat \<Rightarrow> bool" where
  "touched lo hi x \<longleftrightarrow> lo div 4096 \<le> x div 4096 \<and> x div 4096 * 4096 < hi"

text \<open>The kernel is linked to 3 GiB and loaded to 1 MiB; there is room to note 63 modules.\<close>

definition kernel_or_module :: "Multiboot \<Rightarrow> (nat \<Rightarrow> MultibootModule) \<Rightarrow> u32 \<Rightarrow> u32 \<Rightarrow> nat \<Rightarrow> bool" where
  "kernel_or_module bi mods kbegin kend x \<longleftrightarrow>
     touched (unat kbegin - 0xC0000000 + 0x100000) (unat kend - 0xC0000000 + 0x100000) x \<or>
     (mb_flags bi AND MULTIBOOT_MODS \<noteq> 0 \<and> (\<exists>j < min (unat (mb_mods_count bi)) 63.
        touched (unat (mod_start (mods j))) (unat (mod_end (mods j))) x))"

text \<open>What is expected of the loader and the linker: no entry and no module goes around the end of the numbers.\<close>

definition loader_ok :: "Multiboot \<Rightarrow> (nat \<Rightarrow> MultibootModule) \<Rightarrow> MultibootMMapEntry list \<Rightarrow> u32 \<Rightarrow> u32 \<Rightarrow> bool" where
  "loader_ok bi mods es kbegin kend \<longleftrightarrow> KERNEL_VM_BASE \<le> kbegin \<and> KERNEL_VM_BASE \<le> kend \<and>
     (\<forall>j < unat (mb_mods_count bi). unat (mod_end (mods j)) \<le> 0xFFFFF000) \<and>
     (\<forall>e \<in> set es. 0 < unat (me_addr e) + unat (me_len e) \<and> unat (me_addr e) + unat (me_len e) \<le> 2 ^ 64)"

lemma touched_aligned:
  assumes "unat hi \<le> 0xFFFFF000"
  shows "aligndown lo PAGE_SIZE \<le> x \<and> x < pagealign hi \<longleftrightarrow> touched (unat lo) (unat hi) (unat x)"
proof -
  have "unat lo div 4096 * 4096 \<le> unat x \<longleftrightarrow> unat lo div 4096 \<le> unat x div 4096"
    by (simp add: less_eq_div_iff_mult_less_eq)
  moreover have "unat x < (unat hi + 4095) div 4096 * 4096 \<longleftrightarrow> unat x div 4096 < (unat hi + 4095) div 4096"
    by (simp add: div_less_iff_less_mult)
  moreover have "unat x div 4096 < (unat hi + 4095) div 4096 \<longleftrightarrow> unat x div 4096 * 4096 < unat hi" by linarith
  ultimately show ?thesis unfolding touched_def word_le_nat_alt word_less_nat_alt aligndown_nat pagealign_nat [OF assms] by blast
qed

lemma in_reserved_chunks:
  assumes "loader_ok bi mods es kbegin kend"
  shows "in_chunk (reserved_chunks bi mods kbegin kend) x = kernel_or_module bi mods kbegin kend (unat x)"
proof -
  have k: "unat (a - KERNEL_VM_BASE + KERNEL_LMA_BASE) = unat a - 0xC0000000 + 0x100000"
    "unat a - 0xC0000000 + 0x100000 \<le> 0xFFFFF000" if "KERNEL_VM_BASE \<le> a" for a
  proof -
    have "unat (a - KERNEL_VM_BASE) = unat a - 0xC0000000" using that by (simp add: unat_sub word_le_nat_alt)
    moreover show "unat a - 0xC0000000 + 0x100000 \<le> 0xFFFFF000" using unat_u32_less [of a] by linarith
    ultimately show "unat (a - KERNEL_VM_BASE + KERNEL_LMA_BASE) = unat a - 0xC0000000 + 0x100000"
      by (subst unat_plus_no_wrap) simp_all
  qed
  let ?K = "rr_start (reserved_kernel kbegin kend) \<le> x \<and> x < rr_end (reserved_kernel kbegin kend)"
  let ?M = "\<lambda>j. rr_start (reserved_module (mods j)) \<le> x \<and> x < rr_end (reserved_module (mods j))"
  have kern: "?K \<longleftrightarrow> touched (unat kbegin - 0xC0000000 + 0x100000) (unat kend - 0xC0000000 + 0x100000) (unat x)"
    using touched_aligned [of "kend - KERNEL_VM_BASE + KERNEL_LMA_BASE" "kbegin - KERNEL_VM_BASE + KERNEL_LMA_BASE" x] k assms
    by (simp add: reserved_kernel_def kernel_phys_start_def kernel_phys_end_def loader_ok_def)
  have modu: "?M j \<longleftrightarrow> touched (unat (mod_start (mods j))) (unat (mod_end (mods j))) (unat x)"
    if "j < unat (mb_mods_count bi)" for j
    using touched_aligned [of "mod_end (mods j)" "mod_start (mods j)" x] that assms by (simp add: reserved_module_def loader_ok_def)
  have "in_chunk (reserved_chunks bi mods kbegin kend) x \<longleftrightarrow>
      ?K \<or> (mb_flags bi AND MULTIBOOT_MODS \<noteq> 0 \<and> (\<exists>j < min (unat (mb_mods_count bi)) 63. ?M j))"
  proof (cases "mb_flags bi AND MULTIBOOT_MODS \<noteq> 0 \<and> mb_mods_count bi > 0")
    case True
    then have "set (reserved_chunks bi mods kbegin kend) =
        insert (reserved_kernel kbegin kend) ((\<lambda>i. reserved_module (mods i)) ` {..< min (unat (mb_mods_count bi)) 63})"
      using set_reserve_modules [of "[reserved_kernel kbegin kend]" mods 0] by (simp add: reserved_chunks_def lessThan_atLeast0)
    with True show ?thesis by (auto simp: in_chunk_def)
  next
    case False
    then have "reserved_chunks bi mods kbegin kend = [reserved_kernel kbegin kend]" by (auto simp: reserved_chunks_def)
    moreover have "mb_flags bi AND MULTIBOOT_MODS = 0 \<or> unat (mb_mods_count bi) = 0" using False by (auto simp: word_less_nat_alt)
    ultimately show ?thesis by (auto simp: in_chunk_def)
  qed
  with kern modu show ?thesis unfolding kernel_or_module_def by (metis min_less_iff_conj)
qed

lemma unat_entry_end:
  assumes "0 < unat (me_addr e) + unat (me_len e)" and "unat (me_addr e) + unat (me_len e) \<le> 2 ^ 64"
  shows "unat (entry_end e) = min (unat (me_addr e) + unat (me_len e) - 1) 0xFFFFFFFE"
proof -
  have w: "unat (me_addr e + me_len e - 1) = unat (me_addr e) + unat (me_len e) - 1"
  proof (cases "unat (me_addr e) + unat (me_len e) = 2 ^ 64")
    case True
    then have "unat (me_addr e + me_len e) = 0" by (simp add: unat_word_ariths)
    then have "me_addr e + me_len e = 0" by (simp only: unat_eq_0)
    moreover have "unat (- 1 :: u64) = 18446744073709551615" by (simp add: unsigned_minus_1_eq_mask mask_eq_exp_minus_1)
    ultimately show ?thesis using True by simp
  next
    case False
    with assms have "unat (me_addr e + me_len e) = unat (me_addr e) + unat (me_len e)" by (simp add: unat_word_ariths)
    with assms(1) show ?thesis by (subst unat_sub) (auto simp: word_le_nat_alt Suc_le_eq)
  qed
  show ?thesis unfolding entry_end_def Let_def word_le_nat_alt using w by (simp add: min_def)
qed

lemma entry_bytes_usable:
  assumes "0 < unat (me_addr e) + unat (me_len e)" and "unat (me_addr e) + unat (me_len e) \<le> 2 ^ 64"
  shows "entry_bytes e x = usable_byte e (unat x)"
proof -
  have ee: "unat (ucast (entry_end e) :: u32) = min (unat (me_addr e) + unat (me_len e) - 1) 0xFFFFFFFE"
    using unat_entry_end [OF assms] by (simp add: unsigned_ucast_eq take_bit_nat_eq_self)
  show ?thesis
  proof (cases "entry_addressable e")
    case True
    then have "unat (me_addr e) < 0xFFFFFFFF" by (simp add: entry_addressable_def word_le_nat_alt)
    then have "unat (ucast (me_addr e) :: u32) = unat (me_addr e)" by (simp add: unsigned_ucast_eq take_bit_nat_eq_self)
    with True ee show ?thesis
      by (auto simp: entry_bytes_def usable_byte_def entry_usable_def word_le_nat_alt word_less_nat_alt)
  next
    case False
    then have "0xFFFFFFFF \<le> unat (me_addr e)" by (simp add: entry_addressable_def word_le_nat_alt)
    with False show ?thesis by (auto simp: entry_bytes_def usable_byte_def)
  qed
qed

lemma AddMemoryRegions_covered:
  assumes "mb_mmap_addr bi \<noteq> 0"
    and "mmap_list mmap (mb_mmap_addr bi) (mb_mmap_addr bi + mb_mmap_len bi) es"
  shows "\<exists>s'. AddMemoryRegions (Some bi) mmap mods kbegin kend s = Some (STATUS_OK, s') \<and>
    regions_ok s' \<and>
    (\<forall>x. covered s' x \<longrightarrow>
       (\<exists>e \<in> set es. entry_bytes e x) \<and> \<not> in_chunk (reserved_chunks bi mods kbegin kend) x) \<and>
    (mem_regions_idx s' < MAX_MEM_REGIONS \<longrightarrow>
       (\<forall>x. (\<exists>e \<in> set es. entry_bytes e x) \<and> \<not> in_chunk (reserved_chunks bi mods kbegin kend) x \<longrightarrow>
          covered s' x))"
proof -
  let ?s0 = "s\<lparr>mem_regions := (\<lambda>_. zero_region), mem_regions_idx := 0\<rparr>"
  let ?c = "reserved_chunks bi mods kbegin kend"
  let ?r = "SortReservedChunks ?c (length ?c)"
  have "set ?r = set ?c" using SortReservedChunks_spec(1) [of ?c] by (metis set_mset_mset)
  then have in_r: "in_chunk ?r x = in_chunk ?c x" for x by (simp add: in_chunk_def)
  have s0: "regions_ok ?s0" "\<not> covered ?s0 x" for x by (simp_all add: regions_ok_def covered_def)
  from walk_mmap_spec [OF SortReservedChunks_spec(2) [of ?c] assms(2) s0(1)]
  obtain s' where s': "walk_mmap mmap (mb_mmap_addr bi) (mb_mmap_addr bi + mb_mmap_len bi) ?r ?s0 = Some s'"
    "regions_ok s'"
    "\<forall>x. covered s' x \<longrightarrow> (\<exists>e \<in> set es. entry_bytes e x) \<and> \<not> in_chunk ?c x"
    "mem_regions_idx s' < MAX_MEM_REGIONS \<longrightarrow>
       (\<forall>x. (\<exists>e \<in> set es. entry_bytes e x) \<and> \<not> in_chunk ?c x \<longrightarrow> covered s' x)"
    unfolding in_r using s0(2) by blast
  have "AddMemoryRegions (Some bi) mmap mods kbegin kend s = Some (STATUS_OK, s')"
    using assms(1) s'(1) by (simp add: AddMemoryRegions_def Let_def)
  with s'(2-4) show ?thesis by blast
qed

lemma AddMemoryRegions_bytes:
  assumes "mb_mmap_addr bi \<noteq> 0"
    and "mmap_list mmap (mb_mmap_addr bi) (mb_mmap_addr bi + mb_mmap_len bi) es"
    and "loader_ok bi mods es kbegin kend"
  shows "\<exists>s'. AddMemoryRegions (Some bi) mmap mods kbegin kend s = Some (STATUS_OK, s') \<and> regions_ok s' \<and>
    (\<forall>x. covered s' x \<longrightarrow> (\<exists>e \<in> set es. usable_byte e (unat x)) \<and> \<not> kernel_or_module bi mods kbegin kend (unat x)) \<and>
    (mem_regions_idx s' < MAX_MEM_REGIONS \<longrightarrow>
       (\<forall>x. (\<exists>e \<in> set es. usable_byte e (unat x)) \<and> \<not> kernel_or_module bi mods kbegin kend (unat x) \<longrightarrow> covered s' x))"
proof -
  have "(\<exists>e \<in> set es. entry_bytes e x) = (\<exists>e \<in> set es. usable_byte e (unat x))" for x
    using assms(3) entry_bytes_usable [of _ x] unfolding loader_ok_def by (intro bex_cong) simp_all
  then show ?thesis using AddMemoryRegions_covered [OF assms(1,2), of mods kbegin kend s] in_reserved_chunks [OF assms(3)] by simp
qed


text \<open>A machine with 32 MiB, the kernel at 1 MiB and a module at 2 MiB.\<close>

definition ex_bootinfo :: Multiboot where
  "ex_bootinfo = \<lparr>mb_flags = 8, mb_mods_count = 1, mb_mods_addr = 0x8000, mb_mmap_len = 24, mb_mmap_addr = 0x9000\<rparr>"

definition ex_entry :: MultibootMMapEntry where
  "ex_entry = \<lparr>me_size = 20, me_addr = 0x1000, me_len = 0x1FFF000, me_type = 1\<rparr>"

definition ex_module :: MultibootModule where
  "ex_module = \<lparr>mod_start = 0x200000, mod_end = 0x210000\<rparr>"

lemma ex_loader:
  "mb_mmap_addr ex_bootinfo \<noteq> 0"
  "mmap_list (\<lambda>_. ex_entry) (mb_mmap_addr ex_bootinfo) (mb_mmap_addr ex_bootinfo + mb_mmap_len ex_bootinfo) [ex_entry]"
  "loader_ok ex_bootinfo (\<lambda>_. ex_module) [ex_entry] 0xC0000000 0xC0010000"
  by (simp_all add: ex_bootinfo_def ex_entry_def ex_module_def loader_ok_def)

lemma ex_loader_bytes:
  "kernel_or_module ex_bootinfo (\<lambda>_. ex_module) 0xC0000000 0xC0010000 x \<longleftrightarrow> 0x100 \<le> x div 4096 \<and> x div 4096 < 0x110 \<or>
     0x200 \<le> x div 4096 \<and> x div 4096 < 0x210"
proof -
  have "x div 4096 * 4096 < 0x110000 \<longleftrightarrow> x div 4096 < 0x110" "x div 4096 * 4096 < 0x210000 \<longleftrightarrow> x div 4096 < 0x210" by linarith+
  then show ?thesis by (auto simp: kernel_or_module_def touched_def ex_bootinfo_def ex_module_def)
qed


end
