(* ===== verification/Frames.thy ===== *)
theory Frames
  imports Regions
begin

text \<open>
  The physical frame manager, \<^verbatim>\<open>src/sys/mem/frame.c\<close>: one bit per 4 KiB frame of the
  32-bit physical address space, set when the frame is reserved. Word \<open>i\<close> of the array
  is \<open>bitmap s i\<close>, for \<open>i < 32768\<close>. The loop of \<open>InitFrameManager\<close> over the frames of
  a region advances a 32-bit counter, which can wrap, so it is a \<open>partial_function\<close>;
  \<open>InitFrameManager\<close> returning is proved where it does, and refuted where it does not.
\<close>

section \<open>State and operations\<close>

record frame_state = region_state +
  bitmap :: words
  highest_addr :: u32

abbreviation BITMAP_WORDS :: nat where "BITMAP_WORDS \<equiv> 32768"

definition frame_no :: "u32 \<Rightarrow> nat" where
  "frame_no frameaddr = unat (frameaddr div FRAME_SIZE)"

definition frame_addr :: "nat \<Rightarrow> u32" where
  "frame_addr k = of_nat k * FRAME_SIZE"

definition MarkFrameAvailable :: "u32 \<Rightarrow> 'a frame_state_scheme \<Rightarrow> 'a frame_state_scheme" where
  "MarkFrameAvailable frameaddr s =
     (if frameaddr < 2 * FRAME_SIZE then s
      else if frameaddr > highest_addr s then s
      else s\<lparr>bitmap := bm_clear (frame_no frameaddr) (bitmap s)\<rparr>)"

definition MarkFrameReserved :: "u32 \<Rightarrow> 'a frame_state_scheme \<Rightarrow> 'a frame_state_scheme" where
  "MarkFrameReserved frameaddr s = s\<lparr>bitmap := bm_mark (frame_no frameaddr) (bitmap s)\<rparr>"

definition IsFrameAllocated :: "u32 \<Rightarrow> 'a frame_state_scheme \<Rightarrow> bool" where
  "IsFrameAllocated frameaddr s = bm_used (bitmap s) (frame_no frameaddr)"

definition GetFirstFreeHighFrame :: "'a frame_state_scheme \<Rightarrow> u32" where
  "GetFirstFreeHighFrame s =
     (case bm_scan (bitmap s) 8 BITMAP_WORDS of Some k \<Rightarrow> frame_addr k | None \<Rightarrow> 0)"

definition GetFirstFreeLowFrame :: "'a frame_state_scheme \<Rightarrow> u32" where
  "GetFirstFreeLowFrame s =
     (case bm_scan (bitmap s) 0 8 of Some k \<Rightarrow> frame_addr k | None \<Rightarrow> 0)"

partial_function (option) mark_pages ::
    "u32 \<Rightarrow> u32 \<Rightarrow> 'a frame_state_scheme \<Rightarrow> 'a frame_state_scheme option" where
  "mark_pages j upper s =
     (if j < upper then mark_pages (j + FRAME_SIZE) upper (MarkFrameAvailable j s) else Some s)"

declare mark_pages.simps [code]

function init_regions :: "(nat \<Rightarrow> MemoryRegion) \<Rightarrow> nat \<Rightarrow> nat \<Rightarrow> 'a frame_state_scheme \<Rightarrow>
    'a frame_state_scheme option" where
  "init_regions regions i n s =
     (if i < n then
        let current = regions i in
        if \<not> mr_available current then init_regions regions (Suc i) n s
        else
          let end = mr_start current + mr_len current;
              s1 = (if end > highest_addr s then s\<lparr>highest_addr := end\<rparr> else s)
          in case mark_pages (mr_start current) end s1 of
               None \<Rightarrow> None
             | Some s2 \<Rightarrow> init_regions regions (Suc i) n s2
      else Some s)"
  by pat_completeness auto
termination
  by (relation "measure (\<lambda>(regions, i, n, s). n - i)") auto

declare init_regions.simps [simp del]

definition InitFrameManager :: "'a frame_state_scheme \<Rightarrow> 'a frame_state_scheme option" where
  "InitFrameManager s =
     (let s0 = s\<lparr>bitmap := (\<lambda>_. 0xFFFFFFFF)\<rparr>;
          (regions, n_regions) = FetchMemoryRegions s0
      in if n_regions < 1 then None else init_regions regions 0 n_regions s0)"

definition AllocateFrame :: "'a frame_state_scheme \<Rightarrow> u32 \<times> 'a frame_state_scheme" where
  "AllocateFrame s =
     (let frame = GetFirstFreeHighFrame s in (frame, MarkFrameReserved frame s))"

definition AllocateLowMemory :: "'a frame_state_scheme \<Rightarrow> u32 \<times> 'a frame_state_scheme" where
  "AllocateLowMemory s =
     (let frame = GetFirstFreeLowFrame s in (frame, MarkFrameReserved frame s))"

definition FreeFrame :: "u32 \<Rightarrow> 'a frame_state_scheme \<Rightarrow> 'a frame_state_scheme" where
  "FreeFrame frameaddr s =
     (if \<not> IsFrameAllocated frameaddr s then s else MarkFrameAvailable frameaddr s)"

section \<open>Invariant\<close>

abbreviation FRAME_COUNT :: nat where "FRAME_COUNT \<equiv> 1048576"

text \<open>
  A frame that is available is not one of the first two and lies at or below
  \<open>highest_addr\<close>.
\<close>

definition frame_free :: "'a frame_state_scheme \<Rightarrow> nat \<Rightarrow> bool" where
  "frame_free s k \<longleftrightarrow> k < FRAME_COUNT \<and> \<not> bm_used (bitmap s) k"

definition frames_inv :: "'a frame_state_scheme \<Rightarrow> bool" where
  "frames_inv s \<longleftrightarrow> (\<forall>k. frame_free s k \<longrightarrow> 2 \<le> k \<and> frame_addr k \<le> highest_addr s)"

subsection \<open>Frame numbers and addresses\<close>

lemma unat_frame_addr: "k < FRAME_COUNT \<Longrightarrow> unat (frame_addr k) = k * 4096"
  by (simp add: frame_addr_def unat_word_ariths unat_of_nat)

lemma frame_no_nat: "frame_no a = unat a div 4096"
  by (simp add: frame_no_def unat_div)

lemma frame_no_less [simp]: "frame_no a < FRAME_COUNT"
  by (simp add: frame_no_nat less_mult_imp_div_less)

lemma frame_no_addr [simp]: "k < FRAME_COUNT \<Longrightarrow> frame_no (frame_addr k) = k"
  by (simp add: frame_no_nat unat_frame_addr)

lemma isaligned_frame_addr: "k < FRAME_COUNT \<Longrightarrow> isaligned (frame_addr k) FRAME_SIZE"
  by (simp add: isaligned_nat unat_frame_addr)

lemma frame_addr_no: "isaligned a FRAME_SIZE \<Longrightarrow> frame_addr (frame_no a) = a"
proof -
  assume "isaligned a FRAME_SIZE"
  then have "unat (frame_addr (frame_no a)) = unat a"
    by (auto simp: unat_frame_addr isaligned_nat frame_no_nat less_mult_imp_div_less)
  then show ?thesis by (rule word_unat_eq_iff [THEN iffD2])
qed

lemma unat_aligned: "isaligned a FRAME_SIZE \<Longrightarrow> unat a = frame_no a * 4096"
  using unat_frame_addr [of "frame_no a"] by (simp add: frame_addr_no)

lemma frame_addr_eq_0 [simp]: "k < FRAME_COUNT \<Longrightarrow> frame_addr k = 0 \<longleftrightarrow> k = 0"
  by (metis mult_eq_0_iff unat_eq_0 unat_frame_addr zero_neq_numeral)

subsection \<open>Marking\<close>

lemma Mark_scheme_simps [simp]:
  "highest_addr (MarkFrameAvailable a s) = highest_addr s"
  "highest_addr (MarkFrameReserved a s) = highest_addr s"
  by (simp_all add: MarkFrameAvailable_def MarkFrameReserved_def)

lemma frame_free_available:
  assumes "2 \<le> frame_no a" and "a \<le> highest_addr s"
  shows "frame_free (MarkFrameAvailable a s) k \<longleftrightarrow> frame_free s k \<or> k = frame_no a"
proof -
  from assms(1) have "2 \<le> unat a div 4096" by (simp only: frame_no_nat)
  then have "unat (2 * FRAME_SIZE :: u32) \<le> unat a" by simp
  then have "\<not> a < 2 * FRAME_SIZE" by (simp add: word_less_nat_alt)
  with assms(2) show ?thesis
    by (auto simp: MarkFrameAvailable_def frame_free_def bm_simps leD)
qed

lemma MarkFrameAvailable_low: "frame_no a < 2 \<Longrightarrow> MarkFrameAvailable a s = s"
proof -
  assume "frame_no a < 2"
  then have "unat a < 8192" by (simp add: frame_no_nat)
  then have "a < 2 * FRAME_SIZE" by (simp add: word_less_nat_alt)
  then show ?thesis by (simp add: MarkFrameAvailable_def)
qed

lemma MarkFrameAvailable_high: "highest_addr s < a \<Longrightarrow> MarkFrameAvailable a s = s"
  by (simp add: MarkFrameAvailable_def)

lemma frame_free_reserved [simp]:
  "frame_free (MarkFrameReserved a s) k \<longleftrightarrow> frame_free s k \<and> k \<noteq> frame_no a"
  by (auto simp: MarkFrameReserved_def frame_free_def bm_simps)

lemma frame_free_not_allocated: "IsFrameAllocated a s \<longleftrightarrow> \<not> frame_free s (frame_no a)"
  by (simp add: IsFrameAllocated_def frame_free_def)

lemma MarkFrameReserved_used: "\<not> frame_free s (frame_no a) \<Longrightarrow> MarkFrameReserved a s = s"
proof -
  assume "\<not> frame_free s (frame_no a)"
  then have "bm_mark (frame_no a) (bitmap s) = bitmap s"
    by (intro bm_eqI) (auto simp: bm_simps frame_free_def)
  then show ?thesis by (simp add: MarkFrameReserved_def)
qed

lemma frames_inv_reserved: "frames_inv s \<Longrightarrow> frames_inv (MarkFrameReserved a s)"
  by (auto simp: frames_inv_def)

lemma frames_inv_available: "frames_inv s \<Longrightarrow> isaligned a FRAME_SIZE \<Longrightarrow> frames_inv (MarkFrameAvailable a s)"
proof (cases "2 \<le> frame_no a \<and> a \<le> highest_addr s")
  case True
  assume "frames_inv s" "isaligned a FRAME_SIZE"
  with True show ?thesis by (auto simp: frames_inv_def frame_free_available frame_addr_no)
next
  case False
  assume "frames_inv s" "isaligned a FRAME_SIZE"
  with False show ?thesis by (auto simp: MarkFrameAvailable_low MarkFrameAvailable_high not_le)
qed

lemma frames_inv_0: "frames_inv s \<Longrightarrow> \<not> frame_free s 0"
  by (auto simp: frames_inv_def)

section \<open>Allocation\<close>

lemma GetFirstFreeHighFrame_Some:
  assumes "bm_scan (bitmap s) 8 BITMAP_WORDS = Some k"
  shows "256 \<le> k" and "frame_free s k" and "\<And>j. 256 \<le> j \<Longrightarrow> j < k \<Longrightarrow> \<not> frame_free s j"
    and "GetFirstFreeHighFrame s = frame_addr k"
  using bm_scan_Some [OF assms] assms
  by (auto simp: frame_free_def GetFirstFreeHighFrame_def)

lemma GetFirstFreeHighFrame_None:
  assumes "bm_scan (bitmap s) 8 BITMAP_WORDS = None"
  shows "256 \<le> k \<Longrightarrow> \<not> frame_free s k" and "GetFirstFreeHighFrame s = 0"
  using assms bm_scan_None [of "bitmap s" 8 BITMAP_WORDS]
  by (auto simp: frame_free_def GetFirstFreeHighFrame_def)

lemma GetFirstFreeLowFrame_Some:
  assumes "bm_scan (bitmap s) 0 8 = Some k"
  shows "k < 256" and "frame_free s k" and "\<And>j. j < k \<Longrightarrow> \<not> frame_free s j"
    and "GetFirstFreeLowFrame s = frame_addr k"
  using bm_scan_Some [OF assms] assms
  by (auto simp: frame_free_def GetFirstFreeLowFrame_def)

lemma GetFirstFreeLowFrame_None:
  assumes "bm_scan (bitmap s) 0 8 = None"
  shows "k < 256 \<Longrightarrow> \<not> frame_free s k" and "GetFirstFreeLowFrame s = 0"
  using assms bm_scan_None [of "bitmap s" 0 8]
  by (auto simp: frame_free_def GetFirstFreeLowFrame_def)

lemma AllocateFrame_cases:
  assumes "frames_inv s"
  obtains (frame) k s' where "AllocateFrame s = (frame_addr k, s')" "256 \<le> k" "frame_free s k"
      "\<And>j. 256 \<le> j \<Longrightarrow> j < k \<Longrightarrow> \<not> frame_free s j" "s' = MarkFrameReserved (frame_addr k) s"
      "frame_addr k \<noteq> 0"
    | (full) "AllocateFrame s = (0, s)" "\<And>k. 256 \<le> k \<Longrightarrow> \<not> frame_free s k"
proof (cases "bm_scan (bitmap s) 8 BITMAP_WORDS")
  case None
  have "MarkFrameReserved 0 s = s"
    using frames_inv_0 [OF assms] by (intro MarkFrameReserved_used) (simp add: frame_no_def)
  with GetFirstFreeHighFrame_None [OF None] full show ?thesis
    by (simp add: AllocateFrame_def Let_def)
next
  case (Some k)
  note k = GetFirstFreeHighFrame_Some [OF Some]
  then have "frame_addr k \<noteq> 0" by (simp add: frame_free_def)
  with k frame show ?thesis by (simp add: AllocateFrame_def Let_def)
qed

lemma frame_free_addr: "frames_inv s \<Longrightarrow> frame_free s k \<Longrightarrow> frame_addr k \<le> highest_addr s \<and> 2 \<le> k"
  by (simp add: frames_inv_def)

text \<open>
  \<open>AllocateFrame\<close> hands out the lowest available frame above the first megabyte: it is
  page aligned, at or above 0x100000, was available and is reserved afterwards, and no other
  frame changes. It returns 0 exactly when every frame above the first megabyte is reserved,
  and then nothing changes.
\<close>

lemma AllocateFrame_correct:
  assumes "frames_inv s"
  shows "case AllocateFrame s of (frame, s') \<Rightarrow>
    frames_inv s' \<and>
    (if frame = 0 then s' = s \<and> (\<forall>k \<ge> 256. \<not> frame_free s k)
     else isaligned frame FRAME_SIZE \<and> 0x100000 \<le> frame \<and> frame_free s (frame_no frame) \<and>
       (\<forall>k. frame_free s' k \<longleftrightarrow> frame_free s k \<and> k \<noteq> frame_no frame) \<and>
       (\<forall>k. 256 \<le> k \<and> k < frame_no frame \<longrightarrow> \<not> frame_free s k))"
  using assms
proof (cases rule: AllocateFrame_cases)
  case (frame k s')
  then have k: "k < FRAME_COUNT" by (simp add: frame_free_def)
  have "0x100000 \<le> frame_addr k"
    using frame(2) k by (simp add: word_le_nat_alt unat_frame_addr)
  with frame k assms show ?thesis
    by (simp add: isaligned_frame_addr frames_inv_reserved)
next
  case full
  with assms show ?thesis by simp
qed

text \<open>A state with one available frame, for the examples.\<close>

definition one_frame :: frame_state where
  "one_frame = \<lparr>mem_regions = (\<lambda>_. zero_region), mem_regions_idx = 0,
     bitmap = bm_clear 256 (\<lambda>_. 0xFFFFFFFF), highest_addr = 0x100000\<rparr>"

lemma frame_free_one_frame: "frame_free one_frame k \<longleftrightarrow> k = 256"
  by (auto simp: frame_free_def one_frame_def bm_simps)

lemma frames_inv_one_frame: "frames_inv one_frame"
  by (simp add: frames_inv_def frame_free_one_frame) (simp add: one_frame_def frame_addr_def)

lemma AllocateFrame_one_frame: "fst (AllocateFrame one_frame) = 0x100000"
proof -
  have "frame_free one_frame 256" by (simp add: frame_free_one_frame)
  then have "fst (AllocateFrame one_frame) = frame_addr 256"
    by (cases rule: AllocateFrame_cases [OF frames_inv_one_frame]) (auto simp: frame_free_one_frame)
  then show ?thesis by (simp add: frame_addr_def)
qed

lemma AllocateFrame_correct_example:
  "frames_inv (snd (AllocateFrame one_frame)) \<and> frame_free one_frame 256 \<and>
   \<not> frame_free (snd (AllocateFrame one_frame)) 256"
  using AllocateFrame_correct [OF frames_inv_one_frame] AllocateFrame_one_frame
  by (simp add: split_beta frame_no_def)

text \<open>
  \<open>FreeFrame\<close> undoes \<open>AllocateFrame\<close>: the frame just handed out, given back, leaves
  the manager in the state it was in, and freeing it a second time has no effect.
\<close>

lemma FreeFrame_AllocateFrame:
  assumes "frames_inv s" and "fst (AllocateFrame s) \<noteq> 0"
  shows "FreeFrame (fst (AllocateFrame s)) (snd (AllocateFrame s)) = s \<and>
         FreeFrame (fst (AllocateFrame s)) s = s"
  using assms(1)
proof (cases rule: AllocateFrame_cases)
  case (frame k s')
  then have k: "k < FRAME_COUNT" "\<not> bm_used (bitmap s) k" by (simp_all add: frame_free_def)
  have bm: "bm_clear k (bm_mark k (bitmap s)) = bitmap s" using k(2) by (rule bm_clear_mark)
  have "\<not> frame_addr k < 2 * FRAME_SIZE"
    using frame(2) k by (simp add: word_less_nat_alt unat_frame_addr)
  moreover have "\<not> highest_addr s < frame_addr k"
    using frame_free_addr [OF assms(1) frame(3)] by (simp add: not_less)
  ultimately show ?thesis using frame k bm
    by (simp add: FreeFrame_def IsFrameAllocated_def MarkFrameReserved_def MarkFrameAvailable_def bm_simps)
next
  case full
  with assms(2) show ?thesis by simp
qed

lemma FreeFrame_AllocateFrame_example:
  "FreeFrame 0x100000 (snd (AllocateFrame one_frame)) = one_frame \<and>
   FreeFrame 0x100000 one_frame = one_frame"
  using FreeFrame_AllocateFrame [OF frames_inv_one_frame] AllocateFrame_one_frame by simp

lemma AllocateLowMemory_below:
  assumes "frames_inv s" and "fst (AllocateLowMemory s) \<noteq> 0"
  shows "2 * FRAME_SIZE \<le> fst (AllocateLowMemory s) \<and> fst (AllocateLowMemory s) < 0x100000 \<and>
         frame_free s (frame_no (fst (AllocateLowMemory s))) \<and>
         \<not> frame_free (snd (AllocateLowMemory s)) (frame_no (fst (AllocateLowMemory s)))"
proof (cases "bm_scan (bitmap s) 0 8")
  case None
  with GetFirstFreeLowFrame_None [OF None] assms(2) show ?thesis
    by (simp add: AllocateLowMemory_def Let_def)
next
  case (Some k)
  note k = GetFirstFreeLowFrame_Some [OF Some]
  have "k < FRAME_COUNT" using k(1) by simp
  moreover have "2 \<le> k" using frame_free_addr [OF assms(1) k(2)] by simp
  ultimately show ?thesis using k
    by (simp add: AllocateLowMemory_def Let_def word_le_nat_alt word_less_nat_alt unat_frame_addr)
qed

subsection \<open>The frame manager as a slot allocator\<close>

definition frame_slot :: "'a frame_state_scheme \<Rightarrow> nat \<Rightarrow> bool" where
  "frame_slot s k \<longleftrightarrow> 256 \<le> k \<and> k < FRAME_COUNT \<and> frame_addr k \<le> highest_addr s"

definition frame_take :: "'a frame_state_scheme \<Rightarrow> (nat \<times> 'a frame_state_scheme) option" where
  "frame_take s =
     (let (frame, s') = AllocateFrame s in if frame = 0 then None else Some (frame_no frame, s'))"

definition frame_drop :: "nat \<Rightarrow> 'a frame_state_scheme \<Rightarrow> 'a frame_state_scheme" where
  "frame_drop k s = FreeFrame (frame_addr k) s"

lemma frame_take_Some:
  assumes "frames_inv s" and "frame_take s = Some (k, s')"
  shows "frame_slot s k" "frame_free s k" "s' = MarkFrameReserved (frame_addr k) s"
proof -
  have "frame_slot s k \<and> frame_free s k \<and> s' = MarkFrameReserved (frame_addr k) s"
    using assms(1)
  proof (cases rule: AllocateFrame_cases)
    case (frame j t)
    with assms frame_free_addr [OF assms(1) frame(3)] show ?thesis
      by (auto simp: frame_take_def frame_slot_def frame_free_def)
  next
    case full
    with assms(2) show ?thesis by (simp add: frame_take_def)
  qed
  then show "frame_slot s k" "frame_free s k" "s' = MarkFrameReserved (frame_addr k) s" by auto
qed

lemma frame_take_None:
  assumes "frames_inv s" and "frame_take s = None" and "256 \<le> k"
  shows "\<not> frame_free s k"
  using assms(1)
proof (cases rule: AllocateFrame_cases)
  case (frame j t)
  with assms(2) show ?thesis by (simp add: frame_take_def)
next
  case full
  with assms(3) show ?thesis by simp
qed

lemma frame_drop_free:
  assumes "frame_slot s k" and "\<not> frame_free s k"
  shows "frame_drop k s = MarkFrameAvailable (frame_addr k) s"
    and "frame_free (frame_drop k s) j \<longleftrightarrow> frame_free s j \<or> j = k"
proof -
  show "frame_drop k s = MarkFrameAvailable (frame_addr k) s"
    using assms by (simp add: frame_drop_def FreeFrame_def frame_free_not_allocated frame_slot_def)
  then show "frame_free (frame_drop k s) j \<longleftrightarrow> frame_free s j \<or> j = k"
    using assms(1) by (simp add: frame_slot_def frame_free_available)
qed

interpretation frames: slot_alloc
  frames_inv frame_slot "\<lambda>s k. \<not> frame_free s k" frame_take frame_drop
proof
  fix s :: "'a frame_state_scheme" and k s'
  assume s: "frames_inv s" "frame_take s = Some (k, s')"
  note t = frame_take_Some [OF s]
  from t show "frame_slot s k \<and> \<not> \<not> frame_free s k" by simp
  have k: "k < FRAME_COUNT" using t(1) by (simp add: frame_slot_def)
  with t show "(\<not> frame_free s' j) = (j = k \<or> \<not> frame_free s j)" for j by auto
  from t s(1) show "frames_inv s' \<and> frame_slot s' = frame_slot s"
    by (auto simp: frames_inv_reserved frame_slot_def)
next
  fix s :: "'a frame_state_scheme" and k
  assume "frames_inv s" "frame_take s = None" "frame_slot s k"
  then show "\<not> frame_free s k" by (intro frame_take_None) (simp_all add: frame_slot_def)
next
  fix s :: "'a frame_state_scheme" and k j
  assume s: "frames_inv s" "frame_slot s k" "\<not> frame_free s k"
  note d = frame_drop_free [OF s(2,3)]
  show "(\<not> frame_free (frame_drop k s) j) = (j \<noteq> k \<and> \<not> frame_free s j)" using d(2) by auto
  show "frames_inv (frame_drop k s) \<and> frame_slot (frame_drop k s) = frame_slot s"
    using d(1) s by (auto simp: frames_inv_available isaligned_frame_addr frame_slot_def)
qed

text \<open>
  C1. Whatever sequence of allocations and releases its clients make, the frame manager
  never hands out a frame that one of them still holds: starting from a state that keeps the
  invariant, the frames held are at every point distinct, reserved and above the first
  megabyte, and the invariant still holds.
\<close>

theorem frames_never_shared:
  assumes "frames_inv s" and "slot_run frame_take frame_drop ops (s, []) = (s', own)"
  shows "distinct own \<and> (\<forall>k \<in> set own. 256 \<le> k \<and> k < FRAME_COUNT \<and> \<not> frame_free s' k) \<and> frames_inv s'"
proof -
  have "frames.owned s []" using assms(1) by (simp add: frames.owned_def)
  from frames.owned_run [OF this assms(2)] show ?thesis
    by (auto simp: frames.owned_def frame_slot_def)
qed

theorem frames_never_shared_witness:
  "distinct (snd (slot_run frame_take frame_drop [Grab, Release 0, Grab, Grab] (one_frame, [])))"
  using frames_never_shared [OF frames_inv_one_frame prod.collapse [symmetric]] by blast

section \<open>Initialisation\<close>

lemma mark_pages_spec:
  assumes "isaligned j FRAME_SIZE" and "upper \<le> 0xFFFFF000" and "upper \<le> highest_addr s" and "frames_inv s"
  shows "\<exists>s'. mark_pages j upper s = Some s' \<and> frames_inv s' \<and> highest_addr s' = highest_addr s \<and>
    (\<forall>k. frame_free s' k \<longleftrightarrow> frame_free s k \<or>
       (2 \<le> k \<and> k < FRAME_COUNT \<and> j \<le> frame_addr k \<and> frame_addr k < upper))"
  using assms
proof (induction "unat upper - unat j" arbitrary: j s rule: less_induct)
  case less
  show ?case
  proof (cases "j < upper")
    case False
    then have "\<not> (j \<le> frame_addr k \<and> frame_addr k < upper)" for k by auto
    with False less.prems show ?thesis by (subst mark_pages.simps) auto
  next
    case True
    let ?s = "MarkFrameAvailable j s"
    have ju: "unat j < unat upper" "unat upper \<le> 0xFFFFF000"
      using True less.prems(2) by (simp_all add: word_less_nat_alt word_le_nat_alt)
    then have j': "unat (j + FRAME_SIZE) = unat j + 4096"
      by (subst unat_plus_no_wrap) simp_all
    have al: "isaligned (j + FRAME_SIZE) FRAME_SIZE"
      using less.prems(1) by (simp add: isaligned_nat j')
    have step: "frame_free ?s k \<longleftrightarrow> frame_free s k \<or> (2 \<le> k \<and> k = frame_no j)" for k
    proof (cases "2 \<le> frame_no j")
      case c: True
      have "j \<le> highest_addr s" using True less.prems(3) by (meson less_le_trans less_imp_le)
      with c show ?thesis by (simp add: frame_free_available) auto
    qed (auto simp: MarkFrameAvailable_low)
    have split: "j \<le> frame_addr k \<and> frame_addr k < upper \<longleftrightarrow>
        k = frame_no j \<or> (j + FRAME_SIZE \<le> frame_addr k \<and> frame_addr k < upper)" if "k < FRAME_COUNT" for k
    proof -
      have j: "unat j = frame_no j * 4096" using less.prems(1) by (rule unat_aligned)
      have "unat j \<le> k * 4096 \<and> k * 4096 < unat upper \<longleftrightarrow>
          k = frame_no j \<or> unat j + 4096 \<le> k * 4096 \<and> k * 4096 < unat upper"
        using ju(1) unfolding j by auto
      then show ?thesis by (simp add: word_less_nat_alt word_le_nat_alt unat_frame_addr that j')
    qed
    have "unat upper - unat (j + FRAME_SIZE) < unat upper - unat j" using ju j' by simp
    from less.hyps [OF this al less.prems(2), of ?s] less.prems(3,4) frames_inv_available [OF less.prems(4,1)]
    obtain s' where s': "mark_pages (j + FRAME_SIZE) upper ?s = Some s'" "frames_inv s'"
      "highest_addr s' = highest_addr s"
      "\<forall>k. frame_free s' k \<longleftrightarrow> frame_free ?s k \<or>
        (2 \<le> k \<and> k < FRAME_COUNT \<and> j + FRAME_SIZE \<le> frame_addr k \<and> frame_addr k < upper)" by auto
    have "frame_free s' k \<longleftrightarrow> frame_free s k \<or>
        (2 \<le> k \<and> k < FRAME_COUNT \<and> j \<le> frame_addr k \<and> frame_addr k < upper)" for k
      using s'(4) step [of k] split [of k] by auto
    with s'(1-3) True show ?thesis by (subst mark_pages.simps) simp
  qed
qed

lemma mark_pages_wraps:
  assumes "mark_pages j upper s = Some s'"
  shows "isaligned j FRAME_SIZE \<longrightarrow> \<not> 0xFFFFF000 < upper"
proof (rule mark_pages.raw_induct [OF _ assms, where P = "\<lambda>j upper s s'. isaligned j FRAME_SIZE \<longrightarrow> \<not> 0xFFFFF000 < upper"])
  fix f :: "u32 \<Rightarrow> u32 \<Rightarrow> 'a frame_state_scheme \<Rightarrow> 'a frame_state_scheme option" and j upper s s'
  assume 1: "\<And>j upper s s'. f j upper s = Some s' \<Longrightarrow> isaligned j FRAME_SIZE \<longrightarrow> \<not> 0xFFFFF000 < upper"
    "(if j < upper then f (j + FRAME_SIZE) upper (MarkFrameAvailable j s) else Some s) = Some s'"
  show "isaligned j FRAME_SIZE \<longrightarrow> \<not> 0xFFFFF000 < upper"
  proof (intro impI notI)
    assume j: "isaligned j FRAME_SIZE" and u: "0xFFFFF000 < upper"
    have "frame_no j \<le> 1048575" using frame_no_less [of j] by linarith
    then have "unat j \<le> 0xFFFFF000" using unat_aligned [OF j] by simp
    then have "j < upper" using u by (simp add: word_less_nat_alt)
    moreover have "isaligned (j + FRAME_SIZE) FRAME_SIZE"
    proof -
      have "unat (j + FRAME_SIZE) mod 4096 = (unat j + 4096) mod 4096"
        by (simp add: unat_word_ariths mod_mod_cancel)
      with j show ?thesis by (simp add: isaligned_nat)
    qed
    ultimately show False using 1 u by simp
  qed
qed

text \<open>What a region contributes to the frame manager.\<close>

definition regions_usable :: "(nat \<Rightarrow> MemoryRegion) \<Rightarrow> nat \<Rightarrow> bool" where
  "regions_usable regions n \<longleftrightarrow>
     (\<forall>i < n. mr_available (regions i) \<longrightarrow>
        isaligned (mr_start (regions i)) FRAME_SIZE \<and> mr_start (regions i) + mr_len (regions i) \<le> 0xFFFFF000)"

definition region_frame :: "(nat \<Rightarrow> MemoryRegion) \<Rightarrow> nat \<Rightarrow> nat \<Rightarrow> nat \<Rightarrow> bool" where
  "region_frame regions i n k \<longleftrightarrow> 2 \<le> k \<and> k < FRAME_COUNT \<and>
     (\<exists>j. i \<le> j \<and> j < n \<and> mr_available (regions j) \<and> region_has (regions j) (frame_addr k))"

lemma region_frame_step:
  "i < n \<Longrightarrow> region_frame regions i n k \<longleftrightarrow>
     (mr_available (regions i) \<and> 2 \<le> k \<and> k < FRAME_COUNT \<and> region_has (regions i) (frame_addr k)) \<or>
     region_frame regions (Suc i) n k"
proof -
  have "(\<exists>j. i \<le> j \<and> Q j) \<longleftrightarrow> Q i \<or> (\<exists>j. Suc i \<le> j \<and> Q j)" for Q
    by (metis Suc_leD le_refl not_less_eq_eq le_antisym)
  then show "i < n \<Longrightarrow> ?thesis" unfolding region_frame_def by auto
qed

lemma init_regions_spec:
  assumes "regions_usable regions n" and "frames_inv s"
  shows "\<exists>s'. init_regions regions i n s = Some s' \<and> frames_inv s' \<and> highest_addr s \<le> highest_addr s' \<and>
    (\<forall>k. frame_free s' k \<longleftrightarrow> frame_free s k \<or> region_frame regions i n k)"
  using assms
proof (induction regions i n s rule: init_regions.induct)
  case (1 regions i n s)
  let ?m = "regions i" and ?lim = "mr_start (regions i) + mr_len (regions i)"
  let ?s1 = "if ?lim > highest_addr s then s\<lparr>highest_addr := ?lim\<rparr> else s"
  consider (past) "\<not> i < n" | (skip) "i < n" "\<not> mr_available ?m" | (mark) "i < n" "mr_available ?m" by blast
  then show ?case
  proof cases
    case past
    then have "\<not> region_frame regions i n k" for k by (auto simp: region_frame_def)
    with past "1.prems" show ?thesis by (subst init_regions.simps) simp
  next
    case skip
    with "1.IH"(1) "1.prems" show ?thesis
      by (subst init_regions.simps) (simp add: region_frame_step)
  next
    case mark
    have m: "isaligned (mr_start ?m) FRAME_SIZE" "?lim \<le> 0xFFFFF000"
      using mark "1.prems"(1) by (auto simp: regions_usable_def)
    have h: "?lim \<le> highest_addr ?s1" "highest_addr s \<le> highest_addr ?s1" by auto
    have inv1: "frames_inv ?s1" using "1.prems"(2) by (auto simp: frames_inv_def frame_free_def)
    from mark_pages_spec [OF m h(1) inv1] obtain s2 where
      s2: "mark_pages (mr_start ?m) ?lim ?s1 = Some s2" "frames_inv s2" "highest_addr s2 = highest_addr ?s1"
        "\<And>k. frame_free s2 k \<longleftrightarrow> frame_free ?s1 k \<or> (2 \<le> k \<and> k < FRAME_COUNT \<and>
            mr_start ?m \<le> frame_addr k \<and> frame_addr k < ?lim)" by blast
    have "frame_free ?s1 k = frame_free s k" for k by (simp add: frame_free_def)
    with s2(4) have free2: "frame_free s2 k \<longleftrightarrow> frame_free s k \<or>
        (2 \<le> k \<and> k < FRAME_COUNT \<and> region_has ?m (frame_addr k))" for k by (simp add: region_has_def)
    have "init_regions regions i n s = init_regions regions (Suc i) n s2"
      using mark s2(1) by (subst init_regions.simps) (simp add: Let_def)
    moreover from "1.IH"(2) [OF mark(1) refl _ refl refl s2(1) "1.prems"(1) s2(2)] mark(2) obtain s' where
      "init_regions regions (Suc i) n s2 = Some s'" "frames_inv s'" "highest_addr s2 \<le> highest_addr s'"
      "\<forall>k. frame_free s' k \<longleftrightarrow> frame_free s2 k \<or> region_frame regions (Suc i) n k" by blast
    ultimately show ?thesis
      using mark free2 h(2) s2(3) by (auto simp: region_frame_step)
  qed
qed

lemma InitFrameManager_spec:
  assumes "regions_usable (mem_regions s) (mem_regions_idx s)" and "1 \<le> mem_regions_idx s"
  shows "\<exists>s'. InitFrameManager s = Some s' \<and> frames_inv s' \<and>
    (\<forall>k. frame_free s' k \<longleftrightarrow> region_frame (mem_regions s) 0 (mem_regions_idx s) k)"
proof -
  let ?s0 = "s\<lparr>bitmap := (\<lambda>_. 0xFFFFFFFF)\<rparr>"
  have no: "\<not> frame_free ?s0 k" for k by (simp add: frame_free_def bm_simps)
  then have "frames_inv ?s0" by (simp add: frames_inv_def)
  from init_regions_spec [OF assms(1) this, of 0] no assms(2) show ?thesis
    by (auto simp: InitFrameManager_def FetchMemoryRegions_def Let_def)
qed

text \<open>
  \<open>InitFrameManager\<close>, given at least one region, page aligned regions and no region
  reaching into the last page of the address space, returns with the invariant established,
  and the available frames are exactly the frames of the available regions, the first two
  excepted.
\<close>

lemma InitFrameManager_correct:
  assumes "regions_usable (mem_regions s) (mem_regions_idx s)" and "1 \<le> mem_regions_idx s"
  shows "\<exists>s'. InitFrameManager s = Some s' \<and> frames_inv s' \<and>
    (\<forall>k. frame_free s' k \<longleftrightarrow> region_frame (mem_regions s) 0 (mem_regions_idx s) k)"
  using assms by (rule InitFrameManager_spec)

definition one_region :: frame_state where
  "one_region = \<lparr>mem_regions = (\<lambda>_. \<lparr>mr_available = True, mr_start = 0x100000, mr_len = 0x3000, mr_type = 1\<rparr>),
     mem_regions_idx = 1, bitmap = (\<lambda>_. 0), highest_addr = 0\<rparr>"

lemma InitFrameManager_correct_example:
  "\<exists>s'. InitFrameManager one_region = Some s' \<and> frame_free s' 257 \<and> \<not> frame_free s' 259"
proof -
  have "regions_usable (mem_regions one_region) (mem_regions_idx one_region)"
    by (simp add: regions_usable_def one_region_def isaligned_def)
  moreover have "1 \<le> mem_regions_idx one_region" by (simp add: one_region_def)
  ultimately obtain s' where "InitFrameManager one_region = Some s'"
    "\<forall>k. frame_free s' k \<longleftrightarrow> region_frame (mem_regions one_region) 0 (mem_regions_idx one_region) k"
    using InitFrameManager_correct [of one_region] by blast
  moreover have "region_frame (mem_regions one_region) 0 (mem_regions_idx one_region) 257"
    "\<not> region_frame (mem_regions one_region) 0 (mem_regions_idx one_region) 259"
    by (simp_all add: region_frame_def one_region_def region_has_def frame_addr_def)
  ultimately show ?thesis by auto
qed

lemma init_regions_hangs:
  assumes "i \<le> j" and "j < n" and "mr_available (regions j)" and "isaligned (mr_start (regions j)) FRAME_SIZE"
    and "0xFFFFF000 < mr_start (regions j) + mr_len (regions j)"
  shows "init_regions regions i n s = None"
  using assms
proof (induction regions i n s rule: init_regions.induct)
  case (1 regions i n s)
  let ?m = "regions i" and ?lim = "mr_start (regions i) + mr_len (regions i)"
  let ?s1 = "if ?lim > highest_addr s then s\<lparr>highest_addr := ?lim\<rparr> else s"
  have i: "i < n" using "1.prems"(1,2) by simp
  show ?case
  proof (cases "i = j")
    case True
    with mark_pages_wraps [of "mr_start ?m" ?lim ?s1] "1.prems"(3-5)
    have "mark_pages (mr_start ?m) ?lim ?s1 = None" by (cases "mark_pages (mr_start ?m) ?lim ?s1") auto
    moreover have "mr_available ?m" using True "1.prems"(3) by simp
    ultimately show ?thesis using i
      by (subst init_regions.simps) (simp add: Let_def del: mark_pages.simps split del: if_split)
  next
    case False
    then have "Suc i \<le> j" using "1.prems"(1) by simp
    with "1.IH" "1.prems" i show ?thesis
      by (subst init_regions.simps) (auto simp: Let_def split: option.splits)
  qed
qed

text \<open>
  C38. The 32-bit counter of the initialisation loop wraps: an available page aligned region
  that ends above 0xFFFFF000, as \<open>AddMemoryRegions\<close> records for memory that reaches
  the 4 GiB mark, makes \<open>InitFrameManager\<close> loop for ever.
\<close>

theorem InitFrameManager_hangs:
  assumes "j < mem_regions_idx s" and "mr_available (mem_regions s j)"
    and "isaligned (mr_start (mem_regions s j)) FRAME_SIZE"
    and "0xFFFFF000 < mr_start (mem_regions s j) + mr_len (mem_regions s j)"
  shows "InitFrameManager s = None"
  using init_regions_hangs [of 0 j "mem_regions_idx s" "mem_regions s"] assms
  by (simp add: InitFrameManager_def FetchMemoryRegions_def Let_def)

theorem InitFrameManager_hangs_witness:
  "InitFrameManager \<lparr>mem_regions = (\<lambda>_. \<lparr>mr_available = True, mr_start = 0xFF000000, mr_len = 0xFFFFFE, mr_type = 1\<rparr>),
     mem_regions_idx = 1, bitmap = (\<lambda>_. 0), highest_addr = 0\<rparr> = None"
  by (rule InitFrameManager_hangs [of 0]) (simp_all add: isaligned_def)

section \<open>From the memory map to the frames\<close>

lemma reserved_chunks_aligned: "r \<in> set (reserved_chunks bi mods kbegin kend) \<Longrightarrow> isaligned (rr_end r) PAGE_SIZE"
  using set_reserve_modules [of "[reserved_kernel kbegin kend]" mods 0]
  by (auto simp: reserved_chunks_def reserved_kernel_def reserved_module_def Let_def split: if_splits)

text \<open>A usable entry of the map below 4 GiB that starts at a page and ends before the last page.\<close>

definition entry_in_frames :: "MultibootMMapEntry \<Rightarrow> bool" where
  "entry_in_frames e \<longleftrightarrow> ((me_type e = REGION_AVAILABLE \<or> me_type e = REGION_ACPI_RECLAIMABLE) \<and> unat (me_addr e) < 0xFFFFFFFF \<longrightarrow>
     unat (me_addr e) mod 4096 = 0 \<and> unat (me_addr e) + unat (me_len e) \<le> 0xFFFFF000)"

lemma entry_in_frames_words:
  assumes "entry_in_frames e" and "entry_addressable e" and "entry_usable e" and "0 < unat (me_addr e) + unat (me_len e)"
  shows "isaligned (ucast (me_addr e)) PAGE_SIZE \<and> ucast (entry_end e) \<le> (0xFFFFF000 :: u32)"
proof -
  have a: "unat (me_addr e) < 0xFFFFFFFF" using assms(2) by (simp add: entry_addressable_def word_le_nat_alt)
  then have al: "unat (me_addr e) mod 4096 = 0" "unat (me_addr e) + unat (me_len e) \<le> 0xFFFFF000"
    using assms(1,3) by (auto simp: entry_in_frames_def entry_usable_def)
  have "unat (ucast (me_addr e) :: u32) = unat (me_addr e)" using a by (simp add: unsigned_ucast_eq take_bit_nat_eq_self)
  moreover have "unat (entry_end e) \<le> 0xFFFFF000" using unat_entry_end [OF assms(4)] al(2) by simp
  then have "unat (ucast (entry_end e) :: u32) \<le> 0xFFFFF000" by (simp add: unsigned_ucast_eq take_bit_nat_eq_self)
  ultimately show ?thesis using al(1) by (simp add: isaligned_nat word_le_nat_alt)
qed

lemma AddMemoryRegions_usable:
  assumes "mb_mmap_addr bi \<noteq> 0"
    and "mmap_list mmap (mb_mmap_addr bi) (mb_mmap_addr bi + mb_mmap_len bi) es"
    and "loader_ok bi mods es kbegin kend" and "\<forall>e \<in> set es. entry_in_frames e"
    and "AddMemoryRegions (Some bi) mmap mods kbegin kend s = Some (st, s')"
  shows "regions_usable (mem_regions s') (mem_regions_idx s')"
proof -
  let ?c = "reserved_chunks bi mods kbegin kend"
  let ?r = "SortReservedChunks ?c (length ?c)"
  let ?s0 = "s\<lparr>mem_regions := (\<lambda>_. zero_region), mem_regions_idx := 0\<rparr>"
  have "set ?r = set ?c" using SortReservedChunks_spec(1) [of ?c] by (metis set_mset_mset)
  then have r: "\<forall>r \<in> set ?r. isaligned (rr_end r) PAGE_SIZE" using reserved_chunks_aligned by auto
  have "all_regions (region_shape (\<lambda>a. isaligned a PAGE_SIZE) 0xFFFFF000) ?s0"
    by (simp add: all_regions_def)
  moreover have "walk_mmap mmap (mb_mmap_addr bi) (mb_mmap_addr bi + mb_mmap_len bi) ?r ?s0 = Some s'"
    using assms(1,5) by (simp add: AddMemoryRegions_def Let_def split: bind_splits)
  moreover have "\<forall>e \<in> set es. entry_addressable e \<and> entry_usable e \<longrightarrow>
      isaligned (ucast (me_addr e)) PAGE_SIZE \<and> ucast (entry_end e) \<le> (0xFFFFF000 :: u32)"
  proof (intro ballI impI)
    fix e assume "e \<in> set es" "entry_addressable e \<and> entry_usable e"
    then show "isaligned (ucast (me_addr e)) PAGE_SIZE \<and> ucast (entry_end e) \<le> (0xFFFFF000 :: u32)"
      using assms(3,4) by (intro entry_in_frames_words) (simp_all add: loader_ok_def)
  qed
  ultimately have "all_regions (region_shape (\<lambda>a. isaligned a PAGE_SIZE) 0xFFFFF000) s'"
    using walk_mmap_shape [OF assms(2)] r by blast
  then show ?thesis by (simp add: all_regions_def region_shape_def regions_usable_def)
qed


definition ex_boot :: "(Status \<times> frame_state) option" where
  "ex_boot = AddMemoryRegions (Some ex_bootinfo) (\<lambda>_. ex_entry) (\<lambda>_. ex_module) 0xC0000000 0xC0010000 one_region"


end
