(* ===== verification/VMM.thy ===== *)
theory VMM
  imports Frames
begin

text \<open>
  The virtual memory manager, \<^verbatim>\<open>src/sys/ddk/ia32/vmm.c\<close>, over a model of the
  memory management unit. Physical memory is \<open>pmem s k i\<close>: the \<open>i\<close>-th 32-bit word of
  frame \<open>k\<close>. Every access of the code to a page directory or page table is an access to a
  virtual address, translated through the tables that \<open>cr3\<close> points at, and faults
  (\<open>None\<close>) when the page is not present or, for a store, not writable (the boot code sets
  CR0.WP). That the recursive mapping makes the addresses 0xFFFFF000 and 0xFFC00000 show the
  current tables is a lemma, not part of the model. There is no translation cache in the
  model, so \<open>invlpg\<close> and \<open>FlushTLB\<close> have no counterpart.
\<close>

section \<open>State\<close>

record vm_state = frame_state +
  pmem :: "nat \<Rightarrow> nat \<Rightarrow> u32"
  cr3 :: u32
  cpuid_features :: u32

abbreviation PAGE_PRESENT :: u32 where "PAGE_PRESENT \<equiv> 0x001"
abbreviation PAGE_RW :: u32 where "PAGE_RW \<equiv> 0x002"
abbreviation PAGE_USER :: u32 where "PAGE_USER \<equiv> 0x004"
abbreviation PAGE_GLOBAL :: u32 where "PAGE_GLOBAL \<equiv> 0x100"

abbreviation KERNEL_VM_FLAGS :: u32 where "KERNEL_VM_FLAGS \<equiv> 3"
abbreviation KERNEL_RO_FLAGS :: u32 where "KERNEL_RO_FLAGS \<equiv> 1"
abbreviation KERNEL_PDE_FLAGS :: u32 where "KERNEL_PDE_FLAGS \<equiv> 3"

abbreviation CURRENT_PAGE_DIRECTORY :: u32 where "CURRENT_PAGE_DIRECTORY \<equiv> 0xFFFFF000"
abbreviation PAGE_TABLE_BASE :: u32 where "PAGE_TABLE_BASE \<equiv> 0xFFC00000"

abbreviation MAX_PD_ENTRIES :: nat where "MAX_PD_ENTRIES \<equiv> 1024"

definition has_flag :: "u32 \<Rightarrow> u32 \<Rightarrow> bool" where
  "has_flag entry flag \<longleftrightarrow> entry AND flag \<noteq> 0"

definition PD_INDEX :: "u32 \<Rightarrow> u32" where
  "PD_INDEX x = drop_bit 22 x AND 0x3FF"

definition PT_INDEX :: "u32 \<Rightarrow> u32" where
  "PT_INDEX x = drop_bit 12 x AND 0x3FF"

definition phys_to_virt :: "u32 \<Rightarrow> u32" where
  "phys_to_virt addr = addr + (KERNEL_VM_BASE - KERNEL_LMA_BASE)"

definition virt_to_phys :: "u32 \<Rightarrow> u32" where
  "virt_to_phys addr = addr - (KERNEL_VM_BASE - KERNEL_LMA_BASE)"

section \<open>The memory management unit\<close>

text \<open>The directory and table entries of a virtual address; \<open>None\<close> is a page fault.\<close>

definition walk :: "'a vm_state_scheme \<Rightarrow> u32 \<Rightarrow> (u32 \<times> u32) option" where
  "walk s va =
     (let pde = pmem s (frame_no (cr3 s)) (unat (PD_INDEX va)) in
      if has_flag pde PAGE_PRESENT then
        let pte = pmem s (frame_no pde) (unat (PT_INDEX va)) in
        if has_flag pte PAGE_PRESENT then Some (pde, pte) else None
      else None)"

definition dword_no :: "u32 \<Rightarrow> nat" where
  "dword_no va = unat va mod 4096 div 4"

definition load32 :: "u32 \<Rightarrow> 'a vm_state_scheme \<Rightarrow> u32 option" where
  "load32 va s = map_option (\<lambda>(pde, pte). pmem s (frame_no pte) (dword_no va)) (walk s va)"

text \<open>The frame a store to a virtual address goes to.\<close>

definition write_frame :: "u32 \<Rightarrow> 'a vm_state_scheme \<Rightarrow> nat option" where
  "write_frame va s =
     (case walk s va of
        None \<Rightarrow> None
      | Some (pde, pte) \<Rightarrow> if has_flag pde PAGE_RW \<and> has_flag pte PAGE_RW then Some (frame_no pte) else None)"

definition poke :: "nat \<Rightarrow> nat \<Rightarrow> u32 \<Rightarrow> 'a vm_state_scheme \<Rightarrow> 'a vm_state_scheme" where
  "poke k i v s = s\<lparr>pmem := (pmem s)(k := (pmem s k)(i := v))\<rparr>"

definition store32 :: "u32 \<Rightarrow> u32 \<Rightarrow> 'a vm_state_scheme \<Rightarrow> 'a vm_state_scheme option" where
  "store32 va v s = map_option (\<lambda>k. poke k (dword_no va) v s) (write_frame va s)"

text \<open>\<open>kzeromem (va, PAGE_SIZE)\<close> for a page aligned address.\<close>

definition zero_page :: "u32 \<Rightarrow> 'a vm_state_scheme \<Rightarrow> 'a vm_state_scheme option" where
  "zero_page va s = map_option (\<lambda>k. s\<lparr>pmem := (pmem s)(k := (\<lambda>_. 0))\<rparr>) (write_frame va s)"

definition SetPageDirectory :: "u32 \<Rightarrow> 'a vm_state_scheme \<Rightarrow> 'a vm_state_scheme" where
  "SetPageDirectory addr s = s\<lparr>cr3 := addr\<rparr>"

definition GetCurrentPageDirectory :: "'a vm_state_scheme \<Rightarrow> u32" where
  "GetCurrentPageDirectory s = cr3 s"

text \<open>The feature bits that the processor reports in EDX of CPUID leaf 1 are part of the state.\<close>

abbreviation X86_PGE :: nat where "X86_PGE \<equiv> 13"

definition x86FeatureSupported :: "nat \<Rightarrow> 'a vm_state_scheme \<Rightarrow> bool" where
  "x86FeatureSupported feat s = IS_SET (cpuid_features s) feat"

section \<open>Operations\<close>

definition GetPageTableAt :: "u32 \<Rightarrow> u32" where
  "GetPageTableAt index = (if index \<ge> 1024 then 0 else PAGE_TABLE_BASE + index * PAGE_SIZE)"

text \<open>Making sure that the page table of an address exists; \<open>Some\<close> status is an early return.\<close>

definition ensure_table :: "u32 \<Rightarrow> u32 \<Rightarrow> 'a vm_state_scheme \<Rightarrow> (Status option \<times> 'a vm_state_scheme) option" where
  "ensure_table pdindex pdflags s = do {
     pde \<leftarrow> load32 (CURRENT_PAGE_DIRECTORY + 4 * pdindex) s;
     if \<not> has_flag pde PAGE_PRESENT then
       let (new_pt_phys, s1) = AllocateFrame s in
       if new_pt_phys = 0 then Some (Some STATUS_OUT_OF_MEMORY, s1)
       else do {
         s2 \<leftarrow> store32 (CURRENT_PAGE_DIRECTORY + 4 * pdindex) (new_pt_phys OR pdflags) s1;
         s3 \<leftarrow> zero_page (GetPageTableAt pdindex) s2;
         Some (None, s3)
       }
     else Some (None, s)
   }"

definition MapSinglePage :: "u32 \<Rightarrow> u32 \<Rightarrow> u32 \<Rightarrow> 'a vm_state_scheme \<Rightarrow> (Status \<times> 'a vm_state_scheme) option" where
  "MapSinglePage phys virt flags s =
     (if virt = 0 \<or> \<not> isaligned phys PAGE_SIZE \<or> \<not> isaligned virt PAGE_SIZE
      then Some (STATUS_BAD_ARGUMENT, s)
      else
        let pdindex = PD_INDEX virt; ptindex = PT_INDEX virt;
            pdflags = (if has_flag flags PAGE_USER then KERNEL_PDE_FLAGS OR PAGE_USER else KERNEL_PDE_FLAGS)
        in do {
          (early, s1) \<leftarrow> ensure_table pdindex pdflags s;
          case early of
            Some st \<Rightarrow> Some (st, s1)
          | None \<Rightarrow> do {
              let pt = GetPageTableAt pdindex;
              pte \<leftarrow> load32 (pt + 4 * ptindex) s1;
              if has_flag pte PAGE_PRESENT then Some (STATUS_RETRY, s1)
              else do {
                s2 \<leftarrow> store32 (pt + 4 * ptindex) (phys OR flags) s1;
                Some (STATUS_OK, s2)
              }
            }
        })"

definition IsVirtualPageMapped :: "u32 \<Rightarrow> 'a vm_state_scheme \<Rightarrow> bool option" where
  "IsVirtualPageMapped addr s = do {
     let pdindex = PD_INDEX addr;
     let ptindex = PT_INDEX addr;
     pde \<leftarrow> load32 (CURRENT_PAGE_DIRECTORY + 4 * pdindex) s;
     if \<not> has_flag pde PAGE_PRESENT then Some False
     else do {
       pte \<leftarrow> load32 (GetPageTableAt pdindex + 4 * ptindex) s;
       Some (has_flag pte PAGE_PRESENT)
     }
   }"

definition ADDRESS_IS_MAPPED :: "u32 \<Rightarrow> 'a vm_state_scheme \<Rightarrow> bool option" where
  "ADDRESS_IS_MAPPED addr s = IsVirtualPageMapped (aligndown addr PAGE_SIZE) s"

definition UnmapSinglePage :: "u32 \<Rightarrow> 'a vm_state_scheme \<Rightarrow> 'a vm_state_scheme option" where
  "UnmapSinglePage virt s = do {
     mapped \<leftarrow> IsVirtualPageMapped virt s;
     if \<not> mapped then Some s
     else do {
       let pdindex = PD_INDEX virt;
       let ptindex = PT_INDEX virt;
       pde \<leftarrow> load32 (CURRENT_PAGE_DIRECTORY + 4 * pdindex) s;
       if \<not> has_flag pde PAGE_PRESENT then Some s
       else do {
         let pt = GetPageTableAt pdindex;
         pte \<leftarrow> load32 (pt + 4 * ptindex) s;
         if \<not> has_flag pte PAGE_PRESENT then Some s
         else store32 (pt + 4 * ptindex) 0 s
       }
     }
   }"

partial_function (option) scan_pages ::
    "u32 \<Rightarrow> u32 \<Rightarrow> u32 \<Rightarrow> u32 \<Rightarrow> u32 \<Rightarrow> 'a vm_state_scheme \<Rightarrow> u32 option" where
  "scan_pages addr stop_scan n_pages start found s =
     (if addr < stop_scan then
        Option.bind (IsVirtualPageMapped addr s) (\<lambda>mapped.
          if \<not> mapped then
            let start' = (if found = 0 then addr else start) in
            if found + 1 = n_pages then Some start'
            else scan_pages (addr + PAGE_SIZE) stop_scan n_pages start' (found + 1) s
          else scan_pages (addr + PAGE_SIZE) stop_scan n_pages start 0 s)
      else Some 0)"

declare scan_pages.simps [code]

definition FindFreePageRange :: "u32 \<Rightarrow> u32 \<Rightarrow> u32 \<Rightarrow> 'a vm_state_scheme \<Rightarrow> u32 option" where
  "FindFreePageRange start_scan stop_scan n_pages s =
     (if start_scan = 0 then Some 0
      else if n_pages = 0 then Some 0
      else scan_pages start_scan stop_scan n_pages 0 0 s)"

function map_range :: "u32 \<Rightarrow> u32 \<Rightarrow> u32 \<Rightarrow> nat \<Rightarrow> nat \<Rightarrow> nat \<Rightarrow> 'a vm_state_scheme \<Rightarrow>
    (nat \<times> 'a vm_state_scheme) option" where
  "map_range phys virt flags n_pages i n s =
     (if i < n_pages then do {
        (st, s1) \<leftarrow> MapSinglePage (phys + of_nat i * PAGE_SIZE) (virt + of_nat i * PAGE_SIZE) flags s;
        map_range phys virt flags n_pages (Suc i) (if st = STATUS_OK then n + 1 else n) s1
      } else Some (n, s))"
  by pat_completeness auto
termination
  by (relation "measure (\<lambda>(phys, virt, flags, n_pages, i, n, s). n_pages - i)") auto

declare map_range.simps [simp del]

definition MapMemoryRange :: "u32 \<Rightarrow> u32 \<Rightarrow> u32 \<Rightarrow> u32 \<Rightarrow> 'a vm_state_scheme \<Rightarrow>
    (u32 \<times> 'a vm_state_scheme) option" where
  "MapMemoryRange phys virt flags n_pages s = do {
     (n, s1) \<leftarrow> map_range phys virt flags (unat n_pages) 0 0 s;
     Some (of_nat n, s1)
   }"

function unmap_range :: "u32 \<Rightarrow> nat \<Rightarrow> nat \<Rightarrow> bool \<Rightarrow> 'a vm_state_scheme \<Rightarrow>
    (bool \<times> 'a vm_state_scheme) option" where
  "unmap_range virt n_pages i any_unmapped s =
     (if i < n_pages then do {
        let target = virt + of_nat i * PAGE_SIZE;
        mapped \<leftarrow> IsVirtualPageMapped target s;
        if \<not> mapped then unmap_range virt n_pages (Suc i) True s
        else do {
          s1 \<leftarrow> UnmapSinglePage target s;
          unmap_range virt n_pages (Suc i) any_unmapped s1
        }
      } else Some (any_unmapped, s))"
  by pat_completeness auto
termination
  by (relation "measure (\<lambda>(virt, n_pages, i, any, s). n_pages - i)") auto

declare unmap_range.simps [simp del]

definition UnmapMemoryRange :: "u32 \<Rightarrow> u32 \<Rightarrow> 'a vm_state_scheme \<Rightarrow> (Status \<times> 'a vm_state_scheme) option" where
  "UnmapMemoryRange virt n_pages s =
     (if \<not> isaligned virt PAGE_SIZE then Some (STATUS_BAD_ARGUMENT, s)
      else do {
        (any_unmapped, s1) \<leftarrow> unmap_range virt (unat n_pages) 0 False s;
        Some (if any_unmapped then STATUS_OUT_OF_BOUNDS else STATUS_OK, s1)
      })"

subsection \<open>Initialisation\<close>

text \<open>
  The linker symbols are arguments (\<open>kbegin\<close> and \<open>kend\<close> for \<^verbatim>\<open>_begin\<close> and
  \<^verbatim>\<open>_end\<close>, then the bounds of .text and .rodata).
\<close>

partial_function (option) fill_kernel ::
    "u32 \<Rightarrow> u32 \<Rightarrow> u32 \<Rightarrow> u32 \<Rightarrow> u32 \<Rightarrow> 'a vm_state_scheme \<Rightarrow> 'a vm_state_scheme option" where
  "fill_kernel pt kbegin kernel_size flagbits i s =
     (if i < kernel_size then
        Option.bind (store32 (pt + 4 * PT_INDEX i) (virt_to_phys (kbegin + i) OR flagbits) s)
          (\<lambda>s1. fill_kernel pt kbegin kernel_size flagbits (i + PAGE_SIZE) s1)
      else Some s)"

declare fill_kernel.simps [code]

partial_function (option) fill_readonly ::
    "u32 \<Rightarrow> u32 \<Rightarrow> u32 \<Rightarrow> u32 \<Rightarrow> 'a vm_state_scheme \<Rightarrow> 'a vm_state_scheme option" where
  "fill_readonly pt upper flagbits_ro i s =
     (if i < upper then
        Option.bind (store32 (pt + 4 * PT_INDEX i) (virt_to_phys i OR flagbits_ro) s)
          (\<lambda>s1. fill_readonly pt upper flagbits_ro (i + PAGE_SIZE) s1)
      else Some s)"

declare fill_readonly.simps [code]

function alloc_kernel_tables :: "u32 \<Rightarrow> nat \<Rightarrow> 'a vm_state_scheme \<Rightarrow> (Status \<times> 'a vm_state_scheme) option" where
  "alloc_kernel_tables pd i s =
     (if i < MAX_PD_ENTRIES - 1 then do {
        pde \<leftarrow> load32 (pd + 4 * of_nat i) s;
        if \<not> has_flag pde PAGE_PRESENT then
          let (ptnext, s1) = AllocateFrame s in
          if ptnext = 0 then Some (STATUS_OUT_OF_MEMORY, s1)
          else do {
            s2 \<leftarrow> zero_page ptnext s1;
            s3 \<leftarrow> store32 (pd + 4 * of_nat i) (ptnext OR KERNEL_PDE_FLAGS) s2;
            alloc_kernel_tables pd (Suc i) s3
          }
        else alloc_kernel_tables pd (Suc i) s
      } else Some (STATUS_OK, s))"
  by pat_completeness auto
termination
  by (relation "measure (\<lambda>(pd, i, s). MAX_PD_ENTRIES - i)") auto

declare alloc_kernel_tables.simps [simp del]

definition InitVirtualMemoryManager ::
    "u32 \<Rightarrow> u32 \<Rightarrow> u32 \<Rightarrow> u32 \<Rightarrow> u32 \<Rightarrow> u32 \<Rightarrow> 'a vm_state_scheme \<Rightarrow> (Status \<times> 'a vm_state_scheme) option" where
  "InitVirtualMemoryManager kbegin kend text_start text_end rodata_start rodata_end s =
     (let kernel_size = pagealign (kend - kbegin);
          pge = x86FeatureSupported X86_PGE s;
          (pd, s1) = AllocateLowMemory s;
          (pt, s2) = AllocateLowMemory s1
      in if pd = 0 \<or> pt = 0 then Some (STATUS_OUT_OF_MEMORY, s2)
         else do {
           s3 \<leftarrow> zero_page pd s2;
           s4 \<leftarrow> zero_page pt s3;
           let flagbits = (if pge then KERNEL_VM_FLAGS OR PAGE_GLOBAL else KERNEL_VM_FLAGS);
           let flagbits_ro = (if pge then KERNEL_RO_FLAGS OR PAGE_GLOBAL else KERNEL_RO_FLAGS);
           s5 \<leftarrow> fill_kernel pt kbegin kernel_size flagbits 0 s4;
           (st, s6) \<leftarrow> alloc_kernel_tables pd (unat (PD_INDEX KERNEL_VM_BASE)) s5;
           if st \<noteq> STATUS_OK then Some (st, s6)
           else do {
             s7 \<leftarrow> fill_readonly pt text_end flagbits_ro text_start s6;
             s8 \<leftarrow> fill_readonly pt rodata_end flagbits_ro rodata_start s7;
             s9 \<leftarrow> store32 (pd + 4 * PD_INDEX KERNEL_VM_BASE) (pt OR KERNEL_PDE_FLAGS) s8;
             s10 \<leftarrow> store32 (pd + 4 * of_nat (MAX_PD_ENTRIES - 1)) (pd OR KERNEL_PDE_FLAGS) s9;
             Some (STATUS_OK, SetPageDirectory pd s10)
           }
         })"

section \<open>Addresses, indices and entries\<close>

lemma unat_mask: "unat (x AND 0x3FF :: u32) = unat x mod 1024"
proof -
  have "(0x3FF :: u32) = mask 10" by (simp add: mask_eq_exp_minus_1)
  then have "x AND 0x3FF = take_bit 10 x" by (metis take_bit_eq_mask)
  then show ?thesis by (simp add: take_bit_eq_mod unat_mod)
qed

lemma unat_PD_INDEX: "unat (PD_INDEX x) = unat x div 4194304"
proof -
  have "unat x div 4194304 < 1024" by (simp add: less_mult_imp_div_less)
  then show ?thesis by (simp add: PD_INDEX_def unat_mask drop_bit_eq_div unat_div)
qed

lemma unat_PT_INDEX: "unat (PT_INDEX x) = unat x div 4096 mod 1024"
  by (simp add: PT_INDEX_def unat_mask drop_bit_eq_div unat_div)

lemma PD_INDEX_less [simp]: "unat (PD_INDEX x) < 1024"
  by (simp add: unat_PD_INDEX less_mult_imp_div_less)

lemma PT_INDEX_less [simp]: "unat (PT_INDEX x) < 1024"
  by (simp add: unat_PT_INDEX)

lemma frame_no_drop_bit: "frame_no a = unat (drop_bit 12 a)"
  by (simp add: frame_no_nat drop_bit_eq_div unat_div)

lemma aligned_bits: "isaligned a PAGE_SIZE \<longleftrightarrow> take_bit 12 a = 0"
proof -
  have "unat (take_bit 12 a) = unat a mod 4096" by (simp add: take_bit_eq_mod unat_mod)
  then show ?thesis unfolding isaligned_nat by (metis unat_eq_0)
qed

lemma small_flags: "f < 0x1000 \<Longrightarrow> drop_bit 12 (f :: u32) = 0"
proof -
  assume "f < 0x1000"
  then have "unat f < 4096" by (simp add: word_less_nat_alt)
  then have "unat (drop_bit 12 f) = 0" by (simp add: drop_bit_eq_div unat_div)
  then show ?thesis by (simp only: unat_eq_0)
qed

lemma frame_no_entry [simp]: "f < 0x1000 \<Longrightarrow> frame_no (a OR f) = frame_no a"
  by (simp add: frame_no_drop_bit drop_bit_or small_flags)

lemma has_flag_present: "has_flag x PAGE_PRESENT \<longleftrightarrow> bit x 0"
  using IS_SET_bit [of 0 x] by (simp add: has_flag_def IS_SET_def)

lemma has_flag_rw: "has_flag x PAGE_RW \<longleftrightarrow> bit x 1"
proof -
  have "push_bit 1 (1 :: u32) = 2" by simp
  then show ?thesis using IS_SET_bit [of 1 x] by (simp add: has_flag_def IS_SET_def)
qed

lemma has_flag_0 [simp]: "\<not> has_flag 0 f"
  by (simp add: has_flag_def)

lemma has_flag_entry:
  assumes "isaligned a PAGE_SIZE"
  shows "has_flag (a OR f) PAGE_PRESENT \<longleftrightarrow> has_flag f PAGE_PRESENT"
    and "has_flag (a OR f) PAGE_RW \<longleftrightarrow> has_flag f PAGE_RW"
proof -
  have "\<not> bit (take_bit 12 a) n" for n using assms by (simp add: aligned_bits)
  then have "n < 12 \<longrightarrow> \<not> bit a n" for n by (simp add: bit_take_bit_iff)
  then show "has_flag (a OR f) PAGE_PRESENT \<longleftrightarrow> has_flag f PAGE_PRESENT"
    and "has_flag (a OR f) PAGE_RW \<longleftrightarrow> has_flag f PAGE_RW"
    by (simp_all add: has_flag_present has_flag_rw bit_or_iff)
qed

lemma pde_flags [simp]:
  "has_flag 3 PAGE_PRESENT" "has_flag 3 PAGE_RW" "has_flag 7 PAGE_PRESENT" "has_flag 7 PAGE_RW"
  "KERNEL_PDE_FLAGS OR PAGE_USER = 7"
  by (simp_all add: has_flag_def)

text \<open>The addresses at which the recursive mapping shows the tables.\<close>

lemma pd_slot_addr:
  assumes "unat i < 1024"
  shows "unat (PD_INDEX (CURRENT_PAGE_DIRECTORY + 4 * i)) = 1023"
    and "unat (PT_INDEX (CURRENT_PAGE_DIRECTORY + 4 * i)) = 1023"
    and "dword_no (CURRENT_PAGE_DIRECTORY + 4 * i) = unat i"
proof -
  have "unat (4 * i) = 4 * unat i" using assms by (simp add: unat_word_ariths)
  then have "unat (CURRENT_PAGE_DIRECTORY + 4 * i) = 0xFFFFF000 + 4 * unat i"
    using assms by (simp add: unat_plus_no_wrap)
  moreover have "(0xFFFFF000 + 4 * unat i) div 4096 = 0xFFFFF"
    "(0xFFFFF000 + 4 * unat i) div 4194304 = 1023" using assms by simp_all
  moreover have "(0xFFFFF000 + 4 * unat i) mod 4096 = 4 * unat i"
    using assms by (subst mod_drop_base) simp_all
  ultimately show "unat (PD_INDEX (CURRENT_PAGE_DIRECTORY + 4 * i)) = 1023"
    and "unat (PT_INDEX (CURRENT_PAGE_DIRECTORY + 4 * i)) = 1023"
    and "dword_no (CURRENT_PAGE_DIRECTORY + 4 * i) = unat i"
    by (simp_all only: unat_PD_INDEX unat_PT_INDEX dword_no_def) simp_all
qed

lemma pt_slot_addr:
  assumes "unat i < 1024" and "unat j < 1024"
  shows "unat (PD_INDEX (GetPageTableAt i + 4 * j)) = 1023"
    and "unat (PT_INDEX (GetPageTableAt i + 4 * j)) = unat i"
    and "dword_no (GetPageTableAt i + 4 * j) = unat j"
proof -
  have "unat (4 * j) = 4 * unat j" "unat (i * PAGE_SIZE) = unat i * 4096"
    using assms by (simp_all add: unat_word_ariths)
  moreover from this have "unat (PAGE_TABLE_BASE + i * PAGE_SIZE) = 0xFFC00000 + unat i * 4096"
    using assms by (simp add: unat_plus_no_wrap)
  moreover have "\<not> 1024 \<le> i" using assms(1) by (simp add: word_le_nat_alt)
  ultimately have *: "unat (GetPageTableAt i + 4 * j) = 0xFFC00000 + unat i * 4096 + 4 * unat j"
    using assms by (simp add: GetPageTableAt_def unat_plus_no_wrap)
  have "(0xFFC00000 + unat i * 4096 + 4 * unat j) div 4096 = 0xFFC00 + unat i"
    using assms(2) by simp
  moreover have "(1047552 + unat i) mod 1024 = unat i"
    using assms(1) by (subst mod_drop_base) simp_all
  ultimately show "unat (PT_INDEX (GetPageTableAt i + 4 * j)) = unat i"
    using * by (simp add: unat_PT_INDEX)
  from * assms show "unat (PD_INDEX (GetPageTableAt i + 4 * j)) = 1023"
    by (simp add: unat_PD_INDEX)
  have "(0xFFC00000 + unat i * 4096 + 4 * unat j) mod 4096 = 4 * unat j"
    using assms(2) by (subst mod_drop_base) (simp_all add: dvd_add)
  with * show "dword_no (GetPageTableAt i + 4 * j) = unat j" by (simp add: dword_no_def)
qed

section \<open>The address space\<close>

definition pd_frame :: "'a vm_state_scheme \<Rightarrow> nat" where
  "pd_frame s = frame_no (cr3 s)"

definition pde :: "'a vm_state_scheme \<Rightarrow> nat \<Rightarrow> u32" where
  "pde s i = pmem s (pd_frame s) i"

definition pt_frame :: "'a vm_state_scheme \<Rightarrow> nat \<Rightarrow> nat" where
  "pt_frame s i = frame_no (pde s i)"

definition pd_present :: "'a vm_state_scheme \<Rightarrow> nat \<Rightarrow> bool" where
  "pd_present s i \<longleftrightarrow> has_flag (pde s i) PAGE_PRESENT"

definition pd_writable :: "'a vm_state_scheme \<Rightarrow> nat \<Rightarrow> bool" where
  "pd_writable s i \<longleftrightarrow> has_flag (pde s i) PAGE_RW"

text \<open>
  The invariant of the current address space: the last directory entry maps the directory
  itself, every table has a frame of its own, and the frames of the directory and the tables
  are reserved in the frame manager.
\<close>

definition vm_inv :: "'a vm_state_scheme \<Rightarrow> bool" where
  "vm_inv s \<longleftrightarrow> frames_inv s \<and> \<not> frame_free s (pd_frame s) \<and>
     pt_frame s 1023 = pd_frame s \<and> pd_present s 1023 \<and> pd_writable s 1023 \<and>
     (\<forall>i < 1023. pd_present s i \<longrightarrow>
        pd_writable s i \<and> pt_frame s i \<noteq> pd_frame s \<and> \<not> frame_free s (pt_frame s i)) \<and>
     (\<forall>i < 1023. \<forall>j < 1023. pd_present s i \<and> pd_present s j \<and> pt_frame s i = pt_frame s j \<longrightarrow> i = j)"

text \<open>
  What the address space means: the entry that each page number below the recursive window
  (the last 4 MiB) is mapped by.
\<close>

abbreviation WINDOW_PAGE :: nat where "WINDOW_PAGE \<equiv> 1047552"

definition vmap :: "'a vm_state_scheme \<Rightarrow> nat \<rightharpoonup> u32" where
  "vmap s p =
     (if p < WINDOW_PAGE \<and> pd_present s (p div 1024) \<and>
         has_flag (pmem s (pt_frame s (p div 1024)) (p mod 1024)) PAGE_PRESENT
      then Some (pmem s (pt_frame s (p div 1024)) (p mod 1024)) else None)"

abbreviation page_no :: "u32 \<Rightarrow> nat" where "page_no \<equiv> frame_no"

lemma PD_INDEX_page: "unat (PD_INDEX va) = page_no va div 1024"
  by (simp add: unat_PD_INDEX frame_no_nat div_mult2_eq [symmetric])

lemma PT_INDEX_page: "unat (PT_INDEX va) = page_no va mod 1024"
  by (simp add: unat_PT_INDEX frame_no_nat)

lemma below_window:
  "va < PAGE_TABLE_BASE \<Longrightarrow> page_no va < WINDOW_PAGE"
  "va < PAGE_TABLE_BASE \<Longrightarrow> unat (PD_INDEX va) < 1023"
  by (simp_all add: word_less_nat_alt frame_no_nat unat_PD_INDEX less_mult_imp_div_less)

subsection \<open>The recursive mapping\<close>

lemma vm_invD:
  assumes "vm_inv s"
  shows "frames_inv s" "\<not> frame_free s (pd_frame s)" "pt_frame s 1023 = pd_frame s"
    "pd_present s 1023" "pd_writable s 1023"
    "\<And>i. i < 1023 \<Longrightarrow> pd_present s i \<Longrightarrow> pt_frame s i \<noteq> pd_frame s"
    "\<And>i. i < 1023 \<Longrightarrow> pd_present s i \<Longrightarrow> \<not> frame_free s (pt_frame s i)"
    "\<And>i j. i < 1023 \<Longrightarrow> j < 1023 \<Longrightarrow> pd_present s i \<Longrightarrow> pd_present s j \<Longrightarrow> pt_frame s i = pt_frame s j \<Longrightarrow> i = j"
    "\<And>i. i < 1024 \<Longrightarrow> pd_present s i \<Longrightarrow> pd_writable s i"
proof -
  show "pd_writable s i" if "i < 1024" "pd_present s i" for i
  proof -
    have "i < 1023 \<or> i = 1023" using that(1) by linarith
    with assms that(2) show ?thesis unfolding vm_inv_def by blast
  qed
qed (use assms in \<open>simp_all add: vm_inv_def\<close>)

lemma walk_pd:
  assumes "vm_inv s" and "unat i < 1024"
  shows "walk s (CURRENT_PAGE_DIRECTORY + 4 * i) = Some (pde s 1023, pde s 1023)"
  using vm_invD(3,4) [OF assms(1)] pd_slot_addr [OF assms(2)]
  by (simp add: walk_def Let_def pd_frame_def pde_def pd_present_def pt_frame_def)

lemma walk_pt:
  assumes "vm_inv s" and "unat i < 1024" and "unat j < 1024" and "pd_present s (unat i)"
  shows "walk s (GetPageTableAt i + 4 * j) = Some (pde s 1023, pde s (unat i))"
  using vm_invD(3,4) [OF assms(1)] pt_slot_addr [OF assms(2,3)] assms(4)
  by (simp add: walk_def Let_def pd_frame_def pde_def pd_present_def pt_frame_def)

lemma load_pd [simp]:
  assumes "vm_inv s" and "unat i < 1024"
  shows "load32 (CURRENT_PAGE_DIRECTORY + 4 * i) s = Some (pde s (unat i))"
  using walk_pd [OF assms] pd_slot_addr(3) [OF assms(2)] vm_invD(3) [OF assms(1)]
  by (simp add: load32_def pde_def pt_frame_def)

lemma load_pt [simp]:
  assumes "vm_inv s" and "unat i < 1024" and "unat j < 1024" and "pd_present s (unat i)"
  shows "load32 (GetPageTableAt i + 4 * j) s = Some (pmem s (pt_frame s (unat i)) (unat j))"
  using walk_pt [OF assms] pt_slot_addr(3) [OF assms(2,3)]
  by (simp add: load32_def pt_frame_def)

lemma store_pd [simp]:
  assumes "vm_inv s" and "unat i < 1024"
  shows "store32 (CURRENT_PAGE_DIRECTORY + 4 * i) v s = Some (poke (pd_frame s) (unat i) v s)"
  using walk_pd [OF assms] pd_slot_addr(3) [OF assms(2)] vm_invD(3,5) [OF assms(1)]
  by (simp add: store32_def write_frame_def pt_frame_def pd_writable_def)

lemma write_frame_pt:
  assumes "vm_inv s" and "unat i < 1024" and "unat j < 1024" and "pd_present s (unat i)"
  shows "write_frame (GetPageTableAt i + 4 * j) s = Some (pt_frame s (unat i))"
  using walk_pt [OF assms] vm_invD(5) [OF assms(1)] vm_invD(9) [OF assms(1,2,4)]
  by (simp add: write_frame_def pt_frame_def pd_writable_def)

lemma store_pt [simp]:
  assumes "vm_inv s" and "unat i < 1024" and "unat j < 1024" and "pd_present s (unat i)"
  shows "store32 (GetPageTableAt i + 4 * j) v s = Some (poke (pt_frame s (unat i)) (unat j) v s)"
  using write_frame_pt [OF assms] pt_slot_addr(3) [OF assms(2,3)] by (simp add: store32_def)

lemma zero_pt [simp]:
  assumes "vm_inv s" and "unat i < 1024" and "pd_present s (unat i)"
  shows "zero_page (GetPageTableAt i) s = Some (s\<lparr>pmem := (pmem s)(pt_frame s (unat i) := (\<lambda>_. 0))\<rparr>)"
  using write_frame_pt [OF assms(1,2) _ assms(3), of 0] by (simp add: zero_page_def)

subsection \<open>Framing\<close>

lemma poke_simps [simp]:
  "cr3 (poke k i v s) = cr3 s" "bitmap (poke k i v s) = bitmap s" "highest_addr (poke k i v s) = highest_addr s"
  "pmem (poke k i v s) = (pmem s)(k := (pmem s k)(i := v))" "pd_frame (poke k i v s) = pd_frame s"
  by (simp_all add: poke_def pd_frame_def)

lemma frame_free_vm [simp]:
  "frame_free (s\<lparr>pmem := m\<rparr>) k = frame_free s k" "frames_inv (s\<lparr>pmem := m\<rparr>) = frames_inv s"
  "frame_free (poke j i v s) k = frame_free s k" "frames_inv (poke j i v s) = frames_inv s"
  by (simp_all add: frame_free_def frames_inv_def poke_def)

lemma MarkFrameReserved_vm [simp]:
  "pmem (MarkFrameReserved a s) = pmem s" "cr3 (MarkFrameReserved a s) = cr3 s"
  by (simp_all add: MarkFrameReserved_def)

lemma MarkFrameAvailable_vm [simp]:
  "pmem (MarkFrameAvailable a s) = pmem s" "cr3 (MarkFrameAvailable a s) = cr3 s"
  by (simp_all add: MarkFrameAvailable_def)

text \<open>The frames of the directory and of the tables.\<close>

definition table_frame :: "'a vm_state_scheme \<Rightarrow> nat \<Rightarrow> bool" where
  "table_frame s k \<longleftrightarrow> k = pd_frame s \<or> (\<exists>i < 1023. pd_present s i \<and> k = pt_frame s i)"

lemma pde_cong: "cr3 s' = cr3 s \<Longrightarrow> pmem s' (pd_frame s) = pmem s (pd_frame s) \<Longrightarrow>
    pd_frame s' = pd_frame s \<and> pde s' = pde s \<and> pt_frame s' = pt_frame s \<and> pd_present s' = pd_present s \<and>
    pd_writable s' = pd_writable s"
  by (simp add: fun_eq_iff pd_frame_def pde_def pt_frame_def pd_present_def pd_writable_def)

lemma vm_inv_cong:
  assumes "vm_inv s" and "cr3 s' = cr3 s" and "pmem s' (pd_frame s) = pmem s (pd_frame s)"
    and "frames_inv s'" and "\<And>k. frame_free s' k \<Longrightarrow> frame_free s k \<or> \<not> table_frame s k"
  shows "vm_inv s'"
  using assms(1,4,5) pde_cong [OF assms(2,3)] unfolding vm_inv_def table_frame_def by metis

lemma vmap_cong:
  assumes "cr3 s' = cr3 s" and "\<And>k. table_frame s k \<Longrightarrow> pmem s' k = pmem s k"
  shows "vmap s' = vmap s"
proof -
  have "pmem s' (pd_frame s) = pmem s (pd_frame s)" using assms(2) by (simp add: table_frame_def)
  note c = pde_cong [OF assms(1) this]
  have "pmem s' (pt_frame s (p div 1024)) = pmem s (pt_frame s (p div 1024))"
    if "pd_present s (p div 1024)" "p < WINDOW_PAGE" for p
  proof (rule assms(2))
    have "p div 1024 < 1023" using that(2) by (simp add: less_mult_imp_div_less)
    with that(1) show "table_frame s (pt_frame s (p div 1024))" unfolding table_frame_def by blast
  qed
  with c show ?thesis by (auto simp: vmap_def fun_eq_iff)
qed

lemma vm_inv_reserve: "vm_inv s \<Longrightarrow> vm_inv (MarkFrameReserved a s)"
  by (rule vm_inv_cong [of s]) (simp_all add: vm_invD(1) frames_inv_reserved)

lemma vmap_reserve [simp]: "vmap (MarkFrameReserved a s) = vmap s"
  by (rule vmap_cong) simp_all

lemma vmap_FreeFrame [simp]: "vmap (FreeFrame a s) = vmap s"
  by (rule vmap_cong) (simp_all add: FreeFrame_def)

lemma FreeFrame_only: "frame_free (FreeFrame a s) k \<Longrightarrow> frame_free s k \<or> k = frame_no a"
  by (auto simp: FreeFrame_def MarkFrameAvailable_def frame_free_def bm_simps split: if_splits)

lemma vm_inv_FreeFrame:
  assumes "vm_inv s" and "isaligned a FRAME_SIZE" and "\<not> table_frame s (frame_no a)"
  shows "vm_inv (FreeFrame a s)"
proof (rule vm_inv_cong [OF assms(1)])
  show "cr3 (FreeFrame a s) = cr3 s" "pmem (FreeFrame a s) (pd_frame s) = pmem s (pd_frame s)"
    by (simp_all add: FreeFrame_def)
  show "frames_inv (FreeFrame a s)"
    using vm_invD(1) [OF assms(1)] assms(2) by (simp add: FreeFrame_def frames_inv_available)
  show "frame_free s k \<or> \<not> table_frame s k" if "frame_free (FreeFrame a s) k" for k
    using FreeFrame_only [OF that] assms(3) by auto
qed

lemma table_frame_reserved: "vm_inv s \<Longrightarrow> table_frame s k \<Longrightarrow> \<not> frame_free s k"
  by (auto simp: table_frame_def dest: vm_invD)

subsection \<open>A new page table\<close>

text \<open>Hanging an empty table, in a frame that was free, into the directory.\<close>

definition add_table :: "nat \<Rightarrow> nat \<Rightarrow> u32 \<Rightarrow> 'a vm_state_scheme \<Rightarrow> 'a vm_state_scheme" where
  "add_table i k flags s = poke (pd_frame s) i (frame_addr k OR flags) (MarkFrameReserved (frame_addr k) s)"

lemma add_table_pde:
  assumes "k < FRAME_COUNT" and "flags < 0x1000" and "has_flag flags PAGE_PRESENT" and "has_flag flags PAGE_RW"
  shows "pd_frame (add_table i k flags s) = pd_frame s"
    and "pd_present (add_table i k flags s) j \<longleftrightarrow> j = i \<or> pd_present s j"
    and "pd_writable (add_table i k flags s) j \<longleftrightarrow> j = i \<or> pd_writable s j"
    and "pt_frame (add_table i k flags s) j = (if j = i then k else pt_frame s j)"
  using assms has_flag_entry [OF isaligned_frame_addr [OF assms(1)]]
  by (simp_all add: add_table_def pd_frame_def pde_def pd_present_def pd_writable_def pt_frame_def)

lemma frame_free_add_table [simp]:
  "k < FRAME_COUNT \<Longrightarrow> frame_free (add_table i k flags s) j \<longleftrightarrow> frame_free s j \<and> j \<noteq> k"
  by (simp add: add_table_def)

lemma vm_inv_add_table:
  assumes "vm_inv s" and "i < 1023" and "\<not> pd_present s i" and "frame_free s k"
    and "flags < 0x1000" and "has_flag flags PAGE_PRESENT" and "has_flag flags PAGE_RW"
  shows "vm_inv (add_table i k flags s)"
proof -
  have k: "k < FRAME_COUNT" using assms(4) by (simp add: frame_free_def)
  note t = add_table_pde [OF k assms(5-7), of i s]
  note d = vm_invD [OF assms(1)]
  have new: "k \<noteq> pd_frame s" "\<And>j. j < 1023 \<Longrightarrow> pd_present s j \<Longrightarrow> pt_frame s j \<noteq> k"
    using d(2,7) assms(4) by auto
  have "frames_inv (add_table i k flags s)" using d(1) by (simp add: add_table_def frames_inv_reserved)
  with new t d assms(2,3) k show ?thesis unfolding vm_inv_def t by (simp add: frame_free_add_table [OF k] del: frame_free_add_table) blast
qed

definition empty_table :: "nat \<Rightarrow> nat \<Rightarrow> u32 \<Rightarrow> 'a vm_state_scheme \<Rightarrow> 'a vm_state_scheme" where
  "empty_table i k flags s =
     (add_table i k flags s)\<lparr>pmem := (pmem (add_table i k flags s))(k := (\<lambda>_. 0))\<rparr>"

lemma empty_table_spec:
  assumes "vm_inv s" and "i < 1023" and "\<not> pd_present s i" and "frame_free s k"
    and "flags < 0x1000" and "has_flag flags PAGE_PRESENT" and "has_flag flags PAGE_RW"
  shows "vm_inv (empty_table i k flags s)" and "vmap (empty_table i k flags s) = vmap s"
    and "pd_present (empty_table i k flags s) j \<longleftrightarrow> j = i \<or> pd_present s j"
    and "pt_frame (empty_table i k flags s) j = (if j = i then k else pt_frame s j)"
    and "frame_free (empty_table i k flags s) j \<longleftrightarrow> frame_free s j \<and> j \<noteq> k"
    and "pmem (empty_table i k flags s) j =
           (if j = k then (\<lambda>_. 0) else if j = pd_frame s then (pmem s j)(i := frame_addr k OR flags) else pmem s j)"
    and "pd_frame (empty_table i k flags s) = pd_frame s"
proof -
  have k: "k < FRAME_COUNT" using assms(4) by (simp add: frame_free_def)
  note t = add_table_pde [OF k assms(5-7), of i s]
  have new: "k \<noteq> pd_frame s" "\<And>j. j < 1023 \<Longrightarrow> pd_present s j \<Longrightarrow> pt_frame s j \<noteq> k"
    using vm_invD(2,7) [OF assms(1)] assms(4) by auto
  have inv: "vm_inv (add_table i k flags s)" using assms by (rule vm_inv_add_table)
  have c: "cr3 (empty_table i k flags s) = cr3 (add_table i k flags s)"
    "pmem (empty_table i k flags s) (pd_frame (add_table i k flags s)) =
       pmem (add_table i k flags s) (pd_frame (add_table i k flags s))"
    using new(1) t(1) by (simp_all add: empty_table_def)
  note e = pde_cong [OF c]
  show "vm_inv (empty_table i k flags s)"
    using inv c by (rule vm_inv_cong) (simp_all add: empty_table_def vm_invD(1) [OF inv])
  show "pd_present (empty_table i k flags s) j \<longleftrightarrow> j = i \<or> pd_present s j"
    and p: "pt_frame (empty_table i k flags s) j = (if j = i then k else pt_frame s j)" for j
    using e t by simp_all
  show "frame_free (empty_table i k flags s) j \<longleftrightarrow> frame_free s j \<and> j \<noteq> k"
    using k by (simp add: empty_table_def)
  show m: "pmem (empty_table i k flags s) j =
      (if j = k then (\<lambda>_. 0) else if j = pd_frame s then (pmem s j)(i := frame_addr k OR flags) else pmem s j)" for j
    using new(1) by (simp add: empty_table_def add_table_def)
  show "pd_frame (empty_table i k flags s) = pd_frame s" using e t by simp
  show "vmap (empty_table i k flags s) = vmap s"
  proof
    fix p
    let ?e = "empty_table i k flags s"
    have q: "p < WINDOW_PAGE \<Longrightarrow> p div 1024 < 1023" by (simp add: less_mult_imp_div_less)
    have p': "pt_frame ?e (p div 1024) = (if p div 1024 = i then k else pt_frame s (p div 1024))"
      "pd_present ?e (p div 1024) \<longleftrightarrow> p div 1024 = i \<or> pd_present s (p div 1024)" using e t by simp_all
    consider (win) "\<not> p < WINDOW_PAGE" | (this) "p div 1024 = i"
      | (absent) "p div 1024 \<noteq> i" "\<not> pd_present s (p div 1024)"
      | (other) "p < WINDOW_PAGE" "p div 1024 \<noteq> i" "pd_present s (p div 1024)" by blast
    then show "vmap ?e p = vmap s p"
    proof cases
      case other
      with q new(2) vm_invD(6) [OF assms(1)] m [of "pt_frame s (p div 1024)"]
      have "pmem ?e (pt_frame s (p div 1024)) = pmem s (pt_frame s (p div 1024))" by simp
      with other p' show ?thesis by (simp add: vmap_def)
    qed (use p' m [of k] assms(3) in \<open>simp_all add: vmap_def\<close>)
  qed
qed

lemma ensure_table_cases:
  assumes "vm_inv s" and "unat i < 1023"
    and "flags < 0x1000" and "has_flag flags PAGE_PRESENT" and "has_flag flags PAGE_RW"
  obtains (old) "pd_present s (unat i)" "ensure_table i flags s = Some (None, s)"
    | (full) "\<not> pd_present s (unat i)" "ensure_table i flags s = Some (Some STATUS_OUT_OF_MEMORY, s)"
        "\<And>k. 256 \<le> k \<Longrightarrow> \<not> frame_free s k"
    | (new) k where "\<not> pd_present s (unat i)" "frame_free s k"
        "ensure_table i flags s = Some (None, empty_table (unat i) k flags s)"
proof -
  have i: "unat i < 1024" using assms(2) by simp
  have ld: "load32 (CURRENT_PAGE_DIRECTORY + 4 * i) s = Some (pde s (unat i))" using assms(1) i by simp
  show thesis
  proof (cases "pd_present s (unat i)")
    case True
    then show thesis using ld old by (simp add: ensure_table_def pd_present_def)
  next
    case False
    show thesis
    proof (cases rule: AllocateFrame_cases [OF vm_invD(1) [OF assms(1)]])
      case (1 k s')
      let ?s2 = "add_table (unat i) k flags s"
      have k: "k < FRAME_COUNT" using 1(3) by (simp add: frame_free_def)
      have st: "store32 (CURRENT_PAGE_DIRECTORY + 4 * i) (frame_addr k OR flags) s' = Some ?s2"
        using store_pd [OF vm_inv_reserve [OF assms(1), of "frame_addr k"] i] 1(5)
        by (simp add: add_table_def pd_frame_def)
      have "pd_present ?s2 (unat i)" "pt_frame ?s2 (unat i) = k"
        using add_table_pde [OF k assms(3-5), of "unat i" s] by simp_all
      with zero_pt [OF vm_inv_add_table [OF assms(1,2) False 1(3) assms(3-5)] i]
      have z: "zero_page (GetPageTableAt i) ?s2 = Some (empty_table (unat i) k flags s)"
        by (simp add: empty_table_def)
      have "ensure_table i flags s = Some (None, empty_table (unat i) k flags s)"
        using ld False 1(1,6) st z by (simp add: ensure_table_def pd_present_def)
      with False 1(3) show thesis by (rule new)
    next
      case 2
      then show thesis using ld False full by (simp add: ensure_table_def pd_present_def)
    qed
  qed
qed

subsection \<open>Writing an entry\<close>

lemma set_pte:
  assumes "vm_inv s" and "i < 1023" and "pd_present s i" and "j < 1024"
  shows "vm_inv (poke (pt_frame s i) j v s)"
    and "vmap (poke (pt_frame s i) j v s) =
           (vmap s)(i * 1024 + j := if has_flag v PAGE_PRESENT then Some v else None)"
proof -
  let ?s = "poke (pt_frame s i) j v s"
  note d = vm_invD [OF assms(1)]
  have ne: "pt_frame s i \<noteq> pd_frame s" using d(6) assms(2,3) by simp
  then have c: "cr3 ?s = cr3 s" "pmem ?s (pd_frame s) = pmem s (pd_frame s)" by auto
  note e = pde_cong [OF c]
  show "vm_inv ?s" using assms(1) c by (rule vm_inv_cong) (simp_all add: d(1))
  show "vmap ?s = (vmap s)(i * 1024 + j := if has_flag v PAGE_PRESENT then Some v else None)"
  proof
    fix p
    have q: "p < WINDOW_PAGE \<Longrightarrow> p div 1024 < 1023" by (simp add: less_mult_imp_div_less)
    have ij: "i * 1024 + j < WINDOW_PAGE" "(i * 1024 + j) div 1024 = i" "(i * 1024 + j) mod 1024 = j"
      using assms(2,4) by auto
    have ij': "p = i * 1024 + j" if "p div 1024 = i" "p mod 1024 = j" using that by auto
    consider (hit) "p = i * 1024 + j" | (win) "p \<noteq> i * 1024 + j" "\<not> p < WINDOW_PAGE"
      | (same) "p \<noteq> i * 1024 + j" "p div 1024 = i"
      | (absent) "p \<noteq> i * 1024 + j" "p < WINDOW_PAGE" "p div 1024 \<noteq> i" "\<not> pd_present s (p div 1024)"
      | (other) "p < WINDOW_PAGE" "p div 1024 \<noteq> i" "pd_present s (p div 1024)" "p \<noteq> i * 1024 + j" by blast
    then show "vmap ?s p = ((vmap s)(i * 1024 + j := if has_flag v PAGE_PRESENT then Some v else None)) p"
    proof cases
      case hit
      with ij e assms(3) show ?thesis by (simp add: vmap_def)
    next
      case same
      with ij' have "p mod 1024 \<noteq> j" by auto
      with same e assms(3) show ?thesis by (simp add: vmap_def)
    next
      case other
      with d(8) q assms(2,3) have "pt_frame s (p div 1024) \<noteq> pt_frame s i" by blast
      with other e show ?thesis by (simp add: vmap_def)
    qed (use e in \<open>simp_all add: vmap_def\<close>)
  qed
qed

lemma page_split: "unat (PD_INDEX va) * 1024 + unat (PT_INDEX va) = page_no va"
  by (simp add: PD_INDEX_page PT_INDEX_page)

lemma vmap_entry:
  assumes "va < PAGE_TABLE_BASE"
  shows "vmap s (page_no va) =
    (let e = pmem s (pt_frame s (unat (PD_INDEX va))) (unat (PT_INDEX va)) in
     if pd_present s (unat (PD_INDEX va)) \<and> has_flag e PAGE_PRESENT then Some e else None)"
  using below_window [OF assms] by (simp add: vmap_def Let_def PD_INDEX_page PT_INDEX_page)

lemma IsVirtualPageMapped_vmap:
  assumes "vm_inv s" and "va < PAGE_TABLE_BASE"
  shows "IsVirtualPageMapped va s = Some (vmap s (page_no va) \<noteq> None)"
proof (cases "pd_present s (unat (PD_INDEX va))")
  case True
  then show ?thesis using assms
    by (simp add: IsVirtualPageMapped_def vmap_entry Let_def) (simp add: pd_present_def)
next
  case False
  then show ?thesis using assms
    by (simp add: IsVirtualPageMapped_def vmap_entry Let_def) (simp add: pd_present_def)
qed

text \<open>Asking whether a page is mapped never faults, whatever the address.\<close>

lemma IsVirtualPageMapped_total: "vm_inv s \<Longrightarrow> \<exists>b. IsVirtualPageMapped va s = Some b"
proof -
  assume "vm_inv s"
  then have "IsVirtualPageMapped va s = Some (pd_present s (unat (PD_INDEX va)) \<and>
      has_flag (pmem s (pt_frame s (unat (PD_INDEX va))) (unat (PT_INDEX va))) PAGE_PRESENT)"
    by (cases "pd_present s (unat (PD_INDEX va))")
      (simp_all add: IsVirtualPageMapped_def Let_def, simp_all add: pd_present_def)
  then show ?thesis by blast
qed

lemma page_no_aligndown [simp]: "page_no (aligndown a PAGE_SIZE) = page_no a"
  by (simp add: frame_no_nat aligndown_nat)

lemma aligndown_window: "a < PAGE_TABLE_BASE \<Longrightarrow> aligndown a PAGE_SIZE < PAGE_TABLE_BASE"
  by (simp add: word_less_nat_alt aligndown_nat)

lemma ADDRESS_IS_MAPPED_vmap:
  assumes "vm_inv s" and "a < PAGE_TABLE_BASE"
  shows "ADDRESS_IS_MAPPED a s = Some (vmap s (page_no a) \<noteq> None)"
  using IsVirtualPageMapped_vmap [OF assms(1) aligndown_window [OF assms(2)]]
  by (simp add: ADDRESS_IS_MAPPED_def)

lemma MapSinglePage_args:
  assumes "virt \<noteq> 0" and "isaligned phys PAGE_SIZE" and "isaligned virt PAGE_SIZE"
    and "virt < PAGE_TABLE_BASE" and "vm_inv s" and "has_flag flags PAGE_PRESENT" and "flags < 0x1000"
  shows "\<exists>st s'. MapSinglePage phys virt flags s = Some (st, s') \<and> vm_inv s' \<and>
    (case vmap s (page_no virt) of
       Some e \<Rightarrow> st = STATUS_RETRY \<and> s' = s
     | None \<Rightarrow> (st = STATUS_OK \<and> vmap s' = (vmap s)(page_no virt \<mapsto> phys OR flags)) \<or>
               (st = STATUS_OUT_OF_MEMORY \<and> s' = s \<and> (\<forall>k \<ge> 256. \<not> frame_free s k)))"
proof -
  let ?i = "PD_INDEX virt" and ?j = "PT_INDEX virt"
  let ?pdflags = "if has_flag flags PAGE_USER then KERNEL_PDE_FLAGS OR PAGE_USER else KERNEL_PDE_FLAGS"
  have pf: "?pdflags < 0x1000" "has_flag ?pdflags PAGE_PRESENT" "has_flag ?pdflags PAGE_RW" by simp_all
  have i: "unat ?i < 1023" using assms(4) by (rule below_window)
  have fl: "has_flag (phys OR flags) PAGE_PRESENT" using assms(2,6) by (simp add: has_flag_entry)
  note args = assms(1-3)
  have put: "vm_inv (poke (pt_frame t (unat ?i)) (unat ?j) (phys OR flags) t) \<and>
      vmap (poke (pt_frame t (unat ?i)) (unat ?j) (phys OR flags) t) = (vmap t)(page_no virt \<mapsto> phys OR flags)"
    if "vm_inv t" "pd_present t (unat ?i)" for t :: "'a vm_state_scheme"
    using set_pte [OF that(1) i that(2) PT_INDEX_less] fl by (simp add: page_split)
  show ?thesis
  proof (cases rule: ensure_table_cases [OF assms(5) i pf])
    case 1
    show ?thesis
    proof (cases "has_flag (pmem s (pt_frame s (unat ?i)) (unat ?j)) PAGE_PRESENT")
      case True
      with 1 args assms(4,5) show ?thesis by (simp add: MapSinglePage_def vmap_entry Let_def)
    next
      case False
      with 1 args assms(4,5) put [OF assms(5) 1(1)] show ?thesis
        by (simp add: MapSinglePage_def vmap_entry Let_def)
    qed
  next
    case 2
    then show ?thesis using args assms(4,5) by (simp add: MapSinglePage_def vmap_entry Let_def)
  next
    case (3 k)
    let ?t = "empty_table (unat ?i) k ?pdflags s"
    note t = empty_table_spec [OF assms(5) i 3(1,2) pf]
    have "pd_present ?t (unat ?i)" "pmem ?t (pt_frame ?t (unat ?i)) (unat ?j) = 0"
      using t(3,4,6) by simp_all
    with 3 args assms(4) t(1,2) put [OF t(1)] show ?thesis
      by (simp add: MapSinglePage_def vmap_entry Let_def split del: if_split)
  qed
qed

lemma UnmapSinglePage_vmap:
  assumes "vm_inv s" and "virt < PAGE_TABLE_BASE"
  shows "\<exists>s'. UnmapSinglePage virt s = Some s' \<and> vm_inv s' \<and> vmap s' = (vmap s)(page_no virt := None) \<and>
    (\<forall>k. frame_free s' k = frame_free s k)"
proof (cases "vmap s (page_no virt)")
  case None
  then have "(vmap s)(page_no virt := None) = vmap s" by auto
  with None assms show ?thesis by (simp add: UnmapSinglePage_def IsVirtualPageMapped_vmap)
next
  case (Some e)
  let ?i = "unat (PD_INDEX virt)" and ?j = "unat (PT_INDEX virt)"
  have i: "?i < 1023" using assms(2) by (rule below_window)
  have p: "pd_present s ?i" "has_flag (pmem s (pt_frame s ?i) ?j) PAGE_PRESENT"
    using Some assms(2) by (auto simp: vmap_entry Let_def split: if_splits)
  with Some assms have "UnmapSinglePage virt s = Some (poke (pt_frame s ?i) ?j 0 s)"
    by (simp add: UnmapSinglePage_def IsVirtualPageMapped_vmap Let_def) (simp add: pd_present_def)
  with set_pte [OF assms(1) i p(1) PT_INDEX_less, of _ 0] show ?thesis by (simp add: page_split)
qed

text \<open>A small address space for the examples: an empty directory in frame 1, one free frame.\<close>

definition empty_space :: vm_state where
  "empty_space = \<lparr>mem_regions = (\<lambda>_. zero_region), mem_regions_idx = 0,
     bitmap = bm_clear 256 (\<lambda>_. 0xFFFFFFFF), highest_addr = 0x100000,
     pmem = (\<lambda>_ _. 0)(1 := (\<lambda>_. 0)(1023 := 0x1003)), cr3 = 0x1000, cpuid_features = 0\<rparr>"

lemma frame_free_empty_space: "frame_free empty_space k \<longleftrightarrow> k = 256"
  by (auto simp: frame_free_def empty_space_def bm_simps)

lemma pde_empty_space: "pd_frame empty_space = 1" "pde empty_space i = (if i = 1023 then 0x1003 else 0)"
  by (simp_all add: pd_frame_def pde_def empty_space_def frame_no_def)

lemma vm_inv_empty_space: "vm_inv empty_space"
proof -
  have "frames_inv empty_space"
    by (simp add: frames_inv_def frame_free_empty_space) (simp add: empty_space_def frame_addr_def)
  then show ?thesis
    by (auto simp: vm_inv_def pd_present_def pd_writable_def pt_frame_def pde_empty_space
        frame_free_empty_space frame_no_def has_flag_def)
qed

lemma vmap_empty_space: "vmap empty_space = Map.empty"
proof
  fix p
  have "p < WINDOW_PAGE \<Longrightarrow> p div 1024 \<noteq> 1023"
    using less_mult_imp_div_less [of p 1023 1024] by auto
  then show "vmap empty_space p = None" by (auto simp: vmap_def pd_present_def pde_empty_space)
qed

text \<open>
  C2. \<open>MapSinglePage\<close> implements adding a mapping to the address space. On a virtual page
  below the recursive window it never faults and keeps the invariant. A null or unaligned
  address is refused; a page that is mapped already is left alone and reported; otherwise the
  page becomes mapped to the entry asked for and every other page of the address space keeps
  its mapping, or there is no frame left for a page table and nothing changes.
\<close>

theorem MapSinglePage_refines:
  assumes "vm_inv s" and "virt < PAGE_TABLE_BASE" and "has_flag flags PAGE_PRESENT" and "flags < 0x1000"
  shows "\<exists>st s'. MapSinglePage phys virt flags s = Some (st, s') \<and> vm_inv s' \<and>
    (if virt = 0 \<or> \<not> isaligned phys PAGE_SIZE \<or> \<not> isaligned virt PAGE_SIZE
     then st = STATUS_BAD_ARGUMENT \<and> s' = s
     else case vmap s (page_no virt) of
       Some e \<Rightarrow> st = STATUS_RETRY \<and> s' = s
     | None \<Rightarrow> (st = STATUS_OK \<and> vmap s' = (vmap s)(page_no virt \<mapsto> phys OR flags)) \<or>
               (st = STATUS_OUT_OF_MEMORY \<and> s' = s \<and> (\<forall>k \<ge> 256. \<not> frame_free s k)))"
proof (cases "virt = 0 \<or> \<not> isaligned phys PAGE_SIZE \<or> \<not> isaligned virt PAGE_SIZE")
  case True
  with assms(1) show ?thesis by (auto simp: MapSinglePage_def)
next
  case False
  with MapSinglePage_args [of virt phys s flags] assms show ?thesis by simp
qed

theorem MapSinglePage_refines_witness:
  "\<exists>s'. MapSinglePage 0x5000 0x400000 3 empty_space = Some (STATUS_OK, s') \<and> vm_inv s' \<and>
     vmap s' = [0x400 \<mapsto> 0x5003]"
proof -
  have "frame_free empty_space 256" by (simp add: frame_free_empty_space)
  then have "\<not> (\<forall>k \<ge> 256. \<not> frame_free empty_space k)" by auto
  with MapSinglePage_refines [OF vm_inv_empty_space, of "0x400000" 3 "0x5000"] show ?thesis
    by (auto simp: vmap_empty_space isaligned_def frame_no_def)
qed

text \<open>
  C3. \<open>UnmapSinglePage\<close> implements removing a mapping: on a page below the recursive window
  it never faults, keeps the invariant, leaves the page unmapped and every other page and the
  frame manager as they were.
\<close>

theorem UnmapSinglePage_refines:
  assumes "vm_inv s" and "virt < PAGE_TABLE_BASE"
  shows "\<exists>s'. UnmapSinglePage virt s = Some s' \<and> vm_inv s' \<and> vmap s' = (vmap s)(page_no virt := None) \<and>
    (\<forall>k. frame_free s' k = frame_free s k)"
  using assms by (rule UnmapSinglePage_vmap)

theorem UnmapSinglePage_refines_witness:
  "\<exists>s'. UnmapSinglePage 0x400000 empty_space = Some s' \<and> vm_inv s' \<and> vmap s' = Map.empty"
  using UnmapSinglePage_refines [OF vm_inv_empty_space, of "0x400000"] by (auto simp: vmap_empty_space)

section \<open>Searching for free pages\<close>

text \<open>\<open>free_run s q n\<close>: the \<open>n\<close> pages from page \<open>q\<close> on are unmapped.\<close>

definition free_run :: "'a vm_state_scheme \<Rightarrow> nat \<Rightarrow> nat \<Rightarrow> bool" where
  "free_run s q n \<longleftrightarrow> (\<forall>p. q \<le> p \<and> p < q + n \<longrightarrow> vmap s p = None)"

lemma free_runD: "free_run s q n \<Longrightarrow> q \<le> p \<Longrightarrow> p < q + n \<Longrightarrow> vmap s p = None"
  by (simp add: free_run_def)

lemma free_run_0 [simp]: "free_run s q 0"
  by (auto simp: free_run_def)

lemma free_run_extend: "free_run s q n \<Longrightarrow> vmap s (q + n) = None \<Longrightarrow> free_run s q (Suc n)"
  by (auto simp: free_run_def less_Suc_eq)

definition page_ceil :: "u32 \<Rightarrow> nat" where
  "page_ceil a = (unat a + 4095) div 4096"

lemma page_ceil_less: "A < FRAME_COUNT \<Longrightarrow> frame_addr A < stop \<longleftrightarrow> A < page_ceil stop"
proof -
  assume "A < FRAME_COUNT"
  then have "frame_addr A < stop \<longleftrightarrow> A * 4096 < unat stop" by (simp add: word_less_nat_alt unat_frame_addr)
  also have "\<dots> \<longleftrightarrow> Suc A * 4096 \<le> unat stop + 4095" by auto
  also have "\<dots> \<longleftrightarrow> Suc A \<le> page_ceil stop"
    unfolding page_ceil_def by (simp only: less_eq_div_iff_mult_less_eq [of 4096])
  finally show ?thesis by auto
qed

lemma page_ceil_window: "stop \<le> PAGE_TABLE_BASE \<Longrightarrow> page_ceil stop \<le> WINDOW_PAGE"
proof -
  assume "stop \<le> PAGE_TABLE_BASE"
  then have "unat stop \<le> WINDOW_PAGE * 4096" by (simp add: word_le_nat_alt)
  then have "unat stop + 4095 < Suc WINDOW_PAGE * 4096" by simp
  then have "page_ceil stop < Suc WINDOW_PAGE" unfolding page_ceil_def by (rule less_mult_imp_div_less)
  then show ?thesis by simp
qed

lemma frame_addr_add: "frame_addr (A + k) = frame_addr A + of_nat k * PAGE_SIZE"
  by (simp add: frame_addr_def algebra_simps)

lemma frame_addr_Suc: "frame_addr (Suc A) = frame_addr A + PAGE_SIZE"
  using frame_addr_add [of A 1] by simp

definition first_run :: "'a vm_state_scheme \<Rightarrow> nat \<Rightarrow> nat \<Rightarrow> nat \<Rightarrow> u32 \<Rightarrow> bool" where
  "first_run s P S n r \<longleftrightarrow>
     (r = 0 \<and> (\<forall>q. P \<le> q \<and> q + n \<le> S \<longrightarrow> \<not> free_run s q n)) \<or>
     (\<exists>q. r = frame_addr q \<and> P \<le> q \<and> q + n \<le> S \<and> free_run s q n \<and>
        (\<forall>q'. P \<le> q' \<and> q' < q \<longrightarrow> \<not> free_run s q' n))"

lemma scan_pages_spec:
  assumes "vm_inv s" and "stop \<le> PAGE_TABLE_BASE" and "A \<le> page_ceil stop" and "P \<le> A - c" and "c \<le> A"
    and "unat found = c" and "c < unat n" and "free_run s (A - c) c" and "0 < c \<longrightarrow> start = frame_addr (A - c)"
    and "A - c = P \<or> vmap s (A - c - 1) \<noteq> None" and "P \<le> A"
    and "\<forall>q. P \<le> q \<and> q + unat n \<le> A \<longrightarrow> \<not> free_run s q (unat n)"
  shows "\<exists>r. scan_pages (frame_addr A) stop n start found s = Some r \<and> first_run s P (page_ceil stop) (unat n) r"
  using assms(3-)
proof (induction "page_ceil stop - A" arbitrary: A c start found rule: less_induct)
  case less
  have win: "page_ceil stop \<le> WINDOW_PAGE" using assms(2) by (rule page_ceil_window)
  have A: "A < FRAME_COUNT" using less.prems(1) win by simp
  show ?case
  proof (cases "A < page_ceil stop")
    case False
    with less.prems have "A = page_ceil stop" by simp
    with False A less.prems show ?thesis
      by (subst scan_pages.simps) (simp add: page_ceil_less first_run_def)
  next
    case True
    have lt: "frame_addr A < stop" using True A by (simp add: page_ceil_less)
    then have wA: "frame_addr A < PAGE_TABLE_BASE" using assms(2) by simp
    have mapped: "IsVirtualPageMapped (frame_addr A) s = Some (vmap s A \<noteq> None)"
      using IsVirtualPageMapped_vmap [OF assms(1) wA] A by simp
    have dec: "page_ceil stop - Suc A < page_ceil stop - A" using True by simp
    have n_le: "unat n < 4294967296" by simp
    consider (busy) "vmap s A \<noteq> None" | (hit) "vmap s A = None" "c + 1 = unat n"
      | (more) "vmap s A = None" "c + 1 < unat n" using less.prems(5) by fastforce
    then show ?thesis
    proof cases
      case busy
      have nr: "\<forall>q. P \<le> q \<and> q + unat n \<le> Suc A \<longrightarrow> \<not> free_run s q (unat n)"
      proof (intro allI impI notI)
        fix q assume q: "P \<le> q \<and> q + unat n \<le> Suc A" "free_run s q (unat n)"
        then have "\<not> q + unat n \<le> A" using less.prems(10) by blast
        then have "q \<le> A \<and> A < q + unat n" using q(1) less.prems(5) by linarith
        with free_runD [OF q(2), of A] busy show False by simp
      qed
      have "\<exists>r. scan_pages (frame_addr (Suc A)) stop n start 0 s = Some r \<and>
          first_run s P (page_ceil stop) (unat n) r"
        using busy True less.prems nr
        by (intro less.hyps [OF dec, where c = 0]) (simp_all add: free_run_def)
      with busy lt mapped show ?thesis
        by (subst scan_pages.simps) (simp add: frame_addr_Suc)
    next
      case hit
      have fn: "found + 1 = n"
        using hit(2) less.prems(4) n_le by (intro word_unat_eq_iff [THEN iffD2]) (simp add: unat_word_ariths)
      have run: "free_run s (A - c) (unat n)"
        using free_run_extend [OF less.prems(6)] hit less.prems(3) by simp
      have st: "(if found = 0 then frame_addr A else start) = frame_addr (A - c)"
        using less.prems(4,7) by (cases "c = 0") (auto simp: unat_eq_0)
      have "first_run s P (page_ceil stop) (unat n) (frame_addr (A - c))"
        unfolding first_run_def using run less.prems(2,3,10) True hit(2) by (intro disjI2 exI [of _ "A - c"]) auto
      with hit lt mapped fn st show ?thesis by (subst scan_pages.simps) (simp add: Let_def)
    next
      case more
      have bnd: "Suc c < 4294967296" using more(2) n_le by linarith
      have fc: "unat (found + 1) = Suc c" "found + 1 \<noteq> n"
        using more(2) less.prems(4) bnd by (auto simp: unat_word_ariths)
      have st: "(if found = 0 then frame_addr A else start) = frame_addr (A - c)"
        using less.prems(4,7) by (cases "c = 0") (auto simp: unat_eq_0)
      have nr: "\<forall>q. P \<le> q \<and> q + unat n \<le> Suc A \<longrightarrow> \<not> free_run s q (unat n)"
      proof (intro allI impI notI)
        fix q assume q: "P \<le> q \<and> q + unat n \<le> Suc A" "free_run s q (unat n)"
        then have "\<not> q + unat n \<le> A" using less.prems(10) by blast
        then have "q \<le> A - c - 1 \<and> A - c - 1 < q + unat n \<and> A - c \<noteq> P"
          using q(1) more(2) by linarith
        with free_runD [OF q(2), of "A - c - 1"] less.prems(8) show False by simp
      qed
      have fr: "free_run s (Suc A - Suc c) (Suc c)"
        using free_run_extend [OF less.prems(6)] more(1) less.prems(3) by simp
      have "\<exists>r. scan_pages (frame_addr (Suc A)) stop n (frame_addr (A - c)) (found + 1) s = Some r \<and>
          first_run s P (page_ceil stop) (unat n) r"
        using True less.prems fc(1) more(2) nr fr
        by (intro less.hyps [OF dec, where c = "Suc c"]) simp_all
      with more lt mapped fc(2) st show ?thesis
        by (subst scan_pages.simps) (simp add: frame_addr_Suc Let_def)
    qed
  qed
qed

text \<open>
  \<open>FindFreePageRange\<close> returns, and finds the lowest run of \<open>n_pages\<close> unmapped pages
  between the two addresses: a result other than 0 is the start of such a run, and the
  result is 0 only when there is none (or the start or the number of pages is 0).
\<close>

lemma FindFreePageRange_correct:
  assumes "vm_inv s" and "isaligned start_scan PAGE_SIZE" and "stop_scan \<le> PAGE_TABLE_BASE"
  shows "\<exists>r. FindFreePageRange start_scan stop_scan n_pages s = Some r \<and>
    (if start_scan = 0 \<or> n_pages = 0 then r = 0
     else first_run s (page_no start_scan) (page_ceil stop_scan) (unat n_pages) r)"
proof (cases "start_scan = 0 \<or> n_pages = 0")
  case True
  then show ?thesis by (auto simp: FindFreePageRange_def)
next
  case False
  then have n: "0 < unat n_pages" by (simp add: unat_gt_0)
  let ?P = "page_no start_scan" and ?S = "page_ceil stop_scan"
  have st: "frame_addr ?P = start_scan" using assms(2) by (rule frame_addr_no)
  show ?thesis
  proof (cases "?P \<le> ?S")
    case True
    have "\<forall>q. ?P \<le> q \<and> q + unat n_pages \<le> ?P \<longrightarrow> \<not> free_run s q (unat n_pages)" using n by auto
    with n scan_pages_spec [OF assms(1,3) True, of ?P 0 0 n_pages 0] False show ?thesis
      by (simp add: FindFreePageRange_def st)
  next
    case gt: False
    then have "\<not> start_scan < stop_scan" using page_ceil_less [of ?P stop_scan] by (simp add: st)
    then have "scan_pages start_scan stop_scan n_pages 0 0 s = Some 0"
      by (subst scan_pages.simps) simp
    with gt False show ?thesis by (auto simp: FindFreePageRange_def first_run_def)
  qed
qed

lemma FindFreePageRange_correct_example:
  "\<exists>r. FindFreePageRange 0x400000 0x800000 4 empty_space = Some r \<and> r \<noteq> 0"
proof -
  have "page_no 0x400000 = 0x400" "page_ceil 0x800000 = 0x800" by (simp_all add: frame_no_def page_ceil_def)
  moreover have "free_run empty_space 0x400 4" by (simp add: free_run_def vmap_empty_space)
  ultimately show ?thesis
    using FindFreePageRange_correct [OF vm_inv_empty_space, of "0x400000" "0x800000" 4]
    by (force simp: isaligned_def first_run_def)
qed

section \<open>Ranges\<close>

lemma unmap_range_spec:
  assumes "vm_inv s" and "page_no virt + n \<le> WINDOW_PAGE" and "isaligned virt PAGE_SIZE" and "i \<le> n"
  shows "\<exists>s'. unmap_range virt n i any s =
      Some (any \<or> (\<exists>k. i \<le> k \<and> k < n \<and> vmap s (page_no virt + k) = None), s') \<and> vm_inv s' \<and>
    vmap s' = (\<lambda>p. if page_no virt + i \<le> p \<and> p < page_no virt + n then None else vmap s p)"
  using assms
proof (induction virt n i any s rule: unmap_range.induct)
  case (1 virt n i any s)
  show ?case
  proof (cases "i < n")
    case False
    then have "i = n" using "1.prems"(4) by simp
    then show ?thesis using "1.prems"(1) by (subst unmap_range.simps) (auto simp: fun_eq_iff)
  next
    case True
    let ?t = "virt + of_nat i * PAGE_SIZE" and ?p = "page_no virt + i"
    have p: "?p < WINDOW_PAGE" using True "1.prems"(2) by simp
    have t: "?t = frame_addr ?p" using frame_addr_no [OF "1.prems"(3)] by (simp add: frame_addr_add)
    have pt: "page_no ?t = ?p" unfolding t using p by (intro frame_no_addr) simp
    have tw: "?t < PAGE_TABLE_BASE" unfolding t using p by (simp add: word_less_nat_alt unat_frame_addr)
    have im: "IsVirtualPageMapped ?t s = Some (vmap s ?p \<noteq> None)"
      using IsVirtualPageMapped_vmap [OF "1.prems"(1) tw] unfolding pt .
    have ex: "(\<exists>k. i \<le> k \<and> k < n \<and> vmap s (page_no virt + k) = None) \<longleftrightarrow>
        vmap s ?p = None \<or> (\<exists>k. Suc i \<le> k \<and> k < n \<and> vmap s (page_no virt + k) = None)"
      using True by (metis Suc_leD Suc_le_eq le_eq_less_or_eq)
    show ?thesis
    proof (cases "vmap s ?p")
      case None
      then have eq: "unmap_range virt n i any s = unmap_range virt n (Suc i) True s"
        using True im by (subst unmap_range.simps) (simp add: Let_def)
      have r: "(\<lambda>p. if page_no virt + Suc i \<le> p \<and> p < page_no virt + n then None else vmap s p) =
          (\<lambda>p. if ?p \<le> p \<and> p < page_no virt + n then None else vmap s p)"
        using None by (auto simp: fun_eq_iff Suc_le_eq le_less)
      from "1.IH"(1) [OF True refl im] None "1.prems" True ex show ?thesis unfolding eq r by simp
    next
      case (Some e)
      from UnmapSinglePage_vmap [OF "1.prems"(1) tw] obtain s1 where
        s1: "UnmapSinglePage ?t s = Some s1" "vm_inv s1" "vmap s1 = (vmap s)(?p := None)" unfolding pt by blast
      have eq: "unmap_range virt n i any s = unmap_range virt n (Suc i) any s1"
        using True im Some s1(1) by (subst unmap_range.simps) (simp add: Let_def)
      have r: "(\<lambda>p. if page_no virt + Suc i \<le> p \<and> p < page_no virt + n then None else vmap s1 p) =
          (\<lambda>p. if ?p \<le> p \<and> p < page_no virt + n then None else vmap s p)"
        using s1(3) True by (auto simp: fun_eq_iff Suc_le_eq le_less)
      have k: "vmap s1 (page_no virt + k) = vmap s (page_no virt + k)" if "Suc i \<le> k" for k
        using s1(3) that by simp
      from "1.IH"(2) [OF True refl im _ s1(1,2) "1.prems"(2,3)] Some True ex k show ?thesis
        unfolding eq r [symmetric] by (auto cong: conj_cong)
    qed
  qed
qed

text \<open>
  \<open>UnmapMemoryRange\<close> unmaps every page of the range and no other, keeps the invariant
  and never faults, and reports STATUS_OUT_OF_BOUNDS exactly when a page of the range was not
  mapped to begin with.
\<close>

lemma UnmapMemoryRange_correct:
  assumes "vm_inv s" and "page_no virt + unat n_pages \<le> WINDOW_PAGE" and "isaligned virt PAGE_SIZE"
  shows "\<exists>s'. UnmapMemoryRange virt n_pages s =
      Some (if \<exists>k < unat n_pages. vmap s (page_no virt + k) = None then STATUS_OUT_OF_BOUNDS else STATUS_OK, s') \<and>
    vm_inv s' \<and>
    vmap s' = (\<lambda>p. if page_no virt \<le> p \<and> p < page_no virt + unat n_pages then None else vmap s p)"
  using unmap_range_spec [OF assms, of 0 False] assms(3) by (auto simp: UnmapMemoryRange_def)

lemma UnmapMemoryRange_correct_example:
  "\<exists>s'. UnmapMemoryRange 0x400000 2 empty_space = Some (STATUS_OUT_OF_BOUNDS, s') \<and> vm_inv s'"
proof -
  have "(\<exists>k < unat (2 :: u32). vmap empty_space (page_no 0x400000 + k) = None)"
    by (rule exI [of _ 0]) (simp add: vmap_empty_space)
  then show ?thesis
    using UnmapMemoryRange_correct [OF vm_inv_empty_space, of "0x400000" 2]
    by (auto simp: frame_no_def isaligned_def)
qed

text \<open>The address space after the pages \<open>i\<close> to \<open>n - 1\<close> of a range have been entered.\<close>

definition mapped_from :: "u32 \<Rightarrow> u32 \<Rightarrow> u32 \<Rightarrow> nat \<Rightarrow> nat \<Rightarrow> 'a vm_state_scheme \<Rightarrow> nat \<rightharpoonup> u32" where
  "mapped_from phys virt flags i n s p =
     (if page_no virt + i \<le> p \<and> p < page_no virt + n
      then Some ((phys + of_nat (p - page_no virt) * PAGE_SIZE) OR flags) else vmap s p)"

lemma isaligned_add_pages: "isaligned phys PAGE_SIZE \<Longrightarrow> isaligned (phys + of_nat i * PAGE_SIZE) PAGE_SIZE"
proof -
  assume "isaligned phys PAGE_SIZE"
  then have "phys + of_nat i * PAGE_SIZE = of_nat (frame_no phys + i) * PAGE_SIZE"
    using frame_addr_no [of phys] by (metis frame_addr_add frame_addr_def)
  moreover have "take_bit 12 (of_nat k * PAGE_SIZE :: u32) = 0" for k
  proof -
    have "of_nat k * PAGE_SIZE = push_bit 12 (of_nat k :: u32)" by (simp add: push_bit_eq_mult)
    then show ?thesis by (simp add: take_bit_push_bit)
  qed
  ultimately show ?thesis by (simp only: aligned_bits)
qed

lemma map_range_spec:
  assumes "vm_inv s" and "page_no virt + n \<le> WINDOW_PAGE" and "isaligned virt PAGE_SIZE" and "virt \<noteq> 0"
    and "isaligned phys PAGE_SIZE" and "has_flag flags PAGE_PRESENT" and "flags < 0x1000" and "i \<le> n"
    and "\<forall>k. i \<le> k \<and> k < n \<longrightarrow> vmap s (page_no virt + k) = None"
  shows "\<exists>m s'. map_range phys virt flags n i c s = Some (m, s') \<and> vm_inv s' \<and> c \<le> m \<and> m \<le> c + (n - i) \<and>
    (m = c + (n - i) \<longrightarrow> vmap s' = mapped_from phys virt flags i n s)"
  using assms
proof (induction phys virt flags n i c s rule: map_range.induct)
  case (1 phys virt flags n i c s)
  show ?case
  proof (cases "i < n")
    case False
    then have "i = n" using "1.prems"(8) by simp
    then show ?thesis using "1.prems"(1)
      by (subst map_range.simps) (auto simp: fun_eq_iff mapped_from_def)
  next
    case True
    let ?t = "virt + of_nat i * PAGE_SIZE" and ?p = "page_no virt + i" and ?f = "phys + of_nat i * PAGE_SIZE"
    have p: "?p < WINDOW_PAGE" using True "1.prems"(2) by simp
    have pos: "0 < page_no virt"
      using frame_addr_no [OF "1.prems"(3)] "1.prems"(4) by (metis frame_addr_def gr0I of_nat_0 mult_zero_left)
    have t: "?t = frame_addr ?p" using frame_addr_no [OF "1.prems"(3)] by (simp add: frame_addr_add)
    have pt: "page_no ?t = ?p" unfolding t using p by (intro frame_no_addr) simp
    have tw: "?t < PAGE_TABLE_BASE" unfolding t using p by (simp add: word_less_nat_alt unat_frame_addr)
    have t0: "?t \<noteq> 0" unfolding t using p pos by simp
    have free: "vmap s ?p = None" using "1.prems"(9) True by simp
    from MapSinglePage_args [OF t0 isaligned_add_pages [OF "1.prems"(5)] isaligned_add_pages [OF "1.prems"(3)]
        tw "1.prems"(1,6,7)] free
    obtain st s1 where m: "MapSinglePage ?f ?t flags s = Some (st, s1)" "vm_inv s1"
      and st: "(st = STATUS_OK \<and> vmap s1 = (vmap s)(?p \<mapsto> ?f OR flags)) \<or> (st \<noteq> STATUS_OK \<and> s1 = s)"
      unfolding pt by fastforce
    let ?c = "if st = STATUS_OK then c + 1 else c"
    have eq: "map_range phys virt flags n i c s = map_range phys virt flags n (Suc i) ?c s1"
      using True m(1) by (subst map_range.simps) simp
    have "\<forall>k. Suc i \<le> k \<and> k < n \<longrightarrow> vmap s1 (page_no virt + k) = None"
      using st "1.prems"(9) by auto
    with "1.IH" [OF True m(1) refl m(2) "1.prems"(2-7)] True obtain r s' where
      r: "map_range phys virt flags n (Suc i) ?c s1 = Some (r, s')" "vm_inv s'" "?c \<le> r" "r \<le> ?c + (n - Suc i)"
        "r = ?c + (n - Suc i) \<longrightarrow> vmap s' = mapped_from phys virt flags (Suc i) n s1" by auto
    have "vmap s' = mapped_from phys virt flags i n s" if "r = c + (n - i)"
    proof -
      have ok: "st = STATUS_OK" using that r(4) True by (cases "st = STATUS_OK") auto
      then have "vmap s' = mapped_from phys virt flags (Suc i) n s1" using r(5) that True by simp
      with ok st True show ?thesis by (auto simp: fun_eq_iff mapped_from_def Suc_le_eq le_less)
    qed
    then show ?thesis using r(1-4) True unfolding eq by (auto split: if_splits)
  qed
qed

text \<open>
  \<open>MapMemoryRange\<close> on a range of unmapped pages below the recursive window keeps the
  invariant and never faults; it returns at most the number of pages asked for, and when it
  returns that number, page \<open>i\<close> of the range is mapped, with the given flags, to the
  frame at \<open>phys + i * PAGE_SIZE\<close> for every \<open>i\<close>, and every other page is as before.
\<close>

lemma MapMemoryRange_correct:
  assumes "vm_inv s" and "page_no virt + unat n_pages \<le> WINDOW_PAGE" and "isaligned virt PAGE_SIZE" and "virt \<noteq> 0"
    and "isaligned phys PAGE_SIZE" and "has_flag flags PAGE_PRESENT" and "flags < 0x1000"
    and "free_run s (page_no virt) (unat n_pages)"
  shows "\<exists>m s'. MapMemoryRange phys virt flags n_pages s = Some (m, s') \<and> vm_inv s' \<and> m \<le> n_pages \<and>
    (m = n_pages \<longrightarrow> vmap s' = mapped_from phys virt flags 0 (unat n_pages) s)"
proof -
  have "\<forall>k. 0 \<le> k \<and> k < unat n_pages \<longrightarrow> vmap s (page_no virt + k) = None"
    using assms(8) by (simp add: free_run_def)
  from map_range_spec [OF assms(1-7) _ this, of 0] obtain m s' where
    m: "map_range phys virt flags (unat n_pages) 0 0 s = Some (m, s')" "vm_inv s'" "m \<le> unat n_pages"
      "m = unat n_pages \<longrightarrow> vmap s' = mapped_from phys virt flags 0 (unat n_pages) s" by auto
  have small: "m < 4294967296" using m(3) unat_u32_less [of n_pages] by linarith
  then have um: "unat (of_nat m :: u32) = m" by (rule unat_of_nat_small)
  have le: "(of_nat m :: u32) \<le> n_pages" unfolding word_le_nat_alt um by (rule m(3))
  have eq: "m = unat n_pages" if "(of_nat m :: u32) = n_pages" using um unfolding that by simp
  have "MapMemoryRange phys virt flags n_pages s = Some (of_nat m, s')"
    using m(1) by (simp add: MapMemoryRange_def)
  with m(2,4) le eq show ?thesis by blast
qed

lemma MapMemoryRange_correct_example:
  "\<exists>m s'. MapMemoryRange 0x5000 0x400000 3 2 empty_space = Some (m, s') \<and> vm_inv s'"
  using MapMemoryRange_correct [OF vm_inv_empty_space, of "0x400000" 2 "0x5000" 3]
  by (auto simp: frame_no_def isaligned_def free_run_def vmap_empty_space)

section \<open>What the operations leave alone\<close>

text \<open>
  Everything the kernel state has beyond the fields of \<open>vm_state\<close> is untouched by the frame
  manager and the virtual memory manager.
\<close>

named_theorems more_simps \<open>the rest of the kernel state after a memory operation\<close>

lemma more_frames [more_simps, simp]:
  fixes s :: "'a vm_state_scheme"
  shows "vm_state.more (MarkFrameReserved a s) = vm_state.more s"
    and "vm_state.more (MarkFrameAvailable a s) = vm_state.more s"
    and "vm_state.more (FreeFrame a s) = vm_state.more s"
    and "vm_state.more (poke k i v s) = vm_state.more s"
    and "vm_state.more (snd (AllocateFrame s)) = vm_state.more s"
  by (simp_all add: MarkFrameReserved_def MarkFrameAvailable_def FreeFrame_def poke_def AllocateFrame_def Let_def)

lemma more_AllocateFrame: "AllocateFrame s = (f, s') \<Longrightarrow> vm_state.more s' = vm_state.more s"
  using more_frames(5) [of s] by simp

lemma more_store32: "store32 va v s = Some s' \<Longrightarrow> vm_state.more s' = vm_state.more s"
  by (auto simp: store32_def)

lemma more_zero_page: "zero_page va s = Some s' \<Longrightarrow> vm_state.more s' = vm_state.more s"
  by (auto simp: zero_page_def)

lemma more_ensure_table: "ensure_table i fl s = Some (st, s') \<Longrightarrow> vm_state.more s' = vm_state.more s"
  by (auto simp: ensure_table_def split: bind_splits if_splits prod.splits
      dest!: more_store32 more_zero_page more_AllocateFrame)

lemma more_MapSinglePage: "MapSinglePage phys virt fl s = Some (st, s') \<Longrightarrow> vm_state.more s' = vm_state.more s"
  by (auto simp: MapSinglePage_def Let_def split: bind_splits if_splits prod.splits option.splits
      dest!: more_store32 more_ensure_table)

text \<open>Mapping a page takes frames and never gives one back.\<close>

lemma frames_store32: "store32 va v s = Some s' \<Longrightarrow> frame_free s' k = frame_free s k"
  by (auto simp: store32_def)

lemma frames_zero_page: "zero_page va s = Some s' \<Longrightarrow> frame_free s' k = frame_free s k"
  by (auto simp: zero_page_def)

lemma frames_AllocateFrame: "AllocateFrame s = (f, s') \<Longrightarrow> frame_free s' k \<Longrightarrow> frame_free s k"
  by (auto simp: AllocateFrame_def Let_def)

lemma frames_ensure_table: "ensure_table i fl s = Some (st, s') \<Longrightarrow> frame_free s' k \<Longrightarrow> frame_free s k"
  by (auto simp: ensure_table_def frames_store32 frames_zero_page split: bind_splits if_splits prod.splits
      dest: frames_AllocateFrame)

lemma frames_MapSinglePage: "MapSinglePage phys virt fl s = Some (st, s') \<Longrightarrow> frame_free s' k \<Longrightarrow> frame_free s k"
  by (auto simp: MapSinglePage_def Let_def frames_store32 split: bind_splits if_splits prod.splits option.splits
      dest: frames_ensure_table)

lemma more_UnmapSinglePage: "UnmapSinglePage virt s = Some s' \<Longrightarrow> vm_state.more s' = vm_state.more s"
  by (auto simp: UnmapSinglePage_def Let_def split: bind_splits if_splits dest!: more_store32)

end
