(* ===== verification/Heap.thy ===== *)
theory Heap
  imports VMM
begin

text \<open>
  The kernel heap, \<^verbatim>\<open>src/sys/lib/kmalloc.c\<close>: the window of heap pages with its bitmap,
  the slab allocator on top of it, page-sized and larger allocations.

  The heap memory is typed: \<open>slabs s\<close> holds the \<^verbatim>\<open>Slab\<close> header at the start of a slab
  page, and \<open>links s\<close> the word that a free object stores (the pointer to the next free
  object). The contents of allocated objects belong to the component that allocated them and
  are in the typed maps of its own state. Reading a header that is not there faults.
\<close>

section \<open>State\<close>

record Slab =
  sl_free_list :: ptr
  sl_objstart :: ptr
  sl_n_objects :: u32
  sl_objsize :: u32
  sl_next :: ptr

record SlabCache =
  sc_slabs :: ptr
  sc_objsize :: u32

record heap_state = vm_state +
  heap_bitmap :: words
  caches :: "nat \<Rightarrow> SlabCache"
  allocator_initialized :: bool
  page_flags :: u32
  slabs :: "ptr \<rightharpoonup> Slab"
  links :: "ptr \<Rightarrow> ptr"
  physframes :: "ptr \<Rightarrow> nat \<Rightarrow> u32"

abbreviation HEAP_BASE :: u32 where "HEAP_BASE \<equiv> 0xC0100000"
abbreviation HEAP_BREAK :: u32 where "HEAP_BREAK \<equiv> 0xE0100000"
abbreviation HEAP_PAGES :: nat where "HEAP_PAGES \<equiv> 131072"
abbreviation BIT_WORDS_NEEDED :: nat where "BIT_WORDS_NEEDED \<equiv> 4096"
abbreviation SLAB_TYPES_MAX :: nat where "SLAB_TYPES_MAX \<equiv> 8"
abbreviation KERNEL_STACK_BASE :: u32 where "KERNEL_STACK_BASE \<equiv> 0xE0000000"
abbreviation KERNEL_STACK_END :: u32 where "KERNEL_STACK_END \<equiv> 0xEFFF0000"

definition BIT_OF :: "u32 \<Rightarrow> nat" where
  "BIT_OF addr = unat ((addr - HEAP_BASE) div PAGE_SIZE)"

definition slab_sizes :: "nat \<Rightarrow> u32" where
  "slab_sizes i = [8, 16, 32, 64, 128, 256, 512, 1024] ! i"

section \<open>Heap pages\<close>

definition MarkHeapPageAsUsed :: "u32 \<Rightarrow> 'a heap_state_scheme \<Rightarrow> 'a heap_state_scheme" where
  "MarkHeapPageAsUsed addr s =
     (if \<not> inrange addr HEAP_BASE HEAP_BREAK then s
      else s\<lparr>heap_bitmap := bm_mark (BIT_OF addr) (heap_bitmap s)\<rparr>)"

definition MarkHeapPageAsFree :: "u32 \<Rightarrow> 'a heap_state_scheme \<Rightarrow> 'a heap_state_scheme" where
  "MarkHeapPageAsFree addr s =
     (if \<not> inrange addr HEAP_BASE HEAP_BREAK then s
      else s\<lparr>heap_bitmap := bm_clear (BIT_OF addr) (heap_bitmap s)\<rparr>)"

definition GetHeapPageAddress :: "'a heap_state_scheme \<Rightarrow> (u32 \<times> 'a heap_state_scheme) option" where
  "GetHeapPageAddress s =
     (case bm_scan (heap_bitmap s) 0 BIT_WORDS_NEEDED of
        None \<Rightarrow> None
      | Some k \<Rightarrow> let addr = HEAP_BASE + of_nat k * PAGE_SIZE in Some (addr, MarkHeapPageAsUsed addr s))"

definition AllocateVirtualPage :: "'a heap_state_scheme \<Rightarrow> (u32 \<times> 'a heap_state_scheme) option" where
  "AllocateVirtualPage s =
     (let (frameaddr, s1) = AllocateFrame s in
      if frameaddr = 0 then Some (0, s1)
      else do {
        (addr, s2) \<leftarrow> GetHeapPageAddress s1;
        let s3 = (if x86FeatureSupported X86_PGE s2 then s2\<lparr>page_flags := page_flags s2 OR PAGE_GLOBAL\<rparr> else s2);
        (mapstatus, s4) \<leftarrow> MapSinglePage frameaddr addr (page_flags s3) s3;
        if mapstatus \<noteq> STATUS_OK then Some (0, FreeFrame frameaddr (MarkHeapPageAsFree addr s4))
        else Some (addr, s4)
      })"

definition FreeVirtualPage :: "u32 \<Rightarrow> 'a heap_state_scheme \<Rightarrow> 'a heap_state_scheme option" where
  "FreeVirtualPage vaddr s = do {
     let paddr = virt_to_phys vaddr;
     s1 \<leftarrow> UnmapSinglePage vaddr s;
     Some (FreeFrame paddr (MarkHeapPageAsFree vaddr s1))
   }"

section \<open>Slabs\<close>

definition InitSlabCaches :: "'a heap_state_scheme \<Rightarrow> 'a heap_state_scheme" where
  "InitSlabCaches s =
     s\<lparr>caches := (\<lambda>i. if i < SLAB_TYPES_MAX then \<lparr>sc_slabs = 0, sc_objsize = slab_sizes i\<rparr> else caches s i)\<rparr>"

function cache_from :: "u32 \<Rightarrow> nat \<Rightarrow> nat option" where
  "cache_from bytes i =
     (if i < SLAB_TYPES_MAX then if bytes \<le> slab_sizes i then Some i else cache_from bytes (Suc i) else None)"
  by pat_completeness auto
termination
  by (relation "measure (\<lambda>(bytes, i). SLAB_TYPES_MAX - i)") auto

declare cache_from.simps [simp del]

definition GetSlabCacheForSize :: "u32 \<Rightarrow> nat option" where
  "GetSlabCacheForSize bytes = cache_from bytes 0"

text \<open>Threading the free list through the objects of a new slab.\<close>

fun thread_links :: "ptr \<Rightarrow> u32 \<Rightarrow> nat \<Rightarrow> (ptr \<Rightarrow> ptr) \<Rightarrow> (ptr \<Rightarrow> ptr)" where
  "thread_links p objsize 0 l = l(p := 0)"
| "thread_links p objsize (Suc n) l = thread_links (p + objsize) objsize n (l(p := p + objsize))"

abbreviation SIZEOF_SLAB :: u32 where "SIZEOF_SLAB \<equiv> 20"
abbreviation DEFAULT_OBJ_ALIGN :: u32 where "DEFAULT_OBJ_ALIGN \<equiv> 16"

definition CreateSlab :: "u32 \<Rightarrow> 'a heap_state_scheme \<Rightarrow> (ptr \<times> 'a heap_state_scheme) option" where
  "CreateSlab objsize0 s =
     (let objsize = (if objsize0 < 4 then 4 else objsize0) in do {
        (slab, s1) \<leftarrow> AllocateVirtualPage s;
        if slab = 0 then Some (0, s1)
        else do {
          let aligned = alignup (slab + SIZEOF_SLAB) DEFAULT_OBJ_ALIGN;
          let usable = PAGE_SIZE - (aligned - slab);
          let n_objects = usable div objsize;
          if n_objects = 0 then do {
            s2 \<leftarrow> FreeVirtualPage slab s1;
            Some (0, s2)
          } else
            Some (slab, s1\<lparr>slabs := (slabs s1)(slab \<mapsto>
                \<lparr>sl_free_list = aligned, sl_objstart = aligned, sl_n_objects = n_objects,
                 sl_objsize = objsize, sl_next = 0\<rparr>),
              links := thread_links aligned objsize (unat n_objects - 1) (links s1)\<rparr>)
        }
      })"

partial_function (option) find_slab :: "'a heap_state_scheme \<Rightarrow> ptr \<Rightarrow> ptr option" where
  "find_slab s p =
     (if p = 0 then Some 0
      else Option.bind (slabs s p) (\<lambda>sl. if sl_free_list sl \<noteq> 0 then Some p else find_slab s (sl_next sl)))"

declare find_slab.simps [code]

text \<open>A slab of the cache with a free object, a new one if need be; 0 when there is no memory.\<close>

definition usable_slab :: "nat \<Rightarrow> 'a heap_state_scheme \<Rightarrow> (ptr \<times> 'a heap_state_scheme) option" where
  "usable_slab i s = do {
     p \<leftarrow> find_slab s (sc_slabs (caches s i));
     if p \<noteq> 0 then Some (p, s)
     else do {
       (q, s1) \<leftarrow> CreateSlab (sc_objsize (caches s i)) s;
       if q = 0 then Some (0, s1)
       else do {
         sl \<leftarrow> slabs s1 q;
         Some (q, s1\<lparr>slabs := (slabs s1)(q \<mapsto> sl\<lparr>sl_next := sc_slabs (caches s1 i)\<rparr>),
                     caches := (caches s1)(i := (caches s1 i)\<lparr>sc_slabs := q\<rparr>)\<rparr>)
       }
     }
   }"

definition take_object :: "nat \<Rightarrow> 'a heap_state_scheme \<Rightarrow> (ptr \<times> 'a heap_state_scheme) option" where
  "take_object i s = do {
     (p, s1) \<leftarrow> usable_slab i s;
     if p = 0 then Some (0, s1)
     else do {
       sl \<leftarrow> slabs s1 p;
       let obj = sl_free_list sl;
       Some (obj, s1\<lparr>slabs := (slabs s1)(p \<mapsto> sl\<lparr>sl_free_list := links s1 obj\<rparr>)\<rparr>)
     }
   }"

section \<open>Large allocations\<close>

text \<open>The error path: the frames are read from the metadata page after it has been unmapped.\<close>

fun free_huge :: "ptr \<Rightarrow> nat \<Rightarrow> nat \<Rightarrow> 'a heap_state_scheme \<Rightarrow> 'a heap_state_scheme option" where
  "free_huge base i 0 s = Some s"
| "free_huge base i (Suc n) s = do {
     mapped \<leftarrow> ADDRESS_IS_MAPPED base s;
     if \<not> mapped then None
     else free_huge base (Suc i) n (FreeFrame (physframes s base i) s)
   }"

definition huge_bad :: "ptr \<Rightarrow> u32 \<Rightarrow> nat \<Rightarrow> 'a heap_state_scheme \<Rightarrow> (ptr \<times> 'a heap_state_scheme) option" where
  "huge_bad base frame allocated s = do {
     let s1 = (if frame \<ge> 0x2000 then FreeFrame frame s else s);
     mapped \<leftarrow> ADDRESS_IS_MAPPED base s1;
     s2 \<leftarrow> (if mapped then UnmapSinglePage base s1 else Some s1);
     s3 \<leftarrow> free_huge base 0 allocated s2;
     Some (0, s3)
   }"

function huge_pages :: "ptr \<Rightarrow> u32 \<Rightarrow> nat \<Rightarrow> nat \<Rightarrow> 'a heap_state_scheme \<Rightarrow> (ptr \<times> 'a heap_state_scheme) option" where
  "huge_pages base frame n_pages i s =
     (if i < n_pages then
        let (f, s1) = AllocateFrame s;
            s2 = s1\<lparr>physframes := (physframes s1)(base := (physframes s1 base)(i := f))\<rparr>
        in if f < 0x2000 then huge_bad base frame i s2
           else do {
             (st, s3) \<leftarrow> MapSinglePage f (base + of_nat i * PAGE_SIZE + PAGE_SIZE) 3 s2;
             if st \<noteq> STATUS_OK then huge_bad base frame i s3
             else huge_pages base frame n_pages (Suc i) s3
           }
      else Some (base, s))"
  by pat_completeness auto
termination
  by (relation "measure (\<lambda>(base, frame, n_pages, i, s). n_pages - i)") auto

declare huge_pages.simps [simp del]

definition HugeAllocation :: "u32 \<Rightarrow> 'a heap_state_scheme \<Rightarrow> (ptr \<times> 'a heap_state_scheme) option" where
  "HugeAllocation n_pages s =
     (if n_pages > 512 then Some (0, s)
      else do {
        base \<leftarrow> FindFreePageRange KERNEL_VM_BASE KERNEL_STACK_BASE (n_pages + 1) s;
        if base = 0 then Some (0, s)
        else
          let (frame, s1) = AllocateFrame s in
          if frame = 0 then huge_bad base frame 0 s1
          else do {
            (st, s2) \<leftarrow> MapSinglePage frame base 0x103 s1;
            if st \<noteq> STATUS_OK then huge_bad base frame 0 s2
            else huge_pages base frame (unat n_pages) 0 s2
          }
      })"

section \<open>The allocator\<close>

definition kmalloc :: "u32 \<Rightarrow> 'a heap_state_scheme \<Rightarrow> (ptr \<times> 'a heap_state_scheme) option" where
  "kmalloc bytes s =
     (if bytes = 0 then Some (0, s)
      else if inrange bytes (slab_sizes (SLAB_TYPES_MAX - 1) + 1) PAGE_SIZE then AllocateVirtualPage s
      else if bytes > PAGE_SIZE then HugeAllocation (pagealign bytes div PAGE_SIZE) s
      else
        let s0 = (if \<not> allocator_initialized s
                  then (InitSlabCaches s)\<lparr>allocator_initialized := True\<rparr> else s)
        in case GetSlabCacheForSize bytes of None \<Rightarrow> None | Some i \<Rightarrow> take_object i s0)"

text \<open>The contents of the memory are the caller's: \<open>kzalloc\<close> is \<open>kmalloc\<close> with zeroed contents.\<close>

definition kzalloc :: "u32 \<Rightarrow> 'a heap_state_scheme \<Rightarrow> (ptr \<times> 'a heap_state_scheme) option" where
  "kzalloc bytes s = kmalloc bytes s"

partial_function (option) find_owner :: "'a heap_state_scheme \<Rightarrow> ptr \<Rightarrow> ptr \<Rightarrow> ptr option" where
  "find_owner s p q =
     (if q = 0 then Some 0
      else Option.bind (slabs s q) (\<lambda>sl.
        if sl_objstart sl \<le> p \<and> p < sl_objstart sl + sl_n_objects sl * sl_objsize sl then Some q
        else find_owner s p (sl_next sl)))"

declare find_owner.simps [code]

definition free_object :: "ptr \<Rightarrow> ptr \<Rightarrow> 'a heap_state_scheme \<Rightarrow> 'a heap_state_scheme option" where
  "free_object p q s = do {
     sl \<leftarrow> slabs s q;
     if (p - sl_objstart sl) mod sl_objsize sl \<noteq> 0 then Some s
     else Some (s\<lparr>links := (links s)(p := sl_free_list sl),
                  slabs := (slabs s)(q \<mapsto> sl\<lparr>sl_free_list := p\<rparr>)\<rparr>)
   }"

function kfree_from :: "ptr \<Rightarrow> nat \<Rightarrow> 'a heap_state_scheme \<Rightarrow> 'a heap_state_scheme option" where
  "kfree_from p i s =
     (if i < SLAB_TYPES_MAX then do {
        q \<leftarrow> find_owner s p (sc_slabs (caches s i));
        if q \<noteq> 0 then free_object p q s else kfree_from p (Suc i) s
      } else FreeVirtualPage p s)"
  by pat_completeness auto
termination
  by (relation "measure (\<lambda>(p, i, s). SLAB_TYPES_MAX - i)") auto

declare kfree_from.simps [simp del]

definition kfree :: "ptr \<Rightarrow> 'a heap_state_scheme \<Rightarrow> 'a heap_state_scheme option" where
  "kfree p s = (if p = 0 then Some s else kfree_from p 0 s)"

section \<open>Heap pages: facts\<close>

definition heap_addr :: "nat \<Rightarrow> u32" where
  "heap_addr k = HEAP_BASE + of_nat k * PAGE_SIZE"

lemma unat_heap_addr: "k < HEAP_PAGES \<Longrightarrow> unat (heap_addr k) = 0xC0100000 + k * 4096"
  by (simp add: heap_addr_def unat_word_ariths unat_of_nat)

lemma heap_addr_facts:
  assumes "k < HEAP_PAGES"
  shows "isaligned (heap_addr k) PAGE_SIZE" and "HEAP_BASE \<le> heap_addr k" and "heap_addr k < HEAP_BREAK"
    and "BIT_OF (heap_addr k) = k" and "heap_addr k \<noteq> 0" and "inrange (heap_addr k) HEAP_BASE HEAP_BREAK"
proof -
  have a: "unat (heap_addr k) = 0xC0100000 + k * 4096" using assms by (rule unat_heap_addr)
  have "(0xC0100000 + k * 4096) mod 4096 = 0" by (subst mod_drop_base) simp_all
  with a show "isaligned (heap_addr k) PAGE_SIZE" by (simp add: isaligned_nat)
  from a assms show "HEAP_BASE \<le> heap_addr k" "heap_addr k < HEAP_BREAK"
    by (simp_all add: word_le_nat_alt word_less_nat_alt)
  then show "inrange (heap_addr k) HEAP_BASE HEAP_BREAK" by (simp add: inrange_def)
  have "unat ((heap_addr k - HEAP_BASE) div PAGE_SIZE) = k * 4096 div 4096"
    using assms by (simp add: heap_addr_def unat_div unat_word_ariths unat_of_nat)
  then show "BIT_OF (heap_addr k) = k" by (simp add: BIT_OF_def)
  show "heap_addr k \<noteq> 0" using a by (metis add_is_0 unat_0 zero_neq_numeral)
qed

text \<open>A page aligned address of the window whose bit is set.\<close>

definition heap_used :: "'a heap_state_scheme \<Rightarrow> u32 \<Rightarrow> bool" where
  "heap_used s p \<longleftrightarrow> (\<exists>k < HEAP_PAGES. p = heap_addr k \<and> bm_used (heap_bitmap s) k)"

lemma heap_used_upd [simp]:
  "heap_used (s\<lparr>slabs := m\<rparr>) p = heap_used s p" "heap_used (s\<lparr>links := l\<rparr>) p = heap_used s p"
  "heap_used (s\<lparr>caches := c\<rparr>) p = heap_used s p" "heap_used (s\<lparr>allocator_initialized := b\<rparr>) p = heap_used s p"
  by (simp_all add: heap_used_def)

lemma more_heap:
  assumes "vm_state.more t = vm_state.more s"
  shows "heap_bitmap t = heap_bitmap s" "caches t = caches s" "allocator_initialized t = allocator_initialized s"
    "page_flags t = page_flags s" "slabs t = slabs s" "links t = links s" "physframes t = physframes s"
    "heap_state.more t = heap_state.more s"
  using assms by (cases s; cases t; simp)+

text \<open>Two states with the same slab structure.\<close>

definition same_slabs :: "'a heap_state_scheme \<Rightarrow> 'a heap_state_scheme \<Rightarrow> bool" where
  "same_slabs t s \<longleftrightarrow> caches t = caches s \<and> allocator_initialized t = allocator_initialized s \<and>
     slabs t = slabs s \<and> links t = links s \<and> heap_state.more t = heap_state.more s"

lemma same_slabs_more: "vm_state.more t = vm_state.more s \<Longrightarrow> same_slabs t s \<and> heap_bitmap t = heap_bitmap s"
  using more_heap [of t s] by (simp add: same_slabs_def)

lemma AllocateVirtualPage_cases:
  assumes "AllocateVirtualPage s = Some (p, s')"
  obtains (fail) "p = 0" "same_slabs s' s" "heap_bitmap s' = heap_bitmap s"
    | (page) k where "p = heap_addr k" "k < HEAP_PAGES" "\<not> bm_used (heap_bitmap s) k"
        "heap_bitmap s' = bm_mark k (heap_bitmap s)" "same_slabs s' s"
proof -
  obtain f s1 where f: "AllocateFrame s = (f, s1)" by fastforce
  have m1: "vm_state.more s1 = vm_state.more s" using f by (rule more_AllocateFrame)
  note h1 = same_slabs_more [OF m1]
  show thesis
  proof (cases "f = 0")
    case True
    with assms f h1 fail show thesis by (auto simp: AllocateVirtualPage_def)
  next
    case False
    with assms f obtain k where k: "bm_scan (heap_bitmap s1) 0 BIT_WORDS_NEEDED = Some k"
      by (auto simp: AllocateVirtualPage_def GetHeapPageAddress_def split: option.splits)
    then have kb: "k < HEAP_PAGES" "\<not> bm_used (heap_bitmap s) k"
      using bm_scan_Some [OF k] h1 by simp_all
    let ?s2 = "s1\<lparr>heap_bitmap := bm_mark k (heap_bitmap s1)\<rparr>"
    let ?s3 = "if x86FeatureSupported X86_PGE ?s2 then ?s2\<lparr>page_flags := page_flags ?s2 OR PAGE_GLOBAL\<rparr> else ?s2"
    have g: "GetHeapPageAddress s1 = Some (heap_addr k, ?s2)"
      using k heap_addr_facts [OF kb(1)]
      by (simp add: GetHeapPageAddress_def MarkHeapPageAsUsed_def heap_addr_def [symmetric] Let_def)
    from assms f False g obtain st s4 where
      st: "MapSinglePage f (heap_addr k) (page_flags ?s3) ?s3 = Some (st, s4)" and
      res: "(st \<noteq> STATUS_OK \<and> p = 0 \<and> s' = FreeFrame f (MarkHeapPageAsFree (heap_addr k) s4)) \<or>
            (st = STATUS_OK \<and> p = heap_addr k \<and> s' = s4)"
      by (auto simp: AllocateVirtualPage_def Let_def split: bind_splits if_splits)
    note m4 = same_slabs_more [OF more_MapSinglePage [OF st]]
    have s3: "same_slabs ?s3 s" "heap_bitmap ?s3 = bm_mark k (heap_bitmap s)"
      using h1 by (auto simp: same_slabs_def)
    from res show thesis
    proof (elim disjE conjE)
      assume ok: "st = STATUS_OK" "p = heap_addr k" "s' = s4"
      have "same_slabs s4 s" using m4 s3(1) by (simp add: same_slabs_def)
      with ok kb m4 s3(2) show thesis by (intro page) simp_all
    next
      assume bad: "st \<noteq> STATUS_OK" "p = 0" "s' = FreeFrame f (MarkHeapPageAsFree (heap_addr k) s4)"
      let ?s5 = "MarkHeapPageAsFree (heap_addr k) s4"
      have m5: "same_slabs s' ?s5 \<and> heap_bitmap s' = heap_bitmap ?s5"
        unfolding bad(3) by (rule same_slabs_more) simp
      have "heap_bitmap ?s5 = heap_bitmap s"
        using heap_addr_facts [OF kb(1)] m4 s3(2) bm_clear_mark [OF kb(2)] by (simp add: MarkHeapPageAsFree_def)
      moreover have "same_slabs ?s5 s4" by (simp add: same_slabs_def MarkHeapPageAsFree_def)
      ultimately show thesis using bad(2) m5 m4 s3(1) by (intro fail) (simp_all add: same_slabs_def)
    qed
  qed
qed

section \<open>Objects of a slab\<close>

definition slab_count :: "nat \<Rightarrow> nat" where
  "slab_count i = 4064 div unat (slab_sizes i)"

text \<open>The addresses from \<open>p\<close> on in steps of \<open>d\<close>.\<close>

primrec steps :: "ptr \<Rightarrow> u32 \<Rightarrow> nat \<Rightarrow> ptr list" where
  "steps p d 0 = []"
| "steps p d (Suc n) = p # steps (p + d) d n"

definition slab_objects :: "ptr \<Rightarrow> nat \<Rightarrow> ptr list" where
  "slab_objects q i = steps (q + 32) (slab_sizes i) (slab_count i)"

lemma set_steps: "set (steps p d n) = {p + of_nat j * d | j. j < n}"
proof (induction n arbitrary: p)
  case 0
  then show ?case by simp
next
  case (Suc n)
  have "{p + of_nat j * d | j. j < Suc n} = insert p {p + d + of_nat j * d | j. j < n}"
  proof (rule set_eqI, rule iffI)
    fix x assume "x \<in> {p + of_nat j * d | j. j < Suc n}"
    then obtain j where "x = p + of_nat j * d" "j < Suc n" by blast
    then show "x \<in> insert p {p + d + of_nat j * d | j. j < n}"
      by (cases j) (auto simp: algebra_simps)
  next
    fix x assume "x \<in> insert p {p + d + of_nat j * d | j. j < n}"
    then consider "x = p" | j where "x = p + d + of_nat j * d" "j < n" by blast
    then show "x \<in> {p + of_nat j * d | j. j < Suc n}"
    proof cases
      case 1
      then have "x = p + of_nat 0 * d \<and> 0 < Suc n" by simp
      then show ?thesis by blast
    next
      case 2
      then have "x = p + of_nat (Suc j) * d \<and> Suc j < Suc n" by (simp add: algebra_simps)
      then show ?thesis by blast
    qed
  qed
  with Suc show ?case by simp
qed

lemma steps_above:
  assumes "0 < unat d" and "unat p + n * unat d < 4294967296" and "x \<in> set (steps p d n)"
  shows "\<exists>j < n. unat x = unat p + j * unat d"
proof -
  from assms(3) obtain j where j: "x = p + of_nat j * d" "j < n" unfolding set_steps by blast
  have le: "j * unat d \<le> n * unat d" using j(2) by simp
  have "j \<le> j * unat d" using assms(1) by simp
  with le assms(2) have jd: "j < 4294967296" by linarith
  have jb: "unat p + j * unat d < 4294967296" using le assms(2) by linarith
  have "unat (of_nat j * d) = j * unat d"
    using jb unat_mult_no_wrap [of "of_nat j" d] unat_of_nat_small [OF jd] by simp
  then have "unat x = unat p + j * unat d"
    unfolding j(1) using jb by (subst unat_plus_no_wrap) simp_all
  with j(2) show ?thesis by blast
qed

lemma distinct_steps:
  "0 < unat d \<Longrightarrow> unat p + n * unat d < 4294967296 \<Longrightarrow> distinct (steps p d n)"
proof (induction n arbitrary: p)
  case 0
  then show ?case by simp
next
  case (Suc n)
  have pd: "unat (p + d) = unat p + unat d" using Suc.prems(2) by (subst unat_plus_no_wrap) simp_all
  then have b: "unat (p + d) + n * unat d < 4294967296" using Suc.prems(2) by simp
  have "p \<notin> set (steps (p + d) d n)"
  proof
    assume "p \<in> set (steps (p + d) d n)"
    from steps_above [OF Suc.prems(1) b this] pd Suc.prems(1) show False by auto
  qed
  with Suc.IH [OF Suc.prems(1) b] show ?case by simp
qed

lemma thread_links_other: "x \<notin> set (steps p d (Suc n)) \<Longrightarrow> thread_links p d n l x = l x"
  by (induction n arbitrary: p l) auto

lemma thread_links_chain:
  "0 < unat d \<Longrightarrow> 0 < unat p \<Longrightarrow> unat p + Suc n * unat d < 4294967296 \<Longrightarrow>
   chain (\<lambda>x. Some (thread_links p d n l x)) p (steps p d (Suc n))"
proof (induction n arbitrary: p l)
  case 0
  then show ?case by (auto simp: unat_gt_0)
next
  case (Suc n)
  have pd: "unat (p + d) = unat p + unat d" using Suc.prems(3) by (subst unat_plus_no_wrap) simp_all
  have b: "unat (p + d) + Suc n * unat d < 4294967296" using Suc.prems(3) pd by simp
  have "p \<notin> set (steps (p + d) d (Suc n))"
    using distinct_steps [OF Suc.prems(1), of p "Suc (Suc n)"] Suc.prems(3) by simp
  then have "thread_links p d (Suc n) l p = p + d" by (simp add: thread_links_other)
  moreover have "chain (\<lambda>x. Some (thread_links p d (Suc n) l x)) (p + d) (steps (p + d) d (Suc n))"
    using Suc.IH [OF Suc.prems(1) _ b] pd Suc.prems(2) by simp
  ultimately show ?case using Suc.prems(2) by (simp add: unat_gt_0)
qed

lemma slab_sizes_range:
  assumes "i < SLAB_TYPES_MAX"
  shows "8 \<le> unat (slab_sizes i)" and "unat (slab_sizes i) \<le> 1024" and "0 < slab_count i"
    and "slab_count i * unat (slab_sizes i) \<le> 4064"
proof -
  have "i \<in> {0, 1, 2, 3, 4, 5, 6, 7}" using assms by auto
  then have r: "8 \<le> unat (slab_sizes i) \<and> unat (slab_sizes i) \<le> 1024" by (auto simp: slab_sizes_def)
  then show "8 \<le> unat (slab_sizes i)" and "unat (slab_sizes i) \<le> 1024" by simp_all
  show "slab_count i * unat (slab_sizes i) \<le> 4064" by (simp add: slab_count_def)
  have "unat (slab_sizes i) \<le> 4064" using r by simp
  then show "0 < slab_count i" using r unfolding slab_count_def by (simp add: div_greater_zero_iff)
qed

lemma slab_objects_page:
  assumes "i < SLAB_TYPES_MAX" and "k < HEAP_PAGES" and "p \<in> set (slab_objects (heap_addr k) i)"
  shows "\<exists>j < slab_count i. unat p = unat (heap_addr k) + 32 + j * unat (slab_sizes i)"
    and "unat (heap_addr k) + 32 \<le> unat p" and "unat p < unat (heap_addr k) + 4096"
proof -
  note r = slab_sizes_range [OF assms(1)]
  have q: "unat (heap_addr k) + 4096 < 4294967296" using assms(2) by (simp add: unat_heap_addr)
  have q32: "unat (heap_addr k + 32) = unat (heap_addr k) + 32" using q by (subst unat_plus_no_wrap) simp_all
  have "unat (heap_addr k + 32) + slab_count i * unat (slab_sizes i) < 4294967296" using q q32 r(4) by simp
  from steps_above [OF _ this assms(3) [unfolded slab_objects_def]] r(1) q32 obtain j where
    j: "j < slab_count i" "unat p = unat (heap_addr k) + 32 + j * unat (slab_sizes i)" by auto
  from j show "\<exists>j < slab_count i. unat p = unat (heap_addr k) + 32 + j * unat (slab_sizes i)" by blast
  from j show "unat (heap_addr k) + 32 \<le> unat p" by simp
  have "j * unat (slab_sizes i) + unat (slab_sizes i) \<le> slab_count i * unat (slab_sizes i)"
    using mult_le_mono1 [of "Suc j" "slab_count i" "unat (slab_sizes i)"] j(1) by simp
  then show "unat p < unat (heap_addr k) + 4096" using j(2) r(1,4) by linarith
qed

section \<open>The invariant of the slab allocator\<close>

text \<open>
  \<open>heap_wf s L F\<close>: \<open>L i\<close> lists the slabs of cache \<open>i\<close> and \<open>F q\<close> the free objects of
  slab \<open>q\<close>, in the order of the pointers in memory.
\<close>

definition slab_next :: "'a heap_state_scheme \<Rightarrow> ptr \<Rightarrow> ptr option" where
  "slab_next s p = map_option sl_next (slabs s p)"

definition slab_ok :: "'a heap_state_scheme \<Rightarrow> nat \<Rightarrow> ptr \<Rightarrow> ptr list \<Rightarrow> bool" where
  "slab_ok s i q fs \<longleftrightarrow> heap_used s q \<and>
     (\<exists>sl. slabs s q = Some sl \<and> sl_objstart sl = q + 32 \<and> sl_objsize sl = slab_sizes i \<and>
        sl_n_objects sl = of_nat (slab_count i) \<and> chain (\<lambda>x. Some (links s x)) (sl_free_list sl) fs) \<and>
     set fs \<subseteq> set (slab_objects q i)"

definition heap_wf :: "'a heap_state_scheme \<Rightarrow> (nat \<Rightarrow> ptr list) \<Rightarrow> (ptr \<Rightarrow> ptr list) \<Rightarrow> bool" where
  "heap_wf s L F \<longleftrightarrow>
     (\<forall>i < SLAB_TYPES_MAX. chain (slab_next s) (sc_slabs (caches s i)) (L i)) \<and>
     (if allocator_initialized s then \<forall>i < SLAB_TYPES_MAX. sc_objsize (caches s i) = slab_sizes i
      else \<forall>i < SLAB_TYPES_MAX. L i = []) \<and>
     (\<forall>i < SLAB_TYPES_MAX. \<forall>q \<in> set (L i). slab_ok s i q (F q)) \<and>
     (\<forall>i < SLAB_TYPES_MAX. \<forall>j < SLAB_TYPES_MAX. \<forall>q. q \<in> set (L i) \<longrightarrow> q \<in> set (L j) \<longrightarrow> i = j)"

definition heap_inv :: "'a heap_state_scheme \<Rightarrow> bool" where
  "heap_inv s \<longleftrightarrow> (\<exists>L F. heap_wf s L F)"

text \<open>The allocations that are out: slab objects not on a free list, and whole pages.\<close>

definition alive :: "'a heap_state_scheme \<Rightarrow> (nat \<Rightarrow> ptr list) \<Rightarrow> (ptr \<Rightarrow> ptr list) \<Rightarrow> ptr \<Rightarrow> bool" where
  "alive s L F p \<longleftrightarrow>
     (\<exists>i < SLAB_TYPES_MAX. \<exists>q \<in> set (L i). p \<in> set (slab_objects q i) - set (F q)) \<or>
     (heap_used s p \<and> (\<forall>i < SLAB_TYPES_MAX. p \<notin> set (L i)))"

definition live :: "'a heap_state_scheme \<Rightarrow> ptr \<Rightarrow> bool" where
  "live s p \<longleftrightarrow> (\<exists>L F. heap_wf s L F \<and> alive s L F p)"

lemma heap_wf_det:
  assumes "heap_wf s L F" and "heap_wf s L' F'" and "i < SLAB_TYPES_MAX"
  shows "L' i = L i" and "q \<in> set (L i) \<Longrightarrow> F' q = F q"
proof -
  show eq: "L' i = L i" using assms chain_det unfolding heap_wf_def by blast
  assume "q \<in> set (L i)"
  with eq assms have "slab_ok s i q (F q)" "slab_ok s i q (F' q)" unfolding heap_wf_def by simp_all
  then show "F' q = F q" unfolding slab_ok_def by (auto dest: chain_det)
qed

lemma alive_det:
  assumes "heap_wf s L F" and "heap_wf s L' F'"
  shows "alive s L' F' p = alive s L F p"
proof -
  have "(\<exists>i < SLAB_TYPES_MAX. \<exists>q \<in> set (L' i). p \<in> set (slab_objects q i) - set (F' q)) \<longleftrightarrow>
      (\<exists>i < SLAB_TYPES_MAX. \<exists>q \<in> set (L i). p \<in> set (slab_objects q i) - set (F q))"
    using heap_wf_det [OF assms] by (intro ex_cong1 conj_cong bex_cong) simp_all
  moreover have "(\<forall>i < SLAB_TYPES_MAX. p \<notin> set (L' i)) \<longleftrightarrow> (\<forall>i < SLAB_TYPES_MAX. p \<notin> set (L i))"
    using heap_wf_det(1) [OF assms] by simp
  ultimately show ?thesis unfolding alive_def by simp
qed

lemma live_alive: "heap_wf s L F \<Longrightarrow> live s p = alive s L F p"
  using alive_det unfolding live_def by blast

lemma heap_wfD:
  assumes "heap_wf s L F" and "i < SLAB_TYPES_MAX"
  shows "chain (slab_next s) (sc_slabs (caches s i)) (L i)"
    and "q \<in> set (L i) \<Longrightarrow> slab_ok s i q (F q)"
    and "allocator_initialized s \<Longrightarrow> sc_objsize (caches s i) = slab_sizes i"
    and "j < SLAB_TYPES_MAX \<Longrightarrow> q \<in> set (L i) \<Longrightarrow> q \<in> set (L j) \<Longrightarrow> i = j"
  using assms unfolding heap_wf_def by (simp, simp, simp, blast)

lemma slab_okD:
  assumes "slab_ok s i q fs"
  obtains sl k where "k < HEAP_PAGES" "q = heap_addr k" "bm_used (heap_bitmap s) k" "slabs s q = Some sl"
    "sl_objstart sl = q + 32" "sl_objsize sl = slab_sizes i" "sl_n_objects sl = of_nat (slab_count i)"
    "chain (\<lambda>x. Some (links s x)) (sl_free_list sl) fs" "set fs \<subseteq> set (slab_objects q i)"
  using assms unfolding slab_ok_def heap_used_def by blast

text \<open>An object lies in the page of its slab, past the header.\<close>

lemma object_slab_unique:
  assumes "i < SLAB_TYPES_MAX" and "j < SLAB_TYPES_MAX" and "k < HEAP_PAGES" and "l < HEAP_PAGES"
    and "p \<in> set (slab_objects (heap_addr k) i)" and "p \<in> set (slab_objects (heap_addr l) j)"
  shows "k = l"
proof -
  have "0xC0100000 + k * 4096 \<le> unat p \<and> unat p < 0xC0100000 + k * 4096 + 4096"
    using slab_objects_page(2,3) [OF assms(1,3,5)] unat_heap_addr [OF assms(3)] by simp
  moreover have "0xC0100000 + l * 4096 \<le> unat p \<and> unat p < 0xC0100000 + l * 4096 + 4096"
    using slab_objects_page(2,3) [OF assms(2,4,6)] unat_heap_addr [OF assms(4)] by simp
  ultimately have "k * 4096 < Suc l * 4096" "l * 4096 < Suc k * 4096" by auto
  then show ?thesis by simp
qed

lemma object_not_page:
  assumes "i < SLAB_TYPES_MAX" and "k < HEAP_PAGES" and "l < HEAP_PAGES"
    and "p \<in> set (slab_objects (heap_addr k) i)"
  shows "p \<noteq> heap_addr l"
proof
  assume "p = heap_addr l"
  then have b: "0xC0100000 + k * 4096 + 32 \<le> 0xC0100000 + l * 4096" "0xC0100000 + l * 4096 < 0xC0100000 + k * 4096 + 4096"
    using slab_objects_page(2,3) [OF assms(1,2,4)] unat_heap_addr [OF assms(2)] unat_heap_addr [OF assms(3)]
    by simp_all
  show False
  proof (cases "l \<le> k")
    case True
    then have "l * 4096 \<le> k * 4096" by simp
    with b(1) show False by linarith
  next
    case False
    then have "Suc k * 4096 \<le> l * 4096" by (intro mult_le_mono1) simp
    with b(2) show False by simp
  qed
qed

section \<open>Allocation keeps the invariant\<close>

lemma heap_used_mono:
  "heap_used s q \<Longrightarrow> (\<And>k. bm_used (heap_bitmap s) k \<Longrightarrow> bm_used (heap_bitmap s') k) \<Longrightarrow> heap_used s' q"
  unfolding heap_used_def by blast

lemma heap_wf_same:
  assumes "heap_wf s L F" and "same_slabs s' s" and "\<And>k. bm_used (heap_bitmap s) k \<Longrightarrow> bm_used (heap_bitmap s') k"
  shows "heap_wf s' L F"
proof -
  have "slab_next s' = slab_next s" using assms(2) by (simp add: same_slabs_def slab_next_def fun_eq_iff)
  moreover have "slab_ok s' i q fs" if "slab_ok s i q fs" for i q fs
    using that assms(2) heap_used_mono [OF _ assms(3)] unfolding slab_ok_def same_slabs_def by metis
  ultimately show ?thesis using assms(1,2) unfolding heap_wf_def same_slabs_def by simp
qed

lemma heap_used_mark:
  assumes "heap_bitmap s' = bm_mark k (heap_bitmap s)" and "k < HEAP_PAGES"
  shows "heap_used s' q \<longleftrightarrow> q = heap_addr k \<or> heap_used s q"
  using assms unfolding heap_used_def by (auto simp: bm_simps)

lemma heap_addr_inj: "k < HEAP_PAGES \<Longrightarrow> l < HEAP_PAGES \<Longrightarrow> heap_addr k = heap_addr l \<longleftrightarrow> k = l"
  using heap_addr_facts(4) by metis

lemma page_not_used:
  assumes "k < HEAP_PAGES" and "\<not> bm_used (heap_bitmap s) k"
  shows "\<not> heap_used s (heap_addr k)"
  using assms heap_addr_inj unfolding heap_used_def by blast

lemma slab_page_used: "heap_wf s L F \<Longrightarrow> i < SLAB_TYPES_MAX \<Longrightarrow> q \<in> set (L i) \<Longrightarrow> heap_used s q"
  using heap_wfD(2) unfolding slab_ok_def by blast

lemma alive_object_page:
  assumes "heap_wf s L F" and "alive s L F p"
  shows "p \<noteq> 0" and "heap_used s p \<or> (\<exists>k < HEAP_PAGES. heap_used s (heap_addr k) \<and> (\<forall>l < HEAP_PAGES. p \<noteq> heap_addr l))"
proof -
  have "p \<noteq> 0 \<and> (heap_used s p \<or> (\<exists>k < HEAP_PAGES. heap_used s (heap_addr k) \<and> (\<forall>l < HEAP_PAGES. p \<noteq> heap_addr l)))"
  proof (cases "heap_used s p")
    case True
    then obtain k where "k < HEAP_PAGES" "p = heap_addr k" unfolding heap_used_def by blast
    with True heap_addr_facts(5) [of k] show ?thesis by simp
  next
    case False
    with assms(2) obtain i q where o: "i < SLAB_TYPES_MAX" "q \<in> set (L i)" "p \<in> set (slab_objects q i)"
      unfolding alive_def by blast
    then have "heap_used s q" using slab_page_used [OF assms(1)] by blast
    then obtain k where k: "k < HEAP_PAGES" "q = heap_addr k" unfolding heap_used_def by blast
    have "32 \<le> unat p" using slab_objects_page(2) [OF o(1) k(1) o(3) [unfolded k(2)]] by linarith
    then have "p \<noteq> 0" by auto
    with object_not_page [OF o(1) k(1)] o(3) k \<open>heap_used s q\<close> show ?thesis by blast
  qed
  then show "p \<noteq> 0" and "heap_used s p \<or> (\<exists>k < HEAP_PAGES. heap_used s (heap_addr k) \<and> (\<forall>l < HEAP_PAGES. p \<noteq> heap_addr l))"
    by blast+
qed

lemma AllocateVirtualPage_alive:
  assumes "heap_wf s L F" and "AllocateVirtualPage s = Some (p, s')"
  shows "heap_wf s' L F" and "same_slabs s' s" and "p = 0 \<Longrightarrow> alive s' L F x = alive s L F x"
    and "p \<noteq> 0 \<Longrightarrow> \<not> alive s L F p" and "p \<noteq> 0 \<Longrightarrow> alive s' L F x \<longleftrightarrow> x = p \<or> alive s L F x"
    and "p \<noteq> 0 \<Longrightarrow> \<exists>k < HEAP_PAGES. p = heap_addr k \<and> \<not> heap_used s p \<and> (\<forall>q. heap_used s' q \<longleftrightarrow> q = p \<or> heap_used s q)"
proof -
  have "heap_wf s' L F \<and> same_slabs s' s \<and> (p = 0 \<longrightarrow> alive s' L F x = alive s L F x) \<and>
      (p \<noteq> 0 \<longrightarrow> \<not> alive s L F p \<and> (alive s' L F x \<longleftrightarrow> x = p \<or> alive s L F x) \<and>
        (\<exists>k < HEAP_PAGES. p = heap_addr k \<and> \<not> heap_used s p \<and> (\<forall>q. heap_used s' q \<longleftrightarrow> q = p \<or> heap_used s q)))"
    using assms(2)
  proof (cases rule: AllocateVirtualPage_cases)
    case fail
    have "heap_wf s' L F" using assms(1) fail(2) by (rule heap_wf_same) (simp add: fail(3))
    moreover have "heap_used s' = heap_used s" by (rule ext) (simp add: heap_used_def fail(3))
    ultimately show ?thesis using fail by (simp add: alive_def)
  next
    case (page k)
    have wf: "heap_wf s' L F" using assms(1) page(5) by (rule heap_wf_same) (simp add: page(4) bm_simps)
    have u: "heap_used s' q \<longleftrightarrow> q = p \<or> heap_used s q" for q using heap_used_mark [OF page(4,2)] page(1) by simp
    have nu: "\<not> heap_used s p" using page_not_used [OF page(2,3)] page(1) by simp
    then have nL: "\<forall>i < SLAB_TYPES_MAX. p \<notin> set (L i)" using slab_page_used [OF assms(1)] by blast
    have p0: "p \<noteq> 0" using heap_addr_facts(5) [OF page(2)] page(1) by simp
    have "\<not> alive s L F p" using alive_object_page(2) [OF assms(1), of p] nu page(1,2) by blast
    moreover have "alive s' L F x \<longleftrightarrow> x = p \<or> alive s L F x" using u nL unfolding alive_def by blast
    ultimately show ?thesis using wf page(1,2,5) u nu p0 by blast
  qed
  then show "heap_wf s' L F" and "same_slabs s' s" and "p = 0 \<Longrightarrow> alive s' L F x = alive s L F x"
    and "p \<noteq> 0 \<Longrightarrow> \<not> alive s L F p" and "p \<noteq> 0 \<Longrightarrow> alive s' L F x \<longleftrightarrow> x = p \<or> alive s L F x"
    and "p \<noteq> 0 \<Longrightarrow> \<exists>k < HEAP_PAGES. p = heap_addr k \<and> \<not> heap_used s p \<and> (\<forall>q. heap_used s' q \<longleftrightarrow> q = p \<or> heap_used s q)"
    by blast+
qed

lemma find_slab_chain:
  assumes "chain (slab_next s) p xs"
  shows "\<exists>r. find_slab s p = Some r \<and>
    (r = 0 \<or> (r \<in> set xs \<and> (\<exists>sl. slabs s r = Some sl \<and> sl_free_list sl \<noteq> 0)))"
  using assms
proof (induction xs arbitrary: p)
  case Nil
  then show ?case by (subst find_slab.simps) simp
next
  case (Cons x xs)
  then obtain sl where sl: "p = x" "x \<noteq> 0" "slabs s x = Some sl" "chain (slab_next s) (sl_next sl) xs"
    by (auto simp: slab_next_def [of s x])
  show ?case
  proof (cases "sl_free_list sl = 0")
    case True
    with sl Cons.IH [OF sl(4)] show ?thesis by (subst find_slab.simps) auto
  next
    case False
    with sl show ?thesis by (subst find_slab.simps) auto
  qed
qed

subsection \<open>Taking an object\<close>

lemma free_object_not_alive:
  assumes "heap_wf s L F" and "i < SLAB_TYPES_MAX" and "p \<in> set (L i)" and "x \<in> set (F p)"
  shows "\<not> alive s L F x"
proof
  assume al: "alive s L F x"
  obtain k where k: "k < HEAP_PAGES" "p = heap_addr k" "x \<in> set (slab_objects p i)"
    using heap_wfD(2) [OF assms(1,2,3)] assms(4) by (auto elim!: slab_okD)
  from al consider (obj) j q where "j < SLAB_TYPES_MAX" "q \<in> set (L j)" "x \<in> set (slab_objects q j)" "x \<notin> set (F q)"
    | (pg) "heap_used s x" unfolding alive_def by blast
  then show False
  proof cases
    case obj
    then obtain l where l: "l < HEAP_PAGES" "q = heap_addr l"
      using heap_wfD(2) [OF assms(1) obj(1,2)] by (auto elim!: slab_okD)
    have "k = l" using object_slab_unique [OF assms(2) obj(1) k(1) l(1)] k(2,3) l(2) obj(3) by simp
    with k(2) l(2) obj(4) assms(4) show False by simp
  next
    case pg
    then show False using object_not_page [OF assms(2) k(1)] k(2,3) unfolding heap_used_def by blast
  qed
qed

lemma take_object_pop:
  assumes "heap_wf s L F" and "i < SLAB_TYPES_MAX" and "p \<in> set (L i)" and "F p = x # xs"
    and "slabs s p = Some sl" and "t = s\<lparr>slabs := (slabs s)(p \<mapsto> sl\<lparr>sl_free_list := links s (sl_free_list sl)\<rparr>)\<rparr>"
  shows "sl_free_list sl = x" and "heap_wf t L (F(p := xs))" and "\<not> alive s L F x"
    and "alive t L (F(p := xs)) y \<longleftrightarrow> y = x \<or> alive s L F y"
proof -
  note ok = heap_wfD(2) [OF assms(1,2,3)]
  have c: "chain (\<lambda>x. Some (links s x)) (sl_free_list sl) (x # xs)" and sub: "set (x # xs) \<subseteq> set (slab_objects p i)"
    using ok assms(4,5) by (auto simp: slab_ok_def)
  then show x: "sl_free_list sl = x" by simp
  have nd: "x \<notin> set xs" using chain_distinct [OF c] by simp
  show na: "\<not> alive s L F x" using free_object_not_alive [OF assms(1-3)] assms(4) by simp
  have nx: "slab_next t = slab_next s" using assms(5,6) by (auto simp: slab_next_def fun_eq_iff)
  have used: "heap_used t q = heap_used s q" for q using assms(6) by (simp add: heap_used_def)
  have ok': "slab_ok t j q ((F(p := xs)) q)" if "j < SLAB_TYPES_MAX" "q \<in> set (L j)" for j q
  proof (cases "q = p")
    case True
    then have "j = i" using heap_wfD(4) [OF assms(1,2)] that assms(3) by blast
    with True ok c sub x assms(4-6) show ?thesis by (auto simp: slab_ok_def used)
  next
    case False
    then show ?thesis using heap_wfD(2) [OF assms(1) that] assms(6) by (simp add: slab_ok_def used)
  qed
  show "heap_wf t L (F(p := xs))"
    using assms(1,6) nx ok' unfolding heap_wf_def by simp
  have p: "q \<in> set (L j) \<Longrightarrow> j < SLAB_TYPES_MAX \<Longrightarrow> y \<in> set (slab_objects q j) - set ((F(p := xs)) q) \<longleftrightarrow>
      (q = p \<and> y = x) \<or> y \<in> set (slab_objects q j) - set (F q)" for q j
    using heap_wfD(4) [OF assms(1,2) _ assms(3)] sub nd assms(4) by auto
  show "alive t L (F(p := xs)) y \<longleftrightarrow> y = x \<or> alive s L F y"
  proof -
    have "(\<exists>j < SLAB_TYPES_MAX. \<exists>q \<in> set (L j). y \<in> set (slab_objects q j) - set ((F(p := xs)) q)) \<longleftrightarrow>
        y = x \<or> (\<exists>j < SLAB_TYPES_MAX. \<exists>q \<in> set (L j). y \<in> set (slab_objects q j) - set (F q))"
      using p assms(2,3) by blast
    then show ?thesis unfolding alive_def used by blast
  qed
qed

subsection \<open>A new slab\<close>

lemma new_slab_layout:
  assumes "k < HEAP_PAGES" and "i < SLAB_TYPES_MAX"
  shows "alignup (heap_addr k + SIZEOF_SLAB) DEFAULT_OBJ_ALIGN = heap_addr k + 32"
    and "PAGE_SIZE - (heap_addr k + 32 - heap_addr k) = 4064"
    and "4064 div slab_sizes i = of_nat (slab_count i)" and "unat (4064 div slab_sizes i) = slab_count i"
    and "slab_sizes i \<ge> 4"
proof -
  have q: "unat (heap_addr k) = 0xC0100000 + k * 4096" using assms(1) by (rule unat_heap_addr)
  have "unat (heap_addr k + SIZEOF_SLAB + (DEFAULT_OBJ_ALIGN - 1)) = (0xC010002 + k * 256) * 16 + 3"
    using q assms(1) by (simp add: unat_word_ariths)
  then have d: "unat ((heap_addr k + SIZEOF_SLAB + (DEFAULT_OBJ_ALIGN - 1)) div DEFAULT_OBJ_ALIGN) = 0xC010002 + k * 256"
    by (simp add: unat_div)
  have "unat (alignup (heap_addr k + SIZEOF_SLAB) DEFAULT_OBJ_ALIGN) = unat (heap_addr k + 32)"
    unfolding alignup_def using d q assms(1) by (simp add: unat_word_ariths)
  then show "alignup (heap_addr k + SIZEOF_SLAB) DEFAULT_OBJ_ALIGN = heap_addr k + 32"
    by (rule word_unat_eq_iff [THEN iffD2])
  show "PAGE_SIZE - (heap_addr k + 32 - heap_addr k) = 4064" by simp
  show u: "unat (4064 div slab_sizes i) = slab_count i" by (simp add: unat_div slab_count_def)
  show "4064 div slab_sizes i = of_nat (slab_count i)" unfolding u [symmetric] by simp
  show "slab_sizes i \<ge> 4" using slab_sizes_range(1) [OF assms(2)] by (simp add: word_le_nat_alt)
qed

definition new_slab :: "nat \<Rightarrow> ptr \<Rightarrow> ptr \<Rightarrow> Slab" where
  "new_slab i q nxt = \<lparr>sl_free_list = q + 32, sl_objstart = q + 32, sl_n_objects = of_nat (slab_count i),
     sl_objsize = slab_sizes i, sl_next = nxt\<rparr>"

definition with_slab :: "nat \<Rightarrow> ptr \<Rightarrow> ptr \<Rightarrow> 'a heap_state_scheme \<Rightarrow> 'a heap_state_scheme" where
  "with_slab i q nxt s = s\<lparr>slabs := (slabs s)(q \<mapsto> new_slab i q nxt),
     links := thread_links (q + 32) (slab_sizes i) (slab_count i - 1) (links s)\<rparr>"

lemma CreateSlab_page:
  assumes "AllocateVirtualPage s = Some (heap_addr k, s1)" and "k < HEAP_PAGES" and "i < SLAB_TYPES_MAX"
  shows "CreateSlab (slab_sizes i) s = Some (heap_addr k, with_slab i (heap_addr k) 0 s1)"
proof -
  note l = new_slab_layout [OF assms(2,3)]
  have "of_nat (slab_count i) \<noteq> (0 :: u32)"
    using slab_sizes_range(3) [OF assms(3)] l(3,4) by (metis less_irrefl unat_0)
  with assms(1) heap_addr_facts(5) [OF assms(2)] l show ?thesis
    by (simp add: CreateSlab_def Let_def with_slab_def new_slab_def leD)
qed

lemma slab_objects_eq: "i < SLAB_TYPES_MAX \<Longrightarrow> slab_objects q i = steps (q + 32) (slab_sizes i) (Suc (slab_count i - 1))"
  using slab_sizes_range(3) [of i] by (simp add: slab_objects_def)

lemma new_slab_chain:
  assumes "k < HEAP_PAGES" and "i < SLAB_TYPES_MAX"
  shows "chain (\<lambda>x. Some (thread_links (heap_addr k + 32) (slab_sizes i) (slab_count i - 1) l x))
           (heap_addr k + 32) (slab_objects (heap_addr k) i)"
proof -
  note r = slab_sizes_range [OF assms(2)]
  have q: "unat (heap_addr k) + 4096 < 4294967296" using assms(1) by (simp add: unat_heap_addr)
  then have q32: "unat (heap_addr k + 32) = unat (heap_addr k) + 32" by (subst unat_plus_no_wrap) simp_all
  have "Suc (slab_count i - 1) * unat (slab_sizes i) \<le> 4064" using r(3,4) by simp
  then have "unat (heap_addr k + 32) + Suc (slab_count i - 1) * unat (slab_sizes i) < 4294967296"
    using q q32 by linarith
  then show ?thesis unfolding slab_objects_eq [OF assms(2)]
    using r(1) q32 by (intro thread_links_chain) simp_all
qed

lemma heap_wf_new_slab:
  assumes "heap_wf s L F" and "allocator_initialized s" and "i < SLAB_TYPES_MAX" and "k < HEAP_PAGES"
    and "q = heap_addr k" and "heap_used s q" and "\<forall>j < SLAB_TYPES_MAX. q \<notin> set (L j)"
    and "t = (with_slab i q (sc_slabs (caches s i)) s)\<lparr>caches := (caches s)(i := (caches s i)\<lparr>sc_slabs := q\<rparr>)\<rparr>"
  shows "heap_wf t (L(i := q # L i)) (F(q := slab_objects q i))"
    and "alive t (L(i := q # L i)) (F(q := slab_objects q i)) y \<longleftrightarrow> y \<noteq> q \<and> alive s L F y"
proof -
  let ?L = "L(i := q # L i)" and ?F = "F(q := slab_objects q i)"
  have used: "heap_used t = heap_used s" unfolding assms(8) with_slab_def by (rule ext) simp
  have sl: "slabs t = (slabs s)(q \<mapsto> new_slab i q (sc_slabs (caches s i)))" and
    lk: "links t = thread_links (q + 32) (slab_sizes i) (slab_count i - 1) (links s)" and
    ca: "caches t = (caches s)(i := (caches s i)\<lparr>sc_slabs := q\<rparr>)" and
    ini: "allocator_initialized t" using assms(2,8) by (simp_all add: with_slab_def)
  have nx: "chain (slab_next t) p xs = chain (slab_next s) p xs" if "q \<notin> set xs" for p xs
    using that by (intro chain_cong) (auto simp: slab_next_def sl)
  have nq: "slab_next t q = Some (sc_slabs (caches s i))" by (simp add: slab_next_def sl new_slab_def)
  have ch: "chain (slab_next t) (sc_slabs (caches t j)) (?L j)" if "j < SLAB_TYPES_MAX" for j
    using that nx [of "L j"] nq assms(7) heap_wfD(1) [OF assms(1) that] heap_addr_facts(5) [OF assms(4)]
    by (cases "j = i") (simp_all add: ca assms(5) [symmetric])
  have okq: "slab_ok t i q (slab_objects q i)"
    using new_slab_chain [OF assms(4,3), of "links s"] assms(5,6)
    by (simp add: slab_ok_def used sl lk new_slab_def)
  have okj: "slab_ok t j p (F p)" if jp: "j < SLAB_TYPES_MAX" "p \<in> set (L j)" for j p
  proof -
    have pq: "p \<noteq> q" using assms(7) jp by blast
    obtain l sl' where l: "l < HEAP_PAGES" "p = heap_addr l" "slabs s p = Some sl'" "sl_objstart sl' = p + 32"
      "sl_objsize sl' = slab_sizes j" "sl_n_objects sl' = of_nat (slab_count j)"
      "chain (\<lambda>x. Some (links s x)) (sl_free_list sl') (F p)" "set (F p) \<subseteq> set (slab_objects p j)" "heap_used s p"
      using heap_wfD(2) [OF assms(1) jp] slab_page_used [OF assms(1) jp] by (auto elim!: slab_okD)
    have "links t x = links s x" if "x \<in> set (F p)" for x
    proof -
      have "x \<notin> set (slab_objects q i)"
        using object_slab_unique [OF assms(3) \<open>j < SLAB_TYPES_MAX\<close> assms(4) l(1), of x] that l(2,8) pq assms(5) by blast
      then show ?thesis unfolding lk slab_objects_eq [OF assms(3)] by (rule thread_links_other)
    qed
    then have "chain (\<lambda>x. Some (links t x)) (sl_free_list sl') (F p)"
      using l(7) chain_cong [of "F p" "\<lambda>x. Some (links t x)" "\<lambda>x. Some (links s x)"] by simp
    with l pq show ?thesis by (auto simp: slab_ok_def used sl)
  qed
  have "slab_ok t j p (?F p)" if "j < SLAB_TYPES_MAX" "p \<in> set (?L j)" for j p
    using that okq okj [of j p] assms(7) by (auto split: if_splits)
  moreover have "\<forall>j < SLAB_TYPES_MAX. sc_objsize (caches t j) = slab_sizes j"
    using heap_wfD(3) [OF assms(1) _ assms(2)] by (simp add: ca)
  moreover have "\<forall>a < SLAB_TYPES_MAX. \<forall>b < SLAB_TYPES_MAX. \<forall>p. p \<in> set (?L a) \<longrightarrow> p \<in> set (?L b) \<longrightarrow> a = b"
    using heap_wfD(4) [OF assms(1)] assms(7) by auto
  ultimately show "heap_wf t ?L ?F" using ch ini unfolding heap_wf_def by simp
  have "(\<exists>j < SLAB_TYPES_MAX. \<exists>p \<in> set (?L j). y \<in> set (slab_objects p j) - set (?F p)) \<longleftrightarrow>
      (\<exists>j < SLAB_TYPES_MAX. \<exists>p \<in> set (L j). y \<in> set (slab_objects p j) - set (F p))"
  proof (rule ex_cong1, rule conj_cong [OF refl])
    fix j assume j: "j < SLAB_TYPES_MAX"
    show "(\<exists>p \<in> set (?L j). y \<in> set (slab_objects p j) - set (?F p)) \<longleftrightarrow>
        (\<exists>p \<in> set (L j). y \<in> set (slab_objects p j) - set (F p))"
      using assms(7) j by (cases "j = i") auto
  qed
  moreover have "(\<forall>j < SLAB_TYPES_MAX. y \<notin> set (?L j)) \<longleftrightarrow> y \<noteq> q \<and> (\<forall>j < SLAB_TYPES_MAX. y \<notin> set (L j))"
    using assms(3) by auto
  moreover have "y \<noteq> q" if jp: "j < SLAB_TYPES_MAX" "p \<in> set (L j)" "y \<in> set (slab_objects p j)" for j p
  proof -
    obtain l where "l < HEAP_PAGES" "p = heap_addr l"
      using slab_page_used [OF assms(1) jp(1,2)] unfolding heap_used_def by blast
    then show ?thesis using object_not_page [OF jp(1) _ assms(4)] jp(3) assms(5) by blast
  qed
  ultimately show "alive t ?L ?F y \<longleftrightarrow> y \<noteq> q \<and> alive s L F y"
    unfolding alive_def used by blast
qed

subsection \<open>Allocating\<close>

definition more_slabs :: "(nat \<Rightarrow> ptr list) \<Rightarrow> (nat \<Rightarrow> ptr list) \<Rightarrow> bool" where
  "more_slabs L L' \<longleftrightarrow> (\<forall>j. set (L j) \<subseteq> set (L' j))"

lemma more_slabs_refl [simp]: "more_slabs L L" "more_slabs L (L(i := q # L i))"
  by (auto simp: more_slabs_def)

lemma usable_slab_spec:
  assumes "heap_wf s L F" and "allocator_initialized s" and "i < SLAB_TYPES_MAX" and "usable_slab i s = Some (p, t)"
  shows "heap_state.more t = heap_state.more s \<and> allocator_initialized t \<and>
    ((p = 0 \<and> heap_wf t L F \<and> (\<forall>y. alive t L F y = alive s L F y)) \<or>
     (\<exists>L' F'. heap_wf t L' F' \<and> more_slabs L L' \<and> (\<forall>y. alive t L' F' y = alive s L F y) \<and>
        p \<in> set (L' i) \<and> F' p \<noteq> []))"
proof -
  note wf = heap_wfD [OF assms(1,3)]
  obtain r where r: "find_slab s (sc_slabs (caches s i)) = Some r"
    "r = 0 \<or> (r \<in> set (L i) \<and> (\<exists>sl. slabs s r = Some sl \<and> sl_free_list sl \<noteq> 0))"
    using find_slab_chain [OF wf(1)] by blast
  show ?thesis
  proof (cases "r = 0")
    case False
    with r obtain sl where sl: "r \<in> set (L i)" "slabs s r = Some sl" "sl_free_list sl \<noteq> 0" by blast
    have "F r \<noteq> []" using wf(2) [OF sl(1)] sl(2,3) by (auto simp: slab_ok_def)
    with False r(1) sl(1) assms(1,2,4) show ?thesis
      by (auto simp: usable_slab_def intro!: exI [of _ L] exI [of _ F])
  next
    case True
    with r(1) assms(4) wf(3) [OF assms(2)] obtain q s1 where q: "CreateSlab (slab_sizes i) s = Some (q, s1)"
      by (auto simp: usable_slab_def split: bind_splits)
    then obtain a s0 where a: "AllocateVirtualPage s = Some (a, s0)"
      by (auto simp: CreateSlab_def Let_def split: bind_splits)
    note av = AllocateVirtualPage_alive [OF assms(1) a]
    have s0: "heap_state.more s0 = heap_state.more s" "allocator_initialized s0" "caches s0 = caches s"
      using av(2) assms(2) by (simp_all add: same_slabs_def)
    show ?thesis
    proof (cases "a = 0")
      case a0: True
      with q a have "q = 0" "s1 = s0" by (auto simp: CreateSlab_def Let_def)
      with True r(1) assms(4) q wf(3) [OF assms(2)] have "p = 0" "t = s0"
        by (auto simp: usable_slab_def)
      with av(1,3) a0 s0 show ?thesis by auto
    next
      case a0: False
      from av(6) [OF this] obtain k where k: "k < HEAP_PAGES" "a = heap_addr k" "\<not> heap_used s a"
        "\<forall>q. heap_used s0 q \<longleftrightarrow> q = a \<or> heap_used s q" by blast
      have "CreateSlab (slab_sizes i) s = Some (a, with_slab i a 0 s0)"
        using CreateSlab_page [OF a [unfolded k(2)] k(1) assms(3)] k(2) by simp
      then have qa: "q = a" "s1 = with_slab i a 0 s0" using q by simp_all
      let ?t = "(with_slab i a (sc_slabs (caches s0 i)) s0)\<lparr>caches := (caches s0)(i := (caches s0 i)\<lparr>sc_slabs := a\<rparr>)\<rparr>"
      have t: "p = a" "t = ?t"
        using True r(1) assms(4) q qa a0 wf(3) [OF assms(2)]
        by (auto simp: usable_slab_def with_slab_def new_slab_def)
      have nL: "\<forall>j < SLAB_TYPES_MAX. a \<notin> set (L j)" using slab_page_used [OF assms(1)] k(3) by blast
      have us: "heap_used s0 a" using k(4) by simp
      note n = heap_wf_new_slab [OF av(1) s0(2) assms(3) k(1,2) us nL t(2)]
      have "alive t (L(i := a # L i)) (F(a := slab_objects a i)) y = alive s L F y" for y
        using n(2) [of y] av(4,5) a0 by blast
      moreover have "slab_objects a i \<noteq> []" by (simp add: slab_objects_eq [OF assms(3)])
      ultimately show ?thesis using n(1) t s0 by (auto simp: with_slab_def intro!: exI [of _ "L(i := a # L i)"])
    qed
  qed
qed

lemma take_object_spec:
  assumes "heap_wf s L F" and "allocator_initialized s" and "i < SLAB_TYPES_MAX" and "take_object i s = Some (p, t)"
  shows "heap_state.more t = heap_state.more s \<and>
    (\<exists>L' F'. heap_wf t L' F' \<and> more_slabs L L' \<and>
      (if p = 0 then \<forall>y. alive t L' F' y = alive s L F y
       else \<not> alive s L F p \<and> (\<forall>y. alive t L' F' y \<longleftrightarrow> y = p \<or> alive s L F y) \<and>
         (\<exists>q \<in> set (L' i). p \<in> set (slab_objects q i) - set (F' q))))"
proof -
  obtain q s1 where q: "usable_slab i s = Some (q, s1)"
    using assms(4) by (auto simp: take_object_def split: bind_splits)
  note u = usable_slab_spec [OF assms(1-3) q]
  show ?thesis
  proof (cases "q = 0")
    case True
    then have "\<not> (\<exists>L' F'. heap_wf s1 L' F' \<and> q \<in> set (L' i))"
      using heap_wfD(1) [OF _ assms(3)] chain_zero_notin by blast
    with True u assms(4) q show ?thesis by (auto simp: take_object_def intro!: exI [of _ L] exI [of _ F])
  next
    case False
    with u obtain L' F' where w: "heap_wf s1 L' F'" "\<forall>y. alive s1 L' F' y = alive s L F y" "q \<in> set (L' i)" "F' q \<noteq> []"
      "more_slabs L L'" and m: "heap_state.more s1 = heap_state.more s" by blast
    from w(4) obtain x xs where x: "F' q = x # xs" by (cases "F' q") auto
    obtain sl where sl: "slabs s1 q = Some sl" using heap_wfD(2) [OF w(1) assms(3) w(3)] by (auto simp: slab_ok_def)
    have t: "p = sl_free_list sl" "t = s1\<lparr>slabs := (slabs s1)(q \<mapsto> sl\<lparr>sl_free_list := links s1 (sl_free_list sl)\<rparr>)\<rparr>"
      using assms(4) q False sl by (auto simp: take_object_def Let_def)
    note pop = take_object_pop [OF w(1) assms(3) w(3) x sl t(2)]
    have "x \<noteq> 0" using heap_wfD(2) [OF w(1) assms(3) w(3)] x by (auto simp: slab_ok_def)
    moreover have ok: "slab_ok s1 i q (x # xs)" using heap_wfD(2) [OF w(1) assms(3) w(3)] x by simp
    have "distinct (x # xs)" using ok unfolding slab_ok_def by (blast dest: chain_distinct)
    with ok have "x \<in> set (slab_objects q i) - set xs" by (auto simp: slab_ok_def)
    ultimately show ?thesis using pop t m w(2,3,5) \<open>x \<in> set (slab_objects q i) - set xs\<close>
      by (auto intro!: exI [of _ L'] exI [of _ "F'(q := xs)"])
  qed
qed

lemma cache_from_small: "bytes \<le> 1024 \<Longrightarrow> \<exists>i < SLAB_TYPES_MAX. GetSlabCacheForSize bytes = Some i \<and> bytes \<le> slab_sizes i"
  by (simp add: GetSlabCacheForSize_def cache_from.simps slab_sizes_def eval_nat_numeral)

lemma heap_wf_init:
  assumes "heap_wf s L F" and "\<not> allocator_initialized s"
  shows "heap_wf ((InitSlabCaches s)\<lparr>allocator_initialized := True\<rparr>) L F"
    and "alive ((InitSlabCaches s)\<lparr>allocator_initialized := True\<rparr>) L F y = alive s L F y"
proof -
  have "\<forall>i < SLAB_TYPES_MAX. L i = []" using assms by (simp add: heap_wf_def)
  then show "heap_wf ((InitSlabCaches s)\<lparr>allocator_initialized := True\<rparr>) L F"
    by (simp add: heap_wf_def InitSlabCaches_def)
  show "alive ((InitSlabCaches s)\<lparr>allocator_initialized := True\<rparr>) L F y = alive s L F y"
    by (simp add: alive_def InitSlabCaches_def)
qed

text \<open>The state in which the slab caches are initialised.\<close>

abbreviation slabs_ready :: "'a heap_state_scheme \<Rightarrow> 'a heap_state_scheme" where
  "slabs_ready s \<equiv> (if \<not> allocator_initialized s then (InitSlabCaches s)\<lparr>allocator_initialized := True\<rparr> else s)"

lemma kmalloc_page:
  assumes "1024 < bytes" and "bytes \<le> PAGE_SIZE"
  shows "kmalloc bytes s = AllocateVirtualPage s"
proof -
  have "1025 \<le> bytes" using assms(1) by (simp add: word_le_nat_alt word_less_nat_alt)
  with assms show ?thesis by (auto simp: kmalloc_def inrange_def slab_sizes_def)
qed

lemma kmalloc_slab:
  assumes "0 < bytes" and "\<not> 1024 < bytes"
  obtains i where "i < SLAB_TYPES_MAX" "bytes \<le> slab_sizes i" "kmalloc bytes s = take_object i (slabs_ready s)"
proof -
  have small: "bytes \<le> 1024" "\<not> 1025 \<le> bytes" using assms(2) by (simp_all add: not_less word_le_nat_alt)
  have le: "bytes \<le> PAGE_SIZE" using small(1) by (rule order_trans) simp
  obtain i where i: "i < SLAB_TYPES_MAX" "GetSlabCacheForSize bytes = Some i" "bytes \<le> slab_sizes i"
    using cache_from_small [OF small(1)] by blast
  have "bytes \<noteq> 0" "\<not> inrange bytes (slab_sizes (SLAB_TYPES_MAX - 1) + 1) PAGE_SIZE" "\<not> PAGE_SIZE < bytes"
    using assms(1) le small(2) by (auto simp: inrange_def slab_sizes_def)
  then have "kmalloc bytes s = take_object i (slabs_ready s)" unfolding kmalloc_def Let_def i(2) by simp
  with i(1,3) show thesis by (rule that)
qed

lemma slabs_ready_wf:
  assumes "heap_wf s L F"
  shows "heap_wf (slabs_ready s) L F" "allocator_initialized (slabs_ready s)"
    "heap_state.more (slabs_ready s) = heap_state.more s" "alive (slabs_ready s) L F y = alive s L F y"
  using assms heap_wf_init [OF assms] by (simp_all add: InitSlabCaches_def)

text \<open>\<open>room s L F p n\<close>: the allocation at \<open>p\<close> has \<open>n\<close> bytes.\<close>

definition room :: "'a heap_state_scheme \<Rightarrow> (nat \<Rightarrow> ptr list) \<Rightarrow> (ptr \<Rightarrow> ptr list) \<Rightarrow> ptr \<Rightarrow> nat \<Rightarrow> bool" where
  "room s L F p n \<longleftrightarrow>
     (\<exists>i < SLAB_TYPES_MAX. \<exists>q \<in> set (L i). p \<in> set (slab_objects q i) - set (F q) \<and> n = unat (slab_sizes i)) \<or>
     (heap_used s p \<and> (\<forall>i < SLAB_TYPES_MAX. p \<notin> set (L i)) \<and> n = 4096)"

lemma room_alive: "(\<exists>n. room s L F p n) \<longleftrightarrow> alive s L F p"
  by (auto simp: room_def alive_def)

lemma kmalloc_wf:
  assumes "heap_wf s L F" and "0 < bytes" and "bytes \<le> PAGE_SIZE" and "kmalloc bytes s = Some (p, t)"
  shows "heap_state.more t = heap_state.more s \<and> (\<exists>L' F'. heap_wf t L' F' \<and> more_slabs L L' \<and>
      (if p = 0 then \<forall>y. alive t L' F' y = alive s L F y
       else \<not> alive s L F p \<and> (\<forall>y. alive t L' F' y \<longleftrightarrow> y = p \<or> alive s L F y) \<and>
         (\<exists>n \<ge> unat bytes. room t L' F' p n)))"
proof (cases "1024 < bytes")
  case True
  have a: "AllocateVirtualPage s = Some (p, t)" using assms(4) kmalloc_page [OF True assms(3), of s] by simp
  note av = AllocateVirtualPage_alive [OF assms(1) a]
  have "unat bytes \<le> 4096" using assms(3) by (simp add: word_le_nat_alt)
  moreover have "room t L F p 4096" if "p \<noteq> 0"
    using av(6) [OF that] slab_page_used [OF assms(1)] unfolding room_def by blast
  ultimately show ?thesis using av by (auto simp: same_slabs_def intro!: exI [of _ L] exI [of _ F])
next
  case False
  obtain i where i: "i < SLAB_TYPES_MAX" "bytes \<le> slab_sizes i" "kmalloc bytes s = take_object i (slabs_ready s)"
    by (rule kmalloc_slab [OF assms(2) False])
  note r = slabs_ready_wf [OF assms(1)]
  obtain L' F' where t: "heap_state.more t = heap_state.more s" "heap_wf t L' F'" "more_slabs L L'"
    "if p = 0 then \<forall>y. alive t L' F' y = alive s L F y
     else \<not> alive s L F p \<and> (\<forall>y. alive t L' F' y \<longleftrightarrow> y = p \<or> alive s L F y) \<and>
       (\<exists>q \<in> set (L' i). p \<in> set (slab_objects q i) - set (F' q))"
    using take_object_spec [OF r(1,2) i(1), of p t] i(3) assms(4) unfolding r(3,4) by auto
  have "room t L' F' p (unat (slab_sizes i))" if "p \<noteq> 0" using t(4) that i(1) unfolding room_def by auto
  moreover have "unat bytes \<le> unat (slab_sizes i)" using i(2) by (simp add: word_le_nat_alt)
  ultimately show ?thesis using t by (auto intro!: exI [of _ L'] exI [of _ F'])
qed

lemma kmalloc_fresh:
  assumes "heap_inv s" and "0 < bytes" and "bytes \<le> PAGE_SIZE" and "kmalloc bytes s = Some (p, t)"
  shows "heap_inv t" and "heap_state.more t = heap_state.more s" and "p = 0 \<Longrightarrow> live t y = live s y"
    and "p \<noteq> 0 \<Longrightarrow> \<not> live s p" and "p \<noteq> 0 \<Longrightarrow> live t y \<longleftrightarrow> y = p \<or> live s y"
proof -
  obtain L F where wf: "heap_wf s L F" using assms(1) unfolding heap_inv_def by blast
  obtain L' F' where m: "heap_state.more t = heap_state.more s" and w: "heap_wf t L' F'" and
    al: "if p = 0 then \<forall>y. alive t L' F' y = alive s L F y
         else \<not> alive s L F p \<and> (\<forall>y. alive t L' F' y \<longleftrightarrow> y = p \<or> alive s L F y)"
    using kmalloc_wf [OF wf assms(2-4)] by auto
  show "heap_inv t" using w unfolding heap_inv_def by blast
  show "heap_state.more t = heap_state.more s" by (rule m)
  show "p = 0 \<Longrightarrow> live t y = live s y" and "p \<noteq> 0 \<Longrightarrow> \<not> live s p"
    and "p \<noteq> 0 \<Longrightarrow> live t y \<longleftrightarrow> y = p \<or> live s y"
    using al unfolding live_alive [OF w] live_alive [OF wf] by simp_all
qed

section \<open>Freeing\<close>

definition in_slab :: "ptr \<Rightarrow> Slab \<Rightarrow> bool" where
  "in_slab p sl \<longleftrightarrow> sl_objstart sl \<le> p \<and> p < sl_objstart sl + sl_n_objects sl * sl_objsize sl"

lemma find_owner_chain:
  assumes "chain (slab_next s) h xs"
  shows "(find_owner s p h = Some 0 \<and> (\<forall>q \<in> set xs. \<forall>sl. slabs s q = Some sl \<longrightarrow> \<not> in_slab p sl)) \<or>
         (\<exists>q \<in> set xs. find_owner s p h = Some q \<and> (\<exists>sl. slabs s q = Some sl \<and> in_slab p sl))"
  using assms
proof (induction xs arbitrary: h)
  case Nil
  then show ?case by (subst find_owner.simps) simp
next
  case (Cons x xs)
  then obtain sl where sl: "h = x" "x \<noteq> 0" "slabs s x = Some sl" "chain (slab_next s) (sl_next sl) xs"
    by (auto simp: slab_next_def [of s x])
  show ?case
  proof (cases "in_slab p sl")
    case True
    with sl have "find_owner s p h = Some x" by (subst find_owner.simps) (simp add: in_slab_def)
    with True sl show ?thesis by auto
  next
    case False
    with sl have "find_owner s p h = find_owner s p (sl_next sl)"
      by (subst find_owner.simps) (auto simp: in_slab_def)
    with False sl Cons.IH [OF sl(4)] show ?thesis by auto
  qed
qed

lemma in_slab_page:
  assumes "slab_ok s i (heap_addr k) fs" and "slabs s (heap_addr k) = Some sl" and "i < SLAB_TYPES_MAX" and "k < HEAP_PAGES"
  shows "in_slab p sl \<longleftrightarrow> unat (heap_addr k) + 32 \<le> unat p \<and> unat p < unat (heap_addr k) + 32 + slab_count i * unat (slab_sizes i)"
proof -
  have sl: "sl_objstart sl = heap_addr k + 32" "sl_objsize sl = slab_sizes i" "sl_n_objects sl = of_nat (slab_count i)"
    using assms(1,2) by (auto simp: slab_ok_def)
  note r = slab_sizes_range [OF assms(3)]
  have q: "unat (heap_addr k) + 4096 < 4294967296" using assms(4) by (simp add: unat_heap_addr)
  then have q32: "unat (heap_addr k + 32) = unat (heap_addr k) + 32" by (subst unat_plus_no_wrap) simp_all
  have c: "unat (of_nat (slab_count i) :: u32) = slab_count i" using new_slab_layout(3,4) [OF assms(4,3)] by simp
  have m: "unat (of_nat (slab_count i) * slab_sizes i) = slab_count i * unat (slab_sizes i)"
    using r(4) c by (subst unat_mult_no_wrap) simp_all
  have "unat (heap_addr k + 32 + of_nat (slab_count i) * slab_sizes i) = unat (heap_addr k) + 32 + slab_count i * unat (slab_sizes i)"
    using q q32 m r(4) by (subst unat_plus_no_wrap) simp_all
  then show ?thesis unfolding in_slab_def sl word_le_nat_alt word_less_nat_alt q32 by simp
qed

text \<open>A live slab object is in exactly one slab.\<close>

lemma object_owner:
  assumes "heap_wf s L F" and "i < SLAB_TYPES_MAX" and "q \<in> set (L i)" and "p \<in> set (slab_objects q i)"
    and "j < SLAB_TYPES_MAX" and "q' \<in> set (L j)" and "slabs s q' = Some sl"
  shows "in_slab p sl \<longleftrightarrow> q' = q"
proof -
  obtain k where k: "k < HEAP_PAGES" "q = heap_addr k"
    using slab_page_used [OF assms(1-3)] unfolding heap_used_def by blast
  obtain l where l: "l < HEAP_PAGES" "q' = heap_addr l"
    using slab_page_used [OF assms(1,5,6)] unfolding heap_used_def by blast
  have p: "unat (heap_addr k) + 32 \<le> unat p" "unat p < unat (heap_addr k) + 4096"
    using slab_objects_page [OF assms(2) k(1)] assms(4) k(2) by simp_all
  note rng = in_slab_page [OF heap_wfD(2) [OF assms(1,5,6), unfolded l(2)] assms(7) [unfolded l(2)] assms(5) l(1), of p]
  show ?thesis
  proof
    assume "q' = q"
    then have "j = i" "l = k" using heap_wfD(4) [OF assms(1,2,5,3)] assms(6) k l heap_addr_inj [OF k(1) l(1)] by auto
    obtain n where n: "n < slab_count i" "unat p = unat (heap_addr k) + 32 + n * unat (slab_sizes i)"
      using slab_objects_page(1) [OF assms(2) k(1)] assms(4) k(2) by blast
    have "n * unat (slab_sizes i) < slab_count i * unat (slab_sizes i)"
      using n(1) slab_sizes_range(1) [OF assms(2)] by simp
    with rng n(2) \<open>j = i\<close> \<open>l = k\<close> show "in_slab p sl" by simp
  next
    assume "in_slab p sl"
    with rng have "unat (heap_addr l) + 32 \<le> unat p" "unat p < unat (heap_addr l) + 4096"
      using slab_sizes_range(4) [OF assms(5)] by linarith+
    with p k(1) l(1) have "k * 4096 < Suc l * 4096" "l * 4096 < Suc k * 4096" by (simp_all add: unat_heap_addr)
    then have "k = l" by simp
    with k l show "q' = q" by simp
  qed
qed

lemma kfree_from_object:
  assumes "heap_wf s L F" and "i < SLAB_TYPES_MAX" and "q \<in> set (L i)" and "p \<in> set (slab_objects q i)" and "j \<le> i"
  shows "kfree_from p j s = free_object p q s"
  using assms(5)
proof (induction "i - j" arbitrary: j)
  case 0
  then have j: "j = i" by simp
  obtain sl where sl: "slabs s q = Some sl" using heap_wfD(2) [OF assms(1-3)] by (auto simp: slab_ok_def)
  have "in_slab p sl" using object_owner [OF assms(1-4) assms(2,3) sl] by simp
  with find_owner_chain [OF heap_wfD(1) [OF assms(1,2)], of p] sl assms(3)
  obtain r sl' where "r \<in> set (L i)" "find_owner s p (sc_slabs (caches s i)) = Some r" "slabs s r = Some sl'" "in_slab p sl'"
    by blast
  with object_owner [OF assms(1-4) assms(2), of r sl'] have "find_owner s p (sc_slabs (caches s i)) = Some q" by simp
  moreover have "q \<noteq> 0" using chain_zero_notin [OF heap_wfD(1) [OF assms(1,2)]] assms(3) by blast
  ultimately show ?case using assms(2) unfolding j by (subst kfree_from.simps) simp
next
  case (Suc d)
  then have j: "j < i" "j < SLAB_TYPES_MAX" using assms(2) by simp_all
  have "find_owner s p (sc_slabs (caches s j)) = Some 0"
  proof (rule ccontr)
    assume "find_owner s p (sc_slabs (caches s j)) \<noteq> Some 0"
    with find_owner_chain [OF heap_wfD(1) [OF assms(1) j(2)], of p] obtain r sl' where
      "r \<in> set (L j)" "slabs s r = Some sl'" "in_slab p sl'" by blast
    with object_owner [OF assms(1-4) j(2)] have "q \<in> set (L j)" by blast
    then show False using heap_wfD(4) [OF assms(1,2) j(2) assms(3)] j(1) by simp
  qed
  then have "kfree_from p j s = kfree_from p (Suc j) s" using j(2) by (subst kfree_from.simps) simp
  with Suc.hyps(1) [of "Suc j"] Suc.hyps(2) j(1) show ?case by simp
qed

lemma free_object_push:
  assumes "heap_wf s L F" and "i < SLAB_TYPES_MAX" and "q \<in> set (L i)" and "p \<in> set (slab_objects q i)" and "p \<notin> set (F q)"
  shows "\<exists>t. free_object p q s = Some t \<and> heap_state.more t = heap_state.more s \<and> heap_wf t L (F(q := p # F q)) \<and>
    (\<forall>y. alive t L (F(q := p # F q)) y \<longleftrightarrow> y \<noteq> p \<and> alive s L F y)"
proof -
  obtain k sl where k: "k < HEAP_PAGES" "q = heap_addr k" "slabs s q = Some sl" "sl_objstart sl = q + 32"
    "sl_objsize sl = slab_sizes i" "sl_n_objects sl = of_nat (slab_count i)"
    "chain (\<lambda>x. Some (links s x)) (sl_free_list sl) (F q)" "set (F q) \<subseteq> set (slab_objects q i)"
    using heap_wfD(2) [OF assms(1-3)] by (auto elim!: slab_okD)
  let ?t = "s\<lparr>links := (links s)(p := sl_free_list sl), slabs := (slabs s)(q \<mapsto> sl\<lparr>sl_free_list := p\<rparr>)\<rparr>"
  let ?F = "F(q := p # F q)"
  have "(p - (q + 32)) mod slab_sizes i = 0"
  proof -
    obtain j where j: "unat p = unat (heap_addr k) + 32 + j * unat (slab_sizes i)"
      using slab_objects_page(1) [OF assms(2) k(1)] assms(4) k(2) by blast
    have q32: "unat (q + 32) = unat q + 32" using unat_heap_addr [OF k(1)] k(1,2) by (subst unat_plus_no_wrap) simp_all
    have "unat (p - (q + 32)) = j * unat (slab_sizes i)"
      using j q32 k(2) by (subst unat_sub) (simp_all add: word_le_nat_alt)
    then have "unat ((p - (q + 32)) mod slab_sizes i) = 0" by (simp add: unat_mod)
    then show ?thesis by (simp only: unat_eq_0)
  qed
  then have fo: "free_object p q s = Some ?t" using k(3-5) by (simp add: free_object_def)
  have p0: "p \<noteq> 0" using slab_objects_page(2) [OF assms(2) k(1)] assms(4) k(2) by fastforce
  have used: "heap_used ?t = heap_used s" by (rule ext) simp
  have nx: "slab_next ?t = slab_next s" using k(3) by (auto simp: slab_next_def fun_eq_iff)
  have ok: "slab_ok ?t j r (?F r)" if jr: "j < SLAB_TYPES_MAX" "r \<in> set (L j)" for j r
  proof (cases "r = q")
    case True
    then have ji: "j = i" using heap_wfD(4) [OF assms(1,2) jr(1) assms(3)] jr(2) by simp
    have "chain (\<lambda>x. Some (links ?t x)) (sl_free_list sl) (F q)"
      using k(7) assms(5) by (subst chain_cong [where nx = "\<lambda>x. Some (links s x)"]) auto
    then have "chain (\<lambda>x. Some (links ?t x)) p (p # F q)" using p0 by simp
    with True ji k slab_page_used [OF assms(1-3)] assms(4) show ?thesis by (simp add: slab_ok_def used)
  next
    case False
    obtain l sl' where l: "l < HEAP_PAGES" "r = heap_addr l" "slabs s r = Some sl'" "sl_objstart sl' = r + 32"
      "sl_objsize sl' = slab_sizes j" "sl_n_objects sl' = of_nat (slab_count j)"
      "chain (\<lambda>x. Some (links s x)) (sl_free_list sl') (F r)" "set (F r) \<subseteq> set (slab_objects r j)"
      using heap_wfD(2) [OF assms(1) jr] by (auto elim!: slab_okD)
    have "p \<notin> set (F r)"
      using object_slab_unique [OF assms(2) jr(1) k(1) l(1), of p] l(2,8) k(2) assms(4) False by blast
    then have "chain (\<lambda>x. Some (links ?t x)) (sl_free_list sl') (F r)"
      using l(7) by (subst chain_cong [where nx = "\<lambda>x. Some (links s x)"]) auto
    with False l slab_page_used [OF assms(1) jr] show ?thesis by (simp add: slab_ok_def used)
  qed
  have wf: "heap_wf ?t L ?F" using assms(1) nx ok unfolding heap_wf_def by simp
  have "alive ?t L ?F y \<longleftrightarrow> y \<noteq> p \<and> alive s L F y" for y
  proof -
    have pq: "r = q \<and> j = i" if pr: "j < SLAB_TYPES_MAX" "r \<in> set (L j)" "p \<in> set (slab_objects r j)" for j r
    proof -
      obtain l where l: "l < HEAP_PAGES" "r = heap_addr l"
        using slab_page_used [OF assms(1) pr(1,2)] unfolding heap_used_def by blast
      then have "r = q" using object_slab_unique [OF assms(2) pr(1) k(1) l(1), of p] k(2) assms(4) pr(3) by simp
      with pr(2) heap_wfD(4) [OF assms(1,2) pr(1) assms(3)] show ?thesis by simp
    qed
    have "(\<exists>j < SLAB_TYPES_MAX. \<exists>r \<in> set (L j). y \<in> set (slab_objects r j) - set (?F r)) \<longleftrightarrow>
        y \<noteq> p \<and> (\<exists>j < SLAB_TYPES_MAX. \<exists>r \<in> set (L j). y \<in> set (slab_objects r j) - set (F r))"
    proof -
      have "y \<in> set (slab_objects r j) - set (?F r) \<longleftrightarrow> y \<noteq> p \<and> y \<in> set (slab_objects r j) - set (F r)"
        if "j < SLAB_TYPES_MAX" "r \<in> set (L j)" for j r using pq [OF that] by auto
      then show ?thesis by blast
    qed
    moreover have "\<not> heap_used s p"
      using object_not_page [OF assms(2) k(1)] assms(4) k(2) unfolding heap_used_def by blast
    ultimately show ?thesis unfolding alive_def used by blast
  qed
  with fo wf show ?thesis by auto
qed

subsection \<open>Freeing a page\<close>

lemma FreeVirtualPage_heap:
  assumes "FreeVirtualPage (heap_addr k) s = Some t" and "k < HEAP_PAGES"
  shows "same_slabs t s" and "heap_used t q \<longleftrightarrow> q \<noteq> heap_addr k \<and> heap_used s q"
proof -
  obtain s1 where s1: "UnmapSinglePage (heap_addr k) s = Some s1"
    and t: "t = FreeFrame (virt_to_phys (heap_addr k)) (MarkHeapPageAsFree (heap_addr k) s1)"
    using assms(1) by (auto simp: FreeVirtualPage_def Let_def split: bind_splits)
  note m1 = same_slabs_more [OF more_UnmapSinglePage [OF s1]]
  have m2: "same_slabs t (MarkHeapPageAsFree (heap_addr k) s1) \<and> heap_bitmap t = heap_bitmap (MarkHeapPageAsFree (heap_addr k) s1)"
    unfolding t by (rule same_slabs_more) simp
  show "same_slabs t s" using m1 m2 by (simp add: same_slabs_def MarkHeapPageAsFree_def split: if_splits)
  have "heap_bitmap t = bm_clear k (heap_bitmap s)"
    using m1 m2 heap_addr_facts [OF assms(2)] by (simp add: MarkHeapPageAsFree_def)
  then show "heap_used t q \<longleftrightarrow> q \<noteq> heap_addr k \<and> heap_used s q"
    using heap_addr_inj [OF assms(2)] unfolding heap_used_def by (metis (no_types) bm_used_clear)
qed

lemma kfree_from_page:
  assumes "heap_wf s L F" and "k < HEAP_PAGES" and "\<forall>i < SLAB_TYPES_MAX. heap_addr k \<notin> set (L i)"
  shows "kfree_from (heap_addr k) j s = FreeVirtualPage (heap_addr k) s"
proof (induction "SLAB_TYPES_MAX - j" arbitrary: j)
  case 0
  then show ?case by (subst kfree_from.simps) simp
next
  case (Suc d)
  then have j: "j < SLAB_TYPES_MAX" by simp
  have "find_owner s (heap_addr k) (sc_slabs (caches s j)) = Some 0"
  proof (rule ccontr)
    assume "find_owner s (heap_addr k) (sc_slabs (caches s j)) \<noteq> Some 0"
    with find_owner_chain [OF heap_wfD(1) [OF assms(1) j], of "heap_addr k"] obtain r sl where
      r: "r \<in> set (L j)" "slabs s r = Some sl" "in_slab (heap_addr k) sl" by blast
    obtain l where l: "l < HEAP_PAGES" "r = heap_addr l"
      using slab_page_used [OF assms(1) j r(1)] unfolding heap_used_def by blast
    have "unat (heap_addr l) + 32 \<le> unat (heap_addr k)" "unat (heap_addr k) < unat (heap_addr l) + 4096"
      using in_slab_page [OF heap_wfD(2) [OF assms(1) j r(1), unfolded l(2)] r(2) [unfolded l(2)] j l(1)] r(3)
        slab_sizes_range(4) [OF j] by simp_all
    then have b: "l * 4096 + 32 \<le> k * 4096" "k * 4096 < Suc l * 4096"
      using assms(2) l(1) by (simp_all add: unat_heap_addr)
    then have "k \<le> l" by simp
    then have "k * 4096 \<le> l * 4096" by simp
    with b(1) show False by linarith
  qed
  then have "kfree_from (heap_addr k) j s = kfree_from (heap_addr k) (Suc j) s" using j by (subst kfree_from.simps) simp
  with Suc show ?case by simp
qed

lemma kfree_wf:
  assumes "heap_wf s L F" and "alive s L F p" and "kfree p s = Some t"
  shows "heap_state.more t = heap_state.more s \<and>
      (\<exists>F'. heap_wf t L F' \<and> (\<forall>y. alive t L F' y \<longleftrightarrow> y \<noteq> p \<and> alive s L F y))"
  using assms(2) [unfolded alive_def]
proof (elim disjE bexE exE conjE)
  fix i q assume o: "i < SLAB_TYPES_MAX" "q \<in> set (L i)" "p \<in> set (slab_objects q i) - set (F q)"
  obtain k where "k < HEAP_PAGES" "q = heap_addr k"
    using slab_page_used [OF assms(1) o(1,2)] unfolding heap_used_def by blast
  then have "p \<noteq> 0" using slab_objects_page(2) [OF o(1), of k p] o(3) by fastforce
  then have "free_object p q s = Some t" using assms(3) o kfree_from_object [OF assms(1) o(1,2), of p 0] by (simp add: kfree_def)
  with free_object_push [OF assms(1) o(1,2), of p] o(3) show ?thesis by auto
next
  assume u: "heap_used s p" "\<forall>i<SLAB_TYPES_MAX. p \<notin> set (L i)"
  obtain k where k: "k < HEAP_PAGES" "p = heap_addr k" using u(1) unfolding heap_used_def by blast
  have "p \<noteq> 0" using unat_heap_addr [OF k(1)] k(2) by (metis add_is_0 unat_0 zero_neq_numeral)
  then have t: "FreeVirtualPage (heap_addr k) s = Some t"
    using assms(3) u(2) kfree_from_page [OF assms(1) k(1), of 0] k(2) by (simp add: kfree_def)
  note f = FreeVirtualPage_heap [OF t k(1)]
  have used: "heap_used t q \<longleftrightarrow> q \<noteq> p \<and> heap_used s q" for q using f(2) k(2) by simp
  have "slab_ok t i q (F q)" if i: "i < SLAB_TYPES_MAX" "q \<in> set (L i)" for i q
    using heap_wfD(2) [OF assms(1) i] used [of q] u(2) i f(1) unfolding slab_ok_def same_slabs_def by metis
  moreover have "slab_next t = slab_next s" using f(1) by (simp add: same_slabs_def slab_next_def fun_eq_iff)
  ultimately have "heap_wf t L F" using assms(1) f(1) unfolding heap_wf_def same_slabs_def by simp
  moreover have "alive t L F y \<longleftrightarrow> y \<noteq> p \<and> alive s L F y" for y
  proof -
    have "p \<notin> set (slab_objects q i)" if i: "i < SLAB_TYPES_MAX" "q \<in> set (L i)" for i q
    proof -
      obtain l where "l < HEAP_PAGES" "q = heap_addr l" using slab_page_used [OF assms(1) i] unfolding heap_used_def by blast
      then show ?thesis using object_not_page [OF i(1)] k by metis
    qed
    then show ?thesis unfolding alive_def used by blast
  qed
  ultimately show ?thesis using f(1) by (auto simp: same_slabs_def)
qed

lemma kfree_live:
  assumes "live s p" and "kfree p s = Some t"
  shows "heap_inv t" and "heap_state.more t = heap_state.more s" and "live t y \<longleftrightarrow> y \<noteq> p \<and> live s y"
proof -
  obtain L F where wf: "heap_wf s L F" and al: "alive s L F p" using assms(1) unfolding live_def by blast
  then obtain F' where m: "heap_state.more t = heap_state.more s" and wt: "heap_wf t L F'"
    "\<forall>y. alive t L F' y \<longleftrightarrow> y \<noteq> p \<and> alive s L F y" using kfree_wf [OF wf al assms(2)] by blast
  show "heap_inv t" using wt(1) unfolding heap_inv_def by blast
  show "heap_state.more t = heap_state.more s" by (rule m)
  show "live t y \<longleftrightarrow> y \<noteq> p \<and> live s y" using wt(2) live_alive [OF wt(1)] live_alive [OF wf] by simp
qed

section \<open>Progress\<close>

text \<open>
  The heap comes back with an answer as long as it has a page left: the page tables are in
  order, and the flags that heap pages are mapped with are the initial ones or those with the
  global bit added.
\<close>

definition flags_ok :: "u32 \<Rightarrow> bool" where
  "flags_ok fl \<longleftrightarrow> fl = 3 \<or> fl = 0x103"

lemma flags_okD: "flags_ok fl \<Longrightarrow> has_flag fl PAGE_PRESENT \<and> fl < 0x1000"
  by (auto simp: flags_ok_def has_flag_def)

lemma flags_ok_global [simp]: "flags_ok fl \<Longrightarrow> flags_ok (fl OR PAGE_GLOBAL)"
  by (auto simp: flags_ok_def)

lemma vm_inv_heap [simp]:
  "vm_inv (s\<lparr>heap_bitmap := b\<rparr>) = vm_inv s" "vmap (s\<lparr>heap_bitmap := b\<rparr>) = vmap s"
  "vm_inv (s\<lparr>page_flags := fl\<rparr>) = vm_inv s" "vmap (s\<lparr>page_flags := fl\<rparr>) = vmap s"
  "vm_inv (s\<lparr>slabs := sl\<rparr>) = vm_inv s" "vm_inv (s\<lparr>links := l\<rparr>) = vm_inv s"
  "vm_inv (s\<lparr>caches := c\<rparr>) = vm_inv s" "vm_inv (s\<lparr>allocator_initialized := a\<rparr>) = vm_inv s"
  by (simp_all add: vm_inv_def vmap_def fun_eq_iff frames_inv_def frame_free_def pd_frame_def pde_def pt_frame_def
      pd_present_def pd_writable_def)

lemma table_frame_cong: "cr3 t = cr3 s \<Longrightarrow> pmem t = pmem s \<Longrightarrow> table_frame t = table_frame s"
  using pde_cong [of t s] by (simp add: table_frame_def fun_eq_iff)

lemma MapSinglePage_outcome:
  assumes "vm_inv s" and "virt \<noteq> 0" and "isaligned phys PAGE_SIZE" and "isaligned virt PAGE_SIZE"
    and "virt < PAGE_TABLE_BASE" and "has_flag fl PAGE_PRESENT \<and> fl < 0x1000" and "vmap s = m"
  obtains st t where "MapSinglePage phys virt fl s = Some (st, t)" "vm_inv t"
    "st = STATUS_OK \<and> vmap t = m(page_no virt \<mapsto> phys OR fl) \<or> st \<noteq> STATUS_OK \<and> t = s"
  using MapSinglePage_args [OF assms(2-5,1), of fl] assms(6,7) that by (fastforce split: option.splits)

lemma AllocateVirtualPage_total:
  assumes "vm_inv s" and "flags_ok (page_flags s)" and "k0 < HEAP_PAGES" and "\<not> bm_used (heap_bitmap s) k0"
  shows "\<exists>p t. AllocateVirtualPage s = Some (p, t) \<and> vm_inv t \<and> flags_ok (page_flags t) \<and>
    (p \<noteq> 0 \<longrightarrow> (\<exists>k. frame_free s k \<and> \<not> frame_free t k \<and> vmap t = (vmap s)(page_no p \<mapsto> frame_addr k OR page_flags t))) \<and>
    (p = 0 \<longrightarrow> vmap t = vmap s) \<and> (\<forall>k. frame_free t k \<longrightarrow> frame_free s k)"
  using vm_invD(1) [OF assms(1)]
proof (cases rule: AllocateFrame_cases)
  case full
  with assms show ?thesis by (simp add: AllocateVirtualPage_def)
next
  case (frame n s1)
  note n = frame(3) [unfolded frame_free_def, THEN conjunct1]
  have m1: "vm_state.more s1 = vm_state.more s" using frame(1) by (rule more_AllocateFrame)
  obtain k where k: "bm_scan (heap_bitmap s1) 0 BIT_WORDS_NEEDED = Some k"
    using bm_scan_None [of "heap_bitmap s1" 0 BIT_WORDS_NEEDED] assms(3,4) more_heap(1) [OF m1] by fastforce
  have kb: "k < HEAP_PAGES" using bm_scan_Some [OF k] by simp
  let ?a = "heap_addr k"
  let ?s2 = "s1\<lparr>heap_bitmap := bm_mark k (heap_bitmap s1)\<rparr>"
  let ?s3 = "if x86FeatureSupported X86_PGE ?s2 then ?s2\<lparr>page_flags := page_flags ?s2 OR PAGE_GLOBAL\<rparr> else ?s2"
  have g: "GetHeapPageAddress s1 = Some (?a, ?s2)"
    using k heap_addr_facts [OF kb]
    by (simp add: GetHeapPageAddress_def MarkHeapPageAsUsed_def heap_addr_def [symmetric] Let_def)
  have s3: "vm_inv ?s3" "vmap ?s3 = vmap s" "flags_ok (page_flags ?s3)"
    using assms(1,2) vm_inv_reserve frame(5) more_heap(4) [OF m1] by simp_all
  have w: "?a < PAGE_TABLE_BASE" using heap_addr_facts(3) [OF kb] by (rule less_trans) simp
  obtain st s4 where st: "MapSinglePage (frame_addr n) ?a (page_flags ?s3) ?s3 = Some (st, s4)" "vm_inv s4"
    "st = STATUS_OK \<and> vmap s4 = (vmap s)(page_no ?a \<mapsto> frame_addr n OR page_flags ?s3) \<or> st \<noteq> STATUS_OK \<and> s4 = ?s3"
    using MapSinglePage_outcome [OF s3(1) heap_addr_facts(5) [OF kb] isaligned_frame_addr [OF n] heap_addr_facts(1) [OF kb] w
        flags_okD [OF s3(3)] s3(2)] by blast
  have fl: "page_flags s4 = page_flags ?s3" by (rule more_heap(4) [OF more_MapSinglePage [OF st(1)]])
  have al: "AllocateVirtualPage s = (if st \<noteq> STATUS_OK then Some (0, FreeFrame (frame_addr n) (MarkHeapPageAsFree ?a s4)) else Some (?a, s4))"
    using frame(1,6) g st(1) by (simp add: AllocateVirtualPage_def Let_def split del: if_split)
  show ?thesis
  proof (cases "st = STATUS_OK")
    case True
    have "frame_free ?s3 n = frame_free s1 n" by (simp add: frame_free_def)
    then have "\<not> frame_free ?s3 n" using frame(5) n by simp
    then have "\<not> frame_free s4 n" using frames_MapSinglePage [OF st(1)] by blast
    moreover have "frame_free s k" if "frame_free s4 k" for k
    proof -
      have "frame_free ?s3 k" using frames_MapSinglePage [OF st(1) that] .
      then show ?thesis using frame(5) by (simp add: frame_free_def MarkFrameReserved_def bm_simps split: if_splits)
    qed
    ultimately show ?thesis using True al st fl s3(3) frame(3) heap_addr_facts(5) [OF kb] by auto
  next
    case False
    let ?t = "MarkHeapPageAsFree ?a s4"
    have s4: "s4 = ?s3" using st(3) False by blast
    have "table_frame ?t = table_frame s" unfolding s4
      by (rule table_frame_cong) (simp_all add: MarkHeapPageAsFree_def frame(5))
    then have "\<not> table_frame ?t n" using table_frame_reserved [OF assms(1)] frame(3) by auto
    moreover have "vm_inv ?t" using st(2) by (simp add: MarkHeapPageAsFree_def)
    ultimately have "vm_inv (FreeFrame (frame_addr n) ?t)"
      using n isaligned_frame_addr [OF n] by (intro vm_inv_FreeFrame) simp_all
    moreover have "page_flags (FreeFrame (frame_addr n) ?t) = page_flags ?s3"
      unfolding more_heap(4) [OF more_frames(3)] fl [symmetric] by (simp add: MarkHeapPageAsFree_def)
    moreover have "vmap (FreeFrame (frame_addr n) ?t) = vmap s"
      using s3(2) unfolding s4 by (simp add: MarkHeapPageAsFree_def)
    moreover have "frame_free s j" if "frame_free (FreeFrame (frame_addr n) ?t) j" for j
    proof -
      have "frame_free ?t j = frame_free s1 j" unfolding s4 by (simp add: MarkHeapPageAsFree_def frame_free_def)
      then show ?thesis using FreeFrame_only [OF that] frame(3,5) n by auto
    qed
    ultimately show ?thesis using False al s3(3) by auto
  qed
qed

text \<open>
  Where the heap is in physical memory: every heap page in use is mapped to a frame that is not available, and no two heap pages to
  the same one.
\<close>

definition heap_mapped :: "'a heap_state_scheme \<Rightarrow> bool" where
  "heap_mapped s \<longleftrightarrow>
     (\<forall>k < HEAP_PAGES. bm_used (heap_bitmap s) k \<longrightarrow> (\<exists>e. vmap s (page_no (heap_addr k)) = Some e \<and> \<not> frame_free s (frame_no e))) \<and>
     (\<forall>j < HEAP_PAGES. \<forall>k < HEAP_PAGES. bm_used (heap_bitmap s) j \<longrightarrow> bm_used (heap_bitmap s) k \<longrightarrow>
        map_option frame_no (vmap s (page_no (heap_addr j))) = map_option frame_no (vmap s (page_no (heap_addr k))) \<longrightarrow> j = k)"

text \<open>Two states with the same memory and the same heap pages.\<close>

definition same_mem :: "'a heap_state_scheme \<Rightarrow> 'a heap_state_scheme \<Rightarrow> bool" where
  "same_mem t s \<longleftrightarrow> pmem t = pmem s \<and> cr3 t = cr3 s \<and> bitmap t = bitmap s \<and> highest_addr t = highest_addr s \<and>
     heap_bitmap t = heap_bitmap s \<and> page_flags t = page_flags s"

lemma same_memD:
  assumes "same_mem t s"
  shows "vm_inv t = vm_inv s" "vmap t = vmap s" "frame_free t = frame_free s" "heap_mapped t = heap_mapped s"
proof -
  have c: "pd_frame t = pd_frame s" "pde t = pde s" "pt_frame t = pt_frame s" "pd_present t = pd_present s" "pd_writable t = pd_writable s"
    using assms pde_cong [of t s] by (simp_all add: same_mem_def)
  show f: "frame_free t = frame_free s" using assms by (intro ext) (simp add: same_mem_def frame_free_def)
  show "vm_inv t = vm_inv s" using assms unfolding vm_inv_def frames_inv_def c f by (simp add: same_mem_def)
  show v: "vmap t = vmap s" using assms by (intro ext) (simp add: vmap_def c same_mem_def)
  show "heap_mapped t = heap_mapped s" using assms unfolding heap_mapped_def v f by (simp add: same_mem_def)
qed

lemma page_no_heap_addr: "k < HEAP_PAGES \<Longrightarrow> page_no (heap_addr k) = 0xC0100 + k"
  by (simp add: frame_no_nat unat_heap_addr)

lemma AllocateVirtualPage_mapped:
  assumes "vm_inv s" and "flags_ok (page_flags s)" and "heap_mapped s" and "AllocateVirtualPage s = Some (p, t)"
  shows "vm_inv t \<and> flags_ok (page_flags t) \<and> heap_mapped t"
proof (cases "\<exists>k < HEAP_PAGES. \<not> bm_used (heap_bitmap s) k")
  case False
  have "bm_scan (heap_bitmap s') 0 BIT_WORDS_NEEDED = None" if "heap_bitmap s' = heap_bitmap s" for s' :: "'a heap_state_scheme"
    using False bm_scan_Some [of "heap_bitmap s" 0 BIT_WORDS_NEEDED] that by (cases "bm_scan (heap_bitmap s) 0 BIT_WORDS_NEEDED") auto
  from this [OF more_heap(1) [OF more_frames(5)]] have "GetHeapPageAddress (snd (AllocateFrame s)) = None"
    unfolding GetHeapPageAddress_def by (simp only: option.case)
  then have "t = snd (AllocateFrame s)" "fst (AllocateFrame s) = 0"
    using assms(4) by (auto simp: AllocateVirtualPage_def Let_def split_beta split: if_splits)
  with AllocateFrame_cases [OF vm_invD(1) [OF assms(1)]] have "t = s" by (metis fst_conv snd_conv)
  with assms show ?thesis by simp
next
  case True
  then obtain k0 where k0: "k0 < HEAP_PAGES" "\<not> bm_used (heap_bitmap s) k0" by blast
  from AllocateVirtualPage_total [OF assms(1,2) k0] assms(4) have
    t: "vm_inv t" "flags_ok (page_flags t)" "p = 0 \<Longrightarrow> vmap t = vmap s" "\<And>k. frame_free t k \<Longrightarrow> frame_free s k"
      "p \<noteq> 0 \<Longrightarrow> \<exists>n. frame_free s n \<and> \<not> frame_free t n \<and> vmap t = (vmap s)(page_no p \<mapsto> frame_addr n OR page_flags t)"
    by auto
  from assms(4) have "heap_mapped t"
  proof (cases rule: AllocateVirtualPage_cases)
    case fail
    then have v: "vmap t = vmap s" "heap_bitmap t = heap_bitmap s" using t(3) by simp_all
    show ?thesis using assms(3) t(4) unfolding heap_mapped_def v by blast
  next
    case (page k)
    then have "p \<noteq> 0" using heap_addr_facts(5) by simp
    from t(5) [OF this] obtain n where n: "frame_free s n" "\<not> frame_free t n" "vmap t = (vmap s)(page_no p \<mapsto> frame_addr n OR page_flags t)"
      by blast
    have e: "frame_no (frame_addr n OR page_flags t) = n" using flags_okD [OF t(2)] n(1) by (simp add: frame_free_def)
    have v: "vmap t (page_no (heap_addr j)) = (if j = k then Some (frame_addr n OR page_flags t) else vmap s (page_no (heap_addr j)))"
      if "j < HEAP_PAGES" for j
      unfolding n(3) page(1) using page_no_heap_addr [OF that] page_no_heap_addr [OF page(2)] by simp
    have u: "bm_used (heap_bitmap t) j \<longleftrightarrow> j = k \<or> bm_used (heap_bitmap s) j" for j using page(4) by (auto simp: bm_simps)
    have old: "\<exists>e. vmap s (page_no (heap_addr j)) = Some e \<and> \<not> frame_free s (frame_no e)" if "j < HEAP_PAGES" "bm_used (heap_bitmap s) j" for j
      using assms(3) that unfolding heap_mapped_def by blast
    have new: "map_option frame_no (vmap t (page_no (heap_addr k))) = Some n" using v [OF page(2)] e by simp
    have other: "map_option frame_no (vmap t (page_no (heap_addr j))) = map_option frame_no (vmap s (page_no (heap_addr j)))"
      "map_option frame_no (vmap t (page_no (heap_addr j))) \<noteq> Some n"
      if "j < HEAP_PAGES" "j \<noteq> k" "bm_used (heap_bitmap t) j" for j
      using v [OF that(1)] that u old [OF that(1)] n(1) by auto
    have "\<exists>e. vmap t (page_no (heap_addr j)) = Some e \<and> \<not> frame_free t (frame_no e)" if j: "j < HEAP_PAGES" "bm_used (heap_bitmap t) j" for j
      using v [OF j(1)] e n(2) old [OF j(1)] j(2) u t(4) by (cases "j = k") auto
    moreover have "j = l" if jl: "j < HEAP_PAGES" "l < HEAP_PAGES" "bm_used (heap_bitmap t) j" "bm_used (heap_bitmap t) l"
      "map_option frame_no (vmap t (page_no (heap_addr j))) = map_option frame_no (vmap t (page_no (heap_addr l)))" for j l
    proof (cases "j = k \<or> l = k")
      case True
      show ?thesis
      proof (rule ccontr)
        assume "j \<noteq> l"
        with True have "map_option frame_no (vmap t (page_no (heap_addr j))) = Some n \<and> l \<noteq> k \<or>
            map_option frame_no (vmap t (page_no (heap_addr l))) = Some n \<and> j \<noteq> k" using new by blast
        then show False using other(2) [OF jl(1) _ jl(3)] other(2) [OF jl(2) _ jl(4)] jl(5) by argo
      qed
    next
      case False
      then have "map_option frame_no (vmap s (page_no (heap_addr j))) = map_option frame_no (vmap s (page_no (heap_addr l)))"
        using other(1) [OF jl(1) _ jl(3)] other(1) [OF jl(2) _ jl(4)] jl(5) by simp
      then show ?thesis using assms(3) jl u False unfolding heap_mapped_def by blast
    qed
    ultimately show ?thesis unfolding heap_mapped_def by blast
  qed
  with t(1,2) show ?thesis by blast
qed

lemma usable_slab_mem:
  assumes "heap_wf s L F" and "allocator_initialized s" and "i < SLAB_TYPES_MAX" and "usable_slab i s = Some (p, t)"
  shows "same_mem t s \<or> (\<exists>a s0. AllocateVirtualPage s = Some (a, s0) \<and> same_mem t s0)"
proof -
  have sz: "sc_objsize (caches s i) = slab_sizes i" using heap_wfD(3) [OF assms(1,3,2)] .
  from assms(4) obtain r where r: "find_slab s (sc_slabs (caches s i)) = Some r" by (auto simp: usable_slab_def split: bind_splits)
  show ?thesis
  proof (cases "r = 0")
    case False
    with r assms(4) show ?thesis by (simp add: usable_slab_def same_mem_def)
  next
    case True
    with r assms(4) sz obtain q s1 where q: "CreateSlab (slab_sizes i) s = Some (q, s1)" by (auto simp: usable_slab_def split: bind_splits)
    then obtain a s0 where a: "AllocateVirtualPage s = Some (a, s0)" by (auto simp: CreateSlab_def Let_def split: bind_splits)
    have "same_mem s1 s0 \<and> (q = 0 \<longrightarrow> a = 0)"
    proof (cases "a = 0")
      case True
      with a q show ?thesis by (auto simp: CreateSlab_def Let_def same_mem_def)
    next
      case False
      with a obtain k where k: "k < HEAP_PAGES" "a = heap_addr k" by (cases rule: AllocateVirtualPage_cases) auto
      with CreateSlab_page [OF a [unfolded k(2)] k(1) assms(3)] q show ?thesis
        by (auto simp: with_slab_def same_mem_def heap_addr_facts(5))
    qed
    moreover have "same_mem t s1"
      using True r q sz assms(4) by (auto simp: usable_slab_def same_mem_def split: bind_splits if_splits)
    ultimately show ?thesis using a unfolding same_mem_def by (intro disjI2 exI [of _ a] exI [of _ s0]) simp
  qed
qed

text \<open>An allocation of up to a page keeps the heap where it is; one of a slab object is never at the start of a page.\<close>

lemma kmalloc_mapped:
  assumes "heap_inv s" and "vm_inv s" and "flags_ok (page_flags s)" and "heap_mapped s" and "bytes \<le> PAGE_SIZE"
    and "kmalloc bytes s = Some (p, t)"
  shows "vm_inv t \<and> flags_ok (page_flags t) \<and> heap_mapped t \<and> (bytes \<le> 1024 \<longrightarrow> p \<noteq> 0 \<longrightarrow> (\<forall>k < HEAP_PAGES. p \<noteq> heap_addr k))"
proof -
  consider "bytes = 0" | "1024 < bytes" | "0 < bytes" "\<not> 1024 < bytes" using word_neq_0_conv [of bytes] by blast
  then show ?thesis
  proof cases
    case 1
    with assms show ?thesis by (simp add: kmalloc_def)
  next
    case 2
    with AllocateVirtualPage_mapped [OF assms(2-4), of p t] assms(5,6) kmalloc_page [OF 2 assms(5), of s] 2 leD show ?thesis by auto
  next
    case 3
    obtain L F where wf: "heap_wf s L F" using assms(1) unfolding heap_inv_def by blast
    obtain i where i: "i < SLAB_TYPES_MAX" "kmalloc bytes s = take_object i (slabs_ready s)" by (rule kmalloc_slab [OF 3])
    note r = slabs_ready_wf [OF wf]
    have sr: "same_mem (slabs_ready s) s" by (simp add: same_mem_def InitSlabCaches_def)
    have tk: "take_object i (slabs_ready s) = Some (p, t)" using i(2) assms(6) by simp
    then obtain q s1 where q: "usable_slab i (slabs_ready s) = Some (q, s1)" "same_mem t s1"
      by (auto simp: take_object_def Let_def same_mem_def split: bind_splits if_splits)
    have ok: "vm_inv (slabs_ready s)" "flags_ok (page_flags (slabs_ready s))" "heap_mapped (slabs_ready s)"
      using same_memD [OF sr] assms(2,3,4) sr by (simp_all only: same_mem_def)
    have "vm_inv s1 \<and> flags_ok (page_flags s1) \<and> heap_mapped s1"
      using usable_slab_mem [OF r(1,2) i(1) q(1)]
    proof (elim disjE exE conjE)
      assume m: "same_mem s1 (slabs_ready s)"
      then have "page_flags s1 = page_flags (slabs_ready s)" unfolding same_mem_def by simp
      with same_memD [OF m] ok show ?thesis by simp
    next
      fix a s0 assume a: "AllocateVirtualPage (slabs_ready s) = Some (a, s0)" and m: "same_mem s1 s0"
      have "page_flags s1 = page_flags s0" using m unfolding same_mem_def by simp
      with same_memD [OF m] AllocateVirtualPage_mapped [OF ok a] show ?thesis by simp
    qed
    moreover have "page_flags t = page_flags s1" using q(2) by (simp add: same_mem_def)
    moreover have "p \<noteq> heap_addr k" if p: "p \<noteq> 0" "k < HEAP_PAGES" for k
    proof -
      obtain L' F' q where q: "heap_wf t L' F'" "q \<in> set (L' i)" "p \<in> set (slab_objects q i)"
        using take_object_spec [OF r(1,2) i(1) tk] p(1) by auto
      obtain l where "l < HEAP_PAGES" "q = heap_addr l" using slab_page_used [OF q(1) i(1) q(2)] unfolding heap_used_def by blast
      then show ?thesis using object_not_page [OF i(1) _ p(2)] q(3) by blast
    qed
    ultimately show ?thesis using same_memD [OF q(2)] by simp
  qed
qed

text \<open>Freeing a slab object comes back and touches neither the page tables nor the frames.\<close>

lemma kfree_object:
  assumes "live s p" and "\<forall>k < HEAP_PAGES. p \<noteq> heap_addr k"
  obtains t where "kfree p s = Some t" "same_mem t s"
proof -
  obtain L F where wf: "heap_wf s L F" and al: "alive s L F p" using assms(1) unfolding live_def by blast
  with assms(2) obtain i q where o: "i < SLAB_TYPES_MAX" "q \<in> set (L i)" "p \<in> set (slab_objects q i)" "p \<notin> set (F q)"
    unfolding alive_def heap_used_def by blast
  obtain k where "k < HEAP_PAGES" "q = heap_addr k" using slab_page_used [OF wf o(1,2)] unfolding heap_used_def by blast
  then have "p \<noteq> 0" using slab_objects_page(2) [OF o(1), of k p] o(3) by fastforce
  then have "kfree p s = free_object p q s" using kfree_from_object [OF wf o(1-3), of 0] by (simp add: kfree_def)
  moreover obtain t where t: "free_object p q s = Some t" using free_object_push [OF wf o] by blast
  moreover have "same_mem t s" using t by (auto simp: free_object_def same_mem_def split: bind_splits if_splits)
  ultimately show thesis using that by simp
qed

text \<open>An allocation takes one heap page at most.\<close>

definition one_page :: "'a heap_state_scheme \<Rightarrow> 'a heap_state_scheme \<Rightarrow> bool" where
  "one_page s t \<longleftrightarrow> (\<exists>k. \<forall>j. bm_used (heap_bitmap t) j \<longrightarrow> j = k \<or> bm_used (heap_bitmap s) j)"

lemma one_page_refl: "heap_bitmap t = heap_bitmap s \<Longrightarrow> one_page s t"
  by (simp add: one_page_def)

lemma one_page_slabs [simp]: "one_page s (t\<lparr>slabs := m\<rparr>) = one_page s t"
  by (simp add: one_page_def)

lemma AllocateVirtualPage_one_page: "AllocateVirtualPage s = Some (p, t) \<Longrightarrow> one_page s t"
  by (erule AllocateVirtualPage_cases) (auto simp: one_page_def bm_simps)

lemma usable_slab_total:
  assumes "heap_wf s L F" and "allocator_initialized s" and "i < SLAB_TYPES_MAX"
    and "vm_inv s" and "flags_ok (page_flags s)" and "k0 < HEAP_PAGES" and "\<not> bm_used (heap_bitmap s) k0"
  shows "\<exists>p t. usable_slab i s = Some (p, t) \<and> vm_inv t \<and> flags_ok (page_flags t) \<and> (p \<noteq> 0 \<longrightarrow> slabs t p \<noteq> None) \<and>
    one_page s t"
proof -
  note wf = heap_wfD [OF assms(1,3)]
  obtain r where r: "find_slab s (sc_slabs (caches s i)) = Some r" "r = 0 \<or> slabs s r \<noteq> None"
    using find_slab_chain [OF wf(1)] by auto
  obtain a s0 where a: "AllocateVirtualPage s = Some (a, s0)" "vm_inv s0" "flags_ok (page_flags s0)"
    using AllocateVirtualPage_total [OF assms(4-7)] by blast
  note one = AllocateVirtualPage_one_page [OF a(1)]
  show ?thesis
  proof (cases "r = 0")
    case False
    with r assms(4,5) show ?thesis by (simp add: usable_slab_def one_page_refl)
  next
    case r0: True
    show ?thesis
    proof (cases "a = 0")
      case True
      with r0 r(1) a one show ?thesis by (simp add: usable_slab_def CreateSlab_def Let_def)
    next
      case False
      with a(1) obtain k where k: "k < HEAP_PAGES" "a = heap_addr k" by (cases rule: AllocateVirtualPage_cases) auto
      have "CreateSlab (slab_sizes i) s = Some (a, with_slab i a 0 s0)"
        using CreateSlab_page [OF a(1) [unfolded k(2)] k(1) assms(3)] k(2) by simp
      with r0 r(1) a(2,3) one False wf(3) [OF assms(2)] show ?thesis
        by (simp add: usable_slab_def with_slab_def one_page_def)
    qed
  qed
qed

lemma kmalloc_total:
  assumes "heap_inv s" and "vm_inv s" and "flags_ok (page_flags s)" and "k0 < HEAP_PAGES" and "\<not> bm_used (heap_bitmap s) k0"
    and "0 < bytes" and "bytes \<le> PAGE_SIZE"
  shows "\<exists>p t. kmalloc bytes s = Some (p, t) \<and> vm_inv t \<and> flags_ok (page_flags t) \<and> one_page s t"
proof (cases "1024 < bytes")
  case True
  with AllocateVirtualPage_total [OF assms(2-5)] assms(7) show ?thesis
    using AllocateVirtualPage_one_page by (fastforce simp: kmalloc_page)
next
  case False
  then obtain i where i: "i < SLAB_TYPES_MAX" "kmalloc bytes s = take_object i (slabs_ready s)"
    using kmalloc_slab [OF assms(6)] by blast
  obtain L F where wf: "heap_wf s L F" using assms(1) unfolding heap_inv_def by blast
  note r = slabs_ready_wf [OF wf]
  have "vm_inv (slabs_ready s)" "flags_ok (page_flags (slabs_ready s))" "\<not> bm_used (heap_bitmap (slabs_ready s)) k0"
    using assms(2,3,5) by (simp_all add: InitSlabCaches_def)
  then obtain p t where "usable_slab i (slabs_ready s) = Some (p, t)" "vm_inv t" "flags_ok (page_flags t)" "p \<noteq> 0 \<longrightarrow> slabs t p \<noteq> None"
    "one_page (slabs_ready s) t"
    using usable_slab_total [OF r(1,2) i(1) _ _ assms(4)] by blast
  moreover from this(5) have "one_page s t" by (simp add: one_page_def InitSlabCaches_def split: if_splits)
  ultimately show ?thesis unfolding i(2) by (auto simp: take_object_def Let_def)
qed

end
