(* ===== verification/HeapContract.thy ===== *)
theory HeapContract
  imports Heap
begin

text \<open>
  What the kernel heap promises its clients, as a locale, its interpretation on \<open>kmalloc\<close> and
  \<open>kfree\<close>, and the properties of the heap that follow.
\<close>

section \<open>The contract of a heap\<close>

text \<open>
  What the kernel's components rely on: an allocation is at a fresh place with enough room for
  what was asked, live allocations never overlap, and neither allocating nor freeing disturbs
  the other allocations or the client's own data.

  \<open>heap_run\<close> is a client: it allocates and frees what it holds, in any order.
\<close>

datatype heap_op = Alloc u32 | Free nat

fun heap_step :: "(u32 \<Rightarrow> 's \<Rightarrow> (ptr \<times> 's) option) \<Rightarrow> (ptr \<Rightarrow> 's \<Rightarrow> 's option) \<Rightarrow> heap_op \<Rightarrow>
    's \<times> (ptr \<times> u32) list \<Rightarrow> ('s \<times> (ptr \<times> u32) list) option" where
  "heap_step alloc dealloc (Alloc bytes) (s, own) = do {
     (p, s') \<leftarrow> alloc bytes s;
     Some (s', if p = 0 then own else (p, bytes) # own)
   }"
| "heap_step alloc dealloc (Free i) (s, own) =
     (if i < length own then do {
        s' \<leftarrow> dealloc (fst (own ! i)) s;
        Some (s', filter (\<lambda>h. fst h \<noteq> fst (own ! i)) own)
      } else Some (s, own))"

fun heap_run :: "(u32 \<Rightarrow> 's \<Rightarrow> (ptr \<times> 's) option) \<Rightarrow> (ptr \<Rightarrow> 's \<Rightarrow> 's option) \<Rightarrow> heap_op list \<Rightarrow>
    's \<times> (ptr \<times> u32) list \<Rightarrow> ('s \<times> (ptr \<times> u32) list) option" where
  "heap_run alloc dealloc [] c = Some c"
| "heap_run alloc dealloc (op # ops) c = Option.bind (heap_step alloc dealloc op c) (heap_run alloc dealloc ops)"

text \<open>The allocations of a list do not overlap.\<close>

definition no_overlap :: "(ptr \<times> u32) list \<Rightarrow> bool" where
  "no_overlap own \<longleftrightarrow> distinct (map fst own) \<and>
     (\<forall>(p, m) \<in> set own. \<forall>(q, n) \<in> set own. p \<noteq> q \<longrightarrow> unat p + unat m \<le> unat q \<or> unat q + unat n \<le> unat p)"

locale object_heap =
  fixes inv :: "'s \<Rightarrow> bool"
    and ext :: "'s \<Rightarrow> ptr \<Rightarrow> nat \<Rightarrow> bool"
    and valid :: "u32 \<Rightarrow> bool"
    and alloc :: "u32 \<Rightarrow> 's \<Rightarrow> (ptr \<times> 's) option"
    and dealloc :: "ptr \<Rightarrow> 's \<Rightarrow> 's option"
    and client :: "'s \<Rightarrow> 'c"
  assumes apart: "inv s \<Longrightarrow> ext s p m \<Longrightarrow> ext s q n \<Longrightarrow> p \<noteq> q \<Longrightarrow> unat p + m \<le> unat q \<or> unat q + n \<le> unat p"
    and alloc_inv: "inv s \<Longrightarrow> valid bytes \<Longrightarrow> alloc bytes s = Some (p, t) \<Longrightarrow> inv t \<and> client t = client s"
    and alloc_fresh: "inv s \<Longrightarrow> valid bytes \<Longrightarrow> alloc bytes s = Some (p, t) \<Longrightarrow> p \<noteq> 0 \<Longrightarrow> \<not> ext s p n"
    and alloc_room: "inv s \<Longrightarrow> valid bytes \<Longrightarrow> alloc bytes s = Some (p, t) \<Longrightarrow> p \<noteq> 0 \<Longrightarrow> \<exists>n \<ge> unat bytes. ext t p n"
    and alloc_keeps: "inv s \<Longrightarrow> valid bytes \<Longrightarrow> alloc bytes s = Some (p, t) \<Longrightarrow> ext s q n \<Longrightarrow> ext t q n"
    and dealloc_inv: "inv s \<Longrightarrow> ext s p n \<Longrightarrow> dealloc p s = Some t \<Longrightarrow> inv t \<and> client t = client s"
    and dealloc_keeps: "inv s \<Longrightarrow> ext s p n \<Longrightarrow> dealloc p s = Some t \<Longrightarrow> q \<noteq> p \<Longrightarrow> ext s q m \<Longrightarrow> ext t q m"
begin

definition holds :: "'s \<Rightarrow> (ptr \<times> u32) list \<Rightarrow> bool" where
  "holds s own \<longleftrightarrow> inv s \<and> distinct (map fst own) \<and> (\<forall>(p, m) \<in> set own. \<exists>n \<ge> unat m. ext s p n)"

lemma holdsD: "holds s own \<Longrightarrow> (p, m) \<in> set own \<Longrightarrow> \<exists>n \<ge> unat m. ext s p n"
  by (auto simp: holds_def)

lemma holdsI: "inv s \<Longrightarrow> distinct (map fst own) \<Longrightarrow> (\<And>p m. (p, m) \<in> set own \<Longrightarrow> \<exists>n \<ge> unat m. ext s p n) \<Longrightarrow> holds s own"
  by (auto simp: holds_def)

lemma holds_alloc:
  assumes "holds s own" and "valid bytes" and "alloc bytes s = Some (p, t)"
  shows "holds t (if p = 0 then own else (p, bytes) # own)" and "client t = client s"
proof -
  have i: "inv s" and d: "distinct (map fst own)" using assms(1) by (simp_all add: holds_def)
  note a = alloc_inv [OF i assms(2,3)]
  show "client t = client s" using a by simp
  have k: "\<exists>n \<ge> unat m. ext t q n" if q: "(q, m) \<in> set own" for q m
    using holdsD [OF assms(1) q] alloc_keeps [OF i assms(2,3)] by blast
  have f: "p \<notin> fst ` set own" if p: "p \<noteq> 0"
  proof
    assume "p \<in> fst ` set own"
    then obtain m where "(p, m) \<in> set own" by auto
    with holdsD [OF assms(1)] alloc_fresh [OF i assms(2,3) p] show False by blast
  qed
  show "holds t (if p = 0 then own else (p, bytes) # own)"
  proof (cases "p = 0")
    case True
    with a d k show ?thesis by (auto intro: holdsI)
  next
    case False
    with f d have "distinct (map fst ((p, bytes) # own))" by simp
    with a k alloc_room [OF i assms(2,3) False] False show ?thesis by (auto intro!: holdsI)
  qed
qed

lemma holds_dealloc:
  assumes "holds s own" and "i < length own" and "dealloc (fst (own ! i)) s = Some t"
  shows "holds t (filter (\<lambda>h. fst h \<noteq> fst (own ! i)) own)" and "client t = client s"
proof -
  have i: "inv s" and d: "distinct (map fst own)" using assms(1) by (simp_all add: holds_def)
  have "(fst (own ! i), snd (own ! i)) \<in> set own" using assms(2) by simp
  then obtain n where n: "ext s (fst (own ! i)) n" using holdsD [OF assms(1)] by blast
  note de = dealloc_inv [OF i n assms(3)]
  show "client t = client s" using de by simp
  show "holds t (filter (\<lambda>h. fst h \<noteq> fst (own ! i)) own)"
  proof (rule holdsI)
    show "inv t" using de by simp
    show "distinct (map fst (filter (\<lambda>h. fst h \<noteq> fst (own ! i)) own))" using d by (rule distinct_map_filter)
    show "\<exists>n \<ge> unat m. ext t q n" if "(q, m) \<in> set (filter (\<lambda>h. fst h \<noteq> fst (own ! i)) own)" for q m
      using that holdsD [OF assms(1), of q m] dealloc_keeps [OF i n assms(3)] by auto
  qed
qed

lemma holds_run:
  assumes "holds s own" and "\<forall>bytes. Alloc bytes \<in> set ops \<longrightarrow> valid bytes"
    and "heap_run alloc dealloc ops (s, own) = Some (t, own')"
  shows "holds t own' \<and> client t = client s"
  using assms
proof (induction ops arbitrary: s own)
  case Nil
  then show ?case by simp
next
  case (Cons op ops)
  then obtain s1 own1 where s1: "heap_step alloc dealloc op (s, own) = Some (s1, own1)"
    "heap_run alloc dealloc ops (s1, own1) = Some (t, own')" by (auto split: bind_splits)
  have "holds s1 own1 \<and> client s1 = client s"
  proof (cases op)
    case (Alloc bytes)
    with s1(1) obtain p where p: "alloc bytes s = Some (p, s1)" "own1 = (if p = 0 then own else (p, bytes) # own)"
      by (auto split: bind_splits)
    have "valid bytes" using Alloc Cons.prems(2) by simp
    with holds_alloc [OF Cons.prems(1) _ p(1)] p(2) show ?thesis by simp
  next
    case (Free i)
    show ?thesis
    proof (cases "i < length own")
      case True
      with Free s1(1) have "dealloc (fst (own ! i)) s = Some s1" "own1 = filter (\<lambda>h. fst h \<noteq> fst (own ! i)) own"
        by (auto split: bind_splits)
      with holds_dealloc [OF Cons.prems(1) True] show ?thesis by simp
    next
      case False
      with Free s1(1) Cons.prems(1) show ?thesis by simp
    qed
  qed
  with Cons.IH [of s1 own1] Cons.prems(2) s1(2) show ?case by auto
qed

lemma holds_no_overlap:
  assumes "holds s own"
  shows "no_overlap own"
proof -
  have i: "inv s" and d: "distinct (map fst own)" using assms by (simp_all add: holds_def)
  have "unat p + unat m \<le> unat q \<or> unat q + unat n \<le> unat p"
    if pq: "(p, m) \<in> set own" "(q, n) \<in> set own" "p \<noteq> q" for p m q n
  proof -
    obtain m' n' where "unat m \<le> m'" "unat n \<le> n'" "ext s p m'" "ext s q n'"
      using holdsD [OF assms] pq by meson
    with apart [OF i _ _ pq(3), of m' n'] show ?thesis by auto
  qed
  with d show ?thesis unfolding no_overlap_def by auto
qed

end

section \<open>The kernel heap provides it\<close>

definition extent :: "'a heap_state_scheme \<Rightarrow> ptr \<Rightarrow> nat \<Rightarrow> bool" where
  "extent s p n \<longleftrightarrow> (\<exists>L F. heap_wf s L F \<and> room s L F p n)"

lemma extent_room:
  assumes "heap_wf s L F"
  shows "extent s p n \<longleftrightarrow> room s L F p n"
proof
  assume "extent s p n"
  then obtain L' F' where w: "heap_wf s L' F'" "room s L' F' p n" unfolding extent_def by blast
  then show "room s L F p n"
    using heap_wf_det [OF w(1) assms] unfolding room_def by (metis (no_types, lifting))
next
  assume "room s L F p n"
  with assms show "extent s p n" unfolding extent_def by blast
qed

lemma extent_live: "live s p \<longleftrightarrow> (\<exists>n. extent s p n)"
  unfolding live_def extent_def using room_alive by blast

text \<open>Every allocation lies in one heap page, at the start of it or behind the slab header.\<close>

lemma room_page:
  assumes "heap_wf s L F" and "room s L F p n"
  obtains k where "k < HEAP_PAGES" "heap_used s (heap_addr k)" "unat (heap_addr k) \<le> unat p" "unat p + n \<le> unat (heap_addr k) + 4096"
    "p = heap_addr k \<and> (\<forall>i < SLAB_TYPES_MAX. heap_addr k \<notin> set (L i)) \<or>
     (\<exists>i < SLAB_TYPES_MAX. \<exists>j < slab_count i. heap_addr k \<in> set (L i) \<and> n = unat (slab_sizes i) \<and>
        unat p = unat (heap_addr k) + 32 + j * unat (slab_sizes i))"
  using assms(2) unfolding room_def
proof (elim disjE exE bexE conjE)
  fix i q assume q: "i < SLAB_TYPES_MAX" "q \<in> set (L i)" "p \<in> set (slab_objects q i) - set (F q)" "n = unat (slab_sizes i)"
  have u: "heap_used s q" by (rule slab_page_used [OF assms(1) q(1,2)])
  then obtain k where k: "k < HEAP_PAGES" "q = heap_addr k" unfolding heap_used_def by blast
  obtain j where j: "j < slab_count i" "unat p = unat (heap_addr k) + 32 + j * unat (slab_sizes i)"
    using slab_objects_page(1) [OF q(1) k(1), of p] q(3) k(2) by blast
  have "Suc j * unat (slab_sizes i) \<le> slab_count i * unat (slab_sizes i)" using j(1) by (intro mult_le_mono1) simp
  with slab_sizes_range(4) [OF q(1)] j(2) q(4) have "unat p + n \<le> unat (heap_addr k) + 4096" by simp
  with that [OF k(1)] u k q j show thesis by auto
next
  assume "heap_used s p" "\<forall>i<SLAB_TYPES_MAX. p \<notin> set (L i)" "n = 4096"
  moreover from this(1) obtain k where "k < HEAP_PAGES" "p = heap_addr k" unfolding heap_used_def by blast
  ultimately show thesis using that [of k] by simp
qed

lemma room_apart:
  assumes "heap_wf s L F" and "room s L F p m" and "room s L F q n" and "p \<noteq> q"
  shows "unat p + m \<le> unat q \<or> unat q + n \<le> unat p"
proof -
  obtain k where k: "k < HEAP_PAGES" "unat (heap_addr k) \<le> unat p" "unat p + m \<le> unat (heap_addr k) + 4096"
    "p = heap_addr k \<and> (\<forall>i < SLAB_TYPES_MAX. heap_addr k \<notin> set (L i)) \<or>
     (\<exists>i < SLAB_TYPES_MAX. \<exists>j < slab_count i. heap_addr k \<in> set (L i) \<and> m = unat (slab_sizes i) \<and>
        unat p = unat (heap_addr k) + 32 + j * unat (slab_sizes i))"
    by (rule room_page [OF assms(1,2)])
  obtain l where l: "l < HEAP_PAGES" "unat (heap_addr l) \<le> unat q" "unat q + n \<le> unat (heap_addr l) + 4096"
    "q = heap_addr l \<and> (\<forall>i < SLAB_TYPES_MAX. heap_addr l \<notin> set (L i)) \<or>
     (\<exists>i < SLAB_TYPES_MAX. \<exists>j < slab_count i. heap_addr l \<in> set (L i) \<and> n = unat (slab_sizes i) \<and>
        unat q = unat (heap_addr l) + 32 + j * unat (slab_sizes i))"
    by (rule room_page [OF assms(1,3)])
  note a = unat_heap_addr [OF k(1)] unat_heap_addr [OF l(1)]
  consider "k < l" | "l < k" | "k = l" by linarith
  then show ?thesis
  proof cases
    case 1
    then have "Suc k * 4096 \<le> l * 4096" by (intro mult_le_mono1) simp
    with k l a show ?thesis by simp
  next
    case 2
    then have "Suc l * 4096 \<le> k * 4096" by (intro mult_le_mono1) simp
    with k l a show ?thesis by simp
  next
    case 3
    with k(4) l(4) assms(4) obtain i j i' j' where ij: "i < SLAB_TYPES_MAX" "i' < SLAB_TYPES_MAX"
      "heap_addr k \<in> set (L i)" "heap_addr k \<in> set (L i')" "m = unat (slab_sizes i)" "n = unat (slab_sizes i')"
      "unat p = unat (heap_addr k) + 32 + j * unat (slab_sizes i)" "unat q = unat (heap_addr k) + 32 + j' * unat (slab_sizes i')"
      by auto
    have i: "i' = i" using heap_wfD(4) [OF assms(1) ij(1,2,3,4)] by simp
    have "j \<noteq> j'"
    proof
      assume "j = j'"
      with ij(7,8) i have "unat p = unat q" by simp
      with assms(4) show False by (simp add: word_unat_eq_iff)
    qed
    then have "Suc j \<le> j' \<or> Suc j' \<le> j" by auto
    then have "Suc j * unat (slab_sizes i) \<le> j' * unat (slab_sizes i) \<or> Suc j' * unat (slab_sizes i) \<le> j * unat (slab_sizes i)"
      using mult_le_mono1 by blast
    with ij i show ?thesis by auto
  qed
qed

lemma room_kept:
  assumes "heap_wf s L F" and "heap_wf t L' F'" and "more_slabs L L'" and "alive t L' F' q" and "room s L F q n"
  shows "room t L' F' q n"
proof -
  have page: "\<exists>l < HEAP_PAGES. r = heap_addr l" if "i < SLAB_TYPES_MAX" "r \<in> set (L' i)" for i r
    using slab_page_used [OF assms(2) that] unfolding heap_used_def by blast
  have sub: "r \<in> set (L i) \<Longrightarrow> r \<in> set (L' i)" for i r using assms(3) by (auto simp: more_slabs_def)
  show ?thesis
    using assms(5) [unfolded room_def]
  proof (elim disjE exE bexE conjE)
    fix i r assume r: "i < SLAB_TYPES_MAX" "r \<in> set (L i)" "q \<in> set (slab_objects r i) - set (F r)" "n = unat (slab_sizes i)"
    obtain k where k: "k < HEAP_PAGES" "r = heap_addr k" using page [OF r(1) sub [OF r(2)]] by blast
    have "\<not> heap_used t q"
      using object_not_page [OF r(1) k(1), of _ q] r(3) k(2) unfolding heap_used_def by blast
    with assms(4) obtain j r' where j: "j < SLAB_TYPES_MAX" "r' \<in> set (L' j)" "q \<in> set (slab_objects r' j) - set (F' r')"
      unfolding alive_def by blast
    obtain l where l: "l < HEAP_PAGES" "r' = heap_addr l" using page [OF j(1,2)] by blast
    have "r' = r" using object_slab_unique [OF r(1) j(1) k(1) l(1), of q] r(3) j(3) k(2) l(2) by simp
    with heap_wfD(4) [OF assms(2) j(1) r(1) j(2)] sub [OF r(2)] have "j = i" by simp
    with j r(4) show ?thesis unfolding room_def by blast
  next
    assume u: "heap_used s q" "n = 4096"
    then obtain k where k: "k < HEAP_PAGES" "q = heap_addr k" unfolding heap_used_def by blast
    have "q \<notin> set (slab_objects r i)" if "i < SLAB_TYPES_MAX" "r \<in> set (L' i)" for i r
      using page [OF that] object_not_page [OF that(1) _ k(1)] k(2) by blast
    with assms(4) u(2) show ?thesis unfolding alive_def room_def by blast
  qed
qed

lemma kmalloc_extent:
  assumes "heap_inv s" and "bytes \<le> PAGE_SIZE" and "kmalloc bytes s = Some (p, t)"
  shows "heap_inv t \<and> heap_state.more t = heap_state.more s" and "p \<noteq> 0 \<Longrightarrow> \<not> extent s p n"
    and "p \<noteq> 0 \<Longrightarrow> \<exists>n \<ge> unat bytes. extent t p n" and "extent s q n \<Longrightarrow> extent t q n"
proof -
  obtain L F where wf: "heap_wf s L F" using assms(1) unfolding heap_inv_def by blast
  have "heap_inv t \<and> heap_state.more t = heap_state.more s \<and> (p \<noteq> 0 \<longrightarrow> \<not> live s p) \<and>
      (p \<noteq> 0 \<longrightarrow> (\<exists>n \<ge> unat bytes. extent t p n)) \<and> (\<forall>q n. extent s q n \<longrightarrow> extent t q n)"
  proof (cases "bytes = 0")
    case True
    with assms(1,3) show ?thesis by (simp add: kmalloc_def)
  next
    case False
    then have pos: "0 < bytes" by (simp add: word_neq_0_conv)
    obtain L' F' where t: "heap_wf t L' F'" "more_slabs L L'"
      "p \<noteq> 0 \<longrightarrow> (\<exists>n \<ge> unat bytes. room t L' F' p n)" "\<forall>y. alive s L F y \<longrightarrow> alive t L' F' y"
      using kmalloc_wf [OF wf pos assms(2,3)] by (auto split: if_splits)
    have "extent t q n" if "extent s q n" for q n
    proof -
      have r: "room s L F q n" using that by (simp add: extent_room [OF wf])
      then have "alive t L' F' q" using t(4) room_alive [of s L F q] by blast
      with room_kept [OF wf t(1,2) _ r] show ?thesis by (simp add: extent_room [OF t(1)])
    qed
    with kmalloc_fresh(1,2,4) [OF assms(1) pos assms(2,3)] t(3) show ?thesis by (simp add: extent_room [OF t(1)])
  qed
  then show "heap_inv t \<and> heap_state.more t = heap_state.more s" and "p \<noteq> 0 \<Longrightarrow> \<not> extent s p n"
    and "p \<noteq> 0 \<Longrightarrow> \<exists>n \<ge> unat bytes. extent t p n" and "extent s q n \<Longrightarrow> extent t q n"
    unfolding extent_live by blast+
qed

lemma kfree_extent:
  assumes "extent s p n" and "kfree p s = Some t"
  shows "heap_inv t \<and> heap_state.more t = heap_state.more s" and "q \<noteq> p \<Longrightarrow> extent s q m \<Longrightarrow> extent t q m"
    and "\<not> extent t p m"
proof -
  obtain L F where wf: "heap_wf s L F" and r: "room s L F p n" using assms(1) unfolding extent_def by blast
  then have al: "alive s L F p" using room_alive by blast
  obtain F' where t: "heap_wf t L F'" "\<forall>y. alive t L F' y \<longleftrightarrow> y \<noteq> p \<and> alive s L F y"
    using kfree_wf [OF wf al assms(2)] by blast
  have lv: "live s p" using assms(1) by (auto simp: extent_live)
  show "heap_inv t \<and> heap_state.more t = heap_state.more s" using kfree_live [OF lv assms(2)] by simp
  show "\<not> extent t p m" using t(2) room_alive [of t L F' p] by (auto simp: extent_room [OF t(1)])
  assume q: "q \<noteq> p" "extent s q m"
  then have rq: "room s L F q m" by (simp add: extent_room [OF wf])
  then have "alive t L F' q" using t(2) q(1) room_alive [of s L F q] by blast
  with room_kept [OF wf t(1) _ _ rq] show "extent t q m" by (simp add: extent_room [OF t(1)])
qed

interpretation kernel_heap: object_heap heap_inv extent "\<lambda>bytes. bytes \<le> PAGE_SIZE" kmalloc kfree heap_state.more
proof (unfold_locales, goal_cases)
  case (1 s p m q n)
  then obtain L F where "heap_wf s L F" unfolding heap_inv_def by blast
  with 1 room_apart [of s L F p m q n] show ?case by (simp add: extent_room)
next
  case 2
  then show ?case by (rule kmalloc_extent(1))
next
  case 3
  then show ?case by (rule kmalloc_extent(2))
next
  case 4
  then show ?case by (rule kmalloc_extent(3))
next
  case 5
  then show ?case by (rule kmalloc_extent(4))
next
  case (6 s p n t)
  from 6(2,3) show ?case by (rule kfree_extent(1))
next
  case (7 s p n t q m)
  from 7(2-5) show ?case by (rule kfree_extent(2))
qed

text \<open>A heap that has not been used yet: frames 320 to 351 are available.\<close>

definition fresh_heap :: heap_state where
  "fresh_heap = \<lparr>mem_regions = (\<lambda>_. zero_region), mem_regions_idx = 0,
     bitmap = (\<lambda>_. 0xFFFFFFFF)(10 := 0), highest_addr = 0x300000,
     pmem = (\<lambda>_ _. 0)(1 := (\<lambda>_. 0)(1023 := 0x1003)), cr3 = 0x1000, cpuid_features = 0,
     heap_bitmap = (\<lambda>_. 0), caches = (\<lambda>_. \<lparr>sc_slabs = 0, sc_objsize = 0\<rparr>), allocator_initialized = False,
     page_flags = 3, slabs = Map.empty, links = (\<lambda>_. 0), physframes = (\<lambda>_ _. 0)\<rparr>"

lemma heap_inv_fresh: "heap_inv fresh_heap"
proof -
  have "heap_wf fresh_heap (\<lambda>_. []) (\<lambda>_. [])" by (simp add: heap_wf_def fresh_heap_def)
  then show ?thesis unfolding heap_inv_def by blast
qed

lemma frame_free_fresh: "frame_free fresh_heap k \<longleftrightarrow> 320 \<le> k \<and> k < 352"
proof -
  have "bm_used ((\<lambda>_. 0xFFFFFFFF)(10 := 0)) k \<longleftrightarrow> k div 32 \<noteq> 10"
    using bm_used_ones [of k] by (auto simp: bm_used_bit)
  moreover have "k div 32 = 10 \<longleftrightarrow> 320 \<le> k \<and> k < 352" by auto
  ultimately show ?thesis by (auto simp: frame_free_def fresh_heap_def)
qed

lemma vm_inv_fresh: "vm_inv fresh_heap"
proof -
  have "frame_addr k \<le> 0x300000" if "k < 352" for k
    using that by (simp add: word_le_nat_alt unat_frame_addr)
  then have "frames_inv fresh_heap"
    by (auto simp: frames_inv_def frame_free_fresh) (simp add: fresh_heap_def)
  moreover have "pd_frame fresh_heap = 1" "pde fresh_heap i = (if i = 1023 then 0x1003 else 0)" for i
    by (simp_all add: pd_frame_def pde_def fresh_heap_def frame_no_def)
  ultimately show ?thesis
    by (auto simp: vm_inv_def pd_present_def pd_writable_def pt_frame_def frame_free_fresh frame_no_def has_flag_def)
qed

lemma fresh_heap_page: "\<not> bm_used (heap_bitmap fresh_heap) k" "flags_ok (page_flags fresh_heap)"
proof -
  have "heap_bitmap fresh_heap = (\<lambda>_. 0)" "page_flags fresh_heap = 3" by (simp_all add: fresh_heap_def)
  then show "\<not> bm_used (heap_bitmap fresh_heap) k" "flags_ok (page_flags fresh_heap)"
    by (simp_all add: bm_used_bit flags_ok_def)
qed

section \<open>Properties of the heap\<close>

lemma heap_addresses_apart:
  assumes "heap_inv s" and "\<forall>bytes. Alloc bytes \<in> set ops \<longrightarrow> bytes \<le> PAGE_SIZE"
    and "heap_run kmalloc kfree ops (s, []) = Some (t, own)"
  shows "no_overlap own \<and> heap_inv t"
proof -
  have "kernel_heap.holds s []" using assms(1) by (simp add: kernel_heap.holds_def)
  note h = kernel_heap.holds_run [OF this assms(2,3)]
  then have "no_overlap own" by (blast intro: kernel_heap.holds_no_overlap)
  with h show ?thesis by (simp add: kernel_heap.holds_def)
qed

text \<open>
  The physical address behind a virtual one, and the bytes of a list of blocks. A release of a whole page gives a wrong frame back
  (\<open>FreeVirtualPage_wrong_frame\<close>); a sequence of operations is safe if it makes none.
\<close>

definition phys_byte :: "'a vm_state_scheme \<Rightarrow> nat \<Rightarrow> nat option" where
  "phys_byte s a = map_option (\<lambda>e. frame_no e * 4096 + a mod 4096) (vmap s (a div 4096))"

definition block_bytes :: "(ptr \<times> u32) list \<Rightarrow> nat set" where
  "block_bytes own = (\<Union>(p, m) \<in> set own. {unat p ..< unat p + unat m})"

definition no_page_release :: "heap_op list \<Rightarrow> bool" where
  "no_page_release ops \<longleftrightarrow> (\<forall>op \<in> set ops. case op of Alloc bytes \<Rightarrow> bytes \<le> 1024 | Free i \<Rightarrow> True) \<or>
     (\<forall>op \<in> set ops. case op of Alloc bytes \<Rightarrow> bytes \<le> PAGE_SIZE | Free i \<Rightarrow> False)"

definition pages_used :: "'a heap_state_scheme \<Rightarrow> nat set" where
  "pages_used s = {k. k < HEAP_PAGES \<and> bm_used (heap_bitmap s) k}"

lemma finite_pages_used [simp]: "finite (pages_used s)"
  by (simp add: pages_used_def)

lemma pages_used_free:
  assumes "card (pages_used s) < HEAP_PAGES"
  obtains k where "k < HEAP_PAGES" "\<not> bm_used (heap_bitmap s) k"
proof -
  have "pages_used s \<noteq> {..<HEAP_PAGES}" using assms by (metis card_lessThan less_irrefl)
  then show thesis using that unfolding pages_used_def by blast
qed

text \<open>What holds between the operations: the blocks that may be released are slab objects.\<close>

definition heap_sound :: "heap_op list \<Rightarrow> 'a heap_state_scheme \<Rightarrow> (ptr \<times> u32) list \<Rightarrow> bool" where
  "heap_sound ops s own \<longleftrightarrow> kernel_heap.holds s own \<and> vm_inv s \<and> flags_ok (page_flags s) \<and> heap_mapped s \<and>
     ((\<forall>op \<in> set ops. case op of Alloc bytes \<Rightarrow> bytes \<le> 1024 | Free i \<Rightarrow> True) \<and>
        (\<forall>p \<in> fst ` set own. \<forall>k < HEAP_PAGES. p \<noteq> heap_addr k) \<or>
      (\<forall>op \<in> set ops. case op of Alloc bytes \<Rightarrow> bytes \<le> PAGE_SIZE | Free i \<Rightarrow> False))"

lemma small_le_page: "bytes \<le> 1024 \<Longrightarrow> bytes \<le> (PAGE_SIZE :: u32)"
  by (erule order_trans) simp

lemma heap_sound_alloc:
  assumes "heap_sound (Alloc bytes # ops) s own" and "card (pages_used s) < HEAP_PAGES"
  obtains p t where "kmalloc bytes s = Some (p, t)" "heap_sound ops t (if p = 0 then own else (p, bytes) # own)"
    "card (pages_used t) \<le> Suc (card (pages_used s))"
proof -
  note a = assms(1) [unfolded heap_sound_def]
  have i: "heap_inv s" "vm_inv s" "flags_ok (page_flags s)" "heap_mapped s" using a by (simp_all add: kernel_heap.holds_def)
  have le: "bytes \<le> PAGE_SIZE" using a small_le_page [of bytes] by auto
  obtain k0 where k0: "k0 < HEAP_PAGES" "\<not> bm_used (heap_bitmap s) k0" by (rule pages_used_free [OF assms(2)])
  have "\<exists>p t. kmalloc bytes s = Some (p, t) \<and> one_page s t"
  proof (cases "bytes = 0")
    case True
    then show ?thesis by (simp add: kmalloc_def one_page_refl)
  next
    case False
    then have "0 < bytes" by (simp add: word_neq_0_conv)
    then show ?thesis using kmalloc_total [OF i(1-3) k0 _ le] by blast
  qed
  then obtain p t k where t: "kmalloc bytes s = Some (p, t)" "\<forall>j. bm_used (heap_bitmap t) j \<longrightarrow> j = k \<or> bm_used (heap_bitmap s) j"
    unfolding one_page_def by blast
  note m = kmalloc_mapped [OF i le t(1)]
  have "kernel_heap.holds t (if p = 0 then own else (p, bytes) # own)"
    using kernel_heap.holds_alloc(1) [OF _ le t(1)] a by blast
  with m a have s: "heap_sound ops t (if p = 0 then own else (p, bytes) # own)" unfolding heap_sound_def by auto
  have "pages_used t \<subseteq> insert k (pages_used s)" using t(2) by (auto simp: pages_used_def)
  from card_mono [OF _ this] have "card (pages_used t) \<le> Suc (card (pages_used s))"
    by (rule order_trans) (simp_all add: card_insert_if)
  with t(1) s show thesis by (rule that)
qed

lemma heap_sound_free:
  assumes "heap_sound (Free i # ops) s own" and "i < length own"
  obtains t where "kfree (fst (own ! i)) s = Some t" "heap_sound ops t (filter (\<lambda>h. fst h \<noteq> fst (own ! i)) own)"
    "pages_used t = pages_used s"
proof -
  note a = assms(1) [unfolded heap_sound_def]
  let ?p = "fst (own ! i)" let ?own = "filter (\<lambda>h. fst h \<noteq> ?p) own"
  have small: "\<forall>p \<in> fst ` set own. \<forall>k < HEAP_PAGES. p \<noteq> heap_addr k" using a by auto
  have mem: "(?p, snd (own ! i)) \<in> set own" using assms(2) by simp
  then obtain n where "extent s ?p n" using kernel_heap.holdsD [OF conjunct1 [OF a]] by blast
  then have "live s ?p" by (auto simp: extent_live)
  moreover have "\<forall>k < HEAP_PAGES. ?p \<noteq> heap_addr k" using small mem by force
  ultimately obtain t where t: "kfree ?p s = Some t" "same_mem t s" by (rule kfree_object)
  have "kernel_heap.holds t ?own" using kernel_heap.holds_dealloc(1) [OF conjunct1 [OF a] assms(2) t(1)] .
  moreover have "page_flags t = page_flags s" "heap_bitmap t = heap_bitmap s" using t(2) by (simp_all add: same_mem_def)
  ultimately have "heap_sound ops t ?own" "pages_used t = pages_used s"
    using a same_memD [OF t(2)] by (auto simp: heap_sound_def pages_used_def)
  with t(1) show thesis by (rule that)
qed

lemma heap_sound_run:
  assumes "heap_sound ops s own" and "card (pages_used s) + length ops \<le> HEAP_PAGES"
  shows "\<exists>t own'. heap_run kmalloc kfree ops (s, own) = Some (t, own') \<and> heap_sound [] t own'"
  using assms
proof (induction ops arbitrary: s own)
  case Nil
  then show ?case by simp
next
  case (Cons op ops)
  show ?case
  proof (cases op)
    case (Alloc bytes)
    have "card (pages_used s) < HEAP_PAGES" using Cons.prems(2) by simp
    from heap_sound_alloc [OF Cons.prems(1) [unfolded Alloc] this] obtain p t where
      t: "kmalloc bytes s = Some (p, t)" "heap_sound ops t (if p = 0 then own else (p, bytes) # own)"
        "card (pages_used t) \<le> Suc (card (pages_used s))" by blast
    from Cons.IH [OF t(2)] t(1,3) Cons.prems(2) Alloc show ?thesis by simp
  next
    case (Free i)
    show ?thesis
    proof (cases "i < length own")
      case True
      from heap_sound_free [OF Cons.prems(1) [unfolded Free] this] obtain t where
        t: "kfree (fst (own ! i)) s = Some t" "heap_sound ops t (filter (\<lambda>h. fst h \<noteq> fst (own ! i)) own)" "pages_used t = pages_used s" .
      from Cons.IH [OF t(2)] t(1,3) Cons.prems(2) Free True show ?thesis by simp
    next
      case False
      have "heap_sound ops s own" using Cons.prems(1) by (auto simp: heap_sound_def)
      from Cons.IH [OF this] Cons.prems(2) Free False show ?thesis by simp
    qed
  qed
qed

lemma heap_sound_phys:
  assumes "heap_sound ops s own"
  shows "(\<forall>a \<in> block_bytes own. phys_byte s a \<noteq> None) \<and> inj_on (phys_byte s) (block_bytes own)"
proof -
  have h: "kernel_heap.holds s own" and m: "heap_mapped s" using assms by (simp_all add: heap_sound_def)
  obtain L F where wf: "heap_wf s L F" using h unfolding kernel_heap.holds_def heap_inv_def by blast
  have page: "\<exists>k < HEAP_PAGES. bm_used (heap_bitmap s) k \<and> a div 4096 = page_no (heap_addr k)" if "a \<in> block_bytes own" for a
  proof -
    from that obtain p n where p: "(p, n) \<in> set own" "unat p \<le> a" "a < unat p + unat n" by (auto simp: block_bytes_def)
    then obtain n' where "unat n \<le> n'" "room s L F p n'" using kernel_heap.holdsD [OF h p(1)] extent_room [OF wf] by blast
    from this(2) obtain k where k': "k < HEAP_PAGES" "heap_used s (heap_addr k)" "unat (heap_addr k) \<le> unat p"
      "unat p + n' \<le> unat (heap_addr k) + 4096" by (rule room_page [OF wf])
    with p \<open>unat n \<le> n'\<close> have k: "k < HEAP_PAGES" "heap_used s (heap_addr k)" "unat (heap_addr k) \<le> a" "a < unat (heap_addr k) + 4096"
      by linarith+
    have "bm_used (heap_bitmap s) k" using k(1,2) heap_addr_inj [OF k(1)] unfolding heap_used_def by metis
    moreover have "a div 4096 = 0xC0100 + k" using k(3,4) unat_heap_addr [OF k(1)] by simp
    ultimately show ?thesis using k(1) page_no_heap_addr [OF k(1)] by auto
  qed
  have "a = b" if ab: "a \<in> block_bytes own" "b \<in> block_bytes own" "phys_byte s a = phys_byte s b" for a b
  proof -
    obtain j k where jk: "j < HEAP_PAGES" "bm_used (heap_bitmap s) j" "a div 4096 = page_no (heap_addr j)"
      "k < HEAP_PAGES" "bm_used (heap_bitmap s) k" "b div 4096 = page_no (heap_addr k)" using page ab(1,2) by meson
    obtain e e' where e: "vmap s (page_no (heap_addr j)) = Some e" "vmap s (page_no (heap_addr k)) = Some e'"
      using m jk unfolding heap_mapped_def by blast
    have eq: "frame_no e * 4096 + a mod 4096 = frame_no e' * 4096 + b mod 4096" using ab(3) jk(3,6) e by (simp add: phys_byte_def)
    have fr: "frame_no e = frame_no e'" using arg_cong [OF eq, of "\<lambda>x. x div 4096"] by simp
    have md: "a mod 4096 = b mod 4096" using arg_cong [OF eq, of "\<lambda>x. x mod 4096"] by simp
    have "map_option frame_no (vmap s (page_no (heap_addr j))) = map_option frame_no (vmap s (page_no (heap_addr k)))" using e fr by simp
    then have "j = k" using m jk(1,2,4,5) unfolding heap_mapped_def by blast
    then have "a div 4096 = b div 4096" using jk(3,6) by simp
    with md show ?thesis by (metis div_mult_mod_eq)
  qed
  moreover have "phys_byte s a \<noteq> None" if ab: "a \<in> block_bytes own" for a
  proof -
    obtain k where k: "k < HEAP_PAGES" "bm_used (heap_bitmap s) k" "a div 4096 = page_no (heap_addr k)" using page [OF ab] by blast
    then obtain e where "vmap s (page_no (heap_addr k)) = Some e" using m unfolding heap_mapped_def by blast
    with k(3) show ?thesis by (simp add: phys_byte_def)
  qed
  ultimately show ?thesis by (auto intro: inj_onI)
qed


lemma pages_used_fresh: "pages_used fresh_heap = {}" "heap_mapped fresh_heap"
  using fresh_heap_page(1) unfolding pages_used_def heap_mapped_def by blast+


text \<open>
  C5. While the heap has a page left and the page tables are in order, \<open>kmalloc\<close> of up to a
  page always comes back. It returns 0, or a block of at least the size asked for at a place
  that was not in use; what is in use keeps its size, and the page tables stay in order.
\<close>

theorem kmalloc_correct:
  assumes "heap_inv s" and "vm_inv s" and "flags_ok (page_flags s)" and "k < HEAP_PAGES" and "\<not> bm_used (heap_bitmap s) k"
    and "0 < bytes" and "bytes \<le> PAGE_SIZE"
  shows "\<exists>p t. kmalloc bytes s = Some (p, t) \<and> heap_inv t \<and> vm_inv t \<and>
    (p = 0 \<or> (\<not> live s p \<and> (\<exists>n \<ge> unat bytes. extent t p n))) \<and>
    (\<forall>q. live t q \<longleftrightarrow> live s q \<or> q = p \<and> p \<noteq> 0) \<and> (\<forall>q n. extent s q n \<longrightarrow> extent t q n)"
proof -
  obtain p t where t: "kmalloc bytes s = Some (p, t)" "vm_inv t" using kmalloc_total [OF assms] by blast
  note f = kmalloc_fresh [OF assms(1,6,7) t(1)] kmalloc_extent [OF assms(1,7) t(1)]
  have "live t q \<longleftrightarrow> live s q \<or> q = p \<and> p \<noteq> 0" for q using f(3,5) by (cases "p = 0") auto
  moreover have "p = 0 \<or> (\<not> live s p \<and> (\<exists>n \<ge> unat bytes. extent t p n))" using f(4,8) by (cases "p = 0") simp_all
  ultimately show ?thesis using t f(1,9) by (intro exI [of _ p] exI [of _ t]) simp
qed

theorem kmalloc_correct_witness:
  "\<exists>p t. kmalloc 24 fresh_heap = Some (p, t) \<and> heap_inv t \<and> vm_inv t \<and> (p = 0 \<or> (\<exists>n \<ge> 24. extent t p n))"
  using kmalloc_correct [OF heap_inv_fresh vm_inv_fresh fresh_heap_page(2) _ fresh_heap_page(1), of 0 24] by auto

text \<open>
  Freeing a heap page gives the wrong frame back. \<open>FreeVirtualPage\<close> takes the physical
  address to be at a fixed distance from the virtual one. For a page that is mapped to another
  frame, the frame stays reserved for ever and the frame at the computed address, which the
  heap never owned, becomes available.
\<close>

lemma FreeVirtualPage_wrong_frame:
  assumes "vm_inv s" and "k < HEAP_PAGES" and "vmap s (page_no (heap_addr k)) = Some e" and "\<not> frame_free s (frame_no e)"
    and "frame_no e \<noteq> frame_no (virt_to_phys (heap_addr k))" and "virt_to_phys (heap_addr k) \<le> highest_addr s"
  shows "\<exists>t. FreeVirtualPage (heap_addr k) s = Some t \<and> vmap t (page_no (heap_addr k)) = None \<and>
    \<not> frame_free t (frame_no e) \<and> frame_free t (frame_no (virt_to_phys (heap_addr k)))"
proof -
  let ?a = "heap_addr k" and ?f = "virt_to_phys (heap_addr k)"
  have w: "?a < PAGE_TABLE_BASE" using heap_addr_facts(3) [OF assms(2)] by (rule less_trans) simp
  obtain s1 where s1: "UnmapSinglePage ?a s = Some s1" "vmap s1 = (vmap s)(page_no ?a := None)" "frame_free s1 = frame_free s"
    using UnmapSinglePage_vmap [OF assms(1) w] by (auto simp: fun_eq_iff)
  have h: "highest_addr s1 = highest_addr s" using s1(1)
    by (auto simp: UnmapSinglePage_def Let_def store32_def poke_def split: bind_splits if_splits)
  have f: "unat ?f = 0x200000 + k * 4096"
    using assms(2) unat_heap_addr [OF assms(2)] by (simp add: virt_to_phys_def unat_sub word_le_nat_alt)
  then have f2: "2 \<le> frame_no ?f" by (simp add: frame_no_nat)
  let ?s2 = "MarkHeapPageAsFree ?a s1"
  have s2: "frame_free ?s2 = frame_free s" "highest_addr ?s2 = highest_addr s" "vmap ?s2 = vmap s1"
    using s1(3) h by (simp_all add: MarkHeapPageAsFree_def frame_free_def fun_eq_iff)
  have free: "frame_free (FreeFrame ?f ?s2) j \<longleftrightarrow> frame_free s j \<or> j = frame_no ?f" for j
    using frame_free_available [OF f2, of ?s2] assms(6) s2(1,2) by (auto simp: FreeFrame_def frame_free_not_allocated)
  have "FreeVirtualPage ?a s = Some (FreeFrame ?f ?s2)" using s1(1) by (simp add: FreeVirtualPage_def Let_def)
  with free assms(4,5) s1(2) s2(3) show ?thesis by simp
qed

text \<open>The first heap page mapped to frame 320.\<close>

definition mapped_heap :: heap_state where
  "mapped_heap = fresh_heap\<lparr>bitmap := bm_mark 320 (bitmap fresh_heap),
     pmem := (\<lambda>_ _. 0)(1 := (\<lambda>_. 0)(1023 := 0x1003, 768 := 0x2003), 2 := (\<lambda>_. 0)(256 := 0x140003))\<rparr>"

lemma frame_free_mapped: "frame_free mapped_heap k \<longleftrightarrow> frame_free fresh_heap k \<and> k \<noteq> 320"
  by (auto simp: frame_free_def mapped_heap_def bm_simps)

lemma pde_mapped: "pd_frame mapped_heap = 1" "pde mapped_heap i = (if i = 768 then 0x2003 else if i = 1023 then 0x1003 else 0)"
  by (simp_all add: pd_frame_def pde_def mapped_heap_def fresh_heap_def frame_no_def)

lemma vm_inv_mapped: "vm_inv mapped_heap"
proof -
  have "frames_inv mapped_heap"
    using vm_invD(1) [OF vm_inv_fresh] by (simp add: frames_inv_def frame_free_mapped) (simp add: mapped_heap_def)
  then show ?thesis
    by (auto simp: vm_inv_def pd_present_def pd_writable_def pt_frame_def pde_mapped frame_free_mapped
        frame_free_fresh frame_no_def has_flag_def split: if_splits)
qed

lemma vmap_mapped: "vmap mapped_heap (page_no (heap_addr 0)) = Some 0x140003"
  by (simp add: vmap_def heap_addr_def frame_no_def pd_present_def pt_frame_def pde_mapped has_flag_def)
    (simp add: mapped_heap_def)

lemma FreeVirtualPage_wrong_frame_example:
  "\<exists>t. FreeVirtualPage (heap_addr 0) mapped_heap = Some t \<and> \<not> frame_free t 320 \<and> frame_free t 512"
proof -
  have "highest_addr mapped_heap = 0x300000" by (simp add: mapped_heap_def fresh_heap_def)
  with FreeVirtualPage_wrong_frame [OF vm_inv_mapped _ vmap_mapped] show ?thesis
    by (auto simp: frame_free_mapped frame_no_def virt_to_phys_def heap_addr_def)
qed

end
