(* ===== verification/UserCopy.thy ===== *)
theory UserCopy
  imports VMM
begin

text \<open>
  Copying between kernel buffers and the memory of the current process,
  \<^verbatim>\<open>src/sys/syscall/usercopy.c\<close>. User memory is read and written byte by byte through the
  page tables; a kernel buffer is the list of its bytes. \<open>memcpy\<close> from or to an address
  that is not mapped (or, for a store, not writable) is a page fault in the kernel, \<open>None\<close>.
\<close>

section \<open>Byte access\<close>

definition load8 :: "u32 \<Rightarrow> 'a vm_state_scheme \<Rightarrow> u8 option" where
  "load8 va s = map_option (\<lambda>w. ucast (drop_bit (8 * (unat va mod 4)) w)) (load32 va s)"

definition set_byte :: "nat \<Rightarrow> u8 \<Rightarrow> u32 \<Rightarrow> u32" where
  "set_byte i b w = (w AND NOT (push_bit (8 * i) (mask 8))) OR push_bit (8 * i) (ucast b)"

definition store8 :: "u32 \<Rightarrow> u8 \<Rightarrow> 'a vm_state_scheme \<Rightarrow> 'a vm_state_scheme option" where
  "store8 va b s =
     map_option (\<lambda>k. poke k (dword_no va) (set_byte (unat va mod 4) b (pmem s k (dword_no va))) s)
       (write_frame va s)"

fun read_bytes :: "u32 \<Rightarrow> nat \<Rightarrow> 'a vm_state_scheme \<Rightarrow> u8 list option" where
  "read_bytes va 0 s = Some []"
| "read_bytes va (Suc n) s = do {
     b \<leftarrow> load8 va s;
     bs \<leftarrow> read_bytes (va + 1) n s;
     Some (b # bs)
   }"

fun write_bytes :: "u32 \<Rightarrow> u8 list \<Rightarrow> 'a vm_state_scheme \<Rightarrow> 'a vm_state_scheme option" where
  "write_bytes va [] s = Some s"
| "write_bytes va (b # bs) s = do {
     s1 \<leftarrow> store8 va b s;
     write_bytes (va + 1) bs s1
   }"

section \<open>Operations\<close>

definition IsUserPointer :: "u32 \<Rightarrow> bool" where
  "IsUserPointer addr \<longleftrightarrow> addr < KERNEL_VM_BASE"

definition AdditionWouldOverflow :: "u32 \<Rightarrow> u32 \<Rightarrow> bool" where
  "AdditionWouldOverflow n1 n2 \<longleftrightarrow> n1 + n2 < n1"

text \<open>The checks both directions share; \<open>STATUS_OK\<close> lets the copy go on.\<close>

definition user_range_status :: "u32 \<Rightarrow> u32 \<Rightarrow> 'a vm_state_scheme \<Rightarrow> Status option" where
  "user_range_status useraddr n_bytes s = do {
     let enduseraddr = useraddr + n_bytes;
     m1 \<leftarrow> ADDRESS_IS_MAPPED useraddr s;
     m2 \<leftarrow> (if \<not> m1 then Some False else ADDRESS_IS_MAPPED enduseraddr s);
     Some (if \<not> m1 \<or> \<not> m2 then STATUS_BAD_ARGUMENT
           else if AdditionWouldOverflow useraddr n_bytes then STATUS_BAD
           else if \<not> IsUserPointer useraddr \<or> \<not> IsUserPointer enduseraddr then STATUS_BAD
           else STATUS_OK)
   }"

definition CopyFromUser :: "u32 \<Rightarrow> u32 \<Rightarrow> 'a vm_state_scheme \<Rightarrow> (Status \<times> u8 list) option" where
  "CopyFromUser src n_bytes s = do {
     st \<leftarrow> user_range_status src n_bytes s;
     if st \<noteq> STATUS_OK then Some (st, [])
     else do {
       bs \<leftarrow> read_bytes src (unat n_bytes) s;
       Some (STATUS_OK, bs)
     }
   }"

definition CopyToUser :: "u32 \<Rightarrow> u8 list \<Rightarrow> 'a vm_state_scheme \<Rightarrow> (Status \<times> 'a vm_state_scheme) option" where
  "CopyToUser dest bs s = do {
     st \<leftarrow> user_range_status dest (of_nat (length bs)) s;
     if st \<noteq> STATUS_OK then Some (st, s)
     else do {
       s1 \<leftarrow> write_bytes dest bs s;
       Some (STATUS_OK, s1)
     }
   }"

section \<open>Reading\<close>

lemma walk_vmap:
  assumes "va < PAGE_TABLE_BASE"
  shows "map_option snd (walk s va) = vmap s (page_no va)"
  using below_window(1) [OF assms]
  by (simp add: walk_def vmap_def Let_def pde_def pd_frame_def pd_present_def pt_frame_def
      PD_INDEX_page PT_INDEX_page)

lemma load8_mapped:
  assumes "va < PAGE_TABLE_BASE"
  shows "load8 va s = None \<longleftrightarrow> vmap s (page_no va) = None"
  unfolding walk_vmap [OF assms, of s, symmetric] by (simp add: load8_def load32_def)

text \<open>Every byte address of a range that does not wrap, as an offset from its start.\<close>

lemma read_bytes_fault:
  assumes "unat va + n \<le> unat PAGE_TABLE_BASE"
  shows "read_bytes va n s = None \<longleftrightarrow> (\<exists>k < n. vmap s ((unat va + k) div 4096) = None)"
  using assms
proof (induction n arbitrary: va)
  case 0
  then show ?case by simp
next
  case (Suc n)
  have va: "unat (va + 1) = unat va + 1" using Suc.prems by (simp add: unat_plus_no_wrap)
  have lt: "va < PAGE_TABLE_BASE" using Suc.prems by (simp add: word_less_nat_alt)
  have "(\<exists>k < Suc n. vmap s ((unat va + k) div 4096) = None) \<longleftrightarrow>
      vmap s (page_no va) = None \<or> (\<exists>k < n. vmap s ((unat va + 1 + k) div 4096) = None)"
    by (simp add: frame_no_nat Ex_less_Suc2)
  then show ?case using Suc.IH [of "va + 1"] va Suc.prems load8_mapped [OF lt, of s]
    by (cases "load8 va s"; cases "read_bytes (va + 1) n s") simp_all
qed

lemma read_bytes_length: "read_bytes va n s = Some bs \<Longrightarrow> length bs = n"
  by (induction n arbitrary: va bs) (auto split: bind_splits)

section \<open>Safety of the copies\<close>

lemma user_range_total: "vm_inv s \<Longrightarrow> \<exists>st. user_range_status a n s = Some st"
proof -
  assume v: "vm_inv s"
  obtain b1 where b1: "ADDRESS_IS_MAPPED a s = Some b1"
    using IsVirtualPageMapped_total [OF v] unfolding ADDRESS_IS_MAPPED_def by blast
  obtain b2 where b2: "ADDRESS_IS_MAPPED (a + n) s = Some b2"
    using IsVirtualPageMapped_total [OF v] unfolding ADDRESS_IS_MAPPED_def by blast
  from b1 b2 show ?thesis by (cases b1) (simp_all add: user_range_status_def Let_def)
qed

lemma user_range_ok:
  assumes "vm_inv s" and "user_range_status a n s = Some STATUS_OK"
  shows "unat a + unat n < unat KERNEL_VM_BASE" and "vmap s (unat a div 4096) \<noteq> None"
    and "vmap s ((unat a + unat n) div 4096) \<noteq> None"
proof -
  from assms(2) have ok: "ADDRESS_IS_MAPPED a s = Some True" "ADDRESS_IS_MAPPED (a + n) s = Some True"
    "\<not> a + n < a" "a < KERNEL_VM_BASE" "a + n < KERNEL_VM_BASE"
    by (auto simp: user_range_status_def Let_def AdditionWouldOverflow_def IsUserPointer_def
        split: bind_splits if_splits)
  have "unat (a + n) = unat a + unat n"
    using ok(3) unfolding not_less unat_plus_simple .
  with ok(5) show r: "unat a + unat n < unat KERNEL_VM_BASE" by (simp add: word_less_nat_alt)
  have "a < PAGE_TABLE_BASE" "a + n < PAGE_TABLE_BASE"
    using ok(4,5) by (auto intro: less_trans)
  with ok(1,2) show "vmap s (unat a div 4096) \<noteq> None" "vmap s ((unat a + unat n) div 4096) \<noteq> None"
    using ADDRESS_IS_MAPPED_vmap [OF assms(1)] \<open>unat (a + n) = unat a + unat n\<close>
    by (auto simp: frame_no_nat)
qed

lemma page_of_offset:
  assumes "k < n" and "n \<le> (4096 :: nat)"
  shows "(a + k) div 4096 = a div 4096 \<or> (a + k) div 4096 = (a + n) div 4096"
proof -
  have "(a + k) div 4096 \<le> (a + 4096) div 4096" using assms by (intro div_le_mono) simp
  then have u: "(a + k) div 4096 \<le> a div 4096 + 1" by simp
  have "(a + n) div 4096 \<le> (a + 4096) div 4096" using assms by (intro div_le_mono) simp
  then have "(a + n) div 4096 \<le> a div 4096 + 1" by simp
  moreover have "a div 4096 \<le> (a + k) div 4096" "(a + k) div 4096 \<le> (a + n) div 4096"
    using assms by (intro div_le_mono; simp)+
  ultimately show ?thesis using u by linarith
qed

lemma CopyFromUser_total:
  assumes "vm_inv s" and "n \<le> PAGE_SIZE"
  shows "\<exists>st bs. CopyFromUser src n s = Some (st, bs) \<and>
    (if st = STATUS_OK then unat src + unat n < unat KERNEL_VM_BASE \<and> length bs = unat n \<and>
         read_bytes src (unat n) s = Some bs
     else bs = [])"
proof -
  obtain st where st: "user_range_status src n s = Some st" using user_range_total [OF assms(1)] by blast
  show ?thesis
  proof (cases "st = STATUS_OK")
    case False
    then show ?thesis using st by (simp add: CopyFromUser_def)
  next
    case True
    note r = user_range_ok [OF assms(1) st [unfolded True]]
    have n: "unat n \<le> 4096" using assms(2) by (simp add: word_le_nat_alt)
    have "vmap s ((unat src + k) div 4096) \<noteq> None" if "k < unat n" for k
      using page_of_offset [OF that n, of "unat src"] r(2,3) by auto
    moreover have "unat src + unat n \<le> unat PAGE_TABLE_BASE" using r(1) by simp
    ultimately obtain bs where bs: "read_bytes src (unat n) s = Some bs"
      using read_bytes_fault [of src "unat n" s] by blast
    with st True r(1) read_bytes_length [OF bs] show ?thesis by (simp add: CopyFromUser_def)
  qed
qed

text \<open>The byte behind a virtual address, by the map of the address space.\<close>

definition user_byte :: "'a vm_state_scheme \<Rightarrow> nat \<Rightarrow> u8 option" where
  "user_byte s a = map_option (\<lambda>e. ucast (drop_bit (8 * (a mod 4)) (pmem s (frame_no e) (a mod 4096 div 4)))) (vmap s (a div 4096))"

lemma load8_user_byte: "va < PAGE_TABLE_BASE \<Longrightarrow> load8 va s = user_byte s (unat va)"
  unfolding user_byte_def frame_no_nat [of va, symmetric] walk_vmap [of va s, symmetric]
  by (cases "walk s va") (auto simp: load8_def load32_def dword_no_def)

lemma read_bytes_user:
  "unat va + n \<le> unat PAGE_TABLE_BASE \<Longrightarrow> read_bytes va n s = Some bs \<Longrightarrow> i < n \<Longrightarrow> user_byte s (unat va + i) = Some (bs ! i)"
proof (induction n arbitrary: va bs i)
  case 0
  then show ?case by simp
next
  case (Suc n)
  have va: "unat (va + 1) = unat va + 1" using Suc.prems(1) by (simp add: unat_plus_no_wrap)
  have "va < PAGE_TABLE_BASE" using Suc.prems(1) by (simp add: word_less_nat_alt)
  note b = load8_user_byte [OF this, of s]
  from Suc.prems(2) obtain c cs where c: "load8 va s = Some c" "read_bytes (va + 1) n s = Some cs" "bs = c # cs"
    by (auto split: bind_splits)
  show ?case
  proof (cases i)
    case 0
    with b c show ?thesis by simp
  next
    case (Suc j)
    with Suc.IH [of "va + 1" cs j] Suc.prems c(2,3) va show ?thesis by simp
  qed
qed

lemma user_range_iff:
  assumes "vm_inv s"
  shows "\<exists>st \<in> {STATUS_OK, STATUS_BAD, STATUS_BAD_ARGUMENT}. user_range_status a n s = Some st \<and>
    (st = STATUS_OK \<longleftrightarrow> unat a + unat n < unat KERNEL_VM_BASE \<and> vmap s (unat a div 4096) \<noteq> None \<and>
       vmap s ((unat a + unat n) div 4096) \<noteq> None)"
proof -
  obtain st where st: "user_range_status a n s = Some st" using user_range_total [OF assms] by blast
  then have k: "st \<in> {STATUS_OK, STATUS_BAD, STATUS_BAD_ARGUMENT}"
    by (auto simp: user_range_status_def Let_def split: bind_splits if_splits)
  have "st = STATUS_OK" if r: "unat a + unat n < unat KERNEL_VM_BASE" "vmap s (unat a div 4096) \<noteq> None"
    "vmap s ((unat a + unat n) div 4096) \<noteq> None"
  proof -
    have e: "unat (a + n) = unat a + unat n" using r(1) by (simp add: unat_plus_no_wrap)
    have lt: "a < PAGE_TABLE_BASE" "a + n < PAGE_TABLE_BASE" using r(1) e by (simp_all add: word_less_nat_alt)
    have "ADDRESS_IS_MAPPED a s = Some True" "ADDRESS_IS_MAPPED (a + n) s = Some True"
      using ADDRESS_IS_MAPPED_vmap [OF assms] lt r(2,3) e by (simp_all add: frame_no_nat)
    moreover have "\<not> a + n < a" "a < KERNEL_VM_BASE" "a + n < KERNEL_VM_BASE" using r(1) e by (simp_all add: word_less_nat_alt)
    ultimately have "user_range_status a n s = Some STATUS_OK"
      by (simp add: user_range_status_def Let_def AdditionWouldOverflow_def IsUserPointer_def)
    with st show ?thesis by simp
  qed
  with st k user_range_ok [OF assms, of a n] show ?thesis by blast
qed

definition hole_space :: vm_state where
  "hole_space = empty_space\<lparr>pmem := (\<lambda>_ _. 0)
     (1 := (\<lambda>_. 0)(0 := 0x3007, 1023 := 0x1003), 3 := (\<lambda>_. 0)(1 := 0x5007, 3 := 0x6007))\<rparr>"

lemma hole_space_vm: "pd_frame hole_space = 1" "frame_free hole_space k \<longleftrightarrow> k = 256"
  "pde hole_space i = (if i = 0 then 0x3007 else if i = 1023 then 0x1003 else 0)"
  using frame_free_empty_space [of k]
  by (auto simp: hole_space_def pd_frame_def pde_def empty_space_def frame_no_def frame_free_def)

lemma vm_inv_hole_space: "vm_inv hole_space"
proof -
  have "frames_inv hole_space" using vm_invD(1) [OF vm_inv_empty_space] by (simp add: hole_space_def)
  then show ?thesis
    by (auto simp: vm_inv_def pd_present_def pd_writable_def pt_frame_def hole_space_vm frame_no_def has_flag_def)
qed

lemma vmap_hole_space: "p < 1024 \<Longrightarrow> vmap hole_space p = (if p = 1 then Some 0x5007 else if p = 3 then Some 0x6007 else None)"
  by (auto simp: vmap_def pd_present_def pt_frame_def hole_space_vm frame_no_def has_flag_def, auto simp: hole_space_def split: if_splits)



text \<open>
  C37. The two ends of the range are all that is checked: a longer range with both ends mapped
  and an unmapped page in between makes the kernel itself fault.
\<close>

theorem CopyFromUser_hole_faults:
  assumes "vm_inv s" and "unat src + unat n < unat KERNEL_VM_BASE"
    and "vmap s (page_no src) \<noteq> None" and "vmap s ((unat src + unat n) div 4096) \<noteq> None"
    and "k < unat n" and "vmap s ((unat src + k) div 4096) = None"
  shows "CopyFromUser src n s = None"
proof -
  have e: "unat (src + n) = unat src + unat n" using assms(2) by (simp add: unat_plus_no_wrap)
  have lt: "src < PAGE_TABLE_BASE" "src + n < PAGE_TABLE_BASE"
    using assms(2) e by (simp_all add: word_less_nat_alt)
  have "ADDRESS_IS_MAPPED src s = Some True" "ADDRESS_IS_MAPPED (src + n) s = Some True"
    using ADDRESS_IS_MAPPED_vmap [OF assms(1)] lt assms(3,4) e by (simp_all add: frame_no_nat)
  moreover have "\<not> src + n < src" "src < KERNEL_VM_BASE" "src + n < KERNEL_VM_BASE"
    using assms(2) e by (simp_all add: word_less_nat_alt)
  ultimately have "user_range_status src n s = Some STATUS_OK"
    by (simp add: user_range_status_def Let_def AdditionWouldOverflow_def IsUserPointer_def)
  moreover have "read_bytes src (unat n) s = None"
    using read_bytes_fault [of src "unat n" s] assms(2,5,6) by auto
  ultimately show ?thesis by (simp add: CopyFromUser_def)
qed

theorem CopyFromUser_hole_faults_witness: "CopyFromUser 0x1000 0x2000 hole_space = None"
  by (rule CopyFromUser_hole_faults [OF vm_inv_hole_space, of _ _ "0x1000"])
    (simp_all add: vmap_hole_space frame_no_def)

section \<open>Writing\<close>

lemma bit_set_byte:
  assumes "j < 4" and "m < 32"
  shows "bit (set_byte j b w) m \<longleftrightarrow> (if 8 * j \<le> m \<and> m < 8 * j + 8 then bit b (m - 8 * j) else bit w m)"
  using assms by (auto simp: set_byte_def bit_simps dest: bit_imp_le_length)

lemma byte_set_byte:
  assumes "i < 4" and "j < 4"
  shows "(ucast (drop_bit (8 * i) (set_byte j b w)) :: u8) = (if i = j then b else ucast (drop_bit (8 * i) w))"
proof (rule bit_word_eqI)
  fix n assume "n < LENGTH(8)"
  then have n: "n < 8" "8 * i + n < 32" using assms(1) by simp_all
  have "8 * j \<le> 8 * i + n \<and> 8 * i + n < 8 * j + 8 \<longleftrightarrow> i = j" using n(1) by auto
  then show "bit (ucast (drop_bit (8 * i) (set_byte j b w)) :: u8) n =
      bit (if i = j then b else ucast (drop_bit (8 * i) w)) n"
    using n bit_set_byte [OF assms(2) n(2), of b w] by (simp add: bit_simps)
qed

text \<open>The frame that the pages of a writable range show.\<close>

definition writable_at :: "'a vm_state_scheme \<Rightarrow> nat \<Rightarrow> nat \<Rightarrow> bool" where
  "writable_at s p f \<longleftrightarrow> (\<exists>e. vmap s p = Some e \<and> frame_no e = f \<and> has_flag e PAGE_RW \<and>
     pd_writable s (p div 1024) \<and> \<not> table_frame s f)"

lemma writable_write_frame:
  assumes "writable_at s (page_no va) f" and "va < PAGE_TABLE_BASE"
  shows "write_frame va s = Some f" and "load8 va s = Some (ucast (drop_bit (8 * (unat va mod 4)) (pmem s f (dword_no va))))"
proof -
  obtain e where e: "vmap s (page_no va) = Some e" "frame_no e = f" "has_flag e PAGE_RW"
    "pd_writable s (page_no va div 1024)" using assms(1) by (auto simp: writable_at_def)
  then obtain d where d: "walk s va = Some (d, e)" using walk_vmap [OF assms(2), of s] by auto
  then have "d = pde s (page_no va div 1024)"
    by (auto simp: walk_def Let_def PD_INDEX_page pde_def pd_frame_def split: if_splits)
  with e d show "write_frame va s = Some f" by (simp add: write_frame_def pd_writable_def)
  from d e show "load8 va s = Some (ucast (drop_bit (8 * (unat va mod 4)) (pmem s f (dword_no va))))"
    by (simp add: load8_def load32_def)
qed

lemma poke_data:
  assumes "\<not> table_frame s f" and "vm_inv s"
  shows "vm_inv (poke f i v s)" and "vmap (poke f i v s) = vmap s"
    and "writable_at (poke f i v s) p g \<longleftrightarrow> writable_at s p g" and "table_frame (poke f i v s) k = table_frame s k"
proof -
  have f: "f \<noteq> pd_frame s" using assms(1) by (auto simp: table_frame_def)
  then have c: "cr3 (poke f i v s) = cr3 s" "pmem (poke f i v s) (pd_frame s) = pmem s (pd_frame s)" by auto
  note e = pde_cong [OF c]
  show "vm_inv (poke f i v s)" using assms(2) c by (rule vm_inv_cong) (simp_all add: vm_invD(1) [OF assms(2)])
  show v: "vmap (poke f i v s) = vmap s" using assms(1) by (intro vmap_cong) auto
  show t: "table_frame (poke f i v s) k = table_frame s k" for k using e by (simp add: table_frame_def)
  show "writable_at (poke f i v s) p g \<longleftrightarrow> writable_at s p g"
    using v t e by (simp add: writable_at_def)
qed

lemma byte_address_eq:
  assumes "page_no x = page_no va" and "dword_no x = dword_no va" and "unat x mod 4 = unat va mod 4"
  shows "x = va"
proof -
  have split: "n mod 4096 = n mod 4096 div 4 * 4 + n mod 4" for n :: nat
    using div_mult_mod_eq [of "n mod 4096" 4] by (simp add: mod_mod_cancel)
  have "unat x mod 4096 = unat va mod 4096"
    using split [of "unat x"] split [of "unat va"] assms(2,3) unfolding dword_no_def by simp
  with assms(1) have "unat x = unat va" unfolding frame_no_nat by (metis div_mult_mod_eq)
  then show ?thesis by (rule word_unat_eq_iff [THEN iffD2])
qed

lemma store8_load8:
  assumes "vm_inv s" and "writable_at s (page_no va) f" and "va < PAGE_TABLE_BASE"
    and "writable_at s (page_no x) g" and "x < PAGE_TABLE_BASE" and "f = g \<longrightarrow> page_no x = page_no va"
  shows "\<exists>s'. store8 va b s = Some s' \<and> vm_inv s' \<and> vmap s' = vmap s \<and>
    (\<forall>p h. writable_at s' p h \<longleftrightarrow> writable_at s p h) \<and>
    load8 x s' = (if x = va then Some b else load8 x s)"
proof -
  let ?v = "set_byte (unat va mod 4) b (pmem s f (dword_no va))"
  let ?s = "poke f (dword_no va) ?v s"
  have "\<not> table_frame s f" using assms(2) by (auto simp: writable_at_def)
  note p = poke_data [OF this assms(1)]
  have st: "store8 va b s = Some ?s" using writable_write_frame(1) [OF assms(2,3)] by (simp add: store8_def)
  have "load8 x ?s = (if x = va then Some b else load8 x s)"
  proof (cases "f = g \<and> dword_no x = dword_no va")
    case False
    then have "x \<noteq> va" using assms(2,4) by (auto simp: writable_at_def)
    with False show ?thesis using writable_write_frame(2) [OF assms(4,5)] p(3) assms(4,5)
        writable_write_frame(2) [of ?s x g] by auto
  next
    case True
    then have "x = va \<longleftrightarrow> unat x mod 4 = unat va mod 4" using assms(6) byte_address_eq by blast
    then show ?thesis using True writable_write_frame(2) [OF assms(4,5)] p(3) assms(4,5)
        writable_write_frame(2) [of ?s x g] by (auto simp: byte_set_byte)
  qed
  with st p show ?thesis by simp
qed

lemma shift_window:
  assumes "X = (if v + 1 \<le> x \<and> x < v + 1 + length bs then Some (bs ! (x - (v + 1))) else Y)" and "v < (x :: nat)"
  shows "X = (if v \<le> x \<and> x < v + length (b # bs) then Some ((b # bs) ! (x - v)) else Y)"
proof -
  obtain d where "x = Suc (v + d)" using assms(2) less_iff_Suc_add by blast
  with assms(1) show ?thesis by simp
qed

lemma write_bytes_spec:
  assumes "vm_inv s" and "unat va + length bs \<le> unat PAGE_TABLE_BASE"
    and "\<forall>k < length bs. (unat va + k) div 4096 \<in> R" and "\<forall>p \<in> R. writable_at s p (fr p)" and "inj_on fr R"
  shows "\<exists>s'. write_bytes va bs s = Some s' \<and> vm_inv s' \<and> vmap s' = vmap s \<and>
    (\<forall>p h. writable_at s' p h \<longleftrightarrow> writable_at s p h) \<and>
    (\<forall>x. page_no x \<in> R \<and> x < PAGE_TABLE_BASE \<longrightarrow>
       load8 x s' = (if unat va \<le> unat x \<and> unat x < unat va + length bs
                     then Some (bs ! (unat x - unat va)) else load8 x s))"
  using assms(1-4)
proof (induction bs arbitrary: va s)
  case Nil
  then show ?case by auto
next
  case (Cons b bs)
  have va: "unat (va + 1) = unat va + 1" using Cons.prems(2) by (simp add: unat_plus_no_wrap)
  have lt: "va < PAGE_TABLE_BASE" using Cons.prems(2) by (simp add: word_less_nat_alt)
  have pv: "page_no va \<in> R" using Cons.prems(3) by (auto simp: frame_no_nat)
  have one: "\<exists>s1. store8 va b s = Some s1 \<and> vm_inv s1 \<and> vmap s1 = vmap s \<and>
      (\<forall>p h. writable_at s1 p h \<longleftrightarrow> writable_at s p h) \<and>
      load8 x s1 = (if x = va then Some b else load8 x s)" if "page_no x \<in> R" "x < PAGE_TABLE_BASE" for x
  proof (rule store8_load8 [OF Cons.prems(1) _ lt _ that(2)])
    show "writable_at s (page_no va) (fr (page_no va))" "writable_at s (page_no x) (fr (page_no x))"
      using Cons.prems(4) pv that(1) by blast+
    show "fr (page_no va) = fr (page_no x) \<longrightarrow> page_no x = page_no va"
      using assms(5) pv that(1) by (metis inj_onD)
  qed
  from one [OF pv lt] obtain s1 where s1: "store8 va b s = Some s1" "vm_inv s1" "vmap s1 = vmap s"
    "\<forall>p h. writable_at s1 p h \<longleftrightarrow> writable_at s p h" by blast
  have ld: "load8 x s1 = (if x = va then Some b else load8 x s)" if "page_no x \<in> R" "x < PAGE_TABLE_BASE" for x
    using one [OF that] s1(1) by (metis option.inject)
  have R1: "\<forall>k < length bs. (unat (va + 1) + k) div 4096 \<in> R"
  proof (intro allI impI)
    fix k assume "k < length bs"
    with Cons.prems(3) [rule_format, of "Suc k"] show "(unat (va + 1) + k) div 4096 \<in> R" by (simp add: va)
  qed
  have len: "unat (va + 1) + length bs \<le> unat PAGE_TABLE_BASE" using Cons.prems(2) va by simp
  have w1: "\<forall>p \<in> R. writable_at s1 p (fr p)" using Cons.prems(4) s1(4) by blast
  from Cons.IH [OF s1(2) len R1 w1] obtain s' where
    s': "write_bytes (va + 1) bs s1 = Some s'" "vm_inv s'" "vmap s' = vmap s1"
      "\<forall>p h. writable_at s' p h \<longleftrightarrow> writable_at s1 p h"
      "\<forall>x. page_no x \<in> R \<and> x < PAGE_TABLE_BASE \<longrightarrow>
        load8 x s' = (if unat (va + 1) \<le> unat x \<and> unat x < unat (va + 1) + length bs
          then Some (bs ! (unat x - unat (va + 1))) else load8 x s1)" by blast
  have "load8 x s' = (if unat va \<le> unat x \<and> unat x < unat va + length (b # bs)
          then Some ((b # bs) ! (unat x - unat va)) else load8 x s)"
    if x: "page_no x \<in> R" "x < PAGE_TABLE_BASE" for x
  proof -
    have l: "load8 x s' = (if unat va + 1 \<le> unat x \<and> unat x < unat va + 1 + length bs
        then Some (bs ! (unat x - (unat va + 1))) else load8 x s1)"
      using s'(5) x unfolding va by blast
    consider (at) "x = va" | (before) "unat x < unat va" "x \<noteq> va" | (after) "unat va < unat x" "x \<noteq> va"
      using less_linear [of "unat x" "unat va"] word_unat_eq_iff [of x va] by blast
    then show ?thesis
    proof cases
      case after
      moreover have "load8 x s1 = load8 x s" using ld [OF x] after(2) by simp
      ultimately show ?thesis using l by (intro shift_window) simp_all
    next
      case at
      have "load8 x s' = load8 x s1" using l at by simp
      also have "\<dots> = Some b" using ld [OF x] at by simp
      finally show ?thesis using at by simp
    next
      case before
      have "load8 x s' = load8 x s1" unfolding l using before(1) by simp
      also have "\<dots> = load8 x s" using ld [OF x] before(2) by simp
      finally show ?thesis using before(1) by simp
    qed
  qed
  moreover have "write_bytes va (b # bs) s = Some s'" using s1(1) s'(1) by simp
  moreover have "vmap s' = vmap s" "\<forall>p h. writable_at s' p h \<longleftrightarrow> writable_at s p h"
    using s'(3,4) s1(3,4) by simp_all
  ultimately show ?case using s'(2) by blast
qed

lemma read_bytes_nth:
  "unat va + length bs < 4294967296 \<Longrightarrow> \<forall>x. unat va \<le> unat x \<and> unat x < unat va + length bs \<longrightarrow>
     load8 x s = Some (bs ! (unat x - unat va)) \<Longrightarrow> read_bytes va (length bs) s = Some bs"
proof (induction bs arbitrary: va)
  case Nil
  then show ?case by simp
next
  case (Cons b bs)
  have va: "unat (va + 1) = unat va + 1" using Cons.prems(1) by (simp add: unat_plus_no_wrap)
  have "load8 va s = Some b" using Cons.prems(2) by simp
  moreover have "read_bytes (va + 1) (length bs) s = Some bs"
  proof (rule Cons.IH)
    show "unat (va + 1) + length bs < 4294967296" using Cons.prems(1) va by simp
    show "\<forall>x. unat (va + 1) \<le> unat x \<and> unat x < unat (va + 1) + length bs \<longrightarrow>
        load8 x s = Some (bs ! (unat x - unat (va + 1)))"
      using Cons.prems(2) va by (auto simp: nth_Cons' Suc_le_eq)
  qed
  ultimately show ?case by simp
qed

lemma copy_to_from:
  assumes "vm_inv s" and "unat dest + length bs < unat KERNEL_VM_BASE"
    and "\<forall>k \<le> length bs. (unat dest + k) div 4096 \<in> R" and "\<forall>p \<in> R. writable_at s p (fr p)" and "inj_on fr R"
  shows "\<exists>s'. CopyToUser dest bs s = Some (STATUS_OK, s') \<and> vm_inv s' \<and> vmap s' = vmap s \<and>
    CopyFromUser dest (of_nat (length bs)) s' = Some (STATUS_OK, bs)"
proof -
  let ?n = "of_nat (length bs) :: u32"
  have n: "unat ?n = length bs" using assms(2) by (intro unat_of_nat_small) simp
  have e: "unat (dest + ?n) = unat dest + length bs" using assms(2) n by (simp add: unat_plus_no_wrap)
  have lt: "dest < PAGE_TABLE_BASE" "dest + ?n < PAGE_TABLE_BASE"
    using assms(2) e by (simp_all add: word_less_nat_alt)
  have ends: "page_no dest \<in> R" "page_no (dest + ?n) \<in> R"
    using assms(3) e by (auto simp: frame_no_nat)
  have range: "user_range_status dest ?n t = Some STATUS_OK" if "vm_inv t" "vmap t = vmap s" for t :: "'a vm_state_scheme"
  proof -
    have "vmap t (page_no dest) \<noteq> None" "vmap t (page_no (dest + ?n)) \<noteq> None"
      using ends assms(4) that(2) by (force simp: writable_at_def)+
    then have "ADDRESS_IS_MAPPED dest t = Some True" "ADDRESS_IS_MAPPED (dest + ?n) t = Some True"
      using ADDRESS_IS_MAPPED_vmap [OF that(1)] lt by simp_all
    moreover have "\<not> dest + ?n < dest" "dest < KERNEL_VM_BASE" "dest + ?n < KERNEL_VM_BASE"
      using assms(2) e by (simp_all add: word_less_nat_alt)
    ultimately show ?thesis
      by (simp add: user_range_status_def Let_def AdditionWouldOverflow_def IsUserPointer_def)
  qed
  have len: "unat dest + length bs \<le> unat PAGE_TABLE_BASE" using assms(2) by simp
  have "\<forall>k < length bs. (unat dest + k) div 4096 \<in> R" using assms(3) by simp
  from write_bytes_spec [OF assms(1) len this assms(4,5)] obtain s' where
    s': "write_bytes dest bs s = Some s'" "vm_inv s'" "vmap s' = vmap s"
      "\<forall>x. page_no x \<in> R \<and> x < PAGE_TABLE_BASE \<longrightarrow> load8 x s' =
        (if unat dest \<le> unat x \<and> unat x < unat dest + length bs then Some (bs ! (unat x - unat dest)) else load8 x s)"
    by blast
  have "load8 x s' = Some (bs ! (unat x - unat dest))"
    if "unat dest \<le> unat x" "unat x < unat dest + length bs" for x
  proof -
    have "page_no x \<in> R" using assms(3) that unfolding frame_no_nat by (metis le_add_diff_inverse less_imp_le_nat nat_add_left_cancel_less)
    moreover have "x < PAGE_TABLE_BASE" using that(2) len by (simp add: word_less_nat_alt)
    ultimately show ?thesis using s'(4) that by simp
  qed
  then have "read_bytes dest (length bs) s' = Some bs" using assms(2) by (intro read_bytes_nth) simp_all
  with s'(1-3) range [OF assms(1) refl] range [OF s'(2,3)] n show ?thesis
    by (simp add: CopyToUser_def CopyFromUser_def)
qed

text \<open>
  C15. What \<open>CopyToUser\<close> writes is what \<open>CopyFromUser\<close> reads: on a user range whose pages
  are mapped writable, each to a frame of its own that is no page table, the copy succeeds,
  leaves the address space and its invariant as they are, and reading the range back gives
  the bytes written.
\<close>

theorem CopyToUser_CopyFromUser:
  assumes "vm_inv s" and "unat dest + length bs < unat KERNEL_VM_BASE"
    and "\<forall>k \<le> length bs. (unat dest + k) div 4096 \<in> R" and "\<forall>p \<in> R. writable_at s p (fr p)" and "inj_on fr R"
  shows "\<exists>s'. CopyToUser dest bs s = Some (STATUS_OK, s') \<and> vm_inv s' \<and> vmap s' = vmap s \<and>
    CopyFromUser dest (of_nat (length bs)) s' = Some (STATUS_OK, bs)"
  using assms by (rule copy_to_from)

theorem CopyToUser_CopyFromUser_witness:
  "\<exists>s'. CopyToUser 0x1010 [1, 2, 3] hole_space = Some (STATUS_OK, s') \<and>
     CopyFromUser 0x1010 3 s' = Some (STATUS_OK, [1, 2, 3])"
proof -
  have "\<not> table_frame hole_space 5"
    by (auto simp: table_frame_def hole_space_vm pd_present_def pt_frame_def frame_no_def split: if_splits)
  then have w: "\<forall>p \<in> {1}. writable_at hole_space p ((\<lambda>_. 5) p)"
    by (simp add: writable_at_def vmap_hole_space pd_writable_def hole_space_vm frame_no_def has_flag_def)
  have r: "\<forall>k \<le> length [1 :: u8, 2, 3]. (unat (0x1010 :: u32) + k) div 4096 \<in> {1}" by auto
  from CopyToUser_CopyFromUser [OF vm_inv_hole_space _ r w] show ?thesis by auto
qed

lemma more_write_bytes: "write_bytes va bs s = Some s' \<Longrightarrow> vm_state.more s' = vm_state.more s"
  by (induction bs arbitrary: va s) (auto simp: store8_def split: bind_splits)

lemma more_CopyToUser: "CopyToUser dest bs s = Some (st, s') \<Longrightarrow> vm_state.more s' = vm_state.more s"
  by (auto simp: CopyToUser_def split: bind_splits if_splits dest: more_write_bytes)

end
