(* ===== verification/Tasks.thy ===== *)
theory Tasks
  imports HeapContract UserCopy
begin

text \<open>
  Threads and the round robin scheduler: \<^verbatim>\<open>src/sys/sched/schedule.c\<close>,
  \<^verbatim>\<open>src/sys/task/task.c\<close>, the context switch \<^verbatim>\<open>src/sys/ddk/ia32/ctxswitch.asm\<close> and
  \<^verbatim>\<open>ctxswitch.c\<close>, the task state segment in \<^verbatim>\<open>src/sys/ddk/ia32/gdt.c\<close> and the timer tick of
  \<^verbatim>\<open>src/sys/time/timer.c\<close>.

  Thread and process structures are in typed maps by their address; reading a structure that is not
  there faults. Thread stacks are raw memory and are written through the page tables.
  \<open>cpu s\<close> are the registers that the context switch saves; its stack pointer is the one at the
  call of \<^verbatim>\<open>SwapThreadStack\<close>, what the C code itself keeps on the stack is not modelled.
\<close>

section \<open>State\<close>

datatype ThreadState = THREAD_TERMINATED | THREAD_READY | THREAD_RUNNING | THREAD_BLOCKED

datatype ThreadPrivilegeLevel = THREAD_KERNEL | THREAD_USER

abbreviation NO_PRIORITY :: int where "NO_PRIORITY \<equiv> - 1"
abbreviation PRIORITY_IDLE :: int where "PRIORITY_IDLE \<equiv> 0"
abbreviation PRIORITY_LOW :: int where "PRIORITY_LOW \<equiv> 1"
abbreviation PRIORITY_MEDIUM :: int where "PRIORITY_MEDIUM \<equiv> 2"
abbreviation PRIORITY_HIGH :: int where "PRIORITY_HIGH \<equiv> 3"
abbreviation PRIORITY_MAX :: int where "PRIORITY_MAX \<equiv> 4"

record Thread =
  t_esp :: u32
  t_kernel_stack :: u32
  t_trapframe :: u32
  t_stack_top :: u32
  t_quantum :: u32
  t_state :: ThreadState
  t_pl :: ThreadPrivilegeLevel
  t_priority :: int
  t_id :: u32
  t_waiting_on :: u32
  t_owner :: ptr
  t_next :: ptr

abbreviation SIZEOF_THREAD :: u32 where "SIZEOF_THREAD \<equiv> 48"

record VMAddress =
  phys :: u32
  virt :: u32

record HandleTable =
  objlist :: "nat \<Rightarrow> ptr"
  valid_bitmap :: u32

record Process =
  p_main_thread :: ptr
  p_cr3 :: u32
  p_kstacks :: "nat \<Rightarrow> VMAddress"
  p_pid :: u32
  p_handles :: HandleTable
  p_ioports :: "nat \<Rightarrow> u16"
  p_ports_used :: u16
  p_flags :: u32
  p_prev :: ptr
  p_next :: ptr

text \<open>The registers that survive a call, with the stack pointer and the instruction pointer.\<close>

record Registers =
  r_ebp :: u32
  r_ebx :: u32
  r_esi :: u32
  r_edi :: u32
  r_esp :: u32
  r_eip :: u32

record TSSEntry =
  tss_esp0 :: u32
  tss_ss0 :: u16
  tss_iomap_base :: u16
  tss_ioperm :: "nat \<Rightarrow> u8"
  tss_terminator :: u8

abbreviation SIZEOF_TSS :: u16 where "SIZEOF_TSS \<equiv> 8297"
abbreviation OFFSETOF_IOPERM :: u16 where "OFFSETOF_IOPERM \<equiv> 104"

text \<open>
  \<open>junk_threads\<close> is what the memory of a new thread structure holds before it is filled in.
\<close>

record task_state = heap_state +
  threads :: "ptr \<rightharpoonup> Thread"
  junk_threads :: "ptr \<Rightarrow> Thread"
  procs :: "ptr \<rightharpoonup> Process"
  thread_list :: ptr
  current_thread :: ptr
  NeedsResched :: bool
  next_id :: u32
  cpu :: Registers
  tss0 :: TSSEntry
  tss_stack :: u32
  sysenter_esp :: u32
  ticks :: u64

definition upd_thread :: "ptr \<Rightarrow> (Thread \<Rightarrow> Thread) \<Rightarrow> 'a task_state_scheme \<Rightarrow> 'a task_state_scheme option" where
  "upd_thread p f s = map_option (\<lambda>t. s\<lparr>threads := (threads s)(p \<mapsto> f t)\<rparr>) (threads s p)"

section \<open>Context switch\<close>

definition push :: "u32 \<Rightarrow> 'a task_state_scheme \<Rightarrow> 'a task_state_scheme option" where
  "push v s = do {
     let sp = r_esp (cpu s) - 4;
     s1 \<leftarrow> store32 sp v s;
     Some (s1\<lparr>cpu := (cpu s1)\<lparr>r_esp := sp\<rparr>\<rparr>)
   }"

definition pop :: "'a task_state_scheme \<Rightarrow> (u32 \<times> 'a task_state_scheme) option" where
  "pop s = do {
     v \<leftarrow> load32 (r_esp (cpu s)) s;
     Some (v, s\<lparr>cpu := (cpu s)\<lparr>r_esp := r_esp (cpu s) + 4\<rparr>\<rparr>)
   }"

text \<open>\<open>old\<close> is the thread whose stack pointer is saved: the code passes the address of the field.\<close>

definition SwapThreadStack :: "ptr \<Rightarrow> u32 \<Rightarrow> 'a task_state_scheme \<Rightarrow> 'a task_state_scheme option" where
  "SwapThreadStack old newesp s0 = do {
     s1 \<leftarrow> push (r_ebp (cpu s0)) s0;
     s2 \<leftarrow> push (r_ebx (cpu s1)) s1;
     s3 \<leftarrow> push (r_esi (cpu s2)) s2;
     s4 \<leftarrow> push (r_edi (cpu s3)) s3;
     s5 \<leftarrow> upd_thread old (t_esp_update (\<lambda>_. r_esp (cpu s4))) s4;
     let s6 = s5\<lparr>cpu := (cpu s5)\<lparr>r_esp := newesp\<rparr>\<rparr>;
     (edi, s7) \<leftarrow> pop s6;
     (esi, s8) \<leftarrow> pop s7;
     (ebx, s9) \<leftarrow> pop s8;
     (ebp, s10) \<leftarrow> pop s9;
     (eip, s11) \<leftarrow> pop s10;
     Some (s11\<lparr>cpu := (cpu s11)\<lparr>r_edi := edi, r_esi := esi, r_ebx := ebx, r_ebp := ebp, r_eip := eip\<rparr>\<rparr>)
   }"

definition SwapProcess :: "ptr \<Rightarrow> 'a task_state_scheme \<Rightarrow> 'a task_state_scheme option" where
  "SwapProcess p s = map_option (\<lambda>pr. SetPageDirectory (p_cr3 pr) s) (procs s p)"

section \<open>Task state segment\<close>

abbreviation X86_SYSENTER :: nat where "X86_SYSENTER \<equiv> 11"

definition SelectKernelStack :: "u32 \<Rightarrow> 'a task_state_scheme \<Rightarrow> 'a task_state_scheme" where
  "SelectKernelStack stack_top s =
     (let s1 = s\<lparr>tss_stack := stack_top, tss0 := (tss0 s)\<lparr>tss_esp0 := stack_top\<rparr>\<rparr>
      in if x86FeatureSupported X86_SYSENTER s1 then s1\<lparr>sysenter_esp := stack_top\<rparr> else s1)"

fun permit_ports :: "(nat \<Rightarrow> u16) \<Rightarrow> nat \<Rightarrow> nat \<Rightarrow> (nat \<Rightarrow> u8) \<Rightarrow> (nat \<Rightarrow> u8)" where
  "permit_ports ioports i 0 perm = perm"
| "permit_ports ioports i (Suc n) perm =
     (let port = unat (ioports i)
      in permit_ports ioports (Suc i) n (perm(port div 8 := unset_bit (port mod 8) (perm (port div 8)))))"

fun forbid_ports :: "(nat \<Rightarrow> u16) \<Rightarrow> nat \<Rightarrow> nat \<Rightarrow> (nat \<Rightarrow> u8) \<Rightarrow> (nat \<Rightarrow> u8)" where
  "forbid_ports ioports i 0 perm = perm"
| "forbid_ports ioports i (Suc n) perm =
     (let port = unat (ioports i)
      in forbid_ports ioports (Suc i) n (perm(port div 8 := set_bit (port mod 8) (perm (port div 8)))))"

definition switch_ports ::
    "((nat \<Rightarrow> u16) \<Rightarrow> nat \<Rightarrow> nat \<Rightarrow> (nat \<Rightarrow> u8) \<Rightarrow> (nat \<Rightarrow> u8)) \<Rightarrow> ptr \<Rightarrow> 'a task_state_scheme \<Rightarrow>
     'a task_state_scheme option" where
  "switch_ports change p s = do {
     pr \<leftarrow> procs s p;
     if p_ports_used pr = 0 then Some (s\<lparr>tss0 := (tss0 s)\<lparr>tss_iomap_base := SIZEOF_TSS\<rparr>\<rparr>)
     else Some (s\<lparr>tss0 := (tss0 s)\<lparr>tss_iomap_base := OFFSETOF_IOPERM,
         tss_ioperm := change (p_ioports pr) 0 (unat (p_ports_used pr)) (tss_ioperm (tss0 s))\<rparr>\<rparr>)
   }"

definition EnableIOPortsOfProcess :: "ptr \<Rightarrow> 'a task_state_scheme \<Rightarrow> 'a task_state_scheme option" where
  "EnableIOPortsOfProcess p s = switch_ports permit_ports p s"

definition DisableIOPortsOfProcess :: "ptr \<Rightarrow> 'a task_state_scheme \<Rightarrow> 'a task_state_scheme option" where
  "DisableIOPortsOfProcess p s = switch_ports forbid_ports p s"

section \<open>Scheduler\<close>

definition CPUTimeFromThreadPriority :: "int \<Rightarrow> u32" where
  "CPUTimeFromThreadPriority level =
     (if level = NO_PRIORITY then 0 else if level = PRIORITY_LOW then 1 else if level = PRIORITY_MEDIUM then 12
      else if level = PRIORITY_HIGH then 20 else if level = PRIORITY_MAX then 33 else 60)"

definition runnable :: "Thread \<Rightarrow> bool" where
  "runnable t \<longleftrightarrow> t_state t \<noteq> THREAD_BLOCKED \<and> t_state t \<noteq> THREAD_TERMINATED \<and> t_state t \<noteq> THREAD_RUNNING"

definition renew_quantum :: "ptr \<Rightarrow> 'a task_state_scheme \<Rightarrow> 'a task_state_scheme option" where
  "renew_quantum p s = upd_thread p (\<lambda>t. t\<lparr>t_quantum := CPUTimeFromThreadPriority (t_priority t)\<rparr>) s"

definition after :: "Thread \<Rightarrow> 'a task_state_scheme \<Rightarrow> ptr" where
  "after t s = (if t_next t \<noteq> 0 then t_next t else thread_list s)"

partial_function (option) select_from ::
    "ptr \<Rightarrow> ptr \<Rightarrow> ptr \<Rightarrow> 'a task_state_scheme \<Rightarrow> (ptr \<times> 'a task_state_scheme) option" where
  "select_from start p idle s =
     Option.bind (threads s p) (\<lambda>t.
       if runnable t \<and> t_priority t \<noteq> PRIORITY_IDLE then map_option (\<lambda>s'. (p, s')) (renew_quantum p s)
       else
         let idle' = (if runnable t \<and> idle = 0 then p else idle)
         in if after t s \<noteq> start then select_from start (after t s) idle' s
            else if idle' \<noteq> 0 then map_option (\<lambda>s'. (idle', s')) (renew_quantum idle' s)
            else Some (0, s))"

declare select_from.simps [code]

definition SelectNextThread :: "'a task_state_scheme \<Rightarrow> (ptr \<times> 'a task_state_scheme) option" where
  "SelectNextThread s =
     (if thread_list s = 0 then Some (0, s)
      else do {
        let s1 = (if current_thread s = 0 then s\<lparr>current_thread := thread_list s\<rparr> else s);
        c \<leftarrow> threads s1 (current_thread s1);
        select_from (after c s1) (after c s1) 0 s1
      })"

partial_function (option) ready_all :: "ptr \<Rightarrow> 'a task_state_scheme \<Rightarrow> 'a task_state_scheme option" where
  "ready_all p s =
     (if p = 0 then Some s
      else Option.bind (threads s p) (\<lambda>t.
        ready_all (t_next t) (s\<lparr>threads := (threads s)(p \<mapsto>
          t\<lparr>t_quantum := CPUTimeFromThreadPriority (t_priority t), t_state := THREAD_READY\<rparr>)\<rparr>)))"

declare ready_all.simps [code]

definition InitSchedulerState :: "'a task_state_scheme \<Rightarrow> (Status \<times> 'a task_state_scheme) option" where
  "InitSchedulerState s =
     (if thread_list s = 0 then Some (STATUS_RETRY, s)
      else do {
        s1 \<leftarrow> ready_all (thread_list s) s;
        s2 \<leftarrow> upd_thread (current_thread s1) (\<lambda>t. t\<lparr>t_state := THREAD_RUNNING, t_quantum := t_quantum t + 1\<rparr>) s1;
        Some (STATUS_OK, s2)
      })"

text \<open>Entering the process of the new thread, if it is another one.\<close>

definition enter_process :: "ptr \<Rightarrow> ptr \<Rightarrow> 'a task_state_scheme \<Rightarrow> 'a task_state_scheme option" where
  "enter_process prev_owner new_owner s =
     (if new_owner \<noteq> 0 \<and> \<not> (prev_owner \<noteq> 0 \<and> prev_owner = new_owner) then do {
        s1 \<leftarrow> SwapProcess new_owner s;
        s2 \<leftarrow> (if prev_owner \<noteq> 0 then DisableIOPortsOfProcess prev_owner s1 else Some s1);
        EnableIOPortsOfProcess new_owner s2
      } else Some s)"

definition ScheduleNext :: "'a task_state_scheme \<Rightarrow> 'a task_state_scheme option" where
  "ScheduleNext s =
     (if thread_list s = 0 then Some s
      else do {
        let prev = current_thread s;
        (nxt, s1) \<leftarrow> SelectNextThread s;
        let s2 = s1\<lparr>NeedsResched := False\<rparr>;
        if nxt = 0 then Some (s2\<lparr>current_thread := prev\<rparr>)
        else if prev = nxt then Some s2
        else do {
          s3 \<leftarrow> upd_thread prev (\<lambda>t. if t_state t = THREAD_RUNNING then t\<lparr>t_state := THREAD_READY\<rparr> else t) s2;
          s4 \<leftarrow> upd_thread nxt (\<lambda>t. t\<lparr>t_state := THREAD_RUNNING, t_quantum := CPUTimeFromThreadPriority (t_priority t)\<rparr>) s3;
          let s5 = s4\<lparr>current_thread := nxt\<rparr>;
          pt \<leftarrow> threads s5 prev;
          nt \<leftarrow> threads s5 nxt;
          s6 \<leftarrow> enter_process (t_owner pt) (t_owner nt) s5;
          let s7 = (if t_kernel_stack nt > 0 then SelectKernelStack (t_kernel_stack nt) s6 else s6);
          SwapThreadStack prev (t_esp nt) s7
        }
      })"

definition next_thread :: "'a task_state_scheme \<Rightarrow> ptr \<Rightarrow> ptr option" where
  "next_thread s p = map_option t_next (threads s p)"

definition AddThreadToScheduler :: "ptr \<Rightarrow> 'a task_state_scheme \<Rightarrow> 'a task_state_scheme option" where
  "AddThreadToScheduler p s = do {
     s1 \<leftarrow> upd_thread p (\<lambda>t. t\<lparr>t_state := THREAD_READY, t_next := 0\<rparr>) s;
     if thread_list s1 = 0 then Some (s1\<lparr>thread_list := p, current_thread := p\<rparr>)
     else do {
       q \<leftarrow> last_node (next_thread s1) (thread_list s1);
       upd_thread q (\<lambda>t. t\<lparr>t_next := p\<rparr>) s1
     }
   }"

partial_function (option) unlink_thread ::
    "ptr \<Rightarrow> ptr \<Rightarrow> 'a task_state_scheme \<Rightarrow> (Status \<times> 'a task_state_scheme) option" where
  "unlink_thread iter p s =
     Option.bind (threads s iter) (\<lambda>t.
       if t_next t = 0 then Some (STATUS_NOT_FOUND, s)
       else if t_next t = p then
         Option.bind (threads s p) (\<lambda>tp.
           Some (STATUS_OK, s\<lparr>threads := (threads s)(iter \<mapsto> t\<lparr>t_next := t_next tp\<rparr>)\<rparr>))
       else unlink_thread (t_next t) p s)"

declare unlink_thread.simps [code]

definition RemoveThreadFromScheduler :: "ptr \<Rightarrow> 'a task_state_scheme \<Rightarrow> (Status \<times> 'a task_state_scheme) option" where
  "RemoveThreadFromScheduler p s =
     (if thread_list s = 0 then Some (STATUS_NOT_FOUND, s)
      else if p = thread_list s then do {
        t \<leftarrow> threads s (thread_list s);
        Some (STATUS_OK, s\<lparr>thread_list := t_next t\<rparr>)
      } else unlink_thread (thread_list s) p s)"

definition DropQuantumOfCurrentThread :: "'a task_state_scheme \<Rightarrow> 'a task_state_scheme option" where
  "DropQuantumOfCurrentThread s = upd_thread (current_thread s) (\<lambda>t. t\<lparr>t_quantum := 0\<rparr>) s"

definition GetCurrentExecutionThread :: "'a task_state_scheme \<Rightarrow> ptr" where
  "GetCurrentExecutionThread s = current_thread s"

definition GetSchedulerThreadList :: "'a task_state_scheme \<Rightarrow> ptr" where
  "GetSchedulerThreadList s = thread_list s"

partial_function (option) find_thread :: "u32 \<Rightarrow> ptr \<Rightarrow> 'a task_state_scheme \<Rightarrow> ptr option" where
  "find_thread i iter s =
     (if iter = 0 then Some 0
      else Option.bind (threads s iter) (\<lambda>t. if t_id t = i then Some iter else find_thread i (t_next t) s))"

declare find_thread.simps [code]

definition GetThreadByID :: "u32 \<Rightarrow> 'a task_state_scheme \<Rightarrow> ptr option" where
  "GetThreadByID i s = (if thread_list s = 0 then Some 0 else find_thread i (thread_list s) s)"

definition SwapSchedulerThreadState :: "ptr \<Rightarrow> 'a task_state_scheme \<Rightarrow> 'a task_state_scheme option" where
  "SwapSchedulerThreadState new s = do {
     let current = current_thread s;
     s1 \<leftarrow> upd_thread current
       (\<lambda>t. if t_state t = THREAD_RUNNING \<and> new \<noteq> current then t\<lparr>t_state := THREAD_READY\<rparr> else t) s;
     ct \<leftarrow> threads s1 current;
     nt \<leftarrow> threads s1 new;
     s2 \<leftarrow> (if t_owner nt \<noteq> t_owner ct then SwapProcess (t_owner nt) s1 else Some s1);
     s3 \<leftarrow> upd_thread new (\<lambda>t. t\<lparr>t_quantum := CPUTimeFromThreadPriority (t_priority t), t_state := THREAD_RUNNING\<rparr>) s2;
     let s4 = s3\<lparr>current_thread := new\<rparr>;
     SwapThreadStack current (t_esp nt) s4
   }"

section \<open>Threads\<close>

abbreviation DEFAULT_THREAD_STACK :: u32 where "DEFAULT_THREAD_STACK \<equiv> 1024"
abbreviation DEFAULT_EFLAGS :: u32 where "DEFAULT_EFLAGS \<equiv> 0x202"
abbreviation SEL_CODE_USER :: u32 where "SEL_CODE_USER \<equiv> 0x1B"
abbreviation SEL_DATA_USER :: u32 where "SEL_DATA_USER \<equiv> 0x23"

text \<open>Zeroing whole words and filling a stack downwards, the highest word first.\<close>

fun zero_words :: "u32 \<Rightarrow> nat \<Rightarrow> 'a vm_state_scheme \<Rightarrow> 'a vm_state_scheme option" where
  "zero_words va 0 s = Some s"
| "zero_words va (Suc n) s = do {
     s1 \<leftarrow> store32 va 0 s;
     zero_words (va + 4) n s1
   }"

fun push_words :: "u32 \<Rightarrow> u32 list \<Rightarrow> 'a vm_state_scheme \<Rightarrow> 'a vm_state_scheme option" where
  "push_words sp [] s = Some s"
| "push_words sp (v # vs) s = do {
     s1 \<leftarrow> store32 (sp - 4) v s;
     push_words (sp - 4) vs s1
   }"

text \<open>
  The addresses of \<^verbatim>\<open>_ThreadExitProc\<close> and \<^verbatim>\<open>_ThreadBootstrapTrampoline\<close> are arguments
  (\<open>exit_proc\<close>, \<open>trampoline\<close>).
\<close>

definition AllocateThread :: "u32 \<Rightarrow> u32 \<Rightarrow> ptr \<Rightarrow> 'a task_state_scheme \<Rightarrow> (ptr \<times> 'a task_state_scheme) option" where
  "AllocateThread exit_proc entry owner s = do {
     (t, s1) \<leftarrow> kmalloc SIZEOF_THREAD s;
     if t = 0 then Some (0, s1)
     else do {
       (stack_bottom, s2) \<leftarrow> kmalloc DEFAULT_THREAD_STACK s1;
       s3 \<leftarrow> zero_words stack_bottom 256 s2;
       s4 \<leftarrow> push_words (stack_bottom + DEFAULT_THREAD_STACK) [exit_proc, entry, 0, 0, 0, 0] s3;
       let sp = stack_bottom + DEFAULT_THREAD_STACK - 24;
       Some (t, s4\<lparr>threads := (threads s4)(t \<mapsto> (junk_threads s4 t)\<lparr>t_esp := sp, t_stack_top := sp,
           t_state := THREAD_READY, t_owner := owner, t_next := 0, t_pl := THREAD_KERNEL,
           t_priority := PRIORITY_LOW, t_quantum := 6, t_id := next_id s4\<rparr>),
         next_id := next_id s4 + 1\<rparr>)
     }
   }"

definition AllocateUserThread ::
    "u32 \<Rightarrow> u32 \<Rightarrow> u32 \<Rightarrow> u32 \<Rightarrow> u32 \<Rightarrow> 'a task_state_scheme \<Rightarrow> (ptr \<times> 'a task_state_scheme) option" where
  "AllocateUserThread trampoline entry useresp kernel_stack extra_data s = do {
     (t, s1) \<leftarrow> kmalloc SIZEOF_THREAD s;
     if t = 0 then Some (0, s1)
     else do {
       s2 \<leftarrow> push_words kernel_stack [extra_data, SEL_DATA_USER, useresp, DEFAULT_EFLAGS, SEL_CODE_USER, entry] s1;
       let frame = kernel_stack - 24;
       s3 \<leftarrow> push_words frame [trampoline, 0, 0, 0, 0] s2;
       let sp = frame - 20;
       Some (t, s3\<lparr>threads := (threads s3)(t \<mapsto> (junk_threads s3 t)\<lparr>t_trapframe := frame, t_esp := sp, t_stack_top := sp,
           t_state := THREAD_READY, t_kernel_stack := kernel_stack, t_owner := 0, t_next := 0, t_pl := THREAD_USER,
           t_priority := PRIORITY_MEDIUM, t_quantum := 12, t_id := next_id s3\<rparr>),
         next_id := next_id s3 + 1\<rparr>)
     }
   }"

definition DeleteThread :: "ptr \<Rightarrow> 'a task_state_scheme \<Rightarrow> 'a task_state_scheme option" where
  "DeleteThread p s = do {
     s1 \<leftarrow> upd_thread p (\<lambda>t. t\<lparr>t_state := THREAD_TERMINATED\<rparr>) s;
     if GetCurrentExecutionThread s1 = p then Some s1
     else map_option snd (RemoveThreadFromScheduler p s1)
   }"

definition BlockThread :: "ptr \<Rightarrow> 'a task_state_scheme \<Rightarrow> 'a task_state_scheme option" where
  "BlockThread p s = map_option (\<lambda>s1. s1\<lparr>NeedsResched := True\<rparr>) (upd_thread p (\<lambda>t. t\<lparr>t_state := THREAD_BLOCKED\<rparr>) s)"

definition WakeThread :: "ptr \<Rightarrow> 'a task_state_scheme \<Rightarrow> 'a task_state_scheme option" where
  "WakeThread p s = do {
     t \<leftarrow> threads s p;
     if t_state t \<noteq> THREAD_RUNNING
     then Some (s\<lparr>threads := (threads s)(p \<mapsto> t\<lparr>t_state := THREAD_READY\<rparr>), NeedsResched := True\<rparr>)
     else Some s
   }"

text \<open>One pass of the idle thread over the list of threads.\<close>

partial_function (option) reap :: "ptr \<Rightarrow> 'a task_state_scheme \<Rightarrow> 'a task_state_scheme option" where
  "reap iter s =
     (if iter = 0 then Some s
      else Option.bind (threads s iter) (\<lambda>t.
        Option.bind
          (if t_state t = THREAD_TERMINATED
           then Option.bind (RemoveThreadFromScheduler iter s) (\<lambda>r. DeleteThread iter (snd r))
           else Some s)
          (\<lambda>s1. reap (t_next t) s1)))"

declare reap.simps [code]

definition idle_pass :: "'a task_state_scheme \<Rightarrow> 'a task_state_scheme option" where
  "idle_pass s = reap (GetSchedulerThreadList s) s"

section \<open>Timer\<close>

definition PITCallback :: "'a task_state_scheme \<Rightarrow> 'a task_state_scheme option" where
  "PITCallback s =
     (let s1 = s\<lparr>ticks := ticks s + 1\<rparr>; curr = GetCurrentExecutionThread s1 in
      if curr = 0 then Some s1
      else do {
        t \<leftarrow> threads s1 curr;
        let s2 = s1\<lparr>threads := (threads s1)(curr \<mapsto> t\<lparr>t_quantum := t_quantum t - 1\<rparr>)\<rparr>;
        Some (if t_quantum t = 0 then s2\<lparr>NeedsResched := True\<rparr> else s2)
      })"

definition GetTicksSinceBoot :: "'a task_state_scheme \<Rightarrow> u64" where
  "GetTicksSinceBoot s = ticks s"

end
