(* ===== verification/Scheduling.thy ===== *)
theory Scheduling
  imports Tasks
begin

text \<open>
  What the scheduler does: the list of threads as a list, the choice of the next thread, fairness of
  the round robin and what the list operations do.
\<close>

section \<open>Frames of the operations\<close>

lemma more_task:
  assumes "vm_state.more t = vm_state.more s"
  shows "threads t = threads s" "junk_threads t = junk_threads s" "procs t = procs s" "thread_list t = thread_list s"
    "current_thread t = current_thread s" "NeedsResched t = NeedsResched s" "next_id t = next_id s" "cpu t = cpu s"
    "tss0 t = tss0 s" "tss_stack t = tss_stack s" "sysenter_esp t = sysenter_esp s" "ticks t = ticks s"
    "task_state.more t = task_state.more s"
  using assms by (cases s; cases t; simp)+

text \<open>Two states with the same scheduler data, the registers apart.\<close>

definition same_sched :: "'a task_state_scheme \<Rightarrow> 'a task_state_scheme \<Rightarrow> bool" where
  "same_sched t s \<longleftrightarrow> threads t = threads s \<and> procs t = procs s \<and> thread_list t = thread_list s \<and>
     current_thread t = current_thread s \<and> NeedsResched t = NeedsResched s \<and> tss0 t = tss0 s \<and> cr3 t = cr3 s \<and>
     cpuid_features t = cpuid_features s"

lemma same_sched_refl [simp]: "same_sched s s"
  by (simp add: same_sched_def)

lemma same_sched_trans: "same_sched t s \<Longrightarrow> same_sched s r \<Longrightarrow> same_sched t r"
  by (simp add: same_sched_def)

lemma store32_sched: "store32 va v s = Some t \<Longrightarrow> same_sched t s \<and> cpu t = cpu s"
  using more_task [OF more_store32 [of va v s t]] by (auto simp: same_sched_def store32_def poke_def)

lemma push_sched: "push v s = Some t \<Longrightarrow> same_sched t s \<and> cpu t = (cpu s)\<lparr>r_esp := r_esp (cpu s) - 4\<rparr>"
  using store32_sched by (fastforce simp: push_def same_sched_def Let_def split: bind_splits)

lemma pop_sched: "pop s = Some (v, t) \<Longrightarrow> same_sched t s \<and> cpu t = (cpu s)\<lparr>r_esp := r_esp (cpu s) + 4\<rparr>"
  by (auto simp: pop_def same_sched_def split: bind_splits)

lemma SwapThreadStack_threads:
  assumes "SwapThreadStack old newesp s = Some s'"
  obtains t where "threads s old = Some t" "threads s' = (threads s)(old \<mapsto> t\<lparr>t_esp := r_esp (cpu s) - 16\<rparr>)"
    "procs s' = procs s" "thread_list s' = thread_list s" "current_thread s' = current_thread s"
    "NeedsResched s' = NeedsResched s" "tss0 s' = tss0 s" "cr3 s' = cr3 s"
    "r_esp (cpu s') = newesp + 20"
proof -
  from assms obtain s1 s2 s3 s4 s5 edi s7 esi s8 ebx s9 ebp s10 eip s11 where
    p: "push (r_ebp (cpu s)) s = Some s1" "push (r_ebx (cpu s1)) s1 = Some s2" "push (r_esi (cpu s2)) s2 = Some s3"
      "push (r_edi (cpu s3)) s3 = Some s4" "upd_thread old (t_esp_update (\<lambda>_. r_esp (cpu s4))) s4 = Some s5"
    and q: "pop (s5\<lparr>cpu := (cpu s5)\<lparr>r_esp := newesp\<rparr>\<rparr>) = Some (edi, s7)" "pop s7 = Some (esi, s8)" "pop s8 = Some (ebx, s9)"
      "pop s9 = Some (ebp, s10)" "pop s10 = Some (eip, s11)"
    and s': "s' = s11\<lparr>cpu := (cpu s11)\<lparr>r_edi := edi, r_esi := esi, r_ebx := ebx, r_ebp := ebp, r_eip := eip\<rparr>\<rparr>"
    unfolding SwapThreadStack_def by (auto simp: Let_def split: bind_splits)
  note a = push_sched [OF p(1)] push_sched [OF p(2)] push_sched [OF p(3)] push_sched [OF p(4)]
  note b = pop_sched [OF q(1)] pop_sched [OF q(2)] pop_sched [OF q(3)] pop_sched [OF q(4)] pop_sched [OF q(5)]
  from p(5) a obtain t where t: "threads s old = Some t" "s5 = s4\<lparr>threads := (threads s)(old \<mapsto> t\<lparr>t_esp := r_esp (cpu s) - 16\<rparr>)\<rparr>"
    by (auto simp: upd_thread_def same_sched_def)
  show thesis
    by (rule that [OF t(1)]) (use a b s' t(2) in \<open>simp_all add: same_sched_def\<close>)
qed

section \<open>The list of threads\<close>

definition scheduled :: "'a task_state_scheme \<Rightarrow> ptr list \<Rightarrow> bool" where
  "scheduled s ts \<longleftrightarrow> chain (next_thread s) (thread_list s) ts"

lemma next_thread_Some: "next_thread s p = Some q \<longleftrightarrow> (\<exists>t. threads s p = Some t \<and> t_next t = q)"
  by (auto simp: next_thread_def)

lemma chain_nth:
  assumes "chain nx p xs" and "i < length xs"
  shows "nx (xs ! i) = Some (if Suc i < length xs then xs ! Suc i else 0)"
  using assms
proof (induction xs arbitrary: p i)
  case Nil
  then show ?case by simp
next
  case (Cons x xs)
  then obtain q where q: "nx x = Some q" "chain nx q xs" by auto
  show ?case
  proof (cases i)
    case 0
    with q show ?thesis by (cases xs) auto
  next
    case (Suc j)
    with Cons.IH [OF q(2), of j] Cons.prems(2) show ?thesis by simp
  qed
qed

lemma chain_hd: "chain nx p xs \<Longrightarrow> p = (case xs of [] \<Rightarrow> 0 | x # _ \<Rightarrow> x)"
  by (cases xs) auto

lemma scheduledD:
  assumes "scheduled s ts"
  shows "distinct ts" and "0 \<notin> set ts" and "thread_list s = 0 \<longleftrightarrow> ts = []"
    and "ts \<noteq> [] \<Longrightarrow> thread_list s = ts ! 0" and "p \<in> set ts \<Longrightarrow> threads s p \<noteq> None"
proof -
  note c = assms [unfolded scheduled_def]
  show "distinct ts" "0 \<notin> set ts" using chain_distinct [OF c] chain_zero_notin [OF c] by simp_all
  show "thread_list s = 0 \<longleftrightarrow> ts = []" using c by (cases ts) auto
  show "ts \<noteq> [] \<Longrightarrow> thread_list s = ts ! 0" using chain_hd [OF c] by (cases ts) auto
  assume "p \<in> set ts"
  then obtain i where "i < length ts" "p = ts ! i" by (auto simp: in_set_conv_nth)
  with chain_nth [OF c] show "threads s p \<noteq> None" by (auto simp: next_thread_def split: if_splits)
qed

text \<open>The thread after another one, round the list.\<close>

lemma after_nth:
  assumes "scheduled s ts" and "i < length ts"
  obtains t where "threads s (ts ! i) = Some t" "after t s = ts ! (Suc i mod length ts)"
proof -
  have n: "next_thread s (ts ! i) = Some (if Suc i < length ts then ts ! Suc i else 0)"
    using chain_nth [OF assms(1) [unfolded scheduled_def] assms(2)] .
  then obtain t where t: "threads s (ts ! i) = Some t" "t_next t = (if Suc i < length ts then ts ! Suc i else 0)"
    by (auto simp: next_thread_def)
  have "after t s = ts ! (Suc i mod length ts)"
  proof (cases "Suc i < length ts")
    case True
    then have "ts ! Suc i \<noteq> 0" using scheduledD(2) [OF assms(1)] by (metis nth_mem)
    with t True show ?thesis by (simp add: after_def)
  next
    case False
    then have "Suc i = length ts" using assms(2) by simp
    with t False scheduledD(4) [OF assms(1)] assms(2) show ?thesis by (cases ts) (auto simp: after_def)
  qed
  with t(1) show thesis by (rule that)
qed

section \<open>The choice of the next thread\<close>

definition thread_is :: "'a task_state_scheme \<Rightarrow> (Thread \<Rightarrow> bool) \<Rightarrow> ptr \<Rightarrow> bool" where
  "thread_is s P p \<longleftrightarrow> (case threads s p of None \<Rightarrow> False | Some t \<Rightarrow> P t)"

abbreviation busy :: "Thread \<Rightarrow> bool" where
  "busy t \<equiv> runnable t \<and> t_priority t \<noteq> PRIORITY_IDLE"

definition first_of :: "('b \<Rightarrow> bool) \<Rightarrow> 'b list \<Rightarrow> 'b \<Rightarrow> 'b" where
  "first_of P xs d = (case find P xs of None \<Rightarrow> d | Some x \<Rightarrow> x)"

text \<open>
  The thread a round robin picks from the threads in turn: the first that can run, an idle one only
  if there is no other.
\<close>

definition pick :: "'a task_state_scheme \<Rightarrow> ptr list \<Rightarrow> ptr" where
  "pick s ring = first_of (thread_is s busy) ring (first_of (thread_is s runnable) ring 0)"

lemma thread_is_Some [simp]: "threads s p = Some t \<Longrightarrow> thread_is s P p = P t"
  by (simp add: thread_is_def)

lemma first_of_simps [simp]:
  "first_of P [] d = d" "first_of P (x # xs) d = (if P x then x else first_of P xs d)"
  by (simp_all add: first_of_def)

lemma select_from_ring:
  assumes ring: "\<And>i. i < length xs \<Longrightarrow> \<exists>t. threads s (xs ! i) = Some t \<and> after t s = xs ! (Suc i mod length xs)"
    and d: "distinct xs" and z: "0 \<notin> set xs" and j: "j < length xs"
  shows "select_from (xs ! 0) (xs ! j) idle s =
    (let p = first_of (thread_is s busy) (drop j xs) (if idle \<noteq> 0 then idle else first_of (thread_is s runnable) (drop j xs) 0)
     in if p = 0 then Some (0, s) else map_option (Pair p) (renew_quantum p s))"
  using j
proof (induction "length xs - j" arbitrary: j idle rule: less_induct)
  case less
  obtain t where t: "threads s (xs ! j) = Some t" "after t s = xs ! (Suc j mod length xs)"
    using ring [OF less.prems] by blast
  have dr: "drop j xs = xs ! j # drop (Suc j) xs" using less.prems by (simp add: Cons_nth_drop_Suc)
  have nz: "xs ! j \<noteq> 0" using z less.prems by (metis nth_mem)
  show ?case
  proof (cases "busy t")
    case True
    then show ?thesis using t nz by (subst select_from.simps) (simp add: dr thread_is_def Let_def)
  next
    case False
    define idle' where "idle' = (if runnable t \<and> idle = 0 then xs ! j else idle)"
    have idle: "(if idle \<noteq> 0 then idle else first_of (thread_is s runnable) (drop j xs) 0) =
        (if idle' \<noteq> 0 then idle' else first_of (thread_is s runnable) (drop (Suc j) xs) 0)"
      using t(1) nz by (simp add: dr thread_is_def idle'_def)
    have nb: "first_of (thread_is s busy) (drop j xs) e = first_of (thread_is s busy) (drop (Suc j) xs) e" for e
      using False t(1) by (auto simp: dr thread_is_def)
    have sel: "select_from (xs ! 0) (xs ! j) idle s =
        (if after t s \<noteq> xs ! 0 then select_from (xs ! 0) (after t s) idle' s
         else if idle' \<noteq> 0 then map_option (Pair idle') (renew_quantum idle' s) else Some (0, s))"
      using t(1) False by (subst select_from.simps) (auto simp: idle'_def Let_def)
    show ?thesis
    proof (cases "Suc j < length xs")
      case True
      then have "xs ! Suc j \<noteq> xs ! 0" using d nth_eq_iff_index_eq [OF d, of "Suc j" 0] by fastforce
      with True t(2) sel have "select_from (xs ! 0) (xs ! j) idle s = select_from (xs ! 0) (xs ! Suc j) idle' s" by simp
      moreover have "length xs - Suc j < length xs - j" using less.prems by simp
      ultimately show ?thesis using less.hyps [of "Suc j" idle'] True unfolding idle nb by simp
    next
      case False
      then have "Suc j = length xs" using less.prems by simp
      with t(2) sel show ?thesis unfolding idle nb by simp
    qed
  qed
qed

text \<open>The threads in the order the scheduler tries them: from the one after the current, which is last.\<close>

definition turn :: "ptr list \<Rightarrow> ptr \<Rightarrow> ptr list" where
  "turn ts c = (case dropWhile (\<lambda>p. p \<noteq> c) ts of [] \<Rightarrow> ts | _ # vs \<Rightarrow> vs @ takeWhile (\<lambda>p. p \<noteq> c) ts @ [c])"

lemma turn_rotate:
  assumes "distinct ts" and "i < length ts"
  shows "turn ts (ts ! i) = rotate (Suc i) ts"
proof -
  have s: "ts = take i ts @ ts ! i # drop (Suc i) ts" using assms(2) by (simp add: id_take_nth_drop)
  have n: "ts ! i \<notin> set (take i ts)" using assms by (auto simp: in_set_conv_nth nth_eq_iff_index_eq)
  then have "dropWhile (\<lambda>p. p \<noteq> ts ! i) ts = ts ! i # drop (Suc i) ts" "takeWhile (\<lambda>p. p \<noteq> ts ! i) ts = take i ts"
    by (subst s, subst dropWhile_append2, auto) (subst s, subst takeWhile_append2, auto)
  moreover have "rotate (Suc i) ts = drop (Suc i) ts @ take i ts @ [ts ! i]"
  proof (cases "Suc i < length ts")
    case True
    then show ?thesis by (simp add: rotate_drop_take take_Suc_conv_app_nth)
  next
    case False
    then have "Suc i = length ts" using assms(2) by simp
    then have "rotate (Suc i) ts = ts" by simp
    then show ?thesis using \<open>Suc i = length ts\<close> by (metis append_Nil append_eq_conv_conj drop_all order_refl s drop_Nil)
  qed
  ultimately show ?thesis by (simp add: turn_def)
qed

lemma after_rotate:
  assumes "scheduled s ts" and "i < length (rotate k ts)"
  shows "\<exists>t. threads s (rotate k ts ! i) = Some t \<and> after t s = rotate k ts ! (Suc i mod length (rotate k ts))"
proof -
  let ?n = "length ts"
  have i: "i < ?n" "(k + i) mod ?n < ?n" using assms(2) by (auto intro: mod_less_divisor)
  obtain t where "threads s (ts ! ((k + i) mod ?n)) = Some t" "after t s = ts ! (Suc ((k + i) mod ?n) mod ?n)"
    by (rule after_nth [OF assms(1) i(2)])
  moreover have "rotate k ts ! i = ts ! ((k + i) mod ?n)" using i by (simp add: nth_rotate)
  moreover have "rotate k ts ! (Suc i mod ?n) = ts ! (Suc ((k + i) mod ?n) mod ?n)"
  proof -
    have "rotate k ts ! (Suc i mod ?n) = ts ! ((k + Suc i mod ?n) mod ?n)" using i by (intro nth_rotate mod_less_divisor) auto
    then show ?thesis by (simp add: mod_simps)
  qed
  ultimately show ?thesis by simp
qed

lemma SelectNextThread_from:
  assumes l: "scheduled s ts" and c: "threads s (current_thread s) = Some c" "current_thread s \<noteq> 0"
    and k: "after c s = ts ! k" "k < length ts"
  shows "SelectNextThread s =
    (let p = pick s (rotate k ts) in if p = 0 then Some (0, s) else map_option (Pair p) (renew_quantum p s))"
proof -
  let ?r = "rotate k ts"
  have ts: "thread_list s \<noteq> 0" "0 < length ?r" using scheduledD(3) [OF l] k(2) by auto
  have "?r ! 0 = ts ! k" using k(2) by (subst nth_rotate) auto
  then have "SelectNextThread s = select_from (?r ! 0) (?r ! 0) 0 s"
    using ts(1) c k(1) by (simp add: SelectNextThread_def Let_def)
  also have "\<dots> = (let p = first_of (thread_is s busy) (drop 0 ?r)
      (if (0 :: ptr) \<noteq> 0 then 0 else first_of (thread_is s runnable) (drop 0 ?r) 0)
     in if p = 0 then Some (0, s) else map_option (Pair p) (renew_quantum p s))"
    using after_rotate [OF l] scheduledD(1,2) [OF l] ts(2) by (intro select_from_ring) simp_all
  finally show ?thesis by (simp add: pick_def)
qed

lemma SelectNextThread_turn:
  assumes l: "scheduled s ts" and c: "current_thread s \<in> set ts"
  shows "SelectNextThread s =
    (let p = pick s (turn ts (current_thread s)) in if p = 0 then Some (0, s) else map_option (Pair p) (renew_quantum p s))"
proof -
  obtain i where i: "i < length ts" "current_thread s = ts ! i" using c by (auto simp: in_set_conv_nth)
  obtain t where t: "threads s (ts ! i) = Some t" "after t s = ts ! (Suc i mod length ts)" by (rule after_nth [OF l i(1)])
  have k: "Suc i mod length ts < length ts" using i by (intro mod_less_divisor) auto
  have r: "rotate (Suc i mod length ts) ts = turn ts (current_thread s)"
    using turn_rotate [OF scheduledD(1) [OF l] i(1)] i(2) by (simp flip: rotate_conv_mod)
  have z: "current_thread s \<noteq> 0" using scheduledD(2) [OF l] c by auto
  have e: "threads s (current_thread s) = Some t" using i(2) t(1) by simp
  show ?thesis using SelectNextThread_from [OF l e z t(2) k] unfolding r .
qed

lemma first_of_in: "first_of P xs d \<noteq> d \<Longrightarrow> first_of P xs d \<in> set xs \<and> P (first_of P xs d)"
  by (induction xs) (auto split: if_splits)

lemma pick_in:
  assumes "pick s ring \<noteq> 0"
  shows "pick s ring \<in> set ring" and "thread_is s runnable (pick s ring)"
proof -
  have "pick s ring \<in> set ring \<and> thread_is s runnable (pick s ring)"
  proof (cases "pick s ring = first_of (thread_is s runnable) ring 0")
    case True
    with assms first_of_in [of "thread_is s runnable" ring 0] show ?thesis by simp
  next
    case False
    with first_of_in [of "thread_is s busy" ring "first_of (thread_is s runnable) ring 0"] show ?thesis
      unfolding pick_def by (auto simp: thread_is_def split: option.splits)
  qed
  then show "pick s ring \<in> set ring" "thread_is s runnable (pick s ring)" by simp_all
qed

lemma set_turn [simp]: "c \<in> set ts \<Longrightarrow> set (turn ts c) = set ts"
proof -
  assume "c \<in> set ts"
  then obtain us vs where s: "ts = us @ c # vs" "c \<notin> set us" by (meson split_list_first)
  then have "dropWhile (\<lambda>p. p \<noteq> c) ts = c # vs" "takeWhile (\<lambda>p. p \<noteq> c) ts = us"
    by (simp_all add: dropWhile_append3 takeWhile_tail dropWhile_append takeWhile_append)
  with s(1) show ?thesis by (auto simp: turn_def)
qed

section \<open>Switching threads\<close>

lemma enter_process_sched:
  assumes "enter_process a b s = Some t"
  shows "threads t = threads s" "procs t = procs s" "thread_list t = thread_list s" "current_thread t = current_thread s"
    "NeedsResched t = NeedsResched s" "cpu t = cpu s"
  using assms by (auto simp: enter_process_def SwapProcess_def SetPageDirectory_def EnableIOPortsOfProcess_def
      DisableIOPortsOfProcess_def switch_ports_def split: if_splits bind_splits)

lemma SelectKernelStack_sched [simp]:
  "threads (SelectKernelStack e s) = threads s" "procs (SelectKernelStack e s) = procs s"
  "thread_list (SelectKernelStack e s) = thread_list s" "current_thread (SelectKernelStack e s) = current_thread s"
  "NeedsResched (SelectKernelStack e s) = NeedsResched s" "cpu (SelectKernelStack e s) = cpu s"
  "cr3 (SelectKernelStack e s) = cr3 s" "tss_ioperm (tss0 (SelectKernelStack e s)) = tss_ioperm (tss0 s)"
  "tss_iomap_base (tss0 (SelectKernelStack e s)) = tss_iomap_base (tss0 s)"
  by (simp_all add: SelectKernelStack_def Let_def)

text \<open>
  What a switch does to the threads: the new thread runs with a new slice of time, the old one becomes ready if it ran and has its
  stack pointer saved below the four registers, and every other thread and every other field stays as it was.
\<close>

definition time_slice :: "int \<Rightarrow> u32" where
  "time_slice priority = (case map_of [(- 1, 0), (1, 1), (2, 12), (3, 20), (4, 33)] priority of Some n \<Rightarrow> n | None \<Rightarrow> 60)"

lemma CPUTime_slice: "CPUTimeFromThreadPriority = time_slice"
  by (auto simp: CPUTimeFromThreadPriority_def time_slice_def fun_eq_iff)

definition after_switch :: "ptr \<Rightarrow> ptr \<Rightarrow> u32 \<Rightarrow> ptr \<Rightarrow> Thread \<Rightarrow> Thread" where
  "after_switch prev nxt esp p t =
     (if p = nxt then t\<lparr>t_state := THREAD_RUNNING, t_quantum := time_slice (t_priority t)\<rparr>
      else if p = prev then t\<lparr>t_state := (if t_state t = THREAD_RUNNING then THREAD_READY else t_state t), t_esp := esp - 16\<rparr>
      else t)"

lemma after_switch_other: "p \<noteq> nxt \<Longrightarrow> p \<noteq> prev \<Longrightarrow> map_option (after_switch prev nxt esp p) x = x"
  by (cases x) (simp_all add: after_switch_def)

definition switched :: "ptr \<Rightarrow> ptr \<Rightarrow> 'a task_state_scheme \<Rightarrow> 'a task_state_scheme \<Rightarrow> bool" where
  "switched prev nxt s s' \<longleftrightarrow> thread_list s' = thread_list s \<and> current_thread s' = nxt \<and> \<not> NeedsResched s' \<and> procs s' = procs s \<and>
     (\<forall>p. threads s' p = map_option (after_switch prev nxt (r_esp (cpu s)) p) (threads s p))"

lemma switched_scheduled: "switched prev nxt s s' \<Longrightarrow> scheduled s' ts = scheduled s ts"
proof -
  assume a: "switched prev nxt s s'"
  have "next_thread s' = next_thread s"
  proof
    fix p show "next_thread s' p = next_thread s p"
      using a by (cases "threads s p") (auto simp: switched_def next_thread_def after_switch_def)
  qed
  with a show ?thesis by (simp add: scheduled_def switched_def)
qed

lemma ScheduleNext_cases:
  assumes l: "scheduled s ts" and c: "current_thread s \<in> set ts" and r: "ScheduleNext s = Some s'"
  obtains (stay) "pick s (turn ts (current_thread s)) = 0" "s' = s\<lparr>NeedsResched := False\<rparr>"
    | (same) "pick s (turn ts (current_thread s)) = current_thread s" "current_thread s' = current_thread s"
        "renew_quantum (current_thread s) s = Some (s'\<lparr>NeedsResched := NeedsResched s\<rparr>)"
    | (switch) "pick s (turn ts (current_thread s)) \<noteq> 0" "pick s (turn ts (current_thread s)) \<noteq> current_thread s"
        "switched (current_thread s) (pick s (turn ts (current_thread s))) s s'"
proof -
  let ?c = "current_thread s" let ?n = "pick s (turn ts ?c)"
  have ne: "thread_list s \<noteq> 0" using scheduledD(3) [OF l] c by auto
  note sel = SelectNextThread_turn [OF l c]
  consider "?n = 0" | "?n = ?c" "?n \<noteq> 0" | "?n \<noteq> ?c" "?n \<noteq> 0" by blast
  then show thesis
  proof cases
    case 1
    with sel r ne have "s' = s\<lparr>NeedsResched := False\<rparr>" by (simp add: ScheduleNext_def)
    with 1 show thesis by (intro stay)
  next
    case 2
    then obtain s1 where s1: "renew_quantum ?c s = Some s1" "SelectNextThread s = Some (?c, s1)"
      using scheduledD(5) [OF l c] sel by (auto simp: renew_quantum_def upd_thread_def)
    have z: "?c \<noteq> 0" using 2 by simp
    have "s' = s1\<lparr>NeedsResched := False\<rparr>" using r ne s1(2) z by (simp add: ScheduleNext_def)
    moreover have "current_thread s1 = ?c" "NeedsResched s1 = NeedsResched s"
      using s1(1) by (auto simp: renew_quantum_def upd_thread_def)
    ultimately show thesis using 2 s1(1) by (intro same) simp_all
  next
    case 3
    have "threads s ?n \<noteq> None" using pick_in(2) [OF 3(2)] by (auto simp: thread_is_def split: option.splits)
    then obtain nt ct where t: "threads s ?n = Some nt" "threads s ?c = Some ct"
      using scheduledD(5) [OF l c] by auto
    define s5 where "s5 = s\<lparr>NeedsResched := False, threads := (threads s)(?c \<mapsto> if t_state ct = THREAD_RUNNING then ct\<lparr>t_state := THREAD_READY\<rparr> else ct,
        ?n \<mapsto> nt\<lparr>t_state := THREAD_RUNNING, t_quantum := CPUTimeFromThreadPriority (t_priority nt)\<rparr>), current_thread := ?n\<rparr>"
    have "ScheduleNext s = Option.bind (enter_process (t_owner ct) (t_owner nt) s5)
        (\<lambda>s6. SwapThreadStack ?c (t_esp nt) (if t_kernel_stack nt > 0 then SelectKernelStack (t_kernel_stack nt) s6 else s6))"
      using sel ne 3 t unfolding ScheduleNext_def s5_def
      by (auto simp: renew_quantum_def upd_thread_def Let_def fun_upd_twist cong: if_cong)
    with r obtain s6 where s6: "enter_process (t_owner ct) (t_owner nt) s5 = Some s6"
      "SwapThreadStack ?c (t_esp nt) (if t_kernel_stack nt > 0 then SelectKernelStack (t_kernel_stack nt) s6 else s6) = Some s'"
      by (auto split: bind_splits)
    note e = enter_process_sched [OF s6(1)]
    obtain t where "threads s6 ?c = Some t" "threads s' = (threads s6)(?c \<mapsto> t\<lparr>t_esp := r_esp (cpu s6) - 16\<rparr>)" "procs s' = procs s6"
      "thread_list s' = thread_list s6" "current_thread s' = current_thread s6" "NeedsResched s' = NeedsResched s6"
      by (rule SwapThreadStack_threads [OF s6(2)]) (simp_all split: if_splits)
    then have "switched ?c ?n s s'"
      using e t 3 by (auto simp: switched_def after_switch_other after_switch_def s5_def CPUTime_slice)
    with 3 show thesis by (intro switch)
  qed
qed

section \<open>Fairness\<close>

lemma first_of_nth:
  assumes "k < length xs" and "P (xs ! k)"
  obtains j where "j \<le> k" "first_of P xs d = xs ! j" "P (xs ! j)"
proof -
  have "\<exists>j \<le> k. first_of P xs d = xs ! j \<and> P (xs ! j)"
    using assms
  proof (induction xs arbitrary: k)
    case Nil
    then show ?case by simp
  next
    case (Cons x xs)
    show ?case
    proof (cases "P x")
      case True
      then show ?thesis by (intro exI [of _ 0]) simp
    next
      case False
      with Cons.prems obtain m where m: "k = Suc m" by (cases k) auto
      with Cons obtain j where "j \<le> m" "first_of P xs d = xs ! j" "P (xs ! j)" by auto
      with m False show ?thesis by (intro exI [of _ "Suc j"]) simp
    qed
  qed
  with that show thesis by blast
qed

text \<open>Where a thread stands in the turn after another one has been chosen.\<close>

lemma turn_nth:
  assumes "distinct ts" and "c \<in> set ts" and "j < k" and "k < length ts"
  shows "turn ts (turn ts c ! j) ! (k - Suc j) = turn ts c ! k"
proof -
  obtain i where i: "i < length ts" "c = ts ! i" using assms(2) by (auto simp: in_set_conv_nth)
  have t: "turn ts c = rotate (Suc i) ts" using turn_rotate [OF assms(1) i(1)] i(2) by simp
  let ?m = "(Suc i + j) mod length ts"
  have m: "?m < length ts" using i(1) by (intro mod_less_divisor) auto
  have "turn ts c ! j = ts ! ?m" unfolding t using assms(3,4) by (intro nth_rotate) simp
  then have "turn ts (turn ts c ! j) = rotate (Suc ?m) ts" using turn_rotate [OF assms(1) m] by simp
  also have "\<dots> = rotate (Suc j) (rotate (Suc i) ts)"
  proof -
    have "Suc ?m mod length ts = (Suc j + Suc i) mod length ts" by (simp add: mod_simps ac_simps)
    then show ?thesis using rotate_conv_mod [of "Suc ?m" ts] rotate_conv_mod [of "Suc j + Suc i" ts] by (simp only: rotate_rotate)
  qed
  finally have "turn ts (turn ts c ! j) ! (k - Suc j) = rotate (Suc j) (turn ts c) ! (k - Suc j)" using t by simp
  also have "\<dots> = turn ts c ! ((Suc j + (k - Suc j)) mod length (turn ts c))"
    using assms(3,4) t by (intro nth_rotate) simp
  finally show ?thesis using assms(3,4) t by simp
qed

lemma fair_step:
  assumes l: "scheduled s ts" and c: "current_thread s \<in> set ts" and r: "ScheduleNext s = Some s'"
    and k: "k < length ts" "turn ts (current_thread s) ! k = p" and b: "thread_is s busy p"
  shows "current_thread s' = p \<or> scheduled s' ts \<and> current_thread s' \<in> set ts \<and> thread_is s' busy p \<and>
    (\<exists>k' < k. turn ts (current_thread s') ! k' = p)"
proof -
  let ?c = "current_thread s" let ?t = "turn ts ?c"
  obtain i where i: "i < length ts" "?c = ts ! i" using c by (auto simp: in_set_conv_nth)
  have t: "?t = rotate (Suc i) ts" using turn_rotate [OF scheduledD(1) [OF l] i(1)] i(2) by simp
  then have dt: "distinct ?t" "length ?t = length ts" using scheduledD(1) [OF l] by simp_all
  have "k < length ?t" "thread_is s busy (?t ! k)" using k b dt(2) by simp_all
  then obtain j where j: "j \<le> k" "pick s ?t = ?t ! j" unfolding pick_def by (rule first_of_nth)
  have jt: "?t ! j \<in> set ts" using nth_mem [of j ?t] j(1) k(1) dt(2) set_turn [OF c] by simp
  then have nz: "pick s ?t \<noteq> 0" using j(2) scheduledD(2) [OF l] by auto
  have last: "?t ! (length ts - 1) = ?c"
  proof -
    have "Suc i + (length ts - 1) = i + length ts" using i(1) by simp
    then have "(Suc i + (length ts - 1)) mod length ts = i" using i(1) by simp
    then show ?thesis using i unfolding t by (subst nth_rotate) auto
  qed
  from l c r show ?thesis
  proof (cases rule: ScheduleNext_cases)
    case stay
    with nz show ?thesis by simp
  next
    case same
    then have "?t ! j = ?t ! (length ts - 1)" using j(2) last by simp
    then have "j = length ts - 1" using dt j(1) k(1) nth_eq_iff_index_eq [OF dt(1)] by auto
    then have "k = j" using j(1) k(1) by simp
    with same j(2) k(2) show ?thesis by simp
  next
    case switch
    have cur: "current_thread s' = ?t ! j" using switch(3) j(2) by (simp add: switched_def)
    show ?thesis
    proof (cases "j = k")
      case True
      with cur k(2) show ?thesis by simp
    next
      case False
      then have jk: "j < k" using j(1) by simp
      have "turn ts (current_thread s') ! (k - Suc j) = p"
        using turn_nth [OF scheduledD(1) [OF l] c jk k(1)] cur k(2) by simp
      moreover have "thread_is s' busy p"
      proof -
        have "p \<noteq> ?t ! j" using jk k dt nth_eq_iff_index_eq [OF dt(1), of j k] by auto
        then have "p \<noteq> pick s ?t" using j(2) by simp
        with b switch(3) show ?thesis
          by (auto simp: switched_def after_switch_def thread_is_def runnable_def split: option.splits dest!: spec [of _ p])
      qed
      moreover have "scheduled s' ts" using switched_scheduled [OF switch(3)] l by simp
      moreover have "k - Suc j < k" using jk by simp
      ultimately show ?thesis using cur jt by auto
    qed
  qed
qed

text \<open>
  A run of the kernel with \<open>n\<close> entries of the scheduler in which a thread never gets the processor:
  between two entries the running thread computes, which may block and wake other threads but leaves the
  list of threads alone and does not stop the one we look at.
\<close>

inductive starves :: "ptr \<Rightarrow> nat \<Rightarrow> 'a task_state_scheme \<Rightarrow> 'a task_state_scheme \<Rightarrow> bool" for p where
  start: "current_thread s \<noteq> p \<Longrightarrow> starves p 0 s s"
| work: "starves p n s s' \<Longrightarrow> thread_list s'' = thread_list s' \<Longrightarrow> next_thread s'' = next_thread s' \<Longrightarrow>
    current_thread s'' = current_thread s' \<Longrightarrow> thread_is s' busy p = thread_is s'' busy p \<Longrightarrow> starves p n s s''"
| switch: "starves p n s s' \<Longrightarrow> ScheduleNext s' = Some s'' \<Longrightarrow> current_thread s'' \<noteq> p \<Longrightarrow> starves p (Suc n) s s''"

lemma starves_inv:
  assumes "starves p n s s'" and "scheduled s ts" and "current_thread s \<in> set ts" and "p \<in> set ts" and "thread_is s busy p"
  shows "scheduled s' ts \<and> current_thread s' \<in> set ts \<and> thread_is s' busy p \<and>
    (\<exists>k. n + k < length ts \<and> turn ts (current_thread s') ! k = p)"
  using assms
proof (induction rule: starves.induct)
  case (start s)
  from start.prems set_turn [of "current_thread s" ts] have "p \<in> set (turn ts (current_thread s))" by simp
  moreover obtain i where i: "i < length ts" "current_thread s = ts ! i" using start.prems by (auto simp: in_set_conv_nth)
  have "length (turn ts (current_thread s)) = length ts"
    using turn_rotate [OF scheduledD(1) [OF start.prems(1)] i(1)] i(2) by simp
  ultimately show ?case using start.prems by (auto simp: in_set_conv_nth)
next
  case (work n s s' s'')
  then show ?case by (simp add: scheduled_def)
next
  case (switch n s s' s'')
  then obtain k where k: "scheduled s' ts" "current_thread s' \<in> set ts" "thread_is s' busy p"
    "n + k < length ts" "turn ts (current_thread s') ! k = p" by auto
  from fair_step [OF k(1,2) switch.hyps(2) _ k(5,3)] k(4) switch.hyps(3) obtain k' where
    "scheduled s'' ts" "current_thread s'' \<in> set ts" "thread_is s'' busy p" "k' < k" "turn ts (current_thread s'') ! k' = p"
    by auto
  with k(4) show ?case by (intro conjI exI [of _ k']) simp_all
qed

section \<open>Changing the list of threads\<close>

lemma chain_append:
  assumes "chain nx p xs" and "xs \<noteq> []" and "q \<noteq> 0" and "nx' q = Some 0" and "nx' (last xs) = Some q"
    and "\<And>x. x \<in> set (butlast xs) \<Longrightarrow> nx' x = nx x"
  shows "chain nx' p (xs @ [q])"
  using assms
proof (induction xs arbitrary: p)
  case Nil
  then show ?case by simp
next
  case (Cons x xs)
  then obtain r where r: "p = x" "x \<noteq> 0" "nx x = Some r" "chain nx r xs" by auto
  show ?case
  proof (cases "xs = []")
    case True
    with Cons.prems r show ?thesis by auto
  next
    case False
    with Cons.prems have "nx' x = nx x" by simp
    moreover have "chain nx' r (xs @ [q])"
      using Cons.prems False by (intro Cons.IH [OF r(4)]) simp_all
    ultimately show ?thesis using r by simp
  qed
qed

lemma chain_unlink:
  assumes "chain nx p (us @ x # y # vs)" and "nx y = Some r" and "nx' x = Some r"
    and "\<And>z. z \<in> set (us @ vs) \<Longrightarrow> nx' z = nx z"
  shows "chain nx' p (us @ x # vs)"
  using assms
proof (induction us arbitrary: p)
  case Nil
  then have "chain nx r vs" "p = x" "x \<noteq> 0" by auto
  moreover have "chain nx' r vs = chain nx r vs" using Nil.prems(4) by (intro chain_cong) simp
  ultimately show ?case using Nil.prems(3) by simp
next
  case (Cons u us)
  then obtain q where q: "p = u" "u \<noteq> 0" "nx u = Some q" "chain nx q (us @ x # y # vs)" by auto
  have "nx' u = nx u" using Cons.prems(4) by simp
  moreover have "chain nx' q (us @ x # vs)" using Cons.prems by (intro Cons.IH [OF q(4)]) simp_all
  ultimately show ?case using q by simp
qed

lemma AddThreadToScheduler_appends:
  assumes l: "scheduled s ts" and p: "p \<noteq> 0" "p \<notin> set ts" "threads s p = Some t"
  obtains s' where "AddThreadToScheduler p s = Some s'" "scheduled s' (ts @ [p])"
    "current_thread s' = (if ts = [] then p else current_thread s)"
    "threads s' p = Some (t\<lparr>t_state := THREAD_READY, t_next := 0\<rparr>)"
    "\<And>q. q \<noteq> p \<Longrightarrow> map_option (t_next_update (\<lambda>_. 0)) (threads s' q) = map_option (t_next_update (\<lambda>_. 0)) (threads s q)"
proof (cases "ts = []")
  case True
  then have "thread_list s = 0" using scheduledD(3) [OF l] by simp
  then have "AddThreadToScheduler p s =
      Some (s\<lparr>threads := (threads s)(p \<mapsto> t\<lparr>t_state := THREAD_READY, t_next := 0\<rparr>), thread_list := p, current_thread := p\<rparr>)"
    using p(3) by (simp add: AddThreadToScheduler_def upd_thread_def)
  then show thesis using True p by (elim that) (simp_all add: scheduled_def next_thread_def)
next
  case False
  let ?q = "last ts" let ?s1 = "s\<lparr>threads := (threads s)(p \<mapsto> t\<lparr>t_state := THREAD_READY, t_next := 0\<rparr>)\<rparr>"
  have q: "?q \<in> set ts" "?q \<noteq> p" using False p(2) by auto
  then obtain tq where tq: "threads s ?q = Some tq" using scheduledD(5) [OF l] by blast
  have "chain (next_thread ?s1) (thread_list s) ts"
    using l p(2) unfolding scheduled_def by (subst chain_cong) (auto simp: next_thread_def)
  then have "last_node (next_thread ?s1) (thread_list s) = Some ?q"
    using chain_snoc [of _ _ "butlast ts" ?q] False by simp
  then have a: "AddThreadToScheduler p s = Some (?s1\<lparr>threads := (threads ?s1)(?q \<mapsto> tq\<lparr>t_next := p\<rparr>)\<rparr>)"
    using False scheduledD(3) [OF l] p(3) tq q by (simp add: AddThreadToScheduler_def upd_thread_def)
  have "distinct ts" using scheduledD(1) [OF l] .
  then have nb: "x \<noteq> ?q" "x \<noteq> p" if "x \<in> set (butlast ts)" for x
    using that False p(2) by (metis append_butlast_last_id distinct_append disjoint_iff list.set_intros(1), metis in_set_butlastD)
  have "scheduled (?s1\<lparr>threads := (threads ?s1)(?q \<mapsto> tq\<lparr>t_next := p\<rparr>)\<rparr>) (ts @ [p])"
    unfolding scheduled_def using l [unfolded scheduled_def] False p(1) q nb
    by (intro chain_append [of "next_thread s"]) (auto simp: next_thread_def)
  with a show thesis by (rule that) (use False q tq in simp_all)
qed

lemma unlink_step:
  assumes "threads s x = Some t" and "t_next t = y" and "y \<noteq> 0"
  shows "p \<noteq> y \<Longrightarrow> unlink_thread x p s = unlink_thread y p s"
    and "threads s y = Some ty \<Longrightarrow> unlink_thread x y s = Some (STATUS_OK, s\<lparr>threads := (threads s)(x \<mapsto> t\<lparr>t_next := t_next ty\<rparr>)\<rparr>)"
  using assms by (subst unlink_thread.simps; simp)+

lemma unlink_absent:
  "chain (next_thread s) x (x # ys) \<Longrightarrow> p \<notin> set ys \<Longrightarrow> unlink_thread x p s = Some (STATUS_NOT_FOUND, s)"
proof (induction ys arbitrary: x)
  case Nil
  then show ?case by (subst unlink_thread.simps) (auto simp: next_thread_Some)
next
  case (Cons y ys)
  then obtain t where t: "threads s x = Some t" "t_next t = y" "y \<noteq> 0" "chain (next_thread s) y (y # ys)"
    by (auto simp: next_thread_Some)
  from Cons.prems(2) have "p \<noteq> y" "p \<notin> set ys" by simp_all
  with unlink_step(1) [OF t(1,2,3)] Cons.IH [OF t(4)] show ?case by simp
qed

lemma unlink_present:
  "chain (next_thread s) x (x # us @ p # vs) \<Longrightarrow> p \<notin> set us \<Longrightarrow>
   \<exists>t tp. threads s (last (x # us)) = Some t \<and> threads s p = Some tp \<and>
     unlink_thread x p s = Some (STATUS_OK, s\<lparr>threads := (threads s)(last (x # us) \<mapsto> t\<lparr>t_next := t_next tp\<rparr>)\<rparr>)"
proof (induction us arbitrary: x)
  case Nil
  then obtain t tp where "threads s x = Some t" "t_next t = p" "p \<noteq> 0" "threads s p = Some tp" by (auto simp: next_thread_Some)
  with unlink_step(2) [of s x t p tp] show ?case by (simp add: fun_upd_def)
next
  case (Cons y us)
  then obtain t where t: "threads s x = Some t" "t_next t = y" "y \<noteq> 0" "chain (next_thread s) y (y # us @ p # vs)"
    by (auto simp: next_thread_Some)
  from Cons.prems(2) have "p \<noteq> y" "p \<notin> set us" by simp_all
  with unlink_step(1) [OF t(1,2,3)] Cons.IH [OF t(4)] show ?case by simp
qed

lemma RemoveThreadFromScheduler_removes:
  assumes l: "scheduled s ts" and p: "p \<noteq> 0"
  obtains st s' where "RemoveThreadFromScheduler p s = Some (st, s')" "scheduled s' (remove1 p ts)"
    "st = (if p \<in> set ts then STATUS_OK else STATUS_NOT_FOUND)" "current_thread s' = current_thread s"
    "\<And>q. map_option (t_next_update (\<lambda>_. 0)) (threads s' q) = map_option (t_next_update (\<lambda>_. 0)) (threads s q)"
proof (cases ts)
  case Nil
  then have "thread_list s = 0" using scheduledD(3) [OF l] by simp
  then show thesis using Nil l by (intro that [of STATUS_NOT_FOUND s]) (simp_all add: RemoveThreadFromScheduler_def)
next
  case (Cons x ys)
  have c: "chain (next_thread s) x (x # ys)" "thread_list s = x" "x \<noteq> 0"
    using l Cons unfolding scheduled_def by auto
  show thesis
  proof (cases "p = x")
    case True
    from c obtain t where t: "threads s x = Some t" "chain (next_thread s) (t_next t) ys" by (auto simp: next_thread_Some)
    have "RemoveThreadFromScheduler p s = Some (STATUS_OK, s\<lparr>thread_list := t_next t\<rparr>)"
      using True c t by (simp add: RemoveThreadFromScheduler_def)
    moreover have "next_thread (s\<lparr>thread_list := t_next t\<rparr>) = next_thread s" by (simp add: next_thread_def fun_eq_iff)
    ultimately show thesis using True Cons t(2) by (intro that [of STATUS_OK "s\<lparr>thread_list := t_next t\<rparr>"]) (simp_all add: scheduled_def)
  next
    case False
    then have r: "RemoveThreadFromScheduler p s = unlink_thread x p s" using c by (simp add: RemoveThreadFromScheduler_def)
    show thesis
    proof (cases "p \<in> set ys")
      case nin: False
      then have "remove1 p ts = ts" using Cons False by (simp add: remove1_idem)
      with nin unlink_absent [OF c(1) nin] r Cons False l show thesis by (intro that [of STATUS_NOT_FOUND s]) simp_all
    next
      case True
      then obtain us vs where ys: "ys = us @ p # vs" "p \<notin> set us" by (meson split_list_first)
      let ?y = "last (x # us)"
      obtain t tp where y: "threads s ?y = Some t" "threads s p = Some tp"
        "unlink_thread x p s = Some (STATUS_OK, s\<lparr>threads := (threads s)(?y \<mapsto> t\<lparr>t_next := t_next tp\<rparr>)\<rparr>)"
        using unlink_present [OF c(1) [unfolded ys(1)] ys(2)] by blast
      let ?s = "s\<lparr>threads := (threads s)(?y \<mapsto> t\<lparr>t_next := t_next tp\<rparr>)\<rparr>" let ?us = "butlast (x # us)"
      have e: "x # us = ?us @ [?y]" by simp
      have d: "distinct (?us @ ?y # p # vs)" using scheduledD(1) [OF l] Cons ys(1) e
        by (metis append.assoc append_Cons append_Nil)
      have "remove1 p ts = x # us @ vs" using Cons ys False by (simp add: remove1_append)
      then have rm: "remove1 p ts = ?us @ ?y # vs" using e by (metis append.assoc append_Cons append_Nil)
      have "chain (next_thread s) x (?us @ ?y # p # vs)" using c(1) ys(1) e by (metis append.assoc append_Cons append_Nil)
      then have "scheduled ?s (?us @ ?y # vs)"
        unfolding scheduled_def using c(2) y(1,2) d
        by (intro chain_unlink [of "next_thread s" _ ?us ?y p vs "t_next tp"]) (auto simp: next_thread_def)
      with rm r y True Cons show thesis by (intro that [of STATUS_OK ?s]) simp_all
    qed
  qed
qed

lemma find_thread_spec:
  "chain (next_thread s) p xs \<Longrightarrow> find_thread i p s = Some (first_of (thread_is s (\<lambda>t. t_id t = i)) xs 0)"
proof (induction xs arbitrary: p)
  case Nil
  then show ?case by (subst find_thread.simps) simp
next
  case (Cons x xs)
  then obtain t where t: "p = x" "x \<noteq> 0" "threads s x = Some t" "chain (next_thread s) (t_next t) xs" by (auto simp: next_thread_Some)
  with Cons.IH [OF t(4)] show ?case by (subst find_thread.simps) simp
qed

lemma GetThreadByID_finds: "scheduled s ts \<Longrightarrow> GetThreadByID i s = Some (first_of (thread_is s (\<lambda>t. t_id t = i)) ts 0)"
  using find_thread_spec [of s "thread_list s" ts i] scheduledD(3) [of s ts] by (auto simp: GetThreadByID_def scheduled_def)

section \<open>Ports of processes\<close>

definition ports_of :: "Process \<Rightarrow> nat set" where
  "ports_of p = (\<lambda>i. unat (p_ioports p i)) ` {..< unat (p_ports_used p)}"

text \<open>The bit of a port in the permission map: clear if user code may use the port.\<close>

definition permitted :: "(nat \<Rightarrow> u8) \<Rightarrow> nat \<Rightarrow> bool" where
  "permitted perm port \<longleftrightarrow> \<not> bit (perm (port div 8)) (port mod 8)"

definition port_open :: "'a task_state_scheme \<Rightarrow> nat \<Rightarrow> bool" where
  "port_open s port \<longleftrightarrow> tss_iomap_base (tss0 s) = OFFSETOF_IOPERM \<and> permitted (tss_ioperm (tss0 s)) port"

lemma port_eq: "port div 8 = p div 8 \<and> port mod 8 = p mod 8 \<longleftrightarrow> port = (p :: nat)"
  by (metis div_mult_mod_eq)

lemma permitted_upd:
  "permitted (perm(p div 8 := unset_bit (p mod 8) (perm (p div 8)))) port \<longleftrightarrow> permitted perm port \<or> port = p"
  "permitted (perm(p div 8 := set_bit (p mod 8) (perm (p div 8)))) port \<longleftrightarrow> permitted perm port \<and> port \<noteq> p"
proof -
  have "p mod 8 < LENGTH(8)" by simp
  then show "permitted (perm(p div 8 := unset_bit (p mod 8) (perm (p div 8)))) port \<longleftrightarrow> permitted perm port \<or> port = p"
    "permitted (perm(p div 8 := set_bit (p mod 8) (perm (p div 8)))) port \<longleftrightarrow> permitted perm port \<and> port \<noteq> p"
    using port_eq [of port p] by (auto simp: permitted_def bit_unset_bit_iff bit_set_bit_iff)
qed

lemma permit_ports_spec:
  "permitted (permit_ports io i n perm) port \<longleftrightarrow> permitted perm port \<or> port \<in> (\<lambda>j. unat (io j)) ` {i ..< i + n}"
proof (induction n arbitrary: i perm)
  case 0
  then show ?case by simp
next
  case (Suc n)
  have "{i ..< i + Suc n} = insert i {Suc i ..< Suc i + n}" by auto
  then show ?case unfolding permit_ports.simps Let_def Suc [of "Suc i"] permitted_upd(1) by (simp only: image_insert) blast
qed

lemma forbid_ports_spec:
  "permitted (forbid_ports io i n perm) port \<longleftrightarrow> permitted perm port \<and> port \<notin> (\<lambda>j. unat (io j)) ` {i ..< i + n}"
proof (induction n arbitrary: i perm)
  case 0
  then show ?case by simp
next
  case (Suc n)
  have "{i ..< i + Suc n} = insert i {Suc i ..< Suc i + n}" by auto
  then show ?case unfolding forbid_ports.simps Let_def Suc [of "Suc i"] permitted_upd(2) by (simp only: image_insert) blast
qed

lemma EnableIOPorts_spec:
  assumes "procs s p = Some pr"
  obtains s' where "EnableIOPortsOfProcess p s = Some s'" "procs s' = procs s"
    "permitted (tss_ioperm (tss0 s')) port \<longleftrightarrow> permitted (tss_ioperm (tss0 s)) port \<or> port \<in> ports_of pr"
    "tss_iomap_base (tss0 s') = (if p_ports_used pr = 0 then SIZEOF_TSS else OFFSETOF_IOPERM)"
  using assms that by (cases "p_ports_used pr = 0")
    (simp_all add: EnableIOPortsOfProcess_def switch_ports_def permit_ports_spec ports_of_def lessThan_atLeast0)

lemma DisableIOPorts_spec:
  assumes "procs s p = Some pr"
  obtains s' where "DisableIOPortsOfProcess p s = Some s'" "procs s' = procs s"
    "\<And>port. permitted (tss_ioperm (tss0 s')) port \<longleftrightarrow> permitted (tss_ioperm (tss0 s)) port \<and> port \<notin> ports_of pr"
  using assms that by (cases "p_ports_used pr = 0")
    (simp_all add: DisableIOPortsOfProcess_def switch_ports_def forbid_ports_spec ports_of_def lessThan_atLeast0)

text \<open>
  The permission map is the one of a process: exactly its ports are permitted, and the map is in use if there are any. Then
  exactly the ports of the process are open.
\<close>

definition ports_match :: "'a task_state_scheme \<Rightarrow> Process \<Rightarrow> bool" where
  "ports_match s pr \<longleftrightarrow> (\<forall>port. permitted (tss_ioperm (tss0 s)) port \<longleftrightarrow> port \<in> ports_of pr) \<and>
     (p_ports_used pr \<noteq> 0 \<longrightarrow> tss_iomap_base (tss0 s) = OFFSETOF_IOPERM)"

lemma ports_match_open: "ports_match s pr \<Longrightarrow> port_open s port \<longleftrightarrow> port \<in> ports_of pr"
  by (cases "p_ports_used pr = 0") (auto simp: ports_match_def port_open_def ports_of_def)

lemma enter_process_ports:
  assumes "new = 0 \<or> procs s new \<noteq> None" and "prev = 0 \<or> procs s prev \<noteq> None"
  obtains s' where "enter_process prev new s = Some s'"
    "new = 0 \<or> new = prev \<Longrightarrow> tss0 s' = tss0 s"
    "\<And>pn port. new \<noteq> 0 \<Longrightarrow> new \<noteq> prev \<Longrightarrow> procs s new = Some pn \<Longrightarrow> permitted (tss_ioperm (tss0 s')) port \<longleftrightarrow>
       permitted (tss_ioperm (tss0 s)) port \<and> \<not> (prev \<noteq> 0 \<and> port \<in> ports_of (the (procs s prev))) \<or> port \<in> ports_of pn"
    "\<And>pn. new \<noteq> 0 \<Longrightarrow> new \<noteq> prev \<Longrightarrow> procs s new = Some pn \<Longrightarrow>
       tss_iomap_base (tss0 s') = (if p_ports_used pn = 0 then SIZEOF_TSS else OFFSETOF_IOPERM)"
proof (cases "new = 0 \<or> new = prev")
  case True
  then show thesis by (intro that [of s]) (auto simp: enter_process_def)
next
  case False
  with assms(1) obtain pn where pn: "procs s new = Some pn" by auto
  let ?s1 = "s\<lparr>cr3 := p_cr3 pn\<rparr>"
  have s1: "SwapProcess new s = Some ?s1" using pn by (simp add: SwapProcess_def SetPageDirectory_def)
  obtain s2 where s2: "(if prev \<noteq> 0 then DisableIOPortsOfProcess prev ?s1 else Some ?s1) = Some s2" "procs s2 = procs s"
    "\<And>port. permitted (tss_ioperm (tss0 s2)) port \<longleftrightarrow>
       permitted (tss_ioperm (tss0 s)) port \<and> \<not> (prev \<noteq> 0 \<and> port \<in> ports_of (the (procs s prev)))"
  proof (cases "prev = 0")
    case True
    then show thesis by (intro that [of ?s1]) simp_all
  next
    case prev: False
    with assms(2) obtain pp where "procs ?s1 prev = Some pp" by auto
    then show thesis by (rule DisableIOPorts_spec) (use prev \<open>procs ?s1 prev = Some pp\<close> in \<open>auto intro!: that\<close>)
  qed
  let ?s3 = "EnableIOPortsOfProcess new s2"
  have n2: "procs s2 new = Some pn" using s2(2) pn by simp
  have s3: "\<exists>s3. ?s3 = Some s3 \<and> (\<forall>port. permitted (tss_ioperm (tss0 s3)) port \<longleftrightarrow> permitted (tss_ioperm (tss0 s2)) port \<or> port \<in> ports_of pn) \<and>
      tss_iomap_base (tss0 s3) = (if p_ports_used pn = 0 then SIZEOF_TSS else OFFSETOF_IOPERM)"
    using n2 by (cases "p_ports_used pn = 0")
      (simp_all add: EnableIOPortsOfProcess_def switch_ports_def permit_ports_spec ports_of_def lessThan_atLeast0)
  then obtain s3 where "?s3 = Some s3" "\<And>port. permitted (tss_ioperm (tss0 s3)) port \<longleftrightarrow> permitted (tss_ioperm (tss0 s2)) port \<or> port \<in> ports_of pn"
    "tss_iomap_base (tss0 s3) = (if p_ports_used pn = 0 then SIZEOF_TSS else OFFSETOF_IOPERM)" by blast
  moreover have "enter_process prev new s = Some s3" if "?s3 = Some s3" for s3
    using False s1 s2(1) that by (auto simp: enter_process_def)
  ultimately show thesis using s2(3) pn False by (intro that [of s3]) auto
qed

section \<open>An example\<close>

definition ex_thread :: Thread where
  "ex_thread = \<lparr>t_esp = 0, t_kernel_stack = 0, t_trapframe = 0, t_stack_top = 0, t_quantum = 0, t_state = THREAD_READY,
     t_pl = THREAD_KERNEL, t_priority = PRIORITY_LOW, t_id = 0, t_waiting_on = 0, t_owner = 0, t_next = 0\<rparr>"

text \<open>Two kernel threads with their stacks in the pages 1 and 3; the first one runs.\<close>

definition two_threads :: task_state where
  "two_threads = \<lparr>mem_regions = (\<lambda>_. zero_region), mem_regions_idx = 0,
     bitmap = (\<lambda>_. 0xFFFFFFFF)(10 := 0), highest_addr = 0x300000,
     pmem = (\<lambda>_ _. 0)(1 := (\<lambda>_. 0)(0 := 0x3007, 1023 := 0x1003), 3 := (\<lambda>_. 0)(1 := 0x5007, 3 := 0x6007)),
     cr3 = 0x1000, cpuid_features = 0,
     heap_bitmap = (\<lambda>_. 0), caches = (\<lambda>_. \<lparr>sc_slabs = 0, sc_objsize = 0\<rparr>), allocator_initialized = False,
     page_flags = 3, slabs = Map.empty, links = (\<lambda>_. 0), physframes = (\<lambda>_ _. 0),
     threads = [0xC0200000 \<mapsto> ex_thread\<lparr>t_state := THREAD_RUNNING, t_next := 0xC0200100\<rparr>,
       0xC0200100 \<mapsto> ex_thread\<lparr>t_esp := 0x3F00, t_id := 1\<rparr>],
     junk_threads = (\<lambda>_. ex_thread), procs = Map.empty, thread_list = 0xC0200000, current_thread = 0xC0200000,
     NeedsResched = True, next_id = 2,
     cpu = \<lparr>r_ebp = 1, r_ebx = 2, r_esi = 3, r_edi = 4, r_esp = 0x1F00, r_eip = 0xC0101000\<rparr>,
     tss0 = \<lparr>tss_esp0 = 0, tss_ss0 = 0x10, tss_iomap_base = SIZEOF_TSS, tss_ioperm = (\<lambda>_. 0xFF), tss_terminator = 0xFF\<rparr>,
     tss_stack = 0, sysenter_esp = 0, ticks = 0\<rparr>"

end
