(* ===== verification/KString.thy ===== *)
theory KString
  imports Prelude
begin

text \<open>
  The string functions, \<^verbatim>\<open>src/freestanding/string/string.c\<close>, \<^verbatim>\<open>kstring.h\<close> and
  \<^verbatim>\<open>string.asm\<close>.

  A \<^verbatim>\<open>char\<close> array is the list of its characters, the part behind the terminating zero
  included. Reading or writing outside of it is a fault (\<open>None\<close>). A pointer into an array is
  an index, a pointer that may be null an \<open>option\<close>.
\<close>

section \<open>Character arrays\<close>

abbreviation NUL :: char where "NUL \<equiv> CHR 0x00"

definition rd :: "string \<Rightarrow> nat \<Rightarrow> char option" where
  "rd s i = (if i < length s then Some (s ! i) else None)"

definition wr :: "string \<Rightarrow> nat \<Rightarrow> char \<Rightarrow> string option" where
  "wr s i c = (if i < length s then Some (s[i := c]) else None)"

definition char_code :: "char \<Rightarrow> int" where
  "char_code c = of_char c"

definition schar_code :: "char \<Rightarrow> int" where
  "schar_code c = (if char_code c < 128 then char_code c else char_code c - 256)"

lemma rd_less: "rd s i = Some c \<Longrightarrow> i < length s"
  by (simp add: rd_def split: if_splits)

lemma rd_less_sym: "Some c = rd s i \<Longrightarrow> i < length s"
  by (rule rd_less [of s i c]) simp

section \<open>Length and comparison\<close>

function strlen_from :: "string \<Rightarrow> nat \<Rightarrow> nat option" where
  "strlen_from s i = (case rd s i of None \<Rightarrow> None | Some c \<Rightarrow> if c = NUL then Some i else strlen_from s (Suc i))"
  by pat_completeness auto
termination
  by (relation "measure (\<lambda>(s, i). length s - i)") (auto dest: rd_less rd_less_sym)

definition strlen :: "string \<Rightarrow> nat option" where
  "strlen s = strlen_from s 0"

function strcmp_from :: "string \<Rightarrow> string \<Rightarrow> nat \<Rightarrow> int option" where
  "strcmp_from s t i =
     (case (rd s i, rd t i) of
        (Some a, Some b) \<Rightarrow>
          if a \<noteq> b then Some (char_code a - char_code b)
          else if a = NUL then Some 0 else strcmp_from s t (Suc i)
      | _ \<Rightarrow> None)"
  by pat_completeness auto
termination
  by (relation "measure (\<lambda>(s, t, i). length s - i)") (auto dest: rd_less rd_less_sym)

definition strcmp :: "string \<Rightarrow> string \<Rightarrow> int option" where
  "strcmp s t = strcmp_from s t 0"

function strnlen_from :: "string \<Rightarrow> nat \<Rightarrow> nat \<Rightarrow> nat option" where
  "strnlen_from s maxlen i =
     (if i < maxlen then case rd s i of None \<Rightarrow> None | Some c \<Rightarrow> if c = NUL then Some i else strnlen_from s maxlen (Suc i)
      else Some i)"
  by pat_completeness auto
termination
  by (relation "measure (\<lambda>(s, maxlen, i). maxlen - i)") auto

definition strnlen :: "string \<Rightarrow> nat \<Rightarrow> nat option" where
  "strnlen s maxlen = strnlen_from s maxlen 0"

function strncmp_from :: "string \<Rightarrow> string \<Rightarrow> nat \<Rightarrow> nat \<Rightarrow> int option" where
  "strncmp_from s t maxlen i =
     (if i < maxlen then
        case (rd s i, rd t i) of
          (Some a, Some b) \<Rightarrow>
            if a = NUL \<and> b = NUL then Some 0
            else if char_code a < char_code b then Some (- 1)
            else if char_code a > char_code b then Some 1
            else strncmp_from s t maxlen (Suc i)
        | _ \<Rightarrow> None
      else Some 0)"
  by pat_completeness auto
termination
  by (relation "measure (\<lambda>(s, t, maxlen, i). maxlen - i)") auto

definition strncmp :: "string \<Rightarrow> string \<Rightarrow> nat \<Rightarrow> int option" where
  "strncmp s t maxlen = strncmp_from s t maxlen 0"

section \<open>Letter case\<close>

definition tolower :: "int \<Rightarrow> int" where
  "tolower c = (if 65 \<le> c \<and> c \<le> 90 then c + 0x20 else c)"

definition toupper :: "int \<Rightarrow> int" where
  "toupper c = (if 97 \<le> c \<and> c \<le> 122 then c - 0x20 else c)"

definition lower :: "char \<Rightarrow> int" where
  "lower c = tolower (char_code c)"

definition upper :: "char \<Rightarrow> char" where
  "upper c = char_of (toupper (char_code c))"

function strupr_from :: "string \<Rightarrow> nat \<Rightarrow> string option" where
  "strupr_from s i =
     (case rd s i of
        None \<Rightarrow> None
      | Some c \<Rightarrow> if c = NUL then Some s else strupr_from (s[i := upper c]) (Suc i))"
  by pat_completeness auto
termination
  by (relation "measure (\<lambda>(s, i). length s - i)") (auto dest: rd_less rd_less_sym)

definition strupr :: "string option \<Rightarrow> string option option" where
  "strupr str = (case str of None \<Rightarrow> Some None | Some s \<Rightarrow> map_option Some (strupr_from s 0))"

function casecmp_from :: "string \<Rightarrow> string \<Rightarrow> nat \<Rightarrow> int option" where
  "casecmp_from s t i =
     (case (rd s i, rd t i) of
        (Some c, Some d) \<Rightarrow>
          let a = lower c; b = lower d
          in if a \<noteq> b \<or> a = 0 then Some (a - b) else casecmp_from s t (Suc i)
      | _ \<Rightarrow> None)"
  by pat_completeness auto
termination
  by (relation "measure (\<lambda>(s, t, i). length s - i)") (auto dest: rd_less rd_less_sym)

text \<open>With a null argument the pointers are compared.\<close>

definition strcasecmp :: "string option \<Rightarrow> string option \<Rightarrow> int option" where
  "strcasecmp s1 s2 =
     (case (s1, s2) of
        (Some s, Some t) \<Rightarrow> casecmp_from s t 0
      | (None, None) \<Rightarrow> Some 0
      | _ \<Rightarrow> Some 1)"

function ncasecmp_from :: "string \<Rightarrow> string \<Rightarrow> nat \<Rightarrow> nat \<Rightarrow> int option" where
  "ncasecmp_from s t n i =
     (if i < n then
        case (rd s i, rd t i) of
          (Some c, Some d) \<Rightarrow>
            let a = lower c; b = lower d
            in if a \<noteq> b then Some (a - b) else if a = 0 then Some 0 else ncasecmp_from s t n (Suc i)
        | _ \<Rightarrow> None
      else Some 0)"
  by pat_completeness auto
termination
  by (relation "measure (\<lambda>(s, t, n, i). n - i)") auto

definition strncasecmp :: "string option \<Rightarrow> string option \<Rightarrow> nat \<Rightarrow> int option" where
  "strncasecmp s1 s2 n_chars =
     (case (s1, s2) of
        (Some s, Some t) \<Rightarrow> ncasecmp_from s t n_chars 0
      | (None, None) \<Rightarrow> Some 0
      | (Some _, None) \<Rightarrow> Some 1
      | (None, Some _) \<Rightarrow> Some (- 1))"

declare strlen_from.simps [simp del] strcmp_from.simps [simp del] strnlen_from.simps [simp del]
  strncmp_from.simps [simp del] strupr_from.simps [simp del] casecmp_from.simps [simp del] ncasecmp_from.simps [simp del]

section \<open>Copying\<close>

function strcpy_from :: "string \<Rightarrow> string \<Rightarrow> nat \<Rightarrow> string option" where
  "strcpy_from dest src i =
     (case rd src i of
        None \<Rightarrow> None
      | Some c \<Rightarrow>
          if c \<noteq> NUL then case wr dest i c of None \<Rightarrow> None | Some dest' \<Rightarrow> strcpy_from dest' src (Suc i)
          else wr dest i NUL)"
  by pat_completeness auto
termination
  by (relation "measure (\<lambda>(dest, src, i). length src - i)") (auto dest: rd_less rd_less_sym)

definition strcpy :: "string \<Rightarrow> string \<Rightarrow> string option" where
  "strcpy dest src = strcpy_from dest src 0"

function strncpy_pad :: "string \<Rightarrow> nat \<Rightarrow> nat \<Rightarrow> string option" where
  "strncpy_pad dest n i =
     (if i < n then case wr dest i NUL of None \<Rightarrow> None | Some dest' \<Rightarrow> strncpy_pad dest' n (Suc i) else Some dest)"
  by pat_completeness auto
termination
  by (relation "measure (\<lambda>(dest, n, i). n - i)") auto

function strncpy_from :: "string \<Rightarrow> string \<Rightarrow> nat \<Rightarrow> nat \<Rightarrow> string option" where
  "strncpy_from dest src n i =
     (if i < n then
        case rd src i of
          None \<Rightarrow> None
        | Some c \<Rightarrow>
            if c \<noteq> NUL then case wr dest i c of None \<Rightarrow> None | Some dest' \<Rightarrow> strncpy_from dest' src n (Suc i)
            else strncpy_pad dest n i
      else strncpy_pad dest n i)"
  by pat_completeness auto
termination
  by (relation "measure (\<lambda>(dest, src, n, i). n - i)") auto

definition strncpy :: "string \<Rightarrow> string \<Rightarrow> nat \<Rightarrow> string option" where
  "strncpy dest src n = strncpy_from dest src n 0"

declare strcpy_from.simps [simp del] strncpy_pad.simps [simp del] strncpy_from.simps [simp del]

section \<open>Searching\<close>

text \<open>How much of the needle matches at the position, the inner loop of \<^verbatim>\<open>strstr\<close>.\<close>

function match_from :: "string \<Rightarrow> nat \<Rightarrow> string \<Rightarrow> nat \<Rightarrow> nat option" where
  "match_from haystack h needle n =
     (case rd haystack h of
        None \<Rightarrow> None
      | Some a \<Rightarrow>
          if a = NUL then Some n
          else case rd needle n of
            None \<Rightarrow> None
          | Some b \<Rightarrow> if b \<noteq> NUL \<and> a = b then match_from haystack (Suc h) needle (Suc n) else Some n)"
  by pat_completeness auto
termination
  by (relation "measure (\<lambda>(haystack, h, needle, n). length haystack - h)") (auto dest: rd_less rd_less_sym)

function strstr_from :: "string \<Rightarrow> string \<Rightarrow> nat \<Rightarrow> nat option option" where
  "strstr_from haystack needle i =
     (case rd haystack i of
        None \<Rightarrow> None
      | Some c \<Rightarrow>
          if c = NUL then Some None
          else case match_from haystack i needle 0 of
            None \<Rightarrow> None
          | Some n \<Rightarrow>
              (case rd needle n of
                 None \<Rightarrow> None
               | Some b \<Rightarrow> if b = NUL then Some (Some i) else strstr_from haystack needle (Suc i)))"
  by pat_completeness auto
termination
  by (relation "measure (\<lambda>(haystack, needle, i). length haystack - i)") (auto dest: rd_less rd_less_sym)

definition strstr :: "string \<Rightarrow> string \<Rightarrow> nat option option" where
  "strstr haystack needle =
     (case rd needle 0 of
        None \<Rightarrow> None
      | Some c \<Rightarrow> if c = NUL then Some (Some 0) else strstr_from haystack needle 0)"

declare match_from.simps [simp del] strstr_from.simps [simp del]

fun chr_down :: "string \<Rightarrow> int \<Rightarrow> nat \<Rightarrow> nat option option" where
  "chr_down s c 0 = Some None"
| "chr_down s c (Suc m) =
     (case rd s m of None \<Rightarrow> None | Some a \<Rightarrow> if schar_code a = c then Some (Some m) else chr_down s c m)"

definition strchr :: "string option \<Rightarrow> int \<Rightarrow> nat option option" where
  "strchr str c =
     (case str of
        None \<Rightarrow> Some None
      | Some s \<Rightarrow> (case strlen s of None \<Rightarrow> None | Some n \<Rightarrow> chr_down s c (n + 1)))"

text \<open>The loop of \<^verbatim>\<open>StringHasPrefix\<close>: the first characters only are tested for the end.\<close>

function prefix_from :: "string \<Rightarrow> string \<Rightarrow> nat \<Rightarrow> nat \<Rightarrow> bool option" where
  "prefix_from str prefix len i =
     (if i < len then
        case (rd str 0, rd prefix 0) of
          (Some a, Some b) \<Rightarrow>
            if a = NUL \<or> b = NUL then Some True
            else (case (rd str i, rd prefix i) of
                (Some a, Some b) \<Rightarrow> if a \<noteq> b then Some False else prefix_from str prefix len (Suc i)
              | _ \<Rightarrow> None)
        | _ \<Rightarrow> None
      else Some True)"
  by pat_completeness auto
termination
  by (relation "measure (\<lambda>(str, prefix, len, i). len - i)") auto

definition StringHasPrefix :: "string \<Rightarrow> string \<Rightarrow> nat \<Rightarrow> bool option" where
  "StringHasPrefix str prefix maxcmp =
     (if maxcmp = 0 then do {
        m \<leftarrow> strlen str;
        n \<leftarrow> strlen prefix;
        prefix_from str prefix (min m n) 0
      } else prefix_from str prefix maxcmp 0)"

declare prefix_from.simps [simp del]

section \<open>Numbers\<close>

definition digit_char :: "bool \<Rightarrow> nat \<Rightarrow> char" where
  "digit_char uppercase d = char_of (if d < 10 then 48 + d else (if uppercase then 65 else 97) + (d - 10))"

text \<open>The digits of a number into a buffer, the lowest first; the number of digits with it.\<close>

partial_function (option) put_digits :: "bool \<Rightarrow> nat \<Rightarrow> nat \<Rightarrow> string \<Rightarrow> nat \<Rightarrow> (string \<times> nat) option" where
  "put_digits uppercase base v buf n =
     (if v \<noteq> 0 then
        Option.bind (wr buf n (digit_char uppercase (v mod base))) (\<lambda>buf'.
          put_digits uppercase base (v div base) buf' (Suc n))
      else Some (buf, n))"

declare put_digits.simps [code]

fun put_reverse :: "string \<Rightarrow> string \<Rightarrow> nat \<Rightarrow> nat \<Rightarrow> string option" where
  "put_reverse str buf 0 j = wr str j NUL"
| "put_reverse str buf (Suc i) j = do {
     c \<leftarrow> rd buf i;
     str' \<leftarrow> wr str j c;
     put_reverse str' buf i (Suc j)
   }"

definition itoa_with :: "nat \<Rightarrow> nat \<Rightarrow> string \<Rightarrow> int \<Rightarrow> string option" where
  "itoa_with bufsize v str base =
     (if base < 2 \<or> base > 16 then wr str 0 NUL
      else if v = 0 then do {
        str' \<leftarrow> wr str 0 (CHR ''0'');
        wr str' 1 NUL
      }
      else do {
        (buf, i) \<leftarrow> put_digits False (nat base) v (replicate bufsize NUL) 0;
        put_reverse str buf i 0
      })"

definition itoa :: "u32 \<Rightarrow> string \<Rightarrow> int \<Rightarrow> string option" where
  "itoa v str base = itoa_with 32 (unat v) str base"

definition itoa_z :: "u64 \<Rightarrow> string \<Rightarrow> int \<Rightarrow> string option" where
  "itoa_z v str base = itoa_with 65 (unat v) str base"

section \<open>Status codes\<close>

fun StatusCodeToString :: "Status \<Rightarrow> string" where
  "StatusCodeToString STATUS_OK = ''Good Status''"
| "StatusCodeToString STATUS_BAD = ''Bad Status''"
| "StatusCodeToString STATUS_BAD_ARGUMENT = ''Invalid argument supplied''"
| "StatusCodeToString STATUS_RETRY = ''Operation must be repeated''"
| "StatusCodeToString STATUS_OUT_OF_MEMORY = ''Kernel has ran out of memory''"
| "StatusCodeToString STATUS_UNSUPPORTED = ''Unsupported request''"
| "StatusCodeToString STATUS_TIMEOUT = ''Resource not available at this time''"
| "StatusCodeToString STATUS_NO_ENDPOINT = ''No endpoint for message''"
| "StatusCodeToString STATUS_BAD_SYSCALL = ''Bad system call number given to kernel''"
| "StatusCodeToString _ = ''Bad Code''"

section \<open>Formatted output\<close>

text \<open>A variable argument; reading one of another kind than was passed is undefined.\<close>

datatype va = VInt u32 | VStr "string option" | VLong u64

definition bputc :: "string \<Rightarrow> u32 \<Rightarrow> u32 \<Rightarrow> char \<Rightarrow> (string \<times> u32) option" where
  "bputc buf bufsize idx c =
     (if bufsize > 0 \<and> idx < bufsize - 1
      then map_option (\<lambda>buf'. (buf', idx + 1)) (wr buf (unat idx) c)
      else Some (buf, idx + 1))"

function bputs_from :: "string \<Rightarrow> u32 \<Rightarrow> u32 \<Rightarrow> string \<Rightarrow> nat \<Rightarrow> (string \<times> u32) option" where
  "bputs_from buf bufsize idx s i =
     (case rd s i of
        None \<Rightarrow> None
      | Some c \<Rightarrow>
          if c = NUL then Some (buf, idx)
          else case bputc buf bufsize idx c of None \<Rightarrow> None | Some (buf', idx') \<Rightarrow> bputs_from buf' bufsize idx' s (Suc i))"
  by pat_completeness auto
termination
  by (relation "measure (\<lambda>(buf, bufsize, idx, s, i). length s - i)") (auto dest: rd_less)

declare bputs_from.simps [simp del]

definition bputs :: "string \<Rightarrow> u32 \<Rightarrow> u32 \<Rightarrow> string option \<Rightarrow> (string \<times> u32) option" where
  "bputs buf bufsize idx s =
     bputs_from buf bufsize idx (case s of None \<Rightarrow> ''(null)'' @ [NUL] | Some s' \<Rightarrow> s') 0"

fun bput_reverse :: "string \<Rightarrow> u32 \<Rightarrow> u32 \<Rightarrow> string \<Rightarrow> nat \<Rightarrow> (string \<times> u32) option" where
  "bput_reverse buf bufsize idx tmp 0 = Some (buf, idx)"
| "bput_reverse buf bufsize idx tmp (Suc n) = do {
     c \<leftarrow> rd tmp n;
     (buf', idx') \<leftarrow> bputc buf bufsize idx c;
     bput_reverse buf' bufsize idx' tmp n
   }"

definition bputud :: "string \<Rightarrow> u32 \<Rightarrow> u32 \<Rightarrow> u64 \<Rightarrow> nat \<Rightarrow> bool \<Rightarrow> (string \<times> u32) option" where
  "bputud buf bufsize idx v base uppercase =
     (if base < 2 \<or> base > 16 then Some (buf, idx)
      else do {
        (tmp, n) \<leftarrow> (if v = 0 then map_option (\<lambda>tmp. (tmp, 1)) (wr (replicate 66 NUL) 0 (CHR ''0''))
                    else put_digits uppercase base (unat v) (replicate 66 NUL) 0);
        bput_reverse buf bufsize idx tmp n
      })"

text \<open>One conversion: the argument it takes and what it writes.\<close>

definition convert :: "char \<Rightarrow> va list \<Rightarrow> string \<Rightarrow> u32 \<Rightarrow> u32 \<Rightarrow> ((string \<times> u32) \<times> va list) option" where
  "convert f ap buf bufsize idx =
     (if f = CHR ''%'' then map_option (\<lambda>r. (r, ap)) (bputc buf bufsize idx (CHR ''%''))
      else if f = CHR ''c'' then
        (case ap of VInt v # ap' \<Rightarrow> map_option (\<lambda>r. (r, ap')) (bputc buf bufsize idx (char_of (unat v))) | _ \<Rightarrow> None)
      else if f = CHR ''s'' then
        (case ap of VStr s # ap' \<Rightarrow> map_option (\<lambda>r. (r, ap')) (bputs buf bufsize idx s) | _ \<Rightarrow> None)
      else if f = CHR ''d'' \<or> f = CHR ''i'' then
        (case ap of
           VInt v # ap' \<Rightarrow>
             if sint v < 0 then do {
               (buf', idx') \<leftarrow> bputc buf bufsize idx (CHR ''-'');
               map_option (\<lambda>r. (r, ap')) (bputud buf' bufsize idx' (- scast v) 10 False)
             } else map_option (\<lambda>r. (r, ap')) (bputud buf bufsize idx (ucast v) 10 False)
         | _ \<Rightarrow> None)
      else if f = CHR ''u'' then
        (case ap of VInt v # ap' \<Rightarrow> map_option (\<lambda>r. (r, ap')) (bputud buf bufsize idx (ucast v) 10 False) | _ \<Rightarrow> None)
      else if f = CHR ''x'' then
        (case ap of VInt v # ap' \<Rightarrow> map_option (\<lambda>r. (r, ap')) (bputud buf bufsize idx (ucast v) 16 False) | _ \<Rightarrow> None)
      else if f = CHR ''X'' then
        (case ap of VInt v # ap' \<Rightarrow> map_option (\<lambda>r. (r, ap')) (bputud buf bufsize idx (ucast v) 16 True) | _ \<Rightarrow> None)
      else if f = CHR ''p'' then
        (case ap of
           VInt v # ap' \<Rightarrow> do {
             (buf', idx') \<leftarrow> bputs buf bufsize idx (Some (''0x'' @ [NUL]));
             map_option (\<lambda>r. (r, ap')) (bputud buf' bufsize idx' (ucast v) 16 False)
           }
         | _ \<Rightarrow> None)
      else if f = CHR ''r'' then
        (case ap of
           VLong v # ap' \<Rightarrow> do {
             (buf', idx') \<leftarrow> bputs buf bufsize idx (Some (''0x'' @ [NUL]));
             map_option (\<lambda>r. (r, ap')) (bputud buf' bufsize idx' v 16 False)
           }
         | _ \<Rightarrow> None)
      else if f = CHR ''f'' then Some ((buf, idx), ap)
      else do {
        (buf', idx') \<leftarrow> bputc buf bufsize idx (CHR ''%'');
        map_option (\<lambda>r. (r, ap)) (bputc buf' bufsize idx' f)
      })"

function format_from :: "string \<Rightarrow> nat \<Rightarrow> va list \<Rightarrow> string \<Rightarrow> u32 \<Rightarrow> u32 \<Rightarrow> (string \<times> u32) option" where
  "format_from fmt k ap buf maxsize idx =
     (case rd fmt k of
        None \<Rightarrow> None
      | Some c \<Rightarrow>
          if c = NUL then Some (buf, idx)
          else if c \<noteq> CHR ''%'' then
            (case bputc buf maxsize idx c of
               None \<Rightarrow> None
             | Some (buf', idx') \<Rightarrow> format_from fmt (Suc k) ap buf' maxsize idx')
          else case rd fmt (Suc k) of
            None \<Rightarrow> None
          | Some f \<Rightarrow>
              if f = NUL then Some (buf, idx)
              else case convert f ap buf maxsize idx of
                None \<Rightarrow> None
              | Some ((buf', idx'), ap') \<Rightarrow> format_from fmt (Suc (Suc k)) ap' buf' maxsize idx')"
  by pat_completeness auto
termination
  by (relation "measure (\<lambda>(fmt, k, ap, buf, maxsize, idx). length fmt - k)") (auto dest: rd_less)

declare format_from.simps [simp del]

definition INT_MAX :: int where
  "INT_MAX = 0x7FFFFFFF"

definition vsnprintf :: "string \<Rightarrow> u32 \<Rightarrow> string \<Rightarrow> va list \<Rightarrow> (int \<times> string) option" where
  "vsnprintf buf maxsize fmt ap = do {
     (buf', idx) \<leftarrow> format_from fmt 0 ap buf maxsize 0;
     buf'' \<leftarrow> (if maxsize > 0 then wr buf' (unat (if idx \<ge> maxsize then maxsize - 1 else idx)) NUL else Some buf');
     Some (if int (unat idx) > INT_MAX then INT_MAX else int (unat idx), buf'')
   }"

definition snprintf :: "string \<Rightarrow> u32 \<Rightarrow> string \<Rightarrow> va list \<Rightarrow> (int \<times> string) option" where
  "snprintf str maxsize fmt ap = vsnprintf str maxsize fmt ap"

section \<open>Zero terminated strings: facts\<close>

definition cstr :: "string \<Rightarrow> string \<Rightarrow> bool" where
  "cstr s xs \<longleftrightarrow> (\<exists>rest. s = xs @ NUL # rest) \<and> NUL \<notin> set xs"

lemma cstr_rd:
  assumes "cstr s xs"
  shows "i < length xs \<Longrightarrow> rd s i = Some (xs ! i)" and "rd s (length xs) = Some NUL"
    and "i < length xs \<Longrightarrow> xs ! i \<noteq> NUL" and "length xs < length s"
  using assms by (auto simp: cstr_def rd_def nth_append) (metis nth_mem)

lemma strlen_from_cstr: "cstr s xs \<Longrightarrow> i \<le> length xs \<Longrightarrow> strlen_from s i = Some (length xs)"
proof (induction "length xs - i" arbitrary: i)
  case 0
  then show ?case using cstr_rd(2) [OF 0(2)] by (subst strlen_from.simps) simp
next
  case (Suc d)
  then show ?case using cstr_rd(1,3) [OF Suc(3), of i] by (subst strlen_from.simps) simp
qed

lemma strlen_cstr: "cstr s xs \<Longrightarrow> strlen s = Some (length xs)"
  by (simp add: strlen_def strlen_from_cstr)

section \<open>Formatted output: facts\<close>

text \<open>The number in a base, written without a buffer.\<close>

function show_num :: "bool \<Rightarrow> nat \<Rightarrow> nat \<Rightarrow> string" where
  "show_num u b n = (if n < b \<or> b < 2 then [digit_char u n] else show_num u b (n div b) @ [digit_char u (n mod b)])"
  by pat_completeness auto
termination
  by (relation "measure (\<lambda>(u, b, n). n)") auto

declare show_num.simps [simp del]

lemma show_num_length: "n < b ^ m \<Longrightarrow> 2 \<le> b \<Longrightarrow> 0 < m \<Longrightarrow> length (show_num u b n) \<le> m"
proof (induction m arbitrary: n)
  case 0
  then show ?case by simp
next
  case (Suc m)
  show ?case
  proof (cases "n < b \<or> m = 0")
    case True
    with Suc.prems show ?thesis by (subst show_num.simps) auto
  next
    case False
    then have "n div b < b ^ m" using Suc.prems by (intro less_mult_imp_div_less) (simp add: mult.commute)
    with Suc.IH [of "n div b"] False Suc.prems(2) show ?thesis by (subst show_num.simps) simp
  qed
qed

lemma put_digits_spec:
  assumes "2 \<le> base" and "0 < v" and "n + length (show_num u base v) \<le> length buf"
  shows "\<exists>buf'. put_digits u base v buf n = Some (buf', n + length (show_num u base v)) \<and> length buf' = length buf \<and>
    take n buf' = take n buf \<and> take (length (show_num u base v)) (drop n buf') = rev (show_num u base v)"
  using assms(2,3)
proof (induction v arbitrary: buf n rule: less_induct)
  case (less v)
  let ?c = "digit_char u (v mod base)"
  show ?case
  proof (cases "v < base")
    case True
    then have s: "show_num u base v = [?c]" by (subst show_num.simps) simp
    then have n: "n < length buf" using less.prems(2) by simp
    have "put_digits u base v buf n = Some (buf[n := ?c], Suc n)"
      using less.prems(1) n True by (simp add: put_digits.simps [of u base v] put_digits.simps [of u base 0] wr_def)
    then show ?thesis using s n by (simp add: take_Suc_conv_app_nth Cons_nth_drop_Suc [symmetric])
  next
    case False
    let ?s = "show_num u base (v div base)"
    have s: "show_num u base v = ?s @ [?c]" using False assms(1) by (subst show_num.simps) simp
    have n: "n < length buf" "Suc n + length ?s \<le> length (buf[n := ?c])" using less.prems(2) s by simp_all
    have d: "v div base < v" "0 < v div base" using False assms(1) less.prems(1) by (simp_all add: div_greater_zero_iff)
    obtain buf' where b: "put_digits u base (v div base) (buf[n := ?c]) (Suc n) = Some (buf', Suc n + length ?s)"
      "length buf' = length buf" "take (Suc n) buf' = take (Suc n) (buf[n := ?c])" "take (length ?s) (drop (Suc n) buf') = rev ?s"
      using less.IH [OF d n(2)] by auto
    have "put_digits u base v buf n = Some (buf', Suc n + length ?s)"
      using less.prems(1) n(1) b(1) by (simp add: put_digits.simps [of u base v] wr_def)
    moreover have "buf' ! n = ?c" "take n buf' = take n buf"
    proof -
      have "take (Suc n) buf' ! n = ?c" unfolding b(3) using n(1) by simp
      then show "buf' ! n = ?c" by simp
      have "take n (take (Suc n) buf') = take n buf" unfolding b(3) by simp
      then show "take n buf' = take n buf" by (simp add: min_def)
    qed
    moreover have "drop n buf' = buf' ! n # drop (Suc n) buf'" using n(1) b(2) by (simp add: Cons_nth_drop_Suc)
    ultimately show ?thesis using b(2,4) s by simp
  qed
qed

text \<open>What has been put out so far, and how much of it is in the buffer.\<close>

definition out_ok :: "string \<Rightarrow> u32 \<Rightarrow> string \<Rightarrow> string \<times> u32 \<Rightarrow> bool" where
  "out_ok buf0 bufsize out r \<longleftrightarrow>
     length (fst r) = length buf0 \<and> snd r = of_nat (length out) \<and>
     (\<forall>i < length buf0. fst r ! i = (if i < length out \<and> Suc i < unat bufsize then out ! i else buf0 ! i))"

text \<open>An operation that puts out the characters \<open>xs\<close>.\<close>

definition emits :: "string \<Rightarrow> u32 \<Rightarrow> (string \<Rightarrow> u32 \<Rightarrow> (string \<times> u32) option) \<Rightarrow> string \<Rightarrow> bool" where
  "emits buf0 bufsize f xs \<longleftrightarrow>
     (\<forall>out buf idx. out_ok buf0 bufsize out (buf, idx) \<and> length (out @ xs) < 2 ^ 32 \<longrightarrow>
        (\<exists>r. f buf idx = Some r \<and> out_ok buf0 bufsize (out @ xs) r))"

lemma emitsD:
  assumes "emits buf0 bufsize f xs" and "out_ok buf0 bufsize out (buf, idx)" and "length (out @ xs) < 2 ^ 32"
  obtains r where "f buf idx = Some r" "out_ok buf0 bufsize (out @ xs) r"
  using assms unfolding emits_def by blast

lemma emits_bputc:
  assumes "unat bufsize \<le> length buf0"
  shows "emits buf0 bufsize (\<lambda>buf idx. bputc buf bufsize idx c) [c]"
  unfolding emits_def
proof (intro allI impI, elim conjE)
  fix out buf idx assume ok: "out_ok buf0 bufsize out (buf, idx)" and len: "length (out @ [c]) < 2 ^ 32"
  have u: "unat idx = length out" using ok len by (simp add: out_ok_def unat_of_nat)
  have s: "idx + 1 = of_nat (length (out @ [c]))" using ok by (simp add: out_ok_def)
  have "bufsize > 0 \<and> idx < bufsize - 1 \<longleftrightarrow> Suc (length out) < unat bufsize"
  proof (cases "bufsize = 0")
    case False
    then have "unat (bufsize - 1) = unat bufsize - 1" by (simp add: unat_minus_one)
    moreover have "0 < unat bufsize" using False by (simp add: unat_gt_0)
    ultimately show ?thesis using u unfolding word_less_nat_alt by simp linarith
  qed simp
  note cond = this
  show "\<exists>r. bputc buf bufsize idx c = Some r \<and> out_ok buf0 bufsize (out @ [c]) r"
  proof (cases "Suc (length out) < unat bufsize")
    case True
    have "bputc buf bufsize idx c = Some (buf[length out := c], idx + 1)"
      using True cond ok u assms unfolding bputc_def wr_def out_ok_def by simp
    moreover have "out_ok buf0 bufsize (out @ [c]) (buf[length out := c], idx + 1)"
      unfolding out_ok_def fst_conv snd_conv
    proof (intro conjI allI impI)
      show "length (buf[length out := c]) = length buf0" using ok by (simp add: out_ok_def)
      show "idx + 1 = of_nat (length (out @ [c]))" by (rule s)
      fix i assume i: "i < length buf0"
      then have b: "buf ! i = (if i < length out \<and> Suc i < unat bufsize then out ! i else buf0 ! i)" "length buf = length buf0"
        using ok by (simp_all add: out_ok_def)
      show "buf[length out := c] ! i = (if i < length (out @ [c]) \<and> Suc i < unat bufsize then (out @ [c]) ! i else buf0 ! i)"
        using i b True by (cases "i = length out") (simp_all add: nth_append)
    qed
    ultimately show ?thesis by blast
  next
    case False
    have "bputc buf bufsize idx c = Some (buf, idx + 1)" unfolding bputc_def cond using False by (simp only: if_False)
    moreover have "out_ok buf0 bufsize (out @ [c]) (buf, idx + 1)"
      unfolding out_ok_def fst_conv snd_conv
    proof (intro conjI allI impI)
      show "length buf = length buf0" using ok by (simp add: out_ok_def)
      show "idx + 1 = of_nat (length (out @ [c]))" by (rule s)
      fix i assume i: "i < length buf0"
      then have b: "buf ! i = (if i < length out \<and> Suc i < unat bufsize then out ! i else buf0 ! i)"
        using ok by (simp add: out_ok_def)
      show "buf ! i = (if i < length (out @ [c]) \<and> Suc i < unat bufsize then (out @ [c]) ! i else buf0 ! i)"
        using b False by (cases "i = length out") (simp_all add: nth_append)
    qed
    ultimately show ?thesis by blast
  qed
qed

lemma emits_seq:
  assumes "emits buf0 bufsize f xs" and "emits buf0 bufsize g ys"
  shows "emits buf0 bufsize (\<lambda>buf idx. Option.bind (f buf idx) (\<lambda>(buf', idx'). g buf' idx')) (xs @ ys)"
  unfolding emits_def
proof (intro allI impI, elim conjE)
  fix out buf idx assume ok: "out_ok buf0 bufsize out (buf, idx)" and len: "length (out @ xs @ ys) < 2 ^ 32"
  have l: "length (out @ xs) < 2 ^ 32" "length ((out @ xs) @ ys) < 2 ^ 32" using len by simp_all
  obtain r0 where r0: "f buf idx = Some r0" "out_ok buf0 bufsize (out @ xs) r0" by (rule emitsD [OF assms(1) ok l(1)])
  obtain buf' idx' where "r0 = (buf', idx')" by fastforce
  note r = r0 [unfolded this]
  obtain r' where "g buf' idx' = Some r'" "out_ok buf0 bufsize ((out @ xs) @ ys) r'" by (rule emitsD [OF assms(2) r(2) l(2)])
  with r(1) show "\<exists>r. Option.bind (f buf idx) (\<lambda>(buf', idx'). g buf' idx') = Some r \<and> out_ok buf0 bufsize (out @ xs @ ys) r"
    by simp
qed

lemma emits_nil: "emits buf0 bufsize (\<lambda>buf idx. Some (buf, idx)) []"
  by (simp add: emits_def)

lemma emits_bputs_from:
  assumes "unat bufsize \<le> length buf0" and "cstr s xs" and "i \<le> length xs"
  shows "emits buf0 bufsize (\<lambda>buf idx. bputs_from buf bufsize idx s i) (drop i xs)"
  using assms(3)
proof (induction "length xs - i" arbitrary: i)
  case 0
  then have "bputs_from buf bufsize idx s i = Some (buf, idx)" for buf idx
    using cstr_rd(2) [OF assms(2)] by (subst bputs_from.simps) simp
  with 0 emits_nil show ?case by simp
next
  case (Suc d)
  then have i: "i < length xs" by simp
  have "bputs_from buf bufsize idx s i =
      Option.bind (bputc buf bufsize idx (xs ! i)) (\<lambda>(buf', idx'). bputs_from buf' bufsize idx' s (Suc i))" for buf idx
    using cstr_rd(1,3) [OF assms(2) i] by (subst bputs_from.simps) (simp split: option.splits)
  moreover have "drop i xs = [xs ! i] @ drop (Suc i) xs" using i by (simp add: Cons_nth_drop_Suc)
  moreover have "emits buf0 bufsize (\<lambda>buf idx. bputs_from buf bufsize idx s (Suc i)) (drop (Suc i) xs)"
    using Suc(1) [of "Suc i"] Suc(2) i by simp
  ultimately show ?case using emits_seq [OF emits_bputc [OF assms(1)]] by simp
qed

lemma emits_bput_reverse:
  assumes "unat bufsize \<le> length buf0" and "n \<le> length tmp"
  shows "emits buf0 bufsize (\<lambda>buf idx. bput_reverse buf bufsize idx tmp n) (rev (take n tmp))"
  using assms(2)
proof (induction n)
  case 0
  then show ?case using emits_nil by simp
next
  case (Suc n)
  then have "rd tmp n = Some (tmp ! n)" by (simp add: rd_def)
  then have "bput_reverse buf bufsize idx tmp (Suc n) =
      Option.bind (bputc buf bufsize idx (tmp ! n)) (\<lambda>(buf', idx'). bput_reverse buf' bufsize idx' tmp n)" for buf idx
    by simp
  moreover have "rev (take (Suc n) tmp) = [tmp ! n] @ rev (take n tmp)" using Suc.prems by (simp add: take_Suc_conv_app_nth)
  ultimately show ?case using emits_seq [OF emits_bputc [OF assms(1)] Suc.IH] Suc.prems by simp
qed

lemma digit_char_0: "digit_char u 0 = CHR ''0''"
proof -
  have "char_of (48 :: nat) = CHR ''0''" by code_simp
  then show ?thesis by (simp add: digit_char_def)
qed

lemma take_first: "xs \<noteq> [] \<Longrightarrow> take 1 (xs[0 := c]) = [c]"
  by (cases xs) simp_all

lemma emits_bputud:
  assumes "unat bufsize \<le> length buf0" and "2 \<le> base" and "base \<le> 16"
  shows "emits buf0 bufsize (\<lambda>buf idx. bputud buf bufsize idx v base u) (show_num u base (unat v))"
proof (cases "v = 0")
  case True
  have e: "bputud buf bufsize idx v base u = bput_reverse buf bufsize idx ((replicate 66 NUL)[0 := CHR ''0'']) 1" for buf idx
    using True assms(2,3) by (simp add: bputud_def wr_def)
  have "show_num u base (unat v) = rev (take 1 ((replicate 66 NUL)[0 := CHR ''0'']))"
    using True assms(2) by (subst show_num.simps, subst take_first) (simp_all add: digit_char_0)
  with emits_bput_reverse [OF assms(1), of 1 "(replicate 66 NUL)[0 := CHR ''0'']"] show ?thesis by (simp add: e)
next
  case False
  then have v: "0 < unat v" by (simp add: unat_gt_0)
  have "unat v < 2 ^ 64" using unsigned_less [of v] by simp
  also have "\<dots> \<le> base ^ 64" using assms(2) by (rule power_mono) simp
  finally have "length (show_num u base (unat v)) \<le> 64" using assms(2) by (intro show_num_length) simp_all
  then obtain tmp where t: "put_digits u base (unat v) (replicate 66 NUL) 0 = Some (tmp, length (show_num u base (unat v)))"
    "length tmp = 66" "take (length (show_num u base (unat v))) tmp = rev (show_num u base (unat v))"
    using put_digits_spec [OF assms(2) v, of 0 u "replicate 66 NUL"] by auto
  have "bputud buf bufsize idx v base u = bput_reverse buf bufsize idx tmp (length (show_num u base (unat v)))" for buf idx
    using False assms(2,3) t(1) by (simp add: bputud_def)
  with emits_bput_reverse [OF assms(1), of "length (show_num u base (unat v))" tmp] t \<open>length (show_num u base (unat v)) \<le> 64\<close>
  show ?thesis by simp
qed

text \<open>
  The text that a format string stands for: what one conversion contributes, with the arguments
  left over, and the whole text.
\<close>

definition piece :: "char \<Rightarrow> va list \<Rightarrow> (string \<times> va list) option" where
  "piece f ap =
     (if f = CHR ''%'' then Some (''%'', ap)
      else if f = CHR ''f'' then Some ([], ap)
      else if f = CHR ''c'' then (case ap of VInt v # ap' \<Rightarrow> Some ([char_of (unat v)], ap') | _ \<Rightarrow> None)
      else if f = CHR ''s'' then
        (case ap of
           VStr None # ap' \<Rightarrow> Some (''(null)'', ap')
         | VStr (Some s) # ap' \<Rightarrow> if NUL \<in> set s then Some (takeWhile (\<lambda>c. c \<noteq> NUL) s, ap') else None
         | _ \<Rightarrow> None)
      else if f = CHR ''d'' \<or> f = CHR ''i'' then
        (case ap of
           VInt v # ap' \<Rightarrow> Some ((if sint v < 0 then ''-'' else []) @ show_num False 10 (nat \<bar>sint v\<bar>), ap')
         | _ \<Rightarrow> None)
      else if f = CHR ''u'' then (case ap of VInt v # ap' \<Rightarrow> Some (show_num False 10 (unat v), ap') | _ \<Rightarrow> None)
      else if f = CHR ''x'' then (case ap of VInt v # ap' \<Rightarrow> Some (show_num False 16 (unat v), ap') | _ \<Rightarrow> None)
      else if f = CHR ''X'' then (case ap of VInt v # ap' \<Rightarrow> Some (show_num True 16 (unat v), ap') | _ \<Rightarrow> None)
      else if f = CHR ''p'' then (case ap of VInt v # ap' \<Rightarrow> Some (''0x'' @ show_num False 16 (unat v), ap') | _ \<Rightarrow> None)
      else if f = CHR ''r'' then (case ap of VLong v # ap' \<Rightarrow> Some (''0x'' @ show_num False 16 (unat v), ap') | _ \<Rightarrow> None)
      else Some ([CHR ''%'', f], ap))"

fun render :: "string \<Rightarrow> va list \<Rightarrow> string option" where
  "render [] ap = Some []"
| "render [c] ap = (if c = CHR ''%'' then Some [] else Some [c])"
| "render (c # f # fs) ap =
     (if c = CHR ''%'' then
        (case piece f ap of None \<Rightarrow> None | Some (xs, ap') \<Rightarrow> map_option (\<lambda>ys. xs @ ys) (render fs ap'))
      else map_option (\<lambda>ys. c # ys) (render (f # fs) ap))"

lemma piece_cases:
  assumes "piece f ap = Some (xs, ap')"
  obtains (percent) "f = CHR ''%''" "xs = ''%''" "ap = ap'"
    | (none) "f = CHR ''f''" "xs = []" "ap = ap'"
    | (char) v where "f = CHR ''c''" "ap = VInt v # ap'" "xs = [char_of (unat v)]"
    | (null) "f = CHR ''s''" "ap = VStr None # ap'" "xs = ''(null)''"
    | (str) s where "f = CHR ''s''" "ap = VStr (Some s) # ap'" "NUL \<in> set s" "xs = takeWhile (\<lambda>c. c \<noteq> NUL) s"
    | (signed) v where "f = CHR ''d'' \<or> f = CHR ''i''" "ap = VInt v # ap'"
        "xs = (if sint v < 0 then ''-'' else []) @ show_num False 10 (nat \<bar>sint v\<bar>)"
    | (unsigned) v where "f = CHR ''u''" "ap = VInt v # ap'" "xs = show_num False 10 (unat v)"
    | (hex) v where "f = CHR ''x''" "ap = VInt v # ap'" "xs = show_num False 16 (unat v)"
    | (HEX) v where "f = CHR ''X''" "ap = VInt v # ap'" "xs = show_num True 16 (unat v)"
    | (pointer) v where "f = CHR ''p''" "ap = VInt v # ap'" "xs = ''0x'' @ show_num False 16 (unat v)"
    | (long) v where "f = CHR ''r''" "ap = VLong v # ap'" "xs = ''0x'' @ show_num False 16 (unat v)"
    | (other) "f \<notin> set ''%fcsdiuxXpr''" "xs = [CHR ''%'', f]" "ap = ap'"
  using assms unfolding piece_def
  by (auto split: if_splits list.splits va.splits option.splits)

lemma cstr_takeWhile: "NUL \<in> set s \<Longrightarrow> cstr s (takeWhile (\<lambda>c. c \<noteq> NUL) s)"
proof -
  assume "NUL \<in> set s"
  then obtain xs rest where s: "s = xs @ NUL # rest" "NUL \<notin> set xs" by (meson split_list_first)
  then have "takeWhile (\<lambda>c. c \<noteq> NUL) s = xs"
    unfolding s(1) by (subst takeWhile_append2) auto
  with s show ?thesis by (auto simp: cstr_def)
qed

lemma emits_bputs:
  assumes "unat bufsize \<le> length buf0" and "cstr s xs"
  shows "emits buf0 bufsize (\<lambda>buf idx. bputs buf bufsize idx (Some s)) xs"
  using emits_bputs_from [OF assms, of 0] by (simp add: bputs_def)

lemma cstr_literal: "NUL \<notin> set xs \<Longrightarrow> cstr (xs @ [NUL]) xs"
  by (simp add: cstr_def)

lemma unat_abs:
  fixes v :: u32
  assumes neg: "sint v < 0"
  shows "unat (- scast v :: u64) = nat \<bar>sint v\<bar>"
proof -
  have ge: "- (2 ^ 31) \<le> sint v" using sint_ge [of v] by simp
  have e: "(- scast v :: u64) = word_of_int (- sint v)" by (simp only: scast_eq wi_hom_neg)
  have "uint (- scast v :: u64) = - sint v"
    unfolding e uint_word_of_int_eq using neg ge by (intro take_bit_int_eq_self) simp_all
  then have "int (unat (- scast v :: u64)) = - sint v" by (simp only: uint_nat)
  with neg show ?thesis by linarith
qed

lemma unat_widen: "unat (ucast (v :: u32) :: u64) = unat v"
  by (simp add: unsigned_ucast_eq take_bit_nat_eq_self less_trans [OF unsigned_less [of v]])

lemma unat_pos:
  fixes v :: u32
  assumes "\<not> sint v < 0"
  shows "unat (ucast v :: u64) = nat \<bar>sint v\<bar>"
proof -
  have "sint v < 2 ^ 31" using sint_less [of v] by simp
  with assms have "uint v = sint v" by (subst uint_sint) (simp add: take_bit_int_eq_self)
  then have "int (unat v) = sint v" by (simp only: uint_nat)
  with assms show ?thesis unfolding unat_widen by linarith
qed

lemma bind_map: "Option.bind m (\<lambda>(b, i). map_option h (g b i)) = map_option h (Option.bind m (\<lambda>(b, i). g b i))"
  by (cases m) auto

text \<open>What the conversions that write several things do, as one writer.\<close>

lemma convert_signed:
  assumes "f = CHR ''d'' \<or> f = CHR ''i''"
  shows "sint v < 0 \<Longrightarrow> convert f (VInt v # ap') buf n idx = map_option (\<lambda>r. (r, ap'))
      (Option.bind (bputc buf n idx (CHR ''-'')) (\<lambda>(buf', idx'). bputud buf' n idx' (- scast v) 10 False))"
    and "\<not> sint v < 0 \<Longrightarrow> convert f (VInt v # ap') buf n idx = map_option (\<lambda>r. (r, ap')) (bputud buf n idx (ucast v) 10 False)"
  using assms unfolding bind_map [symmetric] by (auto simp: convert_def)

lemma convert_hex:
  "convert (CHR ''p'') (VInt v # ap') buf n idx = map_option (\<lambda>r. (r, ap'))
      (Option.bind (bputs buf n idx (Some (''0x'' @ [NUL]))) (\<lambda>(buf', idx'). bputud buf' n idx' (ucast v) 16 False))"
  "convert (CHR ''r'') (VLong w # ap') buf n idx = map_option (\<lambda>r. (r, ap'))
      (Option.bind (bputs buf n idx (Some (''0x'' @ [NUL]))) (\<lambda>(buf', idx'). bputud buf' n idx' w 16 False))"
  unfolding bind_map [symmetric] by (simp_all add: convert_def)

lemma convert_other:
  assumes "f \<notin> set ''%fcsdiuxXpr''"
  shows "convert f ap buf n idx = map_option (\<lambda>r. (r, ap))
      (Option.bind (bputc buf n idx (CHR ''%'')) (\<lambda>(buf', idx'). bputc buf' n idx' f))"
  using assms unfolding bind_map [symmetric] by (simp add: convert_def)

lemma convert_emits:
  assumes b: "unat n \<le> length buf0" and "piece f ap = Some (xs, ap')"
  obtains out where "emits buf0 n out xs"
    and "\<And>buf idx. convert f ap buf n idx = map_option (\<lambda>r. (r, ap')) (out buf idx)"
  using assms(2)
proof (cases rule: piece_cases)
  case percent
  show ?thesis
    by (rule that [of "\<lambda>buf idx. bputc buf n idx (CHR ''%'')"]) (simp_all add: percent emits_bputc [OF b] convert_def)
next
  case none
  show ?thesis by (rule that [of "\<lambda>buf idx. Some (buf, idx)"]) (simp_all add: none emits_nil convert_def)
next
  case (char v)
  show ?thesis
    by (rule that [of "\<lambda>buf idx. bputc buf n idx (char_of (unat v))"]) (simp_all add: char emits_bputc [OF b] convert_def)
next
  case null
  have "emits buf0 n (\<lambda>buf idx. bputs buf n idx None) ''(null)''"
    using emits_bputs [OF b cstr_literal [of "''(null)''"]] by (simp add: bputs_def)
  with null show ?thesis by (intro that [of "\<lambda>buf idx. bputs buf n idx None"]) (simp_all add: convert_def)
next
  case (str s)
  show ?thesis
    by (rule that [of "\<lambda>buf idx. bputs buf n idx (Some s)"])
      (use emits_bputs [OF b cstr_takeWhile [OF str(3)]] str in \<open>simp_all add: convert_def\<close>)
next
  case (signed v)
  show ?thesis
  proof (cases "sint v < 0")
    case True
    show ?thesis
    proof (rule that)
      show "emits buf0 n (\<lambda>buf idx. Option.bind (bputc buf n idx (CHR ''-'')) (\<lambda>(buf', idx'). bputud buf' n idx' (- scast v) 10 False)) xs"
        using emits_seq [OF emits_bputc [OF b, of "CHR ''-''"] emits_bputud [OF b, of 10 "- scast v" False]] signed True
        by (simp add: unat_abs)
    qed (simp only: signed(2) convert_signed(1) [OF signed(1) True])
  next
    case False
    show ?thesis
    proof (rule that)
      show "emits buf0 n (\<lambda>buf idx. bputud buf n idx (ucast v) 10 False) xs"
        using emits_bputud [OF b, of 10 "ucast v" False] signed False by (simp add: unat_pos)
    qed (simp only: signed(2) convert_signed(2) [OF signed(1) False])
  qed
next
  case (unsigned v)
  show ?thesis
    by (rule that [of "\<lambda>buf idx. bputud buf n idx (ucast v) 10 False"])
      (use emits_bputud [OF b, of 10 "ucast v" False] unsigned in \<open>simp_all add: unat_widen convert_def\<close>)
next
  case (hex v)
  show ?thesis
    by (rule that [of "\<lambda>buf idx. bputud buf n idx (ucast v) 16 False"])
      (use emits_bputud [OF b, of 16 "ucast v" False] hex in \<open>simp_all add: unat_widen convert_def\<close>)
next
  case (HEX v)
  show ?thesis
    by (rule that [of "\<lambda>buf idx. bputud buf n idx (ucast v) 16 True"])
      (use emits_bputud [OF b, of 16 "ucast v" True] HEX in \<open>simp_all add: unat_widen convert_def\<close>)
next
  case (pointer v)
  show ?thesis
    by (rule that, rule emits_seq [OF emits_bputs [OF b cstr_literal [of "''0x''"]] emits_bputud [OF b, of 16 "ucast v" False],
          unfolded unat_widen, folded pointer(3)])
      (simp_all only: pointer(1,2) convert_hex, simp_all)
next
  case (long v)
  show ?thesis
    by (rule that, rule emits_seq [OF emits_bputs [OF b cstr_literal [of "''0x''"]] emits_bputud [OF b, of 16 v False], folded long(3)])
      (simp_all only: long(1,2) convert_hex, simp_all)
next
  case other
  show ?thesis
    by (rule that, rule emits_seq [OF emits_bputc [OF b] emits_bputc [OF b], of "CHR ''%''" f, simplified, folded other(2)])
      (simp only: other(3) convert_other [OF other(1)])
qed

lemma render_cases:
  assumes "render fs ap = Some msg" and "fs \<noteq> []"
  obtains (lone) "fs = ''%''" "msg = []"
    | (literal) "hd fs \<noteq> CHR ''%''" "msg = [hd fs] @ tl msg" "render (tl fs) ap = Some (tl msg)"
    | (conversion) xs ap' ys where "hd fs = CHR ''%''" "2 \<le> length fs" "piece (fs ! 1) ap = Some (xs, ap')"
        "render (drop 2 fs) ap' = Some ys" "msg = xs @ ys"
proof (cases fs)
  case Nil
  with assms(2) show ?thesis by simp
next
  case (Cons c rest)
  show ?thesis
  proof (cases rest)
    case Nil
    with Cons assms(1) show ?thesis by (cases "c = CHR ''%''") (auto intro: lone literal)
  next
    case (Cons f fs')
    with \<open>fs = c # rest\<close> assms(1) show ?thesis
      by (cases "c = CHR ''%''") (auto split: option.splits intro: literal conversion)
  qed
qed

lemma format_step:
  assumes f: "cstr fmt fs" and k: "k < length fs"
  shows "fs ! k \<noteq> CHR ''%'' \<Longrightarrow> format_from fmt k ap buf n idx =
      Option.bind (bputc buf n idx (fs ! k)) (\<lambda>(buf', idx'). format_from fmt (Suc k) ap buf' n idx')"
    and "fs ! k = CHR ''%'' \<Longrightarrow> Suc k = length fs \<Longrightarrow> format_from fmt k ap buf n idx = Some (buf, idx)"
    and "fs ! k = CHR ''%'' \<Longrightarrow> Suc k < length fs \<Longrightarrow>
      (\<And>buf idx. convert (fs ! Suc k) ap buf n idx = map_option (\<lambda>r. (r, ap')) (out buf idx)) \<Longrightarrow>
      format_from fmt k ap buf n idx = Option.bind (out buf idx) (\<lambda>(buf', idx'). format_from fmt (Suc (Suc k)) ap' buf' n idx')"
proof -
  note r = cstr_rd [OF f]
  show "fs ! k \<noteq> CHR ''%'' \<Longrightarrow> format_from fmt k ap buf n idx =
      Option.bind (bputc buf n idx (fs ! k)) (\<lambda>(buf', idx'). format_from fmt (Suc k) ap buf' n idx')"
    using r(1,3) [OF k] by (subst format_from.simps) (simp split: option.splits)
  show "fs ! k = CHR ''%'' \<Longrightarrow> Suc k = length fs \<Longrightarrow> format_from fmt k ap buf n idx = Some (buf, idx)"
    using r(1,3) [OF k] r(2) by (subst format_from.simps) simp
  show "format_from fmt k ap buf n idx = Option.bind (out buf idx) (\<lambda>(buf', idx'). format_from fmt (Suc (Suc k)) ap' buf' n idx')"
    if "fs ! k = CHR ''%''" "Suc k < length fs" "\<And>buf idx. convert (fs ! Suc k) ap buf n idx = map_option (\<lambda>r. (r, ap')) (out buf idx)"
    using r(1,3) [OF k] r(1,3) [OF that(2)] that(1,3) by (subst format_from.simps) (simp split: option.splits)
qed

lemma emits_cong: "(\<And>buf idx. f buf idx = g buf idx) \<Longrightarrow> emits buf0 n g xs \<Longrightarrow> emits buf0 n f xs"
  by (simp add: emits_def)

lemma format_emits:
  assumes b: "unat n \<le> length buf0" and f: "cstr fmt fs"
  shows "k \<le> length fs \<Longrightarrow> render (drop k fs) ap = Some msg \<Longrightarrow>
      emits buf0 n (\<lambda>buf idx. format_from fmt k ap buf n idx) msg"
proof (induction "length fs - k" arbitrary: k ap msg rule: less_induct)
  case less
  show ?case
  proof (cases "k = length fs")
    case True
    then have "format_from fmt k ap buf n idx = Some (buf, idx)" for buf idx
      using cstr_rd(2) [OF f] by (subst format_from.simps) simp
    with less.prems True show ?thesis by (auto intro: emits_cong emits_nil)
  next
    case False
    with less.prems have k: "k < length fs" "drop k fs \<noteq> []" "hd (drop k fs) = fs ! k" by (simp_all add: hd_drop_conv_nth)
    note step = format_step [OF f k(1)]
    show ?thesis using less.prems(2) k(2)
    proof (cases rule: render_cases)
      case lone
      then have "length (drop k fs) = 1" by simp
      then have "Suc k = length fs" using k(1) by simp
      with lone k step(2) have "format_from fmt k ap buf n idx = Some (buf, idx)" for buf idx by simp
      with lone(2) show ?thesis by (auto intro: emits_cong emits_nil)
    next
      case literal
      have "emits buf0 n (\<lambda>buf idx. format_from fmt (Suc k) ap buf n idx) (tl msg)"
        using literal(3) k by (intro less.hyps) (simp_all add: drop_Suc tl_drop)
      from emits_seq [OF emits_bputc [OF b, of "fs ! k"] this]
      show ?thesis using literal(1,2) k(3) step(1) by (intro emits_cong [OF step(1)]) simp_all
    next
      case (conversion xs ap' ys)
      have n1: "drop k fs ! 1 = fs ! Suc k" "Suc k < length fs" using conversion(2) k by simp_all
      obtain out where out: "emits buf0 n out xs"
        "\<And>buf idx. convert (fs ! Suc k) ap buf n idx = map_option (\<lambda>r. (r, ap')) (out buf idx)"
        using convert_emits [OF b conversion(3) [unfolded n1(1)]] by blast
      have "emits buf0 n (\<lambda>buf idx. format_from fmt (Suc (Suc k)) ap' buf n idx) ys"
        using conversion(4) n1 by (intro less.hyps) simp_all
      from emits_seq [OF out(1) this] conversion(1,5) k(3) n1(2)
      show ?thesis by (intro emits_cong [OF step(3) [OF _ _ out(2)]]) simp_all
    qed
  qed
qed

lemma out_ok_take:
  assumes "out_ok buf0 n msg (buf, idx)" and "unat n \<le> length buf0"
  shows "take (min (length msg) (unat n - 1)) buf = take (unat n - 1) msg" and "drop (unat n) buf = drop (unat n) buf0"
  using assms less_diff_conv [of _ "unat n" 1] by (auto simp: out_ok_def intro!: nth_equalityI)

lemma vsnprintf_eq:
  assumes "format_from fmt 0 ap buf n 0 = Some (buf1, idx)" and i: "unat idx = m"
  shows "n = 0 \<Longrightarrow> vsnprintf buf n fmt ap = Some (min (int m) INT_MAX, buf1)"
    and "0 < n \<Longrightarrow> min m (unat n - 1) < length buf1 \<Longrightarrow>
      vsnprintf buf n fmt ap = Some (min (int m) INT_MAX, buf1[min m (unat n - 1) := NUL])"
proof -
  have m: "(if int (unat idx) > INT_MAX then INT_MAX else int (unat idx)) = min (int m) INT_MAX" unfolding i min_def by auto
  have v: "vsnprintf buf n fmt ap = Option.bind (if n > 0 then wr buf1 (unat (if idx \<ge> n then n - 1 else idx)) NUL else Some buf1)
      (\<lambda>b. Some (min (int m) INT_MAX, b))"
    by (simp only: vsnprintf_def assms(1) Option.bind.simps prod.case m)
  show "n = 0 \<Longrightarrow> vsnprintf buf n fmt ap = Some (min (int m) INT_MAX, buf1)"
    unfolding v by simp
  assume n: "0 < n" and l: "min m (unat n - 1) < length buf1"
  have "unat (n - 1) = unat n - 1" using n by (simp add: unat_minus_one word_gt_0)
  then have "unat (if idx \<ge> n then n - 1 else idx) = min m (unat n - 1)"
    using i n by (auto simp: word_le_nat_alt word_less_nat_alt)
  then show "vsnprintf buf n fmt ap = Some (min (int m) INT_MAX, buf1[min m (unat n - 1) := NUL])"
    unfolding v using n l by (simp add: wr_def)
qed

lemma vsnprintf_writes:
  assumes f: "cstr fmt fs" and t: "render fs ap = Some msg" "length msg < 2 ^ 32" and b: "unat n \<le> length buf"
  obtains buf' where "vsnprintf buf n fmt ap = Some (min (int (length msg)) INT_MAX, buf')" "length buf' = length buf"
    "drop (unat n) buf' = drop (unat n) buf"
    "n = 0 \<or> take (Suc (min (length msg) (unat n - 1))) buf' = take (unat n - 1) msg @ [NUL]"
proof -
  have "emits buf n (\<lambda>buf idx. format_from fmt 0 ap buf n idx) msg" using format_emits [OF b f, of 0] t(1) by simp
  moreover have "out_ok buf n [] (buf, 0)" by (simp add: out_ok_def)
  moreover have "length ([] @ msg) < 2 ^ 32" using t(2) by simp
  ultimately obtain r where "format_from fmt 0 ap buf n 0 = Some r" "out_ok buf n ([] @ msg) r" by (rule emitsD)
  then obtain buf1 idx where r: "format_from fmt 0 ap buf n 0 = Some (buf1, idx)" "out_ok buf n msg (buf1, idx)"
    by (cases r) auto
  have i: "unat idx = length msg" using r(2) t(2) by (simp add: out_ok_def unat_of_nat)
  have l: "length buf1 = length buf" using r(2) by (simp add: out_ok_def)
  note o = out_ok_take [OF r(2) b]
  let ?k = "min (length msg) (unat n - 1)"
  show thesis
  proof (cases "0 < n")
    case False
    then have "n = 0" by (simp add: word_gt_0)
    with r(1) l o vsnprintf_eq(1) [OF r(1) i] show thesis by (intro that [of buf1]) simp_all
  next
    case True
    then have n: "0 < unat n" by (simp add: unat_gt_0)
    have k: "?k < length buf1" using n b l by simp
    note v = vsnprintf_eq(2) [OF r(1) i True k]
    have tk: "take (Suc ?k) (buf1[?k := NUL]) = take (unat n - 1) msg @ [NUL]"
      using o(1) k by (simp add: take_Suc_conv_app_nth)
    show thesis
    proof (rule that [OF v])
      show "drop (unat n) (buf1[?k := NUL]) = drop (unat n) buf" using o(2) n by simp
    qed (use l tk in simp_all)
  qed
qed

section \<open>Numbers: facts\<close>

text \<open>The number that digits stand for.\<close>

definition digit_value :: "char \<Rightarrow> nat" where
  "digit_value c = (if of_char c < (58 :: nat) then of_char c - 48 else of_char c - 87)"

definition read_num :: "nat \<Rightarrow> string \<Rightarrow> nat" where
  "read_num b xs = foldl (\<lambda>v c. v * b + digit_value c) 0 xs"

lemma digit_value_char: "d < 16 \<Longrightarrow> digit_value (digit_char False d) = d"
  by (simp add: digit_value_def digit_char_def of_char_of)

lemma read_show_num: "2 \<le> b \<Longrightarrow> b \<le> 16 \<Longrightarrow> read_num b (show_num False b n) = n"
proof (induction False b n rule: show_num.induct)
  case (1 b n)
  show ?case
  proof (cases "n < b")
    case True
    with 1 show ?thesis by (subst show_num.simps) (simp add: read_num_def digit_value_char)
  next
    case False
    have "n mod b < 16" using 1(2,3) mod_less_divisor [of b n] by linarith
    with 1 False show ?thesis
      by (subst show_num.simps) (simp add: read_num_def digit_value_char)
  qed
qed

lemma digit_char_not_NUL: "d < 16 \<Longrightarrow> digit_char u d \<noteq> NUL"
proof
  assume d: "d < 16" and "digit_char u d = NUL"
  then have "(of_char (digit_char u d) :: nat) = 0" by simp
  with d show False by (simp add: digit_char_def split: if_splits)
qed

lemma show_num_not_NUL: "2 \<le> b \<Longrightarrow> b \<le> 16 \<Longrightarrow> NUL \<notin> set (show_num u b n)"
proof (induction u b n rule: show_num.induct)
  case (1 u b n)
  have "n mod b < 16" using 1(2,3) mod_less_divisor [of b n] by linarith
  from digit_char_not_NUL [OF this, of u] digit_char_not_NUL [of n u] 1 show ?case
    by (subst show_num.simps) auto
qed

lemma put_reverse_spec:
  "n \<le> length buf \<Longrightarrow> j + n < length str \<Longrightarrow>
   put_reverse str buf n j = Some (take j str @ rev (take n buf) @ NUL # drop (Suc (j + n)) str)"
proof (induction n arbitrary: str j)
  case 0
  then show ?case by (simp add: wr_def upd_conv_take_nth_drop)
next
  case (Suc n)
  then have "put_reverse str buf (Suc n) j = put_reverse (str[j := buf ! n]) buf n (Suc j)" by (simp add: rd_def wr_def)
  with Suc show ?case by (simp add: take_Suc_conv_app_nth)
qed

lemma itoa_with_spec:
  assumes base: "2 \<le> base" "base \<le> 16" and v: "v < 2 ^ bufsize" and str: "bufsize < length str"
    and bs: "0 < bufsize"
  shows "\<exists>str'. itoa_with bufsize v str base = Some str' \<and> length str' = length str \<and>
    cstr str' (show_num False (nat base) v)"
proof (cases "v = 0")
  case True
  have "show_num False (nat base) v = ''0''" using True base by (subst show_num.simps) (simp add: digit_char_0)
  moreover have "itoa_with bufsize v str base = Some (str[0 := CHR ''0'', 1 := NUL])"
    using True base str bs by (cases str) (auto simp: itoa_with_def wr_def)
  moreover have "str[0 := CHR ''0'', 1 := NUL] = ''0'' @ NUL # drop 2 str"
    using str bs by (cases str; cases "tl str") auto
  ultimately show ?thesis using str bs by (simp add: cstr_def)
next
  case False
  let ?d = "show_num False (nat base) v"
  have b: "2 \<le> nat base" "nat base \<le> 16" using base by simp_all
  have "v < nat base ^ bufsize" using v power_mono [OF b(1), of bufsize] by simp
  then have l: "length ?d \<le> bufsize" using b bs by (intro show_num_length) simp_all
  obtain buf where buf: "put_digits False (nat base) v (replicate bufsize NUL) 0 = Some (buf, length ?d)"
    "length buf = bufsize" "take (length ?d) buf = rev ?d"
    using put_digits_spec [OF b(1), of v 0 False "replicate bufsize NUL"] False l by auto
  then have "itoa_with bufsize v str base = Some (?d @ NUL # drop (Suc (length ?d)) str)"
    using False base l str by (simp add: itoa_with_def put_reverse_spec)
  then show ?thesis using l str show_num_not_NUL [OF b] by (simp add: cstr_def)
qed

section \<open>Comparing, copying and searching: facts\<close>

lemma cstr_unique: "cstr s xs \<Longrightarrow> cstr s ys \<Longrightarrow> xs = ys"
  using strlen_cstr [of s xs] strlen_cstr [of s ys] by (auto simp: cstr_def)

lemma char_code_eq: "char_code a = char_code b \<longleftrightarrow> a = b"
  by (simp add: char_code_def)

lemma strcmp_from_cstr:
  assumes s: "cstr s xs" and t: "cstr t ys"
  shows "i \<le> length xs \<Longrightarrow> i \<le> length ys \<Longrightarrow> take i xs = take i ys \<Longrightarrow> \<exists>d. strcmp_from s t i = Some d \<and> (d = 0 \<longleftrightarrow> xs = ys)"
proof (induction "length xs - i" arbitrary: i rule: less_induct)
  case less
  note r = cstr_rd [OF s] cstr_rd [OF t]
  consider (both) "i < length xs" "i < length ys" | (short) "i = length xs" "i < length ys"
    | (long) "i < length xs" "i = length ys" | (ends) "i = length xs" "i = length ys"
    using less.prems by linarith
  then show ?case
  proof cases
    case both
    show ?thesis
    proof (cases "xs ! i = ys ! i")
      case True
      then have "strcmp_from s t i = strcmp_from s t (Suc i)" using both r by (subst strcmp_from.simps) simp
      moreover have "take (Suc i) xs = take (Suc i) ys" using True both less.prems(3) by (simp add: take_Suc_conv_app_nth)
      ultimately show ?thesis using less.hyps [of "Suc i"] both by simp
    next
      case False
      then show ?thesis using r(1) [OF both(1)] r(5) [OF both(2)] char_code_eq [of "xs ! i" "ys ! i"]
        by (subst strcmp_from.simps) auto
    qed
  next
    case short
    then show ?thesis using r(2) r(5,7) [OF short(2)] char_code_eq [of NUL "ys ! i"] by (subst strcmp_from.simps) auto
  next
    case long
    then show ?thesis using r(6) r(1,3) [OF long(1)] char_code_eq [of "xs ! i" NUL] by (subst strcmp_from.simps) auto
  next
    case ends
    then show ?thesis using r less.prems(3) by (subst strcmp_from.simps) simp
  qed
qed

lemma strcmp_cstr:
  assumes "cstr s xs" and "cstr t ys"
  obtains d where "strcmp s t = Some d" "d = 0 \<longleftrightarrow> xs = ys"
  using strcmp_from_cstr [OF assms, of 0] unfolding strcmp_def by auto

lemma strcpy_from_cstr:
  assumes s: "cstr src xs"
  shows "i \<le> length xs \<Longrightarrow> length xs < length dest \<Longrightarrow>
    strcpy_from dest src i = Some (take i dest @ drop i xs @ NUL # drop (Suc (length xs)) dest)"
proof (induction "length xs - i" arbitrary: i dest)
  case 0
  then show ?case using cstr_rd(2) [OF s] by (subst strcpy_from.simps) (simp add: wr_def upd_conv_take_nth_drop)
next
  case (Suc d)
  then have i: "i < length xs" by simp
  then have "strcpy_from dest src i = strcpy_from (dest[i := xs ! i]) src (Suc i)"
    using cstr_rd(1,3) [OF s i] Suc.prems by (subst strcpy_from.simps) (simp add: wr_def)
  with Suc i show ?case by (simp add: take_Suc_conv_app_nth Cons_nth_drop_Suc [symmetric])
qed

lemma strncpy_pad_spec:
  "i \<le> n \<Longrightarrow> n \<le> length dest \<Longrightarrow> strncpy_pad dest n i = Some (take i dest @ replicate (n - i) NUL @ drop n dest)"
proof (induction "n - i" arbitrary: i dest)
  case 0
  then show ?case by (subst strncpy_pad.simps) simp
next
  case (Suc d)
  then have i: "i < n" by simp
  then have "strncpy_pad dest n i = strncpy_pad (dest[i := NUL]) n (Suc i)"
    using Suc.prems by (subst strncpy_pad.simps) (simp add: wr_def)
  moreover have "replicate (n - i) NUL = NUL # replicate (n - Suc i) NUL" using i by (simp add: Suc_diff_Suc [symmetric])
  ultimately show ?case using Suc i by (simp add: take_Suc_conv_app_nth)
qed

lemma strncpy_from_cstr:
  assumes s: "cstr src xs"
  shows "i \<le> n \<Longrightarrow> i \<le> length xs \<Longrightarrow> n \<le> length dest \<Longrightarrow>
    strncpy_from dest src n i = Some (take i dest @ take (n - i) (drop i xs) @ replicate (n - length xs) NUL @ drop n dest)"
proof (induction "n - i" arbitrary: i dest rule: less_induct)
  case less
  show ?case
  proof (cases "i < n \<and> i < length xs")
    case True
    then have "strncpy_from dest src n i = strncpy_from (dest[i := xs ! i]) src n (Suc i)"
      using cstr_rd(1,3) [OF s] less.prems by (subst strncpy_from.simps) (simp add: wr_def)
    moreover have "take (n - i) (drop i xs) = xs ! i # take (n - Suc i) (drop (Suc i) xs)"
      using True by (simp add: Cons_nth_drop_Suc [symmetric] take_Cons')
    moreover have "n - Suc i < n - i" using True by linarith
    ultimately show ?thesis
      using less.hyps [of "Suc i" "dest[i := xs ! i]"] less.prems True by (simp add: take_Suc_conv_app_nth)
  next
    case False
    then have i: "i = n \<or> i = length xs" using less.prems by linarith
    then have "strncpy_from dest src n i = strncpy_pad dest n i"
      using cstr_rd(2) [OF s] by (subst strncpy_from.simps) auto
    then have "strncpy_from dest src n i = Some (take i dest @ replicate (n - i) NUL @ drop n dest)"
      using less.prems by (simp add: strncpy_pad_spec)
    with i less.prems show ?thesis by (elim disjE) simp_all
  qed
qed

lemma chr_down_spec:
  assumes "m \<le> length s"
  obtains r where "chr_down s c m = Some r"
    "case r of None \<Rightarrow> \<forall>i < m. schar_code (s ! i) \<noteq> c
     | Some i \<Rightarrow> i < m \<and> schar_code (s ! i) = c \<and> (\<forall>j. i < j \<and> j < m \<longrightarrow> schar_code (s ! j) \<noteq> c)"
proof -
  have "\<exists>r. chr_down s c m = Some r \<and> (case r of None \<Rightarrow> \<forall>i < m. schar_code (s ! i) \<noteq> c
     | Some i \<Rightarrow> i < m \<and> schar_code (s ! i) = c \<and> (\<forall>j. i < j \<and> j < m \<longrightarrow> schar_code (s ! j) \<noteq> c))"
    using assms
  proof (induction m)
    case 0
    then show ?case by simp
  next
    case (Suc m)
    then have "rd s m = Some (s ! m)" by (simp add: rd_def)
    moreover obtain r where "chr_down s c m = Some r" "case r of None \<Rightarrow> \<forall>i < m. schar_code (s ! i) \<noteq> c
       | Some i \<Rightarrow> i < m \<and> schar_code (s ! i) = c \<and> (\<forall>j. i < j \<and> j < m \<longrightarrow> schar_code (s ! j) \<noteq> c)"
      using Suc by auto
    ultimately show ?case
      by (cases "schar_code (s ! m) = c"; cases r) (simp_all add: less_Suc_eq, auto)
  qed
  then show thesis using that by blast
qed

section \<open>Properties\<close>

text \<open>
  C31. Formatted output: when the argument list fits the format and the text it stands for has fewer
  than $2^{32}$ characters, \<^verbatim>\<open>vsnprintf\<close> returns its length, or \<^verbatim>\<open>INT_MAX\<close> if that is
  smaller: the length of the whole text, as in the C library, and not the number of characters written, as
  \<^verbatim>\<open>kstring.h\<close> has it. The buffer then holds as much of the text as fits, with a terminating zero, and nothing at
  or past \<^verbatim>\<open>maxsize\<close> is written.
\<close>

theorem vsnprintf_correct:
  assumes "cstr fmt fs" and "render fs ap = Some msg" and "length msg < 2 ^ 32" and "unat n \<le> length buf"
  shows "\<exists>buf'. vsnprintf buf n fmt ap = Some (min (int (length msg)) INT_MAX, buf') \<and> length buf' = length buf \<and>
    drop (unat n) buf' = drop (unat n) buf \<and>
    (n = 0 \<or> take (Suc (min (length msg) (unat n - 1))) buf' = take (unat n - 1) msg @ [NUL])"
  by (rule vsnprintf_writes [OF assms]) blast

lemma render_example: "render ''id %d: %s (%x)'' [VInt (- 7), VStr (Some (''port'' @ [NUL])), VInt 255] = Some ''id -7: port (ff)''"
  by code_simp

theorem vsnprintf_correct_witness:
  "\<exists>buf'. vsnprintf (replicate 16 CHR ''z'') 12 (''id %d: %s (%x)'' @ [NUL])
      [VInt (- 7), VStr (Some (''port'' @ [NUL])), VInt 255] = Some (16, buf') \<and>
    length buf' = 16 \<and> drop 12 buf' = ''zzzz'' \<and> take 12 buf' = ''id -7: port'' @ [NUL]"
proof -
  have 1: "cstr (''id %d: %s (%x)'' @ [NUL]) ''id %d: %s (%x)''" by (rule cstr_literal) simp
  let ?m = "''id -7: port (ff)''"
  have 2: "length ?m < 2 ^ 32" "unat (12 :: u32) \<le> length (replicate 16 CHR ''z'')" by simp_all
  have e: "min (int (length ?m)) INT_MAX = 16" "Suc (min (length ?m) (12 - 1)) = 12"
    "take (12 - 1) ?m = ''id -7: port''" "drop 12 (replicate 16 CHR ''z'') = ''zzzz''"
    "length (replicate 16 CHR ''z'') = 16" "(12 :: u32) = 0 \<longleftrightarrow> False"
    by code_simp+
  have u: "unat (12 :: u32) = 12" by simp
  show ?thesis using vsnprintf_correct [OF 1 render_example 2] unfolding u e by (simp only: simp_thms)
qed

text \<open>
  A number printed by \<^verbatim>\<open>itoa\<close> or \<^verbatim>\<open>itoa_z\<close> in a base from 2 to 16 reads back as the same
  number: the conversion buffers of 32 and 65 bytes are never overrun, whatever the number and the base,
  and the string is terminated.
\<close>

lemma itoa_roundtrip:
  assumes "2 \<le> base" and "base \<le> 16" and "65 < length str"
  shows "(\<exists>str' xs. itoa v str base = Some str' \<and> cstr str' xs \<and> read_num (nat base) xs = unat v) \<and>
    (\<exists>str' xs. itoa_z w str base = Some str' \<and> cstr str' xs \<and> read_num (nat base) xs = unat w)"
proof
  have b: "2 \<le> nat base" "nat base \<le> 16" using assms by simp_all
  have "unat v < 2 ^ 32" using unsigned_less [of v] by simp
  then show "\<exists>str' xs. itoa v str base = Some str' \<and> cstr str' xs \<and> read_num (nat base) xs = unat v"
    using itoa_with_spec [OF assms(1,2), of "unat v" 32 str] assms(3) read_show_num [OF b, of "unat v"]
    unfolding itoa_def by auto
  have "unat w < 2 ^ 64" using unsigned_less [of w] by simp
  then have "unat w < 2 ^ 65" by simp
  then show "\<exists>str' xs. itoa_z w str base = Some str' \<and> cstr str' xs \<and> read_num (nat base) xs = unat w"
    using itoa_with_spec [OF assms(1,2), of "unat w" 65 str] assms(3) read_show_num [OF b, of "unat w"]
    unfolding itoa_z_def by auto
qed

lemma itoa_roundtrip_example:
  "\<exists>str' xs. itoa 0xFFFFFFFF (replicate 80 NUL) 2 = Some str' \<and> cstr str' xs \<and> read_num 2 xs = 0xFFFFFFFF"
proof -
  have u: "unat (0xFFFFFFFF :: u32) = 0xFFFFFFFF" by simp
  have l: "65 < length (replicate 80 NUL)" by simp
  have n: "nat 2 = 2" by simp
  have 2: "(2 :: int) \<le> 2" "(2 :: int) \<le> 16" by simp_all
  show ?thesis using itoa_roundtrip [OF 2 l, of "0xFFFFFFFF" 0] unfolding u n by (rule conjunct1)
qed

text \<open>
  Copying: \<^verbatim>\<open>strcpy\<close> writes the string and its terminating zero and leaves the rest of the
  destination alone. \<^verbatim>\<open>strncpy\<close> writes exactly \<^verbatim>\<open>n\<close> bytes, filling up with zeros: there is no
  terminating zero when the source has \<^verbatim>\<open>n\<close> characters or more.
\<close>

lemma copy_correct:
  assumes "cstr src xs" and "length xs < length dest" and "n \<le> length dest"
  shows "strcpy dest src = Some (xs @ NUL # drop (Suc (length xs)) dest) \<and>
    strncpy dest src n = Some (take n xs @ replicate (n - length xs) NUL @ drop n dest)"
  using strcpy_from_cstr [OF assms(1), of 0 dest] strncpy_from_cstr [OF assms(1), of 0 n dest] assms(2,3)
  by (simp add: strcpy_def strncpy_def)

lemma copy_correct_example:
  "strcpy ''abcdefgh'' (''port'' @ [NUL]) = Some (''port'' @ [NUL] @ ''fgh'') \<and>
   strncpy ''abcdefgh'' (''port'' @ [NUL]) 4 = Some ''portefgh''"
proof -
  have 1: "cstr (''port'' @ [NUL]) ''port''" by (rule cstr_literal) simp
  show ?thesis using copy_correct [OF 1, of "''abcdefgh''" 4] by simp
qed

text \<open>
  \<^verbatim>\<open>strchr\<close> gives the last position of the character, the terminating zero included, although
  its documentation promises the first.
\<close>

lemma strchr_last:
  assumes "cstr s xs"
  shows "\<exists>r. strchr (Some s) c = Some r \<and>
    (case r of None \<Rightarrow> \<forall>i. length xs < i \<or> schar_code (s ! i) \<noteq> c
     | Some i \<Rightarrow> i \<le> length xs \<and> schar_code (s ! i) = c \<and> (\<forall>j. j \<le> i \<or> length xs < j \<or> schar_code (s ! j) \<noteq> c))"
proof -
  have "length xs + 1 \<le> length s" using cstr_rd(4) [OF assms] by simp
  then obtain r where r: "chr_down s c (length xs + 1) = Some r"
    "case r of None \<Rightarrow> \<forall>i < length xs + 1. schar_code (s ! i) \<noteq> c
     | Some i \<Rightarrow> i < length xs + 1 \<and> schar_code (s ! i) = c \<and> (\<forall>j. i < j \<and> j < length xs + 1 \<longrightarrow> schar_code (s ! j) \<noteq> c)"
    by (rule chr_down_spec)
  have "strchr (Some s) c = Some r" using r(1) strlen_cstr [OF assms] by (simp add: strchr_def)
  with r(2) show ?thesis by (cases r) (auto simp: less_Suc_eq_le not_le not_less)
qed

lemma strchr_last_example:
  "strchr (Some (''a/b/c'' @ [NUL])) 47 = Some (Some 3) \<and>
   (\<exists>r. strchr (Some (''a/b/c'' @ [NUL])) 47 = Some r \<and> (case r of None \<Rightarrow> False | Some i \<Rightarrow> i \<le> 5))"
proof -
  have 1: "cstr (''a/b/c'' @ [NUL]) ''a/b/c''" by (rule cstr_literal) simp
  have 2: "strchr (Some (''a/b/c'' @ [NUL])) 47 = Some (Some 3)" by code_simp
  show ?thesis using strchr_last [OF 1, of 47] 2 by simp
qed

end
