(* ===== verification/Objects.thy ===== *)
theory Objects
  imports Scheduling KString
begin

text \<open>
  Kernel objects: sections (\<^verbatim>\<open>src/sys/iomgr/section.c\<close>), ports (\<^verbatim>\<open>port.c\<close>), objects and handle
  tables (\<^verbatim>\<open>object.c\<close>), thread objects (\<^verbatim>\<open>thread.c\<close>) and kernel messages
  (\<^verbatim>\<open>src/sys/task/message.c\<close>).

  The structures are in typed maps by their address. Freeing a structure takes it out of its map, so
  that a use after free faults. A message is the array of its bytes, as the copies treat it, with the
  fields of its header at their offsets.
\<close>

section \<open>State\<close>

abbreviation MAX_OBJ_PER_PROCESS :: nat where "MAX_OBJ_PER_PROCESS \<equiv> 32"
abbreviation MAX_PORT_NAME :: nat where "MAX_PORT_NAME \<equiv> 48"
abbreviation MAX_MESSAGES_IN_PORT :: u32 where "MAX_MESSAGES_IN_PORT \<equiv> 12"
abbreviation MESSAGE_BUFFER_SIZE :: u32 where "MESSAGE_BUFFER_SIZE \<equiv> 256"
abbreviation SIZEOF_MESSAGEHEADER :: u32 where "SIZEOF_MESSAGEHEADER \<equiv> 24"
abbreviation SIZEOF_MESSAGE :: u32 where "SIZEOF_MESSAGE \<equiv> 280"
abbreviation SIZEOF_PORT :: u32 where "SIZEOF_PORT \<equiv> 3428"
abbreviation SIZEOF_PORTNODE :: u32 where "SIZEOF_PORTNODE \<equiv> 8"
abbreviation SIZEOF_OBJECT :: u32 where "SIZEOF_OBJECT \<equiv> 20"
abbreviation SIZEOF_SECTION :: u32 where "SIZEOF_SECTION \<equiv> 2020"
abbreviation MAX_SECTION_FRAMES :: u32 where "MAX_SECTION_FRAMES \<equiv> 500"
abbreviation KERNEL_SENDER :: u32 where "KERNEL_SENDER \<equiv> 0"

abbreviation OBJ_UNKNOWN :: u32 where "OBJ_UNKNOWN \<equiv> 0"
abbreviation OBJ_DEVICE :: u32 where "OBJ_DEVICE \<equiv> 1"
abbreviation OBJ_PORT :: u32 where "OBJ_PORT \<equiv> 2"
abbreviation OBJ_SECTION :: u32 where "OBJ_SECTION \<equiv> 3"
abbreviation OBJ_THREAD :: u32 where "OBJ_THREAD \<equiv> 4"

abbreviation SECTION_WRITEABLE :: u32 where "SECTION_WRITEABLE \<equiv> 0x01"
abbreviation SECTION_CACHEABLE :: u32 where "SECTION_CACHEABLE \<equiv> 0x04"
abbreviation PAGE_WRITETHROUGH :: u32 where "PAGE_WRITETHROUGH \<equiv> 0x008"
abbreviation PAGE_CACHE_DISABLED :: u32 where "PAGE_CACHE_DISABLED \<equiv> 0x010"

type_synonym message = "u8 list"

record Object =
  o_type :: u32
  o_name :: ptr
  o_data :: ptr
  o_permissions :: u32
  o_refcnt :: u32

record Port =
  msgbuf :: "nat \<Rightarrow> message"
  head :: u32
  tail :: u32
  msgcount :: u32
  port_name :: string
  port_owner :: ptr

record PortNode =
  pn_port :: ptr
  pn_next :: ptr

record Section =
  address_space :: u32
  n_pages :: u32
  permissions :: u32
  vmbase :: u32
  sec_frames :: "nat \<Rightarrow> u32"
  sec_refcnt :: int

text \<open>\<open>kstrings\<close> are the character arrays on the kernel heap, \<open>junk_ports\<close> the contents of fresh memory.\<close>

record object_state = task_state +
  kstrings :: "ptr \<rightharpoonup> string"
  objects :: "ptr \<rightharpoonup> Object"
  ports :: "ptr \<rightharpoonup> Port"
  junk_ports :: "ptr \<Rightarrow> Port"
  port_nodes :: "ptr \<rightharpoonup> PortNode"
  port_list_head :: ptr
  sections :: "ptr \<rightharpoonup> Section"

section \<open>Messages\<close>

definition get32 :: "nat \<Rightarrow> message \<Rightarrow> u32" where
  "get32 i m = ucast (m ! i) OR push_bit 8 (ucast (m ! (i + 1))) OR push_bit 16 (ucast (m ! (i + 2))) OR push_bit 24 (ucast (m ! (i + 3)))"

definition put32 :: "nat \<Rightarrow> u32 \<Rightarrow> message \<Rightarrow> message" where
  "put32 i v m = m[i := ucast v, i + 1 := ucast (drop_bit 8 v), i + 2 := ucast (drop_bit 16 v), i + 3 := ucast (drop_bit 24 v)]"

abbreviation REPLY_HANDLE :: nat where "REPLY_HANDLE \<equiv> 4"
abbreviation SENDER :: nat where "SENDER \<equiv> 8"
abbreviation PAYLOAD_LENGTH :: nat where "PAYLOAD_LENGTH \<equiv> 16"
abbreviation RESERVED :: nat where "RESERVED \<equiv> 20"

text \<open>\<open>memcpy (dest, src, n)\<close> into a message.\<close>

definition copy_into :: "message \<Rightarrow> u8 list \<Rightarrow> message" where
  "copy_into m bs = bs @ drop (length bs) m"

text \<open>A message is put into the slot at the tail, and taken from the one at the head.\<close>

definition port_put :: "message \<Rightarrow> Port \<Rightarrow> Port" where
  "port_put m port = port\<lparr>msgbuf := (msgbuf port)(unat (tail port) := m),
     tail := (tail port + 1) mod MAX_MESSAGES_IN_PORT, msgcount := msgcount port + 1\<rparr>"

definition port_take :: "Port \<Rightarrow> Port" where
  "port_take port = port\<lparr>head := (head port + 1) mod MAX_MESSAGES_IN_PORT, msgcount := msgcount port - 1\<rparr>"

definition EnqueueMessage :: "ptr \<Rightarrow> message \<Rightarrow> 'a object_state_scheme \<Rightarrow> (Status \<times> 'a object_state_scheme) option" where
  "EnqueueMessage p new s = do {
     port \<leftarrow> ports s p;
     if msgcount port \<ge> MAX_MESSAGES_IN_PORT then Some (STATUS_MSGQUEUE_FULL, s)
     else do {
       let len = SIZEOF_MESSAGEHEADER + get32 PAYLOAD_LENGTH new;
       if len > SIZEOF_MESSAGE then None
       else do {
         let m = copy_into (msgbuf port (unat (tail port))) (take (unat len) new);
         s1 \<leftarrow> WakeThread (port_owner port) (s\<lparr>ports := (ports s)(p \<mapsto> port_put m port)\<rparr>);
         Some (STATUS_OK, s1)
       }
     }
   }"

definition SendMessage :: "ptr \<Rightarrow> int \<Rightarrow> message \<Rightarrow> 'a object_state_scheme \<Rightarrow> (Status \<times> 'a object_state_scheme) option" where
  "SendMessage process handle msg s =
     (if \<not> inrange handle 0 (int MAX_OBJ_PER_PROCESS - 1) then Some (STATUS_OUT_OF_BOUNDS, s)
      else do {
        pr \<leftarrow> procs s process;
        target \<leftarrow> objects s (objlist (p_handles pr) (nat handle));
        if o_type target \<noteq> OBJ_PORT \<or> o_data target = 0 then Some (STATUS_BAD_ARGUMENT, s)
        else if get32 PAYLOAD_LENGTH msg > MESSAGE_BUFFER_SIZE then Some (STATUS_OUT_OF_BOUNDS, s)
        else EnqueueMessage (o_data target) (put32 RESERVED 0 (put32 REPLY_HANDLE (- 1) (put32 SENDER KERNEL_SENDER msg))) s
      })"

section \<open>Sections\<close>

definition upd_section :: "ptr \<Rightarrow> (Section \<Rightarrow> Section) \<Rightarrow> 'a object_state_scheme \<Rightarrow> 'a object_state_scheme option" where
  "upd_section p f s = map_option (\<lambda>sec. s\<lparr>sections := (sections s)(p \<mapsto> f sec)\<rparr>) (sections s p)"

definition AllocateSection :: "u32 \<Rightarrow> u32 \<Rightarrow> 'a object_state_scheme \<Rightarrow> (ptr \<times> 'a object_state_scheme) option" where
  "AllocateSection needed_pages perms s =
     (if needed_pages = 0 then Some (0, s)
      else if needed_pages \<ge> MAX_SECTION_FRAMES then Some (0, s)
      else do {
        (scn, s1) \<leftarrow> kmalloc SIZEOF_SECTION s;
        if scn = 0 then Some (0, s1)
        else Some (scn, s1\<lparr>sections := (sections s1)(scn \<mapsto>
          \<lparr>address_space = 0, n_pages = needed_pages, permissions = perms, vmbase = 0, sec_frames = (\<lambda>_. 0), sec_refcnt = 0\<rparr>)\<rparr>)
      })"

fun free_frames :: "(nat \<Rightarrow> u32) \<Rightarrow> nat \<Rightarrow> nat \<Rightarrow> 'a frame_state_scheme \<Rightarrow> 'a frame_state_scheme" where
  "free_frames frames i 0 s = s"
| "free_frames frames i (Suc n) s = free_frames frames (Suc i) n (FreeFrame (frames i) s)"

fun unmap_pages :: "u32 \<Rightarrow> nat \<Rightarrow> nat \<Rightarrow> 'a vm_state_scheme \<Rightarrow> 'a vm_state_scheme option" where
  "unmap_pages start i 0 s = Some s"
| "unmap_pages start i (Suc n) s = do {
     s1 \<leftarrow> UnmapSinglePage (start + of_nat i * PAGE_SIZE) s;
     unmap_pages start (Suc i) n s1
   }"

definition section_flags :: "u32 \<Rightarrow> u32" where
  "section_flags perms =
     (let flags = PAGE_PRESENT OR PAGE_USER;
          flags1 = (if has_flag perms SECTION_WRITEABLE then flags OR PAGE_RW else flags)
      in if \<not> has_flag perms SECTION_CACHEABLE then flags1 OR PAGE_CACHE_DISABLED OR PAGE_WRITETHROUGH else flags1)"

text \<open>The error path of \<^verbatim>\<open>MapSection\<close>.\<close>

definition section_fail :: "ptr \<Rightarrow> u32 \<Rightarrow> nat \<Rightarrow> nat \<Rightarrow> 'a object_state_scheme \<Rightarrow> (u32 \<times> 'a object_state_scheme) option" where
  "section_fail p start frames_allocated pages_mapped s = do {
     sec \<leftarrow> sections s p;
     if sec_refcnt sec > 1 then Some (0, s\<lparr>sections := (sections s)(p \<mapsto> sec\<lparr>sec_refcnt := sec_refcnt sec - 1\<rparr>)\<rparr>)
     else do {
       let s1 = free_frames (sec_frames sec) 0 frames_allocated s;
       s2 \<leftarrow> unmap_pages start 0 pages_mapped s1;
       Some (0, s2\<lparr>sections := (sections s2)(p \<mapsto> sec\<lparr>sec_frames := (\<lambda>_. 0)\<rparr>)\<rparr>)
     }
   }"

function map_section ::
    "ptr \<Rightarrow> u32 \<Rightarrow> u32 \<Rightarrow> nat \<Rightarrow> nat \<Rightarrow> nat \<Rightarrow> nat \<Rightarrow> 'a object_state_scheme \<Rightarrow> (u32 \<times> 'a object_state_scheme) option" where
  "map_section p start flags n i frames_allocated pages_mapped s =
     (if i < n then do {
        sec \<leftarrow> sections s p;
        let previously_allocated = sec_frames sec i > 0;
        let (frame, s1) = (if previously_allocated then (sec_frames sec i, s) else AllocateFrame s);
        let s2 = s1\<lparr>sections := (sections s1)(p \<mapsto> sec\<lparr>sec_frames := (sec_frames sec)(i := frame)\<rparr>)\<rparr>;
        if frame = 0 then section_fail p start frames_allocated pages_mapped s2
        else do {
          let allocated = (if previously_allocated then frames_allocated else frames_allocated + 1);
          (st, s3) \<leftarrow> MapSinglePage frame (start + of_nat i * PAGE_SIZE) flags s2;
          if st \<noteq> STATUS_OK then section_fail p start allocated pages_mapped s3
          else do {
            s4 \<leftarrow> (if previously_allocated then Some s3 else zero_page (start + of_nat i * PAGE_SIZE) s3);
            map_section p start flags n (Suc i) allocated (pages_mapped + 1) s4
          }
        }
      } else do {
        s1 \<leftarrow> upd_section p (\<lambda>sec. sec\<lparr>sec_refcnt := sec_refcnt sec + 1, vmbase := start\<rparr>) s;
        Some (start, s1)
      })"
  by pat_completeness auto
termination
  by (relation "measure (\<lambda>(p, start, flags, n, i, fa, pm, s). n - i)") auto

declare map_section.simps [simp del]

definition MapSection :: "ptr \<Rightarrow> 'a object_state_scheme \<Rightarrow> (u32 \<times> 'a object_state_scheme) option" where
  "MapSection p s =
     (if p = 0 then Some (0, s)
      else do {
        sec \<leftarrow> sections s p;
        start \<leftarrow> FindFreePageRange (4 * PAGE_SIZE) KERNEL_VM_BASE (n_pages sec) s;
        if start = 0 then Some (0, s)
        else map_section p start (section_flags (permissions sec)) (unat (n_pages sec)) 0 0 0 s
      })"

fun unmap_section :: "ptr \<Rightarrow> u32 \<Rightarrow> nat \<Rightarrow> nat \<Rightarrow> 'a object_state_scheme \<Rightarrow> 'a object_state_scheme option" where
  "unmap_section p base i 0 s = Some s"
| "unmap_section p base i (Suc n) s = do {
     let addr = base + of_nat i * PAGE_SIZE;
     s1 \<leftarrow> zero_page addr s;
     sec \<leftarrow> sections s1 p;
     let s2 = FreeFrame (sec_frames sec i) s1;
     let s3 = s2\<lparr>sections := (sections s2)(p \<mapsto> sec\<lparr>sec_frames := (sec_frames sec)(i := 0)\<rparr>)\<rparr>;
     s4 \<leftarrow> UnmapSinglePage addr s3;
     unmap_section p base (Suc i) n s4
   }"

definition UnmapSection :: "ptr \<Rightarrow> u32 \<Rightarrow> 'a object_state_scheme \<Rightarrow> 'a object_state_scheme option" where
  "UnmapSection p base s = do {
     sec \<leftarrow> sections s p;
     if sec_refcnt sec > 1 then upd_section p (\<lambda>sec. sec\<lparr>sec_refcnt := sec_refcnt sec - 1\<rparr>) s
     else if n_pages sec = 0 then Some s
     else unmap_section p base 0 (unat (n_pages sec)) s
   }"

definition DeleteSection :: "ptr \<Rightarrow> 'a object_state_scheme \<Rightarrow> 'a object_state_scheme option" where
  "DeleteSection p s = do {
     sec \<leftarrow> sections s p;
     ct \<leftarrow> threads s (GetCurrentExecutionThread s);
     if address_space sec \<noteq> t_id ct then Some s
     else if sec_refcnt sec > 1 then upd_section p (\<lambda>sec. sec\<lparr>sec_refcnt := sec_refcnt sec - 1\<rparr>) s
     else do {
       s1 \<leftarrow> UnmapSection p (vmbase sec) s;
       s2 \<leftarrow> kfree p s1;
       Some (s2\<lparr>sections := (sections s2)(p := None)\<rparr>)
     }
   }"

section \<open>Ports\<close>

definition InitializePortTree :: "'a object_state_scheme \<Rightarrow> Status \<times> 'a object_state_scheme" where
  "InitializePortTree s = (STATUS_OK, s\<lparr>port_list_head := 0\<rparr>)"

partial_function (option) find_port :: "ptr \<Rightarrow> string \<Rightarrow> 'a object_state_scheme \<Rightarrow> ptr option" where
  "find_port current name s =
     (if current = 0 then Some 0
      else Option.bind (port_nodes s current) (\<lambda>node.
        Option.bind (ports s (pn_port node)) (\<lambda>port.
          Option.bind (strncmp (port_name port) name MAX_PORT_NAME) (\<lambda>r.
            if r = 0 then Some (pn_port node) else find_port (pn_next node) name s))))"

declare find_port.simps [code]

definition FindPortByName :: "string \<Rightarrow> 'a object_state_scheme \<Rightarrow> ptr option" where
  "FindPortByName name s = find_port (port_list_head s) name s"

text \<open>\<open>CreatePort\<close> returns the status and, if it stores one, the new port.\<close>

definition CreatePort :: "ptr \<Rightarrow> ptr \<Rightarrow> 'a object_state_scheme \<Rightarrow> ((Status \<times> ptr option) \<times> 'a object_state_scheme) option" where
  "CreatePort name thread s = do {
     found \<leftarrow> (if name = 0 then Some 0 else Option.bind (kstrings s name) (\<lambda>str. FindPortByName str s));
     if name \<noteq> 0 \<and> found \<noteq> 0 then Some ((STATUS_UNSUPPORTED, None), s)
     else do {
       (p, s1) \<leftarrow> kmalloc SIZEOF_PORT s;
       if p = 0 then Some ((STATUS_OUT_OF_MEMORY, None), s1)
       else do {
         str \<leftarrow> (if name = 0 then Some [NUL] else kstrings s1 name);
         len \<leftarrow> strlen str;
         if name \<noteq> 0 \<and> len \<ge> MAX_PORT_NAME then Some ((STATUS_BAD_ARGUMENT, None), s1)
         else do {
           pname \<leftarrow> (if name = 0 then Some (port_name (junk_ports s1 p))
                     else map_option (\<lambda>n. n[MAX_PORT_NAME - 1 := NUL]) (strncpy (port_name (junk_ports s1 p)) str MAX_PORT_NAME));
           let s2 = s1\<lparr>ports := (ports s1)(p \<mapsto> \<lparr>msgbuf = (\<lambda>_. replicate (unat SIZEOF_MESSAGE) 0), head = 0, tail = 0, msgcount = 0,
             port_name = pname, port_owner = thread\<rparr>)\<rparr>;
           if name = 0 then Some ((STATUS_OK, Some p), s2)
           else do {
             (node, s3) \<leftarrow> kmalloc SIZEOF_PORTNODE s2;
             if node = 0 then do {
               s4 \<leftarrow> kfree p s3;
               Some ((STATUS_OUT_OF_MEMORY, None), s4\<lparr>ports := (ports s4)(p := None)\<rparr>)
             } else Some ((STATUS_OK, Some p),
               s3\<lparr>port_nodes := (port_nodes s3)(node \<mapsto> \<lparr>pn_port = p, pn_next = port_list_head s3\<rparr>), port_list_head := node\<rparr>)
           }
         }
       }
     }
   }"

text \<open>The search of \<^verbatim>\<open>DeletePort\<close>: the node of the port and the one before it.\<close>

partial_function (option) find_node :: "ptr \<Rightarrow> ptr \<Rightarrow> ptr \<Rightarrow> 'a object_state_scheme \<Rightarrow> (ptr \<times> ptr) option" where
  "find_node p iter prev s =
     (if iter = 0 then Some (0, prev)
      else Option.bind (port_nodes s iter) (\<lambda>node.
        if pn_port node = p then Some (iter, prev) else find_node p (pn_next node) iter s))"

declare find_node.simps [code]

definition DeletePort :: "ptr \<Rightarrow> 'a object_state_scheme \<Rightarrow> 'a object_state_scheme option" where
  "DeletePort p s = do {
     (iter, prev) \<leftarrow> find_node p (port_list_head s) 0 s;
     if iter = 0 then Some s
     else do {
       node \<leftarrow> port_nodes s iter;
       s1 \<leftarrow> (if prev \<noteq> 0
              then map_option (\<lambda>pv. s\<lparr>port_nodes := (port_nodes s)(prev \<mapsto> pv\<lparr>pn_next := pn_next node\<rparr>)\<rparr>) (port_nodes s prev)
              else Some (s\<lparr>port_list_head := pn_next node\<rparr>));
       s2 \<leftarrow> kfree iter s1;
       s3 \<leftarrow> kfree p s2;
       Some (s3\<lparr>port_nodes := (port_nodes s3)(iter := None), ports := (ports s3)(p := None)\<rparr>)
     }
   }"

section \<open>Objects and handle tables\<close>

definition AllocateObject :: "ptr \<Rightarrow> u32 \<Rightarrow> u32 \<Rightarrow> 'a object_state_scheme \<Rightarrow> (ptr \<times> 'a object_state_scheme) option" where
  "AllocateObject name type perms s = do {
     (obj, s1) \<leftarrow> kmalloc SIZEOF_OBJECT s;
     if obj = 0 then Some (0, s1)
     else Some (obj, s1\<lparr>objects := (objects s1)(obj \<mapsto>
       \<lparr>o_type = type, o_name = name, o_data = 0, o_permissions = 0, o_refcnt = 1\<rparr>)\<rparr>)
   }"

definition DeleteObject :: "ptr \<Rightarrow> 'a object_state_scheme \<Rightarrow> 'a object_state_scheme option" where
  "DeleteObject p s = do {
     obj \<leftarrow> objects s p;
     if o_refcnt obj > 1 then Some (s\<lparr>objects := (objects s)(p \<mapsto> obj\<lparr>o_refcnt := o_refcnt obj - 1\<rparr>)\<rparr>)
     else do {
       s1 \<leftarrow> (if o_data obj = 0 then Some s
              else if o_type obj = OBJ_PORT then DeletePort (o_data obj) s
              else if o_type obj = OBJ_SECTION then DeleteSection (o_data obj) s
              else if o_type obj = OBJ_THREAD then DeleteThread (o_data obj) s
              else Some s);
       s2 \<leftarrow> kfree p s1;
       Some (s2\<lparr>objects := (objects s2)(p := None)\<rparr>)
     }
   }"

definition AppendToHandleTable :: "HandleTable \<Rightarrow> ptr \<Rightarrow> int \<times> HandleTable" where
  "AppendToHandleTable table obj =
     (let free_mask = NOT (valid_bitmap table)
      in if free_mask = 0 then (- 1, table)
         else let index = builtin_ctz free_mask
              in (int index, table\<lparr>valid_bitmap := SET_BIT (valid_bitmap table) index, objlist := (objlist table)(index := obj)\<rparr>))"

text \<open>An index outside of the table is undefined: the array access and the shift.\<close>

definition DeleteFromHandleTable :: "HandleTable \<Rightarrow> int \<Rightarrow> (ptr \<times> HandleTable) option" where
  "DeleteFromHandleTable table index =
     (if index < 0 \<or> index \<ge> int MAX_OBJ_PER_PROCESS then None
      else let i = nat index
           in Some (objlist table i, table\<lparr>valid_bitmap := CLEAR_BIT (valid_bitmap table) i, objlist := (objlist table)(i := 0)\<rparr>))"

section \<open>Thread objects\<close>

lemma next_stack_decreases:
  fixes a :: u32
  assumes "a + 2 * PAGE_SIZE \<le> KERNEL_STACK_END"
  shows "unat (KERNEL_STACK_END - (a + 2 * PAGE_SIZE)) < unat (KERNEL_STACK_END - a)"
proof -
  define d where "d = KERNEL_STACK_END - (a + 2 * PAGE_SIZE)"
  have u: "unat d = unat KERNEL_STACK_END - unat (a + 2 * PAGE_SIZE)"
    unfolding d_def by (rule unat_sub [OF assms])
  then have "unat d \<le> 0xEFFF0000" by simp
  then have "unat d < unat (d + 2 * PAGE_SIZE)" by (simp add: unat_word_ariths)
  moreover have "d + 2 * PAGE_SIZE = KERNEL_STACK_END - a" by (simp add: d_def)
  ultimately show ?thesis unfolding d_def [symmetric] by (simp only:)
qed

function next_kernel_stack :: "u32 \<Rightarrow> 'a vm_state_scheme \<Rightarrow> u32 option" where
  "next_kernel_stack current_addr s =
     (if current_addr + 2 * PAGE_SIZE \<le> KERNEL_STACK_END then do {
        low \<leftarrow> IsVirtualPageMapped current_addr s;
        high \<leftarrow> (if low then Some True else IsVirtualPageMapped (current_addr + PAGE_SIZE) s);
        if \<not> low \<and> \<not> high then Some current_addr else next_kernel_stack (current_addr + 2 * PAGE_SIZE) s
      } else Some 0)"
  by pat_completeness auto
termination
  by (relation "measure (\<lambda>(a, s). unat (KERNEL_STACK_END - a))") (simp, simp only: in_measure case_prod_conv next_stack_decreases)

declare next_kernel_stack.simps [simp del]

definition GetNextKernelStackAddress :: "'a vm_state_scheme \<Rightarrow> u32 option" where
  "GetNextKernelStackAddress s = next_kernel_stack KERNEL_STACK_BASE s"

text \<open>The label \<^verbatim>\<open>bad\<close> of \<^verbatim>\<open>CreateThread\<close>, where the thread is always null.\<close>

definition create_thread_bad :: "u32 \<Rightarrow> u32 \<Rightarrow> u32 \<Rightarrow> 'a task_state_scheme \<Rightarrow> (ptr \<times> 'a task_state_scheme) option" where
  "create_thread_bad phys1 phys2 stackaddr s = do {
     let s1 = (if phys1 \<noteq> 0 then FreeFrame phys1 s else s);
     let s2 = (if phys2 \<noteq> 0 then FreeFrame phys2 s1 else s1);
     s3 \<leftarrow> UnmapSinglePage (stackaddr - PAGE_SIZE) s2;
     s4 \<leftarrow> UnmapSinglePage (stackaddr - 2 * PAGE_SIZE) s3;
     Some (0, s4)
   }"

definition CreateThread :: "u32 \<Rightarrow> u32 \<Rightarrow> u32 \<Rightarrow> u32 \<Rightarrow> 'a task_state_scheme \<Rightarrow> (ptr \<times> 'a task_state_scheme) option" where
  "CreateThread trampoline entryaddr stack extra_data s = do {
     let (phys1, s1) = AllocateFrame s;
     let (phys2, s2) = AllocateFrame s1;
     base \<leftarrow> GetNextKernelStackAddress s2;
     if base = 0 then Some (0, s2)
     else do {
       let stackaddr = base + 2 * PAGE_SIZE;
       if phys1 = 0 \<or> phys2 = 0 then create_thread_bad phys1 phys2 stackaddr s2
       else do {
         (st, s3) \<leftarrow> MapSinglePage phys2 (stackaddr - PAGE_SIZE) (PAGE_PRESENT OR PAGE_RW) s2;
         if st \<noteq> STATUS_OK then create_thread_bad phys1 phys2 stackaddr s3
         else do {
           (st, s4) \<leftarrow> MapSinglePage phys1 (stackaddr - 2 * PAGE_SIZE) (PAGE_PRESENT OR PAGE_RW) s3;
           if st \<noteq> STATUS_OK then create_thread_bad phys1 phys2 stackaddr s4
           else do {
             (t, s5) \<leftarrow> AllocateUserThread trampoline entryaddr stack stackaddr extra_data s4;
             if t = 0 then create_thread_bad phys1 phys2 stackaddr s5
             else do {
               ct \<leftarrow> threads s5 (GetCurrentExecutionThread s5);
               s6 \<leftarrow> upd_thread t (\<lambda>th. th\<lparr>t_owner := t_owner ct\<rparr>) s5;
               Some (t, s6)
             }
           }
         }
       }
     }
   }"

definition RunThread :: "ptr \<Rightarrow> 'a object_state_scheme \<Rightarrow> 'a object_state_scheme option" where
  "RunThread thread s = do {
     obj \<leftarrow> objects s thread;
     AddThreadToScheduler (o_data obj) s
   }"

end
