(* ===== verification/Handles.thy ===== *)
theory Handles
  imports Objects
begin

text \<open>
  Handle tables (\<^verbatim>\<open>src/sys/iomgr/object.c\<close>): the bitmap of a table says which of its entries are
  objects, and the table hands out its entries the way the frame manager hands out frames.
\<close>

section \<open>Tables\<close>

definition table_ok :: "HandleTable \<Rightarrow> bool" where
  "table_ok t \<longleftrightarrow> (\<forall>i < MAX_OBJ_PER_PROCESS. bit (valid_bitmap t) i \<longleftrightarrow> objlist t i \<noteq> 0)"

abbreviation handle_used :: "HandleTable \<Rightarrow> nat \<Rightarrow> bool" where
  "handle_used t i \<equiv> bit (valid_bitmap t) i"

lemma handle_used_less: "handle_used t i \<Longrightarrow> i < MAX_OBJ_PER_PROCESS"
  using bit_imp_le_length [of "valid_bitmap t" i] by simp

lemma AppendToHandleTable_cases:
  obtains (full) "AppendToHandleTable t obj = (- 1, t)" "\<And>i. i < MAX_OBJ_PER_PROCESS \<Longrightarrow> handle_used t i"
  | (slot) i where "i < MAX_OBJ_PER_PROCESS" "\<not> handle_used t i" "\<And>j. j < i \<Longrightarrow> handle_used t j"
      "AppendToHandleTable t obj =
        (int i, t\<lparr>valid_bitmap := SET_BIT (valid_bitmap t) i, objlist := (objlist t)(i := obj)\<rparr>)"
proof (cases "NOT (valid_bitmap t) = 0")
  case True
  then have "bit (NOT (valid_bitmap t)) i = False" for i by simp
  then have "\<And>i. i < MAX_OBJ_PER_PROCESS \<Longrightarrow> handle_used t i" by (simp add: bit_not_iff)
  with True show thesis by (intro full) (simp_all add: AppendToHandleTable_def)
next
  case False
  note c = builtin_ctz_spec [OF False]
  let ?i = "builtin_ctz (NOT (valid_bitmap t))"
  show thesis
  proof (rule slot [of ?i])
    show "?i < MAX_OBJ_PER_PROCESS" and "\<not> handle_used t ?i" using c by (simp_all add: bit_not_iff)
    show "handle_used t j" if "j < ?i" for j using c that by (simp add: bit_not_iff)
    show "AppendToHandleTable t obj =
        (int ?i, t\<lparr>valid_bitmap := SET_BIT (valid_bitmap t) ?i, objlist := (objlist t)(?i := obj)\<rparr>)"
      using False by (simp add: AppendToHandleTable_def Let_def)
  qed
qed

lemmas bit_handle = bit_SET_BIT bit_CLEAR_BIT

lemma table_ok_append:
  assumes "table_ok t" and "obj \<noteq> 0" and "i < MAX_OBJ_PER_PROCESS"
  shows "table_ok (t\<lparr>valid_bitmap := SET_BIT (valid_bitmap t) i, objlist := (objlist t)(i := obj)\<rparr>)"
  using assms by (simp add: table_ok_def bit_handle)

definition handle_take :: "ptr \<Rightarrow> HandleTable \<Rightarrow> (nat \<times> HandleTable) option" where
  "handle_take obj t = (let (i, t') = AppendToHandleTable t obj in if i < 0 then None else Some (nat i, t'))"

definition handle_drop :: "nat \<Rightarrow> HandleTable \<Rightarrow> HandleTable" where
  "handle_drop i t = (case DeleteFromHandleTable t (int i) of None \<Rightarrow> t | Some (_, t') \<Rightarrow> t')"

lemma handle_drop_eq:
  "i < MAX_OBJ_PER_PROCESS \<Longrightarrow> handle_drop i t = t\<lparr>valid_bitmap := CLEAR_BIT (valid_bitmap t) i, objlist := (objlist t)(i := 0)\<rparr>"
  by (simp add: handle_drop_def DeleteFromHandleTable_def Let_def)

lemma handle_take_cases:
  assumes "handle_take obj t = r"
  shows "(r = None \<and> (\<forall>i < MAX_OBJ_PER_PROCESS. handle_used t i)) \<or>
    (\<exists>i < MAX_OBJ_PER_PROCESS. \<not> handle_used t i \<and>
      r = Some (i, t\<lparr>valid_bitmap := SET_BIT (valid_bitmap t) i, objlist := (objlist t)(i := obj)\<rparr>))"
  by (rule AppendToHandleTable_cases [where t = t and obj = obj]) (use assms in \<open>auto simp: handle_take_def\<close>)

interpretation handles: slot_alloc
  "\<lambda>t. table_ok t \<and> obj \<noteq> 0" "\<lambda>t i. i < MAX_OBJ_PER_PROCESS" handle_used "handle_take obj" handle_drop
  for obj :: ptr
proof
  fix t t' :: HandleTable and k j
  assume "table_ok t \<and> obj \<noteq> 0" and t: "handle_take obj t = Some (k, t')"
  then have k: "k < MAX_OBJ_PER_PROCESS" "\<not> handle_used t k" and
    t': "t' = t\<lparr>valid_bitmap := SET_BIT (valid_bitmap t) k, objlist := (objlist t)(k := obj)\<rparr>" and ok: "table_ok t" "obj \<noteq> 0"
    using handle_take_cases [OF t] by auto
  show "k < MAX_OBJ_PER_PROCESS \<and> \<not> handle_used t k" using k by simp
  show "handle_used t' j = (j = k \<or> handle_used t j)" using k by (auto simp: t' bit_handle)
  show "(table_ok t' \<and> obj \<noteq> 0) \<and> (\<lambda>i. i < MAX_OBJ_PER_PROCESS) = (\<lambda>i. i < MAX_OBJ_PER_PROCESS)"
    using table_ok_append [OF ok k(1)] ok by (simp add: t')
next
  fix t :: HandleTable and k
  assume "handle_take obj t = None" and "k < MAX_OBJ_PER_PROCESS"
  then show "handle_used t k" using handle_take_cases [of obj t None] by simp
next
  fix t :: HandleTable and k j
  assume "table_ok t \<and> obj \<noteq> 0" and "k < MAX_OBJ_PER_PROCESS"
  then show "handle_used (handle_drop k t) j = (j \<noteq> k \<and> handle_used t j)"
    and "(table_ok (handle_drop k t) \<and> obj \<noteq> 0) \<and> (\<lambda>i. i < MAX_OBJ_PER_PROCESS) = (\<lambda>i. i < MAX_OBJ_PER_PROCESS)"
    by (auto simp: handle_drop_eq bit_handle table_ok_def)
qed

lemma unset_set_handle: "i < 32 \<Longrightarrow> \<not> bit w i \<Longrightarrow> CLEAR_BIT (SET_BIT w i) i = w"
  by (rule bit_eqI) (auto simp: bit_handle)

text \<open>
  Handles: a full table refuses the object with -1 and stays as it is. Any other table gives
  the object its lowest free entry, keeps the others and stays consistent with its bitmap; deleting
  the handle gives the object back and restores the table.
\<close>

lemma handle_append_delete:
  assumes "table_ok t" and "obj \<noteq> 0" and "AppendToHandleTable t obj = (h, t')"
  shows "table_ok t' \<and>
    (if (\<forall>i < MAX_OBJ_PER_PROCESS. handle_used t i) then h = - 1 \<and> t' = t
     else h = int (LEAST i. \<not> handle_used t i) \<and> nat h < MAX_OBJ_PER_PROCESS \<and>
       objlist t' = (objlist t)(nat h := obj) \<and> DeleteFromHandleTable t' h = Some (obj, t))"
proof (rule AppendToHandleTable_cases [where t = t and obj = obj])
  assume "AppendToHandleTable t obj = (- 1, t)" "\<And>i. i < MAX_OBJ_PER_PROCESS \<Longrightarrow> handle_used t i"
  then show ?thesis using assms by simp
next
  fix i
  assume i: "i < MAX_OBJ_PER_PROCESS" "\<not> handle_used t i" and low: "\<And>j. j < i \<Longrightarrow> handle_used t j" and
    a: "AppendToHandleTable t obj =
      (int i, t\<lparr>valid_bitmap := SET_BIT (valid_bitmap t) i, objlist := (objlist t)(i := obj)\<rparr>)"
  have l: "(LEAST i. \<not> handle_used t i) = i"
    by (rule Least_equality) (use i low not_le in \<open>auto\<close>)
  have z: "(objlist t)(i := 0) = objlist t" using assms(1) i by (simp add: table_ok_def fun_upd_idem)
  have h: "h = int i" "t' = t\<lparr>valid_bitmap := SET_BIT (valid_bitmap t) i, objlist := (objlist t)(i := obj)\<rparr>"
    using a assms(3) by simp_all
  have "table_ok t'" unfolding h by (rule table_ok_append [OF assms(1,2) i(1)])
  moreover have "DeleteFromHandleTable t' h = Some (obj, t)"
    using i unset_set_handle [OF i] z by (simp add: h DeleteFromHandleTable_def)
  moreover have "\<not> (\<forall>i < MAX_OBJ_PER_PROCESS. handle_used t i)" using i by blast
  ultimately show ?thesis using i(1) l h by simp
qed

definition ex_table :: HandleTable where
  "ex_table = \<lparr>objlist = (\<lambda>i. if i < 2 then 0xC0001000 else 0), valid_bitmap = 3\<rparr>"

lemma bit_3: "bit (3 :: u32) i \<longleftrightarrow> i < 2"
proof -
  have "(3 :: u32) = mask 2" by (simp add: mask_eq_exp_minus_1)
  then show ?thesis by (simp only: bit_mask_iff) auto
qed

lemma table_ok_ex_table: "table_ok ex_table"
  unfolding table_ok_def ex_table_def by (simp add: bit_3 del: bit_numeral_word_iff)

lemma handle_append_delete_example:
  "table_ok (snd (AppendToHandleTable ex_table 0xC0002000))"
  using handle_append_delete [OF table_ok_ex_table _ prod.collapse [symmetric], where obj = "0xC0002000"] by simp

text \<open>
  Whatever handles a process opens and closes, the open ones are different and valid, and the
  bitmap of the table tells exactly which entries hold an object.
\<close>

lemma handles_never_shared:
  assumes "table_ok t" and "obj \<noteq> 0" and "slot_run (handle_take obj) handle_drop ops (t, []) = (t', own)"
  shows "distinct own \<and> (\<forall>h \<in> set own. h < MAX_OBJ_PER_PROCESS \<and> objlist t' h \<noteq> 0) \<and> table_ok t'"
proof -
  have "handles.owned obj t []" unfolding handles.owned_def using assms(1,2) by simp
  from handles.owned_run [OF this assms(3)] show ?thesis
    unfolding handles.owned_def by (auto simp: table_ok_def)
qed

lemma handles_never_shared_example:
  "distinct (snd (slot_run (handle_take 0xC0002000) handle_drop [Grab, Release 0, Grab, Grab] (ex_table, [])))"
  using handles_never_shared [OF table_ok_ex_table _ prod.collapse [symmetric], where obj = "0xC0002000" and ops = "[Grab, Release 0, Grab, Grab]"] by simp

end
