(* ===== verification/Ipc.thy ===== *)
theory Ipc
  imports Handles
begin

text \<open>
  Messages between processes (\<^verbatim>\<open>src/sys/syscall/ipc.c\<close>): sending to a port and receiving from it.

  \<open>DWIPCReceive\<close> stops at the point where the code gives the processor away (\<open>Blocked\<close>). When the
  thread runs again it continues with \<open>receive_message\<close>, the head of the waiting loop.
\<close>

section \<open>Sending\<close>

definition upd_handles :: "ptr \<Rightarrow> HandleTable \<Rightarrow> 'a task_state_scheme \<Rightarrow> 'a task_state_scheme option" where
  "upd_handles p table s = map_option (\<lambda>pr. s\<lparr>procs := (procs s)(p \<mapsto> pr\<lparr>p_handles := table\<rparr>)\<rparr>) (procs s p)"

text \<open>The search for a handle of the port in the first 31 entries.\<close>

fun find_handle :: "HandleTable \<Rightarrow> ptr \<Rightarrow> nat \<Rightarrow> nat \<Rightarrow> int" where
  "find_handle table obj i 0 = - 1"
| "find_handle table obj i (Suc n) =
     (if bit (valid_bitmap table) i \<and> objlist table i = obj then int i else find_handle table obj (Suc i) n)"

text \<open>
  The handle the receiver can answer to: the new value of the field, with the table of the receiver
  updated.
\<close>

definition translate_reply :: "ptr \<Rightarrow> Port \<Rightarrow> int \<Rightarrow> 'a object_state_scheme \<Rightarrow> (int \<times> 'a object_state_scheme) option" where
  "translate_reply curr_proc port reply_from s =
     (if reply_from \<ge> 0 \<and> reply_from < int MAX_OBJ_PER_PROCESS then do {
        pr \<leftarrow> procs s curr_proc;
        let replyobj = objlist (p_handles pr) (nat reply_from);
        if replyobj = 0 then Some (reply_from, s)
        else do {
          obj \<leftarrow> objects s replyobj;
          if o_type obj \<noteq> OBJ_PORT then Some (reply_from, s)
          else do {
            owner \<leftarrow> threads s (port_owner port);
            target \<leftarrow> procs s (t_owner owner);
            let found = find_handle (p_handles target) replyobj 0 (MAX_OBJ_PER_PROCESS - 1);
            let (new_hdl, table) = (if found = - 1 then AppendToHandleTable (p_handles target) replyobj else (found, p_handles target));
            s1 \<leftarrow> upd_handles (t_owner owner) table s;
            Some (if new_hdl \<ge> 0 then new_hdl else - 1, s1)
          }
        }
      } else Some (- 1, s))"

definition DWIPCSend :: "int \<Rightarrow> u32 \<Rightarrow> u32 \<Rightarrow> 'a object_state_scheme \<Rightarrow> (Status \<times> 'a object_state_scheme) option" where
  "DWIPCSend handle m message_size0 s =
     (let message_size = (if message_size0 > SIZEOF_MESSAGE then SIZEOF_MESSAGE else message_size0)
      in if message_size < SIZEOF_MESSAGEHEADER then Some (STATUS_BAD_ARGUMENT, s)
      else if handle < 0 \<or> handle \<ge> int MAX_OBJ_PER_PROCESS then Some (STATUS_OUT_OF_BOUNDS, s)
      else do {
        ct \<leftarrow> threads s (GetCurrentExecutionThread s);
        pr \<leftarrow> procs s (t_owner ct);
        let target = objlist (p_handles pr) (nat handle);
        if target = 0 then Some (STATUS_NO_ENDPOINT, s)
        else do {
          obj \<leftarrow> objects s target;
          if o_type obj \<noteq> OBJ_PORT \<or> o_data obj = 0 then Some (STATUS_NO_ENDPOINT, s)
          else do {
            port \<leftarrow> ports s (o_data obj);
            if port_owner port = 0 then Some (STATUS_NO_ENDPOINT, s)
            else if msgcount port \<ge> MAX_MESSAGES_IN_PORT then Some (STATUS_MSGQUEUE_FULL, s)
            else do {
              (st, bytes) \<leftarrow> CopyFromUser m message_size s;
              if st \<noteq> STATUS_OK then Some (STATUS_BAD_ARGUMENT, s)
              else do {
                let kmsg = copy_into (msgbuf port (unat (tail port))) bytes;
                let s1 = s\<lparr>ports := (ports s)(o_data obj \<mapsto> port\<lparr>msgbuf := (msgbuf port)(unat (tail port) := kmsg)\<rparr>)\<rparr>;
                if get32 PAYLOAD_LENGTH kmsg > message_size - SIZEOF_MESSAGEHEADER then Some (STATUS_BAD_ARGUMENT, s1)
                else do {
                  let kmsg1 = put32 RESERVED 0 (put32 SENDER (p_pid pr) kmsg);
                  (reply, s2) \<leftarrow> translate_reply (t_owner ct) port (sint (get32 REPLY_HANDLE kmsg1)) s1;
                  let kmsg2 = put32 REPLY_HANDLE (word_of_int reply) kmsg1;
                  s3 \<leftarrow> WakeThread (port_owner port) (s2\<lparr>ports := (ports s2)(o_data obj \<mapsto> port_put kmsg2 port)\<rparr>);
                  Some (STATUS_OK, s3)
                }
              }
            }
          }
        }
      })"

section \<open>Receiving\<close>

datatype 's receipt = Received Status 's | Blocked 's

definition receive_message :: "ptr \<Rightarrow> u32 \<Rightarrow> 'a object_state_scheme \<Rightarrow> 'a object_state_scheme receipt option" where
  "receive_message p msave s = do {
     port \<leftarrow> ports s p;
     if msgcount port = 0 then do {
       s1 \<leftarrow> BlockThread (GetCurrentExecutionThread s) s;
       s2 \<leftarrow> ScheduleNext s1;
       Some (Blocked s2)
     } else do {
       let to_read = msgbuf port (unat (head port));
       let len = SIZEOF_MESSAGEHEADER + get32 PAYLOAD_LENGTH to_read;
       if len > SIZEOF_MESSAGE then None
       else do {
         (st, s1) \<leftarrow> CopyToUser msave (take (unat len) to_read) s;
         Some (Received (if st \<noteq> STATUS_OK then STATUS_BAD else STATUS_OK)
           (s1\<lparr>ports := (ports s1)(p \<mapsto> port_take port)\<rparr>))
       }
     }
   }"

definition DWIPCReceive :: "int \<Rightarrow> u32 \<Rightarrow> 'a object_state_scheme \<Rightarrow> 'a object_state_scheme receipt option" where
  "DWIPCReceive handle msave s =
     (if handle < 0 \<or> handle \<ge> int MAX_OBJ_PER_PROCESS then Some (Received STATUS_OUT_OF_BOUNDS s)
      else do {
        ct \<leftarrow> threads s (GetCurrentExecutionThread s);
        pr \<leftarrow> procs s (t_owner ct);
        let target = objlist (p_handles pr) (nat handle);
        if target = 0 then Some (Received STATUS_NO_ENDPOINT s)
        else do {
          obj \<leftarrow> objects s target;
          if o_type obj \<noteq> OBJ_PORT \<or> o_data obj = 0 then Some (Received STATUS_NO_ENDPOINT s)
          else do {
            port \<leftarrow> ports s (o_data obj);
            owner \<leftarrow> threads s (port_owner port);
            if t_owner owner \<noteq> t_owner ct then Some (Received STATUS_BAD_ARGUMENT s)
            else receive_message (o_data obj) msave s
          }
        }
      })"

end
