(* ===== verification/ContextSwitch.thy ===== *)
theory ContextSwitch
  imports Scheduling
begin

text \<open>
  What the context switch does to the stacks and the registers: a thread that is switched away from
  gets its registers back when it is switched to again, and a new thread starts where it should.
\<close>

section \<open>Stack memory\<close>

text \<open>The place in physical memory of a word of a stack: frame and index.\<close>

type_synonym cell = "nat \<times> nat"

definition stack_cell :: "'a vm_state_scheme \<Rightarrow> u32 \<Rightarrow> cell \<Rightarrow> bool" where
  "stack_cell s va c \<longleftrightarrow> va < PAGE_TABLE_BASE \<and> writable_at s (page_no va) (fst c) \<and> snd c = dword_no va"

definition word_at :: "'a vm_state_scheme \<Rightarrow> cell \<Rightarrow> u32" where
  "word_at s c = pmem s (fst c) (snd c)"

definition set_word :: "cell \<Rightarrow> u32 \<Rightarrow> 'a vm_state_scheme \<Rightarrow> 'a vm_state_scheme" where
  "set_word c v s = poke (fst c) (snd c) v s"

lemma word_at_set [simp]: "word_at (set_word c v s) d = (if d = c then v else word_at s d)"
  by (cases c; cases d) (auto simp: word_at_def set_word_def)

lemma load_cell: "stack_cell s va c \<Longrightarrow> load32 va s = Some (word_at s c)"
proof -
  assume a: "stack_cell s va c"
  then obtain e where "vmap s (page_no va) = Some e" "frame_no e = fst c" "va < PAGE_TABLE_BASE" "snd c = dword_no va"
    by (auto simp: stack_cell_def writable_at_def)
  with walk_vmap [of va s] show ?thesis by (auto simp: load32_def word_at_def)
qed

lemma store_cell: "stack_cell s va c \<Longrightarrow> store32 va v s = Some (set_word c v s)"
  using writable_write_frame(1) [of s va "fst c"] by (auto simp: stack_cell_def store32_def set_word_def)

lemma set_word_cell:
  assumes "vm_inv s" and "stack_cell s va c"
  shows "vm_inv (set_word c v s)" and "stack_cell (set_word c v s) = stack_cell s"
proof -
  have "\<not> table_frame s (fst c)" using assms(2) by (auto simp: stack_cell_def writable_at_def)
  note p = poke_data [OF this assms(1)]
  show "vm_inv (set_word c v s)" using p(1) by (simp add: set_word_def)
  show "stack_cell (set_word c v s) = stack_cell s" using p(3) by (simp add: stack_cell_def set_word_def fun_eq_iff)
qed

lemma vm_same:
  assumes "pmem t = pmem s" and "cr3 t = cr3 s"
  shows "stack_cell t = stack_cell s" and "word_at t = word_at s" and "vmap t = vmap s"
proof -
  have "pd_frame t = pd_frame s" "pde t = pde s" "pt_frame t = pt_frame s" "pd_present t = pd_present s" "pd_writable t = pd_writable s"
    using assms by (simp_all add: fun_eq_iff pd_frame_def pde_def pt_frame_def pd_present_def pd_writable_def)
  with assms show "stack_cell t = stack_cell s" "word_at t = word_at s" "vmap t = vmap s"
    by (simp_all add: fun_eq_iff stack_cell_def writable_at_def vmap_def table_frame_def word_at_def)
qed

lemma vm_inv_same:
  assumes "pmem t = pmem s" and "cr3 t = cr3 s" and "bitmap t = bitmap s" and "highest_addr t = highest_addr s"
  shows "vm_inv t = vm_inv s"
  using assms by (simp add: vm_inv_def frames_inv_def frame_free_def pd_frame_def pde_def pt_frame_def pd_present_def pd_writable_def)

lemma vm_inv_task [simp]: "vm_inv (s\<lparr>cpu := r\<rparr>) = vm_inv s" "vm_inv (s\<lparr>threads := th\<rparr>) = vm_inv s"
  by (rule vm_inv_same; simp)+

lemma cells_task [simp]:
  "stack_cell (s\<lparr>cpu := r\<rparr>) = stack_cell s" "stack_cell (s\<lparr>threads := th\<rparr>) = stack_cell s"
  "word_at (s\<lparr>cpu := r\<rparr>) = word_at s" "word_at (s\<lparr>threads := th\<rparr>) = word_at s"
  by (rule vm_same; simp)+

lemma set_word_upd [simp]:
  "set_word c v (s\<lparr>cpu := r\<rparr>) = (set_word c v s)\<lparr>cpu := r\<rparr>" "cpu (set_word c v s) = cpu s" "threads (set_word c v s) = threads s"
  "current_thread (set_word c v s) = current_thread s"
  by (simp_all add: set_word_def poke_def)

section \<open>One switch\<close>

lemma push_cell:
  assumes "stack_cell s (sp - 4) c"
  shows "push v (s\<lparr>cpu := r\<lparr>r_esp := sp\<rparr>\<rparr>) = Some ((set_word c v s)\<lparr>cpu := r\<lparr>r_esp := sp - 4\<rparr>\<rparr>)"
proof -
  have "stack_cell (s\<lparr>cpu := r\<lparr>r_esp := sp\<rparr>\<rparr>) (sp - 4) c" using assms by simp
  from store_cell [OF this, of v] show ?thesis by (simp add: push_def Let_def)
qed

lemma pop_cell:
  assumes "stack_cell s sp c"
  shows "pop (s\<lparr>cpu := r\<lparr>r_esp := sp\<rparr>\<rparr>) = Some (word_at s c, s\<lparr>cpu := r\<lparr>r_esp := sp + 4\<rparr>\<rparr>)"
proof -
  have "stack_cell (s\<lparr>cpu := r\<lparr>r_esp := sp\<rparr>\<rparr>) sp c" using assms by simp
  from load_cell [OF this] show ?thesis by (simp add: pop_def)
qed

text \<open>
  The places that a switch uses: the four words under the current stack pointer, where the registers
  are saved, and the five words that the other thread left on its stack, apart from them.
\<close>

definition switch_cells :: "'a task_state_scheme \<Rightarrow> u32 \<Rightarrow> cell list \<Rightarrow> cell list \<Rightarrow> bool" where
  "switch_cells s newesp cs ds \<longleftrightarrow> length cs = 4 \<and> length ds = 5 \<and> distinct cs \<and> set cs \<inter> set ds = {} \<and>
     (\<forall>i < 4. stack_cell s (r_esp (cpu s) - 4 * of_nat (Suc i)) (cs ! i)) \<and>
     (\<forall>i < 5. stack_cell s (newesp + 4 * of_nat i) (ds ! i))"

lemma switch_cellsD:
  assumes "switch_cells s newesp cs ds"
  obtains c1 c2 c3 c4 d0 d1 d2 d3 d4 where "cs = [c1, c2, c3, c4]" "ds = [d0, d1, d2, d3, d4]"
    "distinct [c1, c2, c3, c4]" "{c1, c2, c3, c4} \<inter> {d0, d1, d2, d3, d4} = {}"
    "stack_cell s (r_esp (cpu s) - 4) c1" "stack_cell s (r_esp (cpu s) - 8) c2" "stack_cell s (r_esp (cpu s) - 12) c3"
    "stack_cell s (r_esp (cpu s) - 16) c4" "stack_cell s newesp d0" "stack_cell s (newesp + 4) d1" "stack_cell s (newesp + 8) d2"
    "stack_cell s (newesp + 12) d3" "stack_cell s (newesp + 16) d4"
proof -
  note a = assms [unfolded switch_cells_def]
  obtain c1 c2 c3 c4 where c: "cs = [c1, c2, c3, c4]" using a by (auto simp: length_Suc_conv numeral_eq_Suc)
  obtain d0 d1 d2 d3 d4 where d: "ds = [d0, d1, d2, d3, d4]" using a by (auto simp: length_Suc_conv numeral_eq_Suc)
  have "\<forall>i < 4. stack_cell s (r_esp (cpu s) - 4 * of_nat (Suc i)) (cs ! i)" "\<forall>i < 5. stack_cell s (newesp + 4 * of_nat i) (ds ! i)"
    using a by blast+
  note e = this(1) [rule_format, of 0] this(1) [rule_format, of 1] this(1) [rule_format, of 2] this(1) [rule_format, of 3]
    this(2) [rule_format, of 0] this(2) [rule_format, of 1] this(2) [rule_format, of 2] this(2) [rule_format, of 3] this(2) [rule_format, of 4]
  show thesis by (rule that [OF c d]) (use a c d e in simp_all)
qed

lemma SwapThreadStack_cells:
  assumes v: "vm_inv s" and t: "threads s old = Some t"
    and c: "distinct [c1, c2, c3, c4]" "{c1, c2, c3, c4} \<inter> {d0, d1, d2, d3, d4} = {}"
    and p: "stack_cell s (r_esp (cpu s) - 4) c1" "stack_cell s (r_esp (cpu s) - 8) c2" "stack_cell s (r_esp (cpu s) - 12) c3"
      "stack_cell s (r_esp (cpu s) - 16) c4"
    and q: "stack_cell s newesp d0" "stack_cell s (newesp + 4) d1" "stack_cell s (newesp + 8) d2"
      "stack_cell s (newesp + 12) d3" "stack_cell s (newesp + 16) d4"
  shows "SwapThreadStack old newesp s =
    Some ((set_word c4 (r_edi (cpu s)) (set_word c3 (r_esi (cpu s)) (set_word c2 (r_ebx (cpu s)) (set_word c1 (r_ebp (cpu s)) s))))
      \<lparr>threads := (threads s)(old \<mapsto> t\<lparr>t_esp := r_esp (cpu s) - 16\<rparr>),
       cpu := \<lparr>r_ebp = word_at s d3, r_ebx = word_at s d2, r_esi = word_at s d1, r_edi = word_at s d0, r_esp = newesp + 20,
         r_eip = word_at s d4\<rparr>\<rparr>)"
proof -
  define r where "r = cpu s" define e where "e = r_esp r"
  define s1 where "s1 = set_word c1 (r_ebp r) s"
  define s2 where "s2 = set_word c2 (r_ebx r) s1"
  define s3 where "s3 = set_word c3 (r_esi r) s2"
  define s4 where "s4 = set_word c4 (r_edi r) s3"
  define s5 where "s5 = s4\<lparr>threads := (threads s)(old \<mapsto> t\<lparr>t_esp := e - 16\<rparr>)\<rparr>"
  note p = p [folded r_def, folded e_def]
  have s1: "vm_inv s1" "stack_cell s1 = stack_cell s" unfolding s1_def using set_word_cell [OF v p(1)] by simp_all
  have s2: "vm_inv s2" "stack_cell s2 = stack_cell s"
    unfolding s2_def using set_word_cell [of s1, unfolded s1(2), OF s1(1) p(2)] by simp_all
  have s3: "vm_inv s3" "stack_cell s3 = stack_cell s"
    unfolding s3_def using set_word_cell [of s2, unfolded s2(2), OF s2(1) p(3)] by simp_all
  have s4: "stack_cell s4 = stack_cell s"
    unfolding s4_def using set_word_cell [of s3, unfolded s3(2), OF s3(1) p(4)] by simp_all
  have w: "word_at s4 d = word_at s d" if "d \<in> {d0, d1, d2, d3, d4}" for d
    using that c(2) by (auto simp: s4_def s3_def s2_def s1_def)
  have s0: "s\<lparr>cpu := r\<lparr>r_esp := e\<rparr>\<rparr> = s" by (simp add: r_def e_def)
  have p1: "push (r_ebp r) s = Some (s1\<lparr>cpu := r\<lparr>r_esp := e - 4\<rparr>\<rparr>)"
    using push_cell [of s e c1 "r_ebp r" r, OF p(1)] by (simp only: s0 s1_def)
  have p2: "push (r_ebx r) (s1\<lparr>cpu := r\<lparr>r_esp := e - 4\<rparr>\<rparr>) = Some (s2\<lparr>cpu := r\<lparr>r_esp := e - 8\<rparr>\<rparr>)"
    using push_cell [of s1 "e - 4" c2 "r_ebx r" r] p(2) s1(2) by (simp add: s2_def)
  have p3: "push (r_esi r) (s2\<lparr>cpu := r\<lparr>r_esp := e - 8\<rparr>\<rparr>) = Some (s3\<lparr>cpu := r\<lparr>r_esp := e - 12\<rparr>\<rparr>)"
    using push_cell [of s2 "e - 8" c3 "r_esi r" r] p(3) s2(2) by (simp add: s3_def)
  have p4: "push (r_edi r) (s3\<lparr>cpu := r\<lparr>r_esp := e - 12\<rparr>\<rparr>) = Some (s4\<lparr>cpu := r\<lparr>r_esp := e - 16\<rparr>\<rparr>)"
    using push_cell [of s3 "e - 12" c4 "r_edi r" r] p(4) s3(2) by (simp add: s4_def)
  have t4: "threads s4 = threads s" by (simp add: s4_def s3_def s2_def s1_def)
  have u: "upd_thread old (t_esp_update (\<lambda>_. e - 16)) (s4\<lparr>cpu := r\<lparr>r_esp := e - 16\<rparr>\<rparr>) = Some (s5\<lparr>cpu := r\<lparr>r_esp := e - 16\<rparr>\<rparr>)"
    using t t4 by (simp add: upd_thread_def s5_def)
  have c5: "stack_cell s5 = stack_cell s" "word_at s5 = word_at s4" using s4 by (simp_all add: s5_def)
  have q': "pop (s5\<lparr>cpu := r\<lparr>r_esp := newesp\<rparr>\<rparr>) = Some (word_at s d0, s5\<lparr>cpu := r\<lparr>r_esp := newesp + 4\<rparr>\<rparr>)"
    "pop (s5\<lparr>cpu := r\<lparr>r_esp := newesp + 4\<rparr>\<rparr>) = Some (word_at s d1, s5\<lparr>cpu := r\<lparr>r_esp := newesp + 8\<rparr>\<rparr>)"
    "pop (s5\<lparr>cpu := r\<lparr>r_esp := newesp + 8\<rparr>\<rparr>) = Some (word_at s d2, s5\<lparr>cpu := r\<lparr>r_esp := newesp + 12\<rparr>\<rparr>)"
    "pop (s5\<lparr>cpu := r\<lparr>r_esp := newesp + 12\<rparr>\<rparr>) = Some (word_at s d3, s5\<lparr>cpu := r\<lparr>r_esp := newesp + 16\<rparr>\<rparr>)"
    "pop (s5\<lparr>cpu := r\<lparr>r_esp := newesp + 16\<rparr>\<rparr>) = Some (word_at s d4, s5\<lparr>cpu := r\<lparr>r_esp := newesp + 20\<rparr>\<rparr>)"
    using q pop_cell [of s5, unfolded c5] w by simp_all
  have "SwapThreadStack old newesp s = Some (s5\<lparr>cpu := r\<lparr>r_esp := newesp + 20, r_edi := word_at s d0, r_esi := word_at s d1,
      r_ebx := word_at s d2, r_ebp := word_at s d3, r_eip := word_at s d4\<rparr>\<rparr>)"
    unfolding SwapThreadStack_def r_def [symmetric] by (simp add: p1 p2 p3 p4 u q' Let_def)
  then show ?thesis unfolding s5_def s4_def s3_def s2_def s1_def r_def e_def by simp
qed

section \<open>Properties\<close>

lemma SwapThreadStack_switch:
  assumes v: "vm_inv s" and t: "threads s old = Some t" and sc: "switch_cells s newesp cs ds"
  obtains s' where "SwapThreadStack old newesp s = Some s'"
    "cpu s' = \<lparr>r_ebp = word_at s (ds ! 3), r_ebx = word_at s (ds ! 2), r_esi = word_at s (ds ! 1), r_edi = word_at s (ds ! 0),
       r_esp = newesp + 20, r_eip = word_at s (ds ! 4)\<rparr>"
    "threads s' = (threads s)(old \<mapsto> t\<lparr>t_esp := r_esp (cpu s) - 16\<rparr>)" "vm_inv s'" "stack_cell s' = stack_cell s"
    "word_at s' (cs ! 0) = r_ebp (cpu s)" "word_at s' (cs ! 1) = r_ebx (cpu s)" "word_at s' (cs ! 2) = r_esi (cpu s)"
    "word_at s' (cs ! 3) = r_edi (cpu s)" "\<And>c. c \<notin> set cs \<Longrightarrow> word_at s' c = word_at s c"
proof -
  obtain c1 c2 c3 c4 d0 d1 d2 d3 d4 where x: "cs = [c1, c2, c3, c4]" "ds = [d0, d1, d2, d3, d4]"
    "distinct [c1, c2, c3, c4]" "{c1, c2, c3, c4} \<inter> {d0, d1, d2, d3, d4} = {}"
    "stack_cell s (r_esp (cpu s) - 4) c1" "stack_cell s (r_esp (cpu s) - 8) c2" "stack_cell s (r_esp (cpu s) - 12) c3"
    "stack_cell s (r_esp (cpu s) - 16) c4" "stack_cell s newesp d0" "stack_cell s (newesp + 4) d1" "stack_cell s (newesp + 8) d2"
    "stack_cell s (newesp + 12) d3" "stack_cell s (newesp + 16) d4"
    by (rule switch_cellsD [OF sc])
  note w = SwapThreadStack_cells [OF v t x(3-13)]
  define s4 where "s4 = set_word c4 (r_edi (cpu s)) (set_word c3 (r_esi (cpu s)) (set_word c2 (r_ebx (cpu s)) (set_word c1 (r_ebp (cpu s)) s)))"
  have s4: "vm_inv s4 \<and> stack_cell s4 = stack_cell s"
  proof -
    let ?s1 = "set_word c1 (r_ebp (cpu s)) s" let ?s2 = "set_word c2 (r_ebx (cpu s)) ?s1" let ?s3 = "set_word c3 (r_esi (cpu s)) ?s2"
    have s1: "vm_inv ?s1" "stack_cell ?s1 = stack_cell s" using set_word_cell [OF v x(5)] by simp_all
    have s2: "vm_inv ?s2" "stack_cell ?s2 = stack_cell s" using set_word_cell [of ?s1, unfolded s1(2), OF s1(1) x(6)] by simp_all
    have s3: "vm_inv ?s3" "stack_cell ?s3 = stack_cell s" using set_word_cell [of ?s2, unfolded s2(2), OF s2(1) x(7)] by simp_all
    show ?thesis using set_word_cell [of ?s3, unfolded s3(2), OF s3(1) x(8)] unfolding s4_def by simp
  qed
  have w4: "word_at s4 c1 = r_ebp (cpu s)" "word_at s4 c2 = r_ebx (cpu s)" "word_at s4 c3 = r_esi (cpu s)" "word_at s4 c4 = r_edi (cpu s)"
    "\<And>c. c \<notin> set cs \<Longrightarrow> word_at s4 c = word_at s c"
    using x(1,3) by (auto simp: s4_def)
  show thesis
    by (rule that [OF w [folded s4_def]]) (use s4 w4 x(1,2) in simp_all)
qed

text \<open>
  C6. A thread that is switched away from and later switched to again goes on as if nothing had
  happened: when it is resumed from any later state in which the five words it left on its stack are
  as it left them, its registers are the ones it had and it returns to where it came from.
\<close>

theorem context_switch_roundtrip:
  assumes "vm_inv s" and "threads s a = Some ta" and "switch_cells s newesp cs ds"
    and "stack_cell s (r_esp (cpu s)) c0" and "c0 \<notin> set cs" and "SwapThreadStack a newesp s = Some s1"
    and "vm_inv s2" and "threads s2 b = Some tb" and "threads s2 a = threads s1 a"
    and "\<forall>i < 5. load32 (r_esp (cpu s) - 16 + 4 * of_nat i) s2 = load32 (r_esp (cpu s) - 16 + 4 * of_nat i) s1"
    and "switch_cells s2 (r_esp (cpu s) - 16) cs2 ds2"
  shows "\<exists>s3. map_option t_esp (threads s2 a) = Some (r_esp (cpu s) - 16) \<and> SwapThreadStack b (r_esp (cpu s) - 16) s2 = Some s3 \<and>
    cpu s3 = (cpu s)\<lparr>r_esp := r_esp (cpu s) + 4, r_eip := word_at s c0\<rparr>"
proof -
  let ?e = "r_esp (cpu s)"
  obtain s' where s': "SwapThreadStack a newesp s = Some s'" "threads s' = (threads s)(a \<mapsto> ta\<lparr>t_esp := ?e - 16\<rparr>)"
    "stack_cell s' = stack_cell s" "word_at s' (cs ! 0) = r_ebp (cpu s)" "word_at s' (cs ! 1) = r_ebx (cpu s)"
    "word_at s' (cs ! 2) = r_esi (cpu s)" "word_at s' (cs ! 3) = r_edi (cpu s)" "word_at s' c0 = word_at s c0"
    using SwapThreadStack_switch [OF assms(1,2,3)] assms(5) by metis
  then have s1: "s' = s1" using assms(6) by simp
  obtain s3 where s3: "SwapThreadStack b (?e - 16) s2 = Some s3"
    "cpu s3 = \<lparr>r_ebp = word_at s2 (ds2 ! 3), r_ebx = word_at s2 (ds2 ! 2), r_esi = word_at s2 (ds2 ! 1), r_edi = word_at s2 (ds2 ! 0),
       r_esp = ?e - 16 + 20, r_eip = word_at s2 (ds2 ! 4)\<rparr>"
    using SwapThreadStack_switch [OF assms(7,8,11)] by metis
  have sc: "\<forall>i < 4. stack_cell s (?e - 4 * of_nat (Suc i)) (cs ! i)" "\<forall>i < 5. stack_cell s2 (?e - 16 + 4 * of_nat i) (ds2 ! i)"
    using assms(3,11) unfolding switch_cells_def by blast+
  have "word_at s2 (ds2 ! i) = word_at s1 (if i = 4 then c0 else cs ! (3 - i))" if i: "i < 5" for i
  proof -
    have "stack_cell s (?e - 16 + 4 * of_nat i) (if i = 4 then c0 else cs ! (3 - i))"
    proof (cases "i = 4")
      case True
      with assms(4) show ?thesis by simp
    next
      case False
      with i have "i = 0 \<or> i = 1 \<or> i = 2 \<or> i = 3" by auto
      then have "?e - 4 * of_nat (Suc (3 - i)) = ?e - 16 + 4 * of_nat i" by (elim disjE) simp_all
      moreover have "stack_cell s (?e - 4 * of_nat (Suc (3 - i))) (cs ! (3 - i))" using spec [OF sc(1), of "3 - i"] by simp
      ultimately show ?thesis using False by (simp only: if_False)
    qed
    then have "load32 (?e - 16 + 4 * of_nat i) s1 = Some (word_at s1 (if i = 4 then c0 else cs ! (3 - i)))"
      using s'(3) s1 load_cell by metis
    moreover have "load32 (?e - 16 + 4 * of_nat i) s2 = Some (word_at s2 (ds2 ! i))" using sc(2) i load_cell by blast
    ultimately show ?thesis using assms(10) i by simp
  qed
  note w = this [of 0] this [of 1] this [of 2] this [of 3] this [of 4]
  have "cpu s3 = (cpu s)\<lparr>r_esp := ?e + 4, r_eip := word_at s c0\<rparr>"
    using s3(2) w s'(4-8) s1 by simp
  with s3(1) s'(2) s1 assms(9) show ?thesis by simp
qed

lemma two_threads_vm:
  "pd_frame two_threads = 1" "frame_free two_threads k \<longleftrightarrow> 320 \<le> k \<and> k < 352"
  "pde two_threads i = (if i = 0 then 0x3007 else if i = 1023 then 0x1003 else 0)"
  using frame_free_fresh [of k]
  by (auto simp: two_threads_def pd_frame_def pde_def frame_no_def frame_free_def fresh_heap_def)

lemma vm_inv_two_threads: "vm_inv two_threads"
proof -
  have "frames_inv two_threads"
    using vm_invD(1) [OF vm_inv_fresh] by (simp add: frames_inv_def frame_free_def two_threads_def fresh_heap_def)
  then show ?thesis
    by (auto simp: vm_inv_def pd_present_def pd_writable_def pt_frame_def two_threads_vm frame_no_def has_flag_def)
qed

lemma two_threads_writable: "writable_at two_threads 1 5" "writable_at two_threads 3 6"
proof -
  have m: "pmem two_threads 3 = (\<lambda>_. 0)(1 := 0x5007, 3 := 0x6007)" by (simp add: two_threads_def)
  have f: "frame_no 0x3007 = 3" "frame_no 0x5007 = 5" "frame_no 0x6007 = 6" by (simp_all add: frame_no_def)
  have p: "pd_present two_threads i \<longleftrightarrow> i = 0 \<or> i = 1023" "pd_writable two_threads 0" "pt_frame two_threads 0 = 3" for i
    by (auto simp: pd_present_def pd_writable_def pt_frame_def two_threads_vm has_flag_def f)
  have v: "vmap two_threads 1 = Some 0x5007" "vmap two_threads 3 = Some 0x6007"
    by (simp_all add: vmap_def p m has_flag_def)
  have t: "\<not> table_frame two_threads 5" "\<not> table_frame two_threads 6"
    by (auto simp: table_frame_def two_threads_vm p)
  show "writable_at two_threads 1 5" "writable_at two_threads 3 6"
    using v p t f by (simp_all add: writable_at_def has_flag_def)
qed

lemma two_threads_cell:
  "0x1000 \<le> unat va \<Longrightarrow> unat va < 0x2000 \<Longrightarrow> stack_cell two_threads va (5, dword_no va)"
  "0x3000 \<le> unat va \<Longrightarrow> unat va < 0x4000 \<Longrightarrow> stack_cell two_threads va (6, dword_no va)"
proof -
  have "page_no va = 1 \<and> va < PAGE_TABLE_BASE" if "0x1000 \<le> unat va" "unat va < 0x2000"
    using that by (simp add: frame_no_nat word_less_nat_alt)
  with two_threads_writable(1) show "0x1000 \<le> unat va \<Longrightarrow> unat va < 0x2000 \<Longrightarrow> stack_cell two_threads va (5, dword_no va)"
    by (simp add: stack_cell_def)
  have "page_no va = 3 \<and> va < PAGE_TABLE_BASE" if "0x3000 \<le> unat va" "unat va < 0x4000"
    using that by (simp add: frame_no_nat word_less_nat_alt)
  with two_threads_writable(2) show "0x3000 \<le> unat va \<Longrightarrow> unat va < 0x4000 \<Longrightarrow> stack_cell two_threads va (6, dword_no va)"
    by (simp add: stack_cell_def)
qed

lemma all_less_4: "(\<forall>i < (4 :: nat). P i) \<longleftrightarrow> P 0 \<and> P 1 \<and> P 2 \<and> P 3"
  by (auto simp: numeral_eq_Suc less_Suc_eq)

lemma all_less_5: "(\<forall>i < (5 :: nat). P i) \<longleftrightarrow> P 0 \<and> P 1 \<and> P 2 \<and> P 3 \<and> P 4"
  by (auto simp: numeral_eq_Suc less_Suc_eq)

lemma two_threads_switch:
  "switch_cells two_threads 0x3F00 [(5, 959), (5, 958), (5, 957), (5, 956)] [(6, 960), (6, 961), (6, 962), (6, 963), (6, 964)]"
proof -
  have r: "r_esp (cpu two_threads) = 0x1F00" by (simp add: two_threads_def)
  have d: "dword_no 0x1EFC = 959" "dword_no 0x1EF8 = 958" "dword_no 0x1EF4 = 957" "dword_no 0x1EF0 = 956"
    "dword_no 0x3F00 = 960" "dword_no 0x3F04 = 961" "dword_no 0x3F08 = 962" "dword_no 0x3F0C = 963" "dword_no 0x3F10 = 964"
    by (simp_all add: dword_no_def)
  show ?thesis
    using two_threads_cell(1) [of "0x1EFC"] two_threads_cell(1) [of "0x1EF8"] two_threads_cell(1) [of "0x1EF4"]
      two_threads_cell(1) [of "0x1EF0"] two_threads_cell(2) [of "0x3F00"] two_threads_cell(2) [of "0x3F04"]
      two_threads_cell(2) [of "0x3F08"] two_threads_cell(2) [of "0x3F0C"] two_threads_cell(2) [of "0x3F10"]
    by (simp add: switch_cells_def r d all_less_4 all_less_5)
qed

lemma two_threads_back:
  assumes "stack_cell s1 = stack_cell two_threads" and "r_esp (cpu s1) = 0x3F14"
  shows "switch_cells s1 0x1EF0 [(6, 964), (6, 963), (6, 962), (6, 961)] [(5, 956), (5, 957), (5, 958), (5, 959), (5, 960)]"
proof -
  have d: "dword_no 0x1EFC = 959" "dword_no 0x1EF8 = 958" "dword_no 0x1EF4 = 957" "dword_no 0x1EF0 = 956" "dword_no 0x1F00 = 960"
    "dword_no 0x3F04 = 961" "dword_no 0x3F08 = 962" "dword_no 0x3F0C = 963" "dword_no 0x3F10 = 964"
    by (simp_all add: dword_no_def)
  show ?thesis
    using two_threads_cell(1) [of "0x1EFC"] two_threads_cell(1) [of "0x1EF8"] two_threads_cell(1) [of "0x1EF4"]
      two_threads_cell(1) [of "0x1EF0"] two_threads_cell(1) [of "0x1F00"] two_threads_cell(2) [of "0x3F04"]
      two_threads_cell(2) [of "0x3F08"] two_threads_cell(2) [of "0x3F0C"] two_threads_cell(2) [of "0x3F10"]
    by (simp add: switch_cells_def assms d all_less_4 all_less_5)
qed

theorem context_switch_roundtrip_witness:
  "\<exists>s1 s3. SwapThreadStack 0xC0200000 0x3F00 two_threads = Some s1 \<and> SwapThreadStack 0xC0200100 0x1EF0 s1 = Some s3 \<and>
    cpu s3 = (cpu two_threads)\<lparr>r_esp := 0x1F04, r_eip := 0\<rparr>"
proof -
  let ?a = "0xC0200000 :: ptr" let ?b = "0xC0200100 :: ptr"
  obtain ta tb where t: "threads two_threads ?a = Some ta" "threads two_threads ?b = Some tb" by (simp add: two_threads_def)
  obtain s1 where s1: "SwapThreadStack ?a 0x3F00 two_threads = Some s1" "r_esp (cpu s1) = 0x3F14"
    "threads s1 = (threads two_threads)(?a \<mapsto> ta\<lparr>t_esp := r_esp (cpu two_threads) - 16\<rparr>)" "vm_inv s1" "stack_cell s1 = stack_cell two_threads"
    by (rule SwapThreadStack_switch [OF vm_inv_two_threads t(1) two_threads_switch]) simp
  have r: "r_esp (cpu two_threads) = 0x1F00" "word_at two_threads (5, 960) = 0" by (simp_all add: two_threads_def word_at_def)
  have "dword_no 0x1F00 = 960" by (simp add: dword_no_def)
  then have c0: "stack_cell two_threads (r_esp (cpu two_threads)) (5, 960)" using two_threads_cell(1) [of "0x1F00"] r by simp
  have b: "threads s1 ?b = Some tb" using s1(3) t(2) by simp
  have ret: "switch_cells s1 (r_esp (cpu two_threads) - 16) [(6, 964), (6, 963), (6, 962), (6, 961)]
      [(5, 956), (5, 957), (5, 958), (5, 959), (5, 960)]"
    using two_threads_back [OF s1(5,2)] r by simp
  from context_switch_roundtrip [OF vm_inv_two_threads t(1) two_threads_switch c0 _ s1(1) s1(4) b refl _ ret] s1(1) r
  show ?thesis by auto
qed

text \<open>The state in which the stacks are switched: in the address space of the new thread.\<close>

lemma switch_ports_vm:
  assumes "procs s p \<noteq> None"
  obtains s' where "switch_ports change p s = Some s'" "pmem s' = pmem s" "bitmap s' = bitmap s" "highest_addr s' = highest_addr s"
    "cr3 s' = cr3 s" "procs s' = procs s"
  using assms that by (cases "procs s p"; cases "p_ports_used (the (procs s p)) = 0") (simp_all add: switch_ports_def)

lemma enter_process_vm:
  assumes "new = 0 \<or> procs s new \<noteq> None" and "prev = 0 \<or> procs s prev \<noteq> None"
  obtains s' where "enter_process prev new s = Some s'" "pmem s' = pmem s" "bitmap s' = bitmap s" "highest_addr s' = highest_addr s"
    "cr3 s' = (if new = 0 \<or> new = prev then cr3 s else p_cr3 (the (procs s new)))"
proof (cases "new = 0 \<or> new = prev")
  case True
  then show thesis by (intro that [of s]) (auto simp: enter_process_def)
next
  case False
  with assms(1) obtain pr where pr: "procs s new = Some pr" by auto
  let ?s1 = "s\<lparr>cr3 := p_cr3 pr\<rparr>"
  have s1: "SwapProcess new s = Some ?s1" using pr by (simp add: SwapProcess_def SetPageDirectory_def)
  obtain s2 where s2: "(if prev \<noteq> 0 then DisableIOPortsOfProcess prev ?s1 else Some ?s1) = Some s2" "pmem s2 = pmem s"
    "bitmap s2 = bitmap s" "highest_addr s2 = highest_addr s" "cr3 s2 = p_cr3 pr" "procs s2 = procs s"
  proof (cases "prev = 0")
    case True
    then show thesis by (intro that [of ?s1]) simp_all
  next
    case False
    with assms(2) have "procs ?s1 prev \<noteq> None" by simp
    then show thesis
      by (rule switch_ports_vm [of ?s1 prev forbid_ports]) (use False in \<open>auto intro!: that simp: DisableIOPortsOfProcess_def\<close>)
  qed
  have "procs s2 new \<noteq> None" using s2(6) pr by simp
  then obtain s3 where "EnableIOPortsOfProcess new s2 = Some s3" "pmem s3 = pmem s2" "bitmap s3 = bitmap s2"
    "highest_addr s3 = highest_addr s2" "cr3 s3 = cr3 s2" "procs s3 = procs s2"
    unfolding EnableIOPortsOfProcess_def by (rule switch_ports_vm)
  with s1 s2 False pr show thesis by (intro that [of s3]) (auto simp: enter_process_def)
qed

text \<open>
  C7. One scheduling decision: the thread whose turn it is by the round robin gets the processor,
  in its own address space and where it left off, and the thread that ran before is ready again.
  Nothing else about the threads changes. This holds whenever the stacks of the two threads can be
  reached in the address space of the new one.
\<close>

theorem ScheduleNext_correct:
  assumes l: "scheduled s ts" and c: "current_thread s \<in> set ts" and n: "nxt = pick s (turn ts (current_thread s))" "nxt \<noteq> 0"
      "nxt \<noteq> current_thread s"
    and t: "threads s nxt = Some nt" "threads s (current_thread s) = Some ct"
    and o: "t_owner nt = 0 \<or> procs s (t_owner nt) \<noteq> None" "t_owner ct = 0 \<or> procs s (t_owner ct) \<noteq> None"
    and r: "space = s\<lparr>cr3 := if t_owner nt = 0 \<or> t_owner nt = t_owner ct then cr3 s else p_cr3 (the (procs s (t_owner nt)))\<rparr>"
    and v: "vm_inv space" "switch_cells space (t_esp nt) cs ds"
  shows "\<exists>s'. ScheduleNext s = Some s' \<and> switched (current_thread s) nxt s s' \<and> cr3 s' = cr3 space \<and>
    r_esp (cpu s') = t_esp nt + 20 \<and> r_eip (cpu s') = word_at s (ds ! 4)"
proof -
  let ?c = "current_thread s"
  obtain sel where sel: "SelectNextThread s = Some (nxt, s\<lparr>threads := (threads s)(nxt \<mapsto> sel)\<rparr>)"
    "sel = nt\<lparr>t_quantum := CPUTimeFromThreadPriority (t_priority nt)\<rparr>"
    using SelectNextThread_turn [OF l c] n t(1) by (simp add: Let_def renew_quantum_def upd_thread_def)
  define s5 where "s5 = s\<lparr>NeedsResched := False, threads := (threads s)(?c \<mapsto> if t_state ct = THREAD_RUNNING then ct\<lparr>t_state := THREAD_READY\<rparr> else ct,
      nxt \<mapsto> nt\<lparr>t_state := THREAD_RUNNING, t_quantum := CPUTimeFromThreadPriority (t_priority nt)\<rparr>), current_thread := nxt\<rparr>"
  have ne: "thread_list s \<noteq> 0" using scheduledD(3) [OF l] c by auto
  have eq: "ScheduleNext s = Option.bind (enter_process (t_owner ct) (t_owner nt) s5)
      (\<lambda>s6. SwapThreadStack ?c (t_esp nt) (if t_kernel_stack nt > 0 then SelectKernelStack (t_kernel_stack nt) s6 else s6))"
    using sel ne n(2,3) t unfolding ScheduleNext_def s5_def
    by (auto simp: upd_thread_def Let_def fun_upd_twist cong: if_cong)
  have p5: "procs s5 = procs s" "cr3 s5 = cr3 s" "pmem s5 = pmem s" "bitmap s5 = bitmap s" "highest_addr s5 = highest_addr s" "cpu s5 = cpu s"
    by (simp_all add: s5_def)
  obtain s6 where s6: "enter_process (t_owner ct) (t_owner nt) s5 = Some s6" "pmem s6 = pmem s" "bitmap s6 = bitmap s"
    "highest_addr s6 = highest_addr s" "cr3 s6 = cr3 space"
    by (rule enter_process_vm [of "t_owner nt" s5 "t_owner ct"]) (use o r p5 in simp_all)
  note e = enter_process_sched [OF s6(1)]
  define s7 where "s7 = (if t_kernel_stack nt > 0 then SelectKernelStack (t_kernel_stack nt) s6 else s6)"
  have s7: "pmem s7 = pmem space" "cr3 s7 = cr3 space" "bitmap s7 = bitmap space" "highest_addr s7 = highest_addr space"
    "threads s7 = threads s6" "cpu s7 = cpu s"
    using s6 e p5 r by (simp_all add: s7_def SelectKernelStack_def Let_def)
  have sp: "cpu space = cpu s" "word_at space = word_at s" using r by (simp_all add: word_at_def fun_eq_iff)
  have "vm_inv s7" using vm_inv_same [OF s7(1-4)] v(1) by simp
  moreover have "threads s7 ?c = Some (if t_state ct = THREAD_RUNNING then ct\<lparr>t_state := THREAD_READY\<rparr> else ct)"
    using s7(5) e(1) n(3) by (simp add: s5_def)
  moreover have "switch_cells s7 (t_esp nt) cs ds" using v(2) vm_same(1) [OF s7(1,2)] s7(6) sp(1) by (simp add: switch_cells_def)
  ultimately obtain s' where s': "SwapThreadStack ?c (t_esp nt) s7 = Some s'" "r_eip (cpu s') = word_at s7 (ds ! 4)"
    by (rule SwapThreadStack_switch) simp
  have ret: "ScheduleNext s = Some s'" using eq s6(1) s'(1) by (simp add: s7_def)
  have "switched ?c nxt s s'" using l c ret n by (cases rule: ScheduleNext_cases) auto
  moreover have "cr3 s' = cr3 space \<and> r_esp (cpu s') = t_esp nt + 20"
    by (rule SwapThreadStack_threads [OF s'(1)]) (simp add: s7(2))
  moreover have "word_at s7 (ds ! 4) = word_at s (ds ! 4)" using vm_same(2) [OF s7(1,2)] sp(2) by simp
  ultimately show ?thesis using ret s'(2) by auto
qed

abbreviation ex_a :: ptr where "ex_a \<equiv> 0xC0200000"
abbreviation ex_b :: ptr where "ex_b \<equiv> 0xC0200100"

lemma two_threads_sched:
  "scheduled two_threads [ex_a, ex_b]" "current_thread two_threads = ex_a" "turn [ex_a, ex_b] ex_a = [ex_b, ex_a]"
  "threads two_threads ex_a = Some (ex_thread\<lparr>t_state := THREAD_RUNNING, t_next := ex_b\<rparr>)"
  "threads two_threads ex_b = Some (ex_thread\<lparr>t_esp := 0x3F00, t_id := 1\<rparr>)"
  by (simp_all add: two_threads_def scheduled_def next_thread_def turn_def ex_thread_def)

lemma two_threads_pick: "pick two_threads (turn [ex_a, ex_b] (current_thread two_threads)) = ex_b"
  by (simp add: two_threads_sched pick_def runnable_def ex_thread_def)

theorem ScheduleNext_correct_witness:
  "\<exists>s'. ScheduleNext two_threads = Some s' \<and> switched ex_a ex_b two_threads s' \<and> r_esp (cpu s') = 0x3F14"
proof -
  have z: "ex_b = pick two_threads (turn [ex_a, ex_b] (current_thread two_threads))" "ex_b \<noteq> 0" "ex_b \<noteq> current_thread two_threads"
    using two_threads_pick by (simp_all only: two_threads_sched(2)) simp_all
  have o: "t_owner (ex_thread\<lparr>t_esp := 0x3F00, t_id := 1\<rparr>) = 0" "t_esp (ex_thread\<lparr>t_esp := 0x3F00, t_id := 1\<rparr>) = 0x3F00"
    "t_owner (ex_thread\<lparr>t_state := THREAD_RUNNING, t_next := ex_b\<rparr>) = 0" by (simp_all add: ex_thread_def)
  have sp: "two_threads\<lparr>cr3 := cr3 two_threads\<rparr> = two_threads" by simp
  have c: "current_thread two_threads \<in> set [ex_a, ex_b]" by (simp add: two_threads_sched(2))
  note th = two_threads_sched(5) two_threads_sched(4) [folded two_threads_sched(2)]
  have "\<exists>s'. ScheduleNext two_threads = Some s' \<and> switched ex_a ex_b two_threads s' \<and> cr3 s' = cr3 two_threads \<and>
      r_esp (cpu s') = 0x3F14 \<and> r_eip (cpu s') = word_at two_threads (ds ! 4)"
    if "switch_cells two_threads 0x3F00 cs ds" for cs ds
    using ScheduleNext_correct [OF two_threads_sched(1) c z th _ _ refl, unfolded o] vm_inv_two_threads that
    by (simp add: two_threads_sched(2) sp)
  from this [OF two_threads_switch] show ?thesis by blast
qed



text \<open>
  C27. The list of threads: \<^verbatim>\<open>AddThreadToScheduler\<close> appends, \<^verbatim>\<open>RemoveThreadFromScheduler\<close>
  takes the thread out and reports whether it was there, and \<^verbatim>\<open>GetThreadByID\<close> finds the first thread
  with the number. They always come back and keep the list well-formed.
\<close>

theorem thread_list_refines:
  assumes "scheduled s ts" and "p \<noteq> 0" and "p \<notin> set ts" and "threads s p \<noteq> None" and "q \<noteq> 0"
  shows "\<exists>s1 st s2. AddThreadToScheduler p s = Some s1 \<and> scheduled s1 (ts @ [p]) \<and>
    RemoveThreadFromScheduler q s1 = Some (st, s2) \<and> scheduled s2 (remove1 q (ts @ [p])) \<and>
    st = (if q \<in> set (ts @ [p]) then STATUS_OK else STATUS_NOT_FOUND) \<and>
    GetThreadByID i s2 = Some (first_of (thread_is s2 (\<lambda>t. t_id t = i)) (remove1 q (ts @ [p])) 0)"
proof -
  obtain t where "threads s p = Some t" using assms(4) by blast
  then obtain s1 where s1: "AddThreadToScheduler p s = Some s1" "scheduled s1 (ts @ [p])"
    by (rule AddThreadToScheduler_appends [OF assms(1,2,3)])
  obtain st s2 where s2: "RemoveThreadFromScheduler q s1 = Some (st, s2)" "scheduled s2 (remove1 q (ts @ [p]))"
    "st = (if q \<in> set (ts @ [p]) then STATUS_OK else STATUS_NOT_FOUND)"
    by (rule RemoveThreadFromScheduler_removes [OF s1(2) assms(5)])
  from s1 s2 GetThreadByID_finds [OF s2(2), of i] show ?thesis by blast
qed

theorem thread_list_refines_witness:
  "\<exists>s1 s2. AddThreadToScheduler 0xC0200200 (two_threads\<lparr>threads := (threads two_threads)(0xC0200200 \<mapsto> ex_thread)\<rparr>) = Some s1 \<and>
    RemoveThreadFromScheduler ex_b s1 = Some (STATUS_OK, s2) \<and> scheduled s2 [ex_a, 0xC0200200]"
proof -
  let ?s = "two_threads\<lparr>threads := (threads two_threads)(0xC0200200 \<mapsto> ex_thread)\<rparr>"
  have l: "scheduled ?s [ex_a, ex_b]"
    using two_threads_sched by (simp add: scheduled_def next_thread_def)
  have n: "(0xC0200200 :: ptr) \<noteq> 0" "0xC0200200 \<notin> set [ex_a, ex_b]" "threads ?s 0xC0200200 \<noteq> None" "ex_b \<noteq> 0" by simp_all
  show ?thesis using thread_list_refines [OF l n, of 0] by auto
qed


definition ex_process :: "u16 \<Rightarrow> Process" where
  "ex_process port = \<lparr>p_main_thread = 0, p_cr3 = 0x1000, p_kstacks = (\<lambda>_. \<lparr>phys = 0, virt = 0\<rparr>), p_pid = 1,
     p_handles = \<lparr>objlist = (\<lambda>_. 0), valid_bitmap = 0\<rparr>, p_ioports = (\<lambda>_. port), p_ports_used = 1, p_flags = 2, p_prev = 0, p_next = 0\<rparr>"

text \<open>The keyboard driver ran last; the disk driver is another process.\<close>

definition two_drivers :: task_state where
  "two_drivers = two_threads\<lparr>procs := [0xC0300000 \<mapsto> ex_process 0x60, 0xC0300200 \<mapsto> ex_process 0x1F0],
     tss0 := (tss0 two_threads)\<lparr>tss_iomap_base := OFFSETOF_IOPERM, tss_ioperm := (\<lambda>_. 0xFF)(12 := 0xFE)\<rparr>\<rparr>"

lemma ports_of_ex: "ports_of (ex_process port) = {unat port}"
  by (simp add: ports_of_def ex_process_def lessThan_Suc)

lemma two_drivers_ports: "permitted (tss_ioperm (tss0 two_drivers)) port = (port \<in> ports_of (ex_process 0x60))"
proof -
  have "\<forall>n < 8. bit (0xFF :: u8) n" "\<forall>n < 8. bit (0xFE :: u8) n \<longleftrightarrow> n \<noteq> 0" by code_simp+
  then have b: "bit (0xFF :: u8) (port mod 8)" "bit (0xFE :: u8) (port mod 8) \<longleftrightarrow> port mod 8 \<noteq> 0" by simp_all
  have "port div 8 = 12 \<and> port mod 8 = 0 \<longleftrightarrow> port = 96" using port_eq [of port 96] by simp
  with b show ?thesis by (auto simp: permitted_def two_drivers_def ports_of_ex)
qed




end
