(* ===== verification/PortQueue.thy ===== *)
theory PortQueue
  imports Ipc ContextSwitch
begin

text \<open>
  The ring of messages of a port is a queue of at most 12 messages: the contract of a bounded queue,
  its interpretation on the ring, and what the operations on messages do to the queues of the ports.
\<close>

section \<open>The contract of a bounded queue\<close>

text \<open>
  \<open>queue_run\<close> is a client: it puts messages while there is room and gets them while there are any,
  and keeps a record of both.
\<close>

datatype 'm queue_op = Put 'm | Get

fun queue_step :: "('q \<Rightarrow> bool) \<Rightarrow> ('q \<Rightarrow> bool) \<Rightarrow> ('m \<Rightarrow> 'q \<Rightarrow> 'q) \<Rightarrow> ('q \<Rightarrow> 'm) \<Rightarrow> ('q \<Rightarrow> 'q) \<Rightarrow>
    'm queue_op \<Rightarrow> 'q \<times> 'm list \<times> 'm list \<Rightarrow> 'q \<times> 'm list \<times> 'm list" where
  "queue_step vacant filled put first rest (Put m) (q, sent, got) = (if vacant q then (put m q, sent @ [m], got) else (q, sent, got))"
| "queue_step vacant filled put first rest Get (q, sent, got) = (if filled q then (rest q, sent, got @ [first q]) else (q, sent, got))"

definition queue_run :: "('q \<Rightarrow> bool) \<Rightarrow> ('q \<Rightarrow> bool) \<Rightarrow> ('m \<Rightarrow> 'q \<Rightarrow> 'q) \<Rightarrow> ('q \<Rightarrow> 'm) \<Rightarrow> ('q \<Rightarrow> 'q) \<Rightarrow>
    'm queue_op list \<Rightarrow> 'q \<Rightarrow> 'q \<times> 'm list \<times> 'm list" where
  "queue_run vacant filled put first rest ops q = fold (queue_step vacant filled put first rest) ops (q, [], [])"

locale bounded_queue =
  fixes inv :: "'q \<Rightarrow> bool"
    and items :: "'q \<Rightarrow> 'm list"
    and capacity :: nat
    and valid :: "'m \<Rightarrow> bool"
    and vacant :: "'q \<Rightarrow> bool"
    and filled :: "'q \<Rightarrow> bool"
    and put :: "'m \<Rightarrow> 'q \<Rightarrow> 'q"
    and first :: "'q \<Rightarrow> 'm"
    and rest :: "'q \<Rightarrow> 'q"
  assumes bounded: "inv q \<Longrightarrow> length (items q) \<le> capacity"
    and vacant_iff: "inv q \<Longrightarrow> vacant q \<longleftrightarrow> length (items q) < capacity"
    and filled_iff: "inv q \<Longrightarrow> filled q \<longleftrightarrow> items q \<noteq> []"
    and put_items: "inv q \<Longrightarrow> vacant q \<Longrightarrow> items (put m q) = items q @ [m]"
    and put_inv: "inv q \<Longrightarrow> vacant q \<Longrightarrow> valid m \<Longrightarrow> inv (put m q)"
    and get_items: "inv q \<Longrightarrow> filled q \<Longrightarrow> items q = first q # items (rest q)"
    and get_inv: "inv q \<Longrightarrow> filled q \<Longrightarrow> inv (rest q)"
begin

lemma step_fifo:
  assumes "inv q" and "\<And>m. op = Put m \<Longrightarrow> valid m" and "start @ sent = got @ items q"
    and "queue_step vacant filled put first rest op (q, sent, got) = (q', sent', got')"
  shows "inv q' \<and> start @ sent' = got' @ items q'"
  using assms get_items [of q] get_inv [of q]
  by (cases op) (auto simp: put_items put_inv split: if_splits)

lemma run_fifo:
  assumes "inv q" and "\<And>m. Put m \<in> set ops \<Longrightarrow> valid m" and "start @ sent = got @ items q"
    and "fold (queue_step vacant filled put first rest) ops (q, sent, got) = (q', sent', got')"
  shows "inv q' \<and> start @ sent' = got' @ items q'"
  using assms
proof (induction ops arbitrary: q sent got)
  case (Cons op ops)
  obtain q1 sent1 got1 where st: "queue_step vacant filled put first rest op (q, sent, got) = (q1, sent1, got1)"
    by (metis prod_cases3)
  have "inv q1 \<and> start @ sent1 = got1 @ items q1"
    by (rule step_fifo [OF Cons.prems(1) _ Cons.prems(3) st]) (simp add: Cons.prems(2))
  with Cons.IH [of q1 sent1 got1] Cons.prems(2,4) st show ?case by simp
qed simp

lemma fifo:
  assumes "inv q" and "\<And>m. Put m \<in> set ops \<Longrightarrow> valid m"
    and "queue_run vacant filled put first rest ops q = (q', sent, got)"
  shows "inv q' \<and> items q @ sent = got @ items q' \<and> length (items q') \<le> capacity"
  using run_fifo [OF assms(1,2), where start = "items q" and sent = "[]" and got = "[]"] assms(3) bounded
  by (simp add: queue_run_def)

end

section \<open>The ring of a port\<close>

definition message_ok :: "message \<Rightarrow> bool" where
  "message_ok m \<longleftrightarrow> length m = unat SIZEOF_MESSAGE \<and> get32 PAYLOAD_LENGTH m \<le> MESSAGE_BUFFER_SIZE"

definition queue :: "Port \<Rightarrow> message list" where
  "queue port = map (\<lambda>i. msgbuf port ((unat (head port) + i) mod 12)) [0..<unat (msgcount port)]"

definition port_ok :: "Port \<Rightarrow> bool" where
  "port_ok port \<longleftrightarrow> unat (head port) < 12 \<and> unat (msgcount port) \<le> 12 \<and>
     unat (tail port) = (unat (head port) + unat (msgcount port)) mod 12 \<and>
     (\<forall>i < 12. length (msgbuf port i) = unat SIZEOF_MESSAGE) \<and> (\<forall>m \<in> set (queue port). message_ok m)"

abbreviation port_room :: "Port \<Rightarrow> bool" where "port_room port \<equiv> msgcount port < MAX_MESSAGES_IN_PORT"
abbreviation port_some :: "Port \<Rightarrow> bool" where "port_some port \<equiv> msgcount port \<noteq> 0"
abbreviation port_first :: "Port \<Rightarrow> message" where "port_first port \<equiv> msgbuf port (unat (head port))"

lemma unat_ring_next: "unat a < 12 \<Longrightarrow> unat ((a + 1) mod 12 :: u32) = (unat a + 1) mod 12"
  by (simp add: unat_mod unat_word_ariths)

lemma unat_count_next: "unat a \<le> 12 \<Longrightarrow> unat (a + 1 :: u32) = unat a + 1"
  by (simp add: unat_word_ariths)

lemma unat_count_prev: "a \<noteq> 0 \<Longrightarrow> unat (a - 1 :: u32) = unat a - 1"
  by (simp add: unat_minus_one)

lemma ring_index_inj: "i < (12 :: nat) \<Longrightarrow> c < 12 \<Longrightarrow> i < c \<Longrightarrow> (h + i) mod 12 \<noteq> (h + c) mod 12"
proof
  assume b: "i < 12" "c < 12" "i < c" and "(h + i) mod 12 = (h + c) mod 12"
  then have "12 dvd (h + c) - (h + i)" by (intro mod_eq_dvd_iff_nat [THEN iffD1]) simp_all
  then have "12 dvd c - i" by simp
  with b show False by (auto dest: dvd_imp_le)
qed

lemma queue_slot:
  assumes "port_ok port" and "port_room port"
  shows "queue (port\<lparr>msgbuf := (msgbuf port)(unat (tail port) := m)\<rparr>) = queue port"
proof -
  let ?c = "unat (msgcount port)" let ?h = "unat (head port)"
  have c: "?c < 12" using assms(2) by (simp add: word_less_nat_alt)
  have "unat (tail port) = (?h + ?c) mod 12" using assms(1) by (simp add: port_ok_def)
  then show ?thesis
    unfolding queue_def using c ring_index_inj [of _ ?c ?h] by (auto intro!: map_cong)
qed

lemma port_slot_ok:
  assumes "port_ok port" and "port_room port" and "length m = unat SIZEOF_MESSAGE"
  shows "port_ok (port\<lparr>msgbuf := (msgbuf port)(unat (tail port) := m)\<rparr>)"
  using assms queue_slot [OF assms(1,2)] by (auto simp: port_ok_def)

lemma queue_put:
  assumes "port_ok port" and "port_room port"
  shows "queue (port_put m port) = queue port @ [m]"
proof -
  let ?c = "unat (msgcount port)" let ?h = "unat (head port)"
  let ?port = "port\<lparr>msgbuf := (msgbuf port)(unat (tail port) := m)\<rparr>"
  have c: "?c < 12" using assms(2) by (simp add: word_less_nat_alt)
  have t: "unat (tail port) = (?h + ?c) mod 12" using assms(1) by (simp add: port_ok_def)
  have n: "unat (msgcount port + 1) = Suc ?c" using c by (simp add: unat_count_next)
  have "queue (port_put m port) = queue ?port @ [m]" by (simp add: queue_def port_put_def n t)
  then show ?thesis by (simp only: queue_slot [OF assms])
qed

lemma port_put_ok:
  assumes "port_ok port" and "port_room port" and "message_ok m"
  shows "port_ok (port_put m port)"
proof -
  let ?c = "unat (msgcount port)" let ?h = "unat (head port)"
  have c: "?c < 12" using assms(2) by (simp add: word_less_nat_alt)
  have t: "unat (tail port) = (?h + ?c) mod 12" using assms(1) by (simp add: port_ok_def)
  then have "unat ((tail port + 1) mod 12) = (?h + Suc ?c) mod 12"
    by (subst unat_ring_next) (simp_all add: mod_simps)
  moreover have "unat (msgcount port + 1) = Suc ?c" using c by (simp add: unat_count_next)
  moreover have "\<forall>x \<in> set (queue (port_put m port)). message_ok x"
    using assms by (auto simp: queue_put port_ok_def)
  ultimately show ?thesis using assms c by (auto simp: port_ok_def port_put_def message_ok_def)
qed

lemma queue_take:
  assumes "port_ok port" and "port_some port"
  shows "queue port = port_first port # queue (port_take port)"
proof -
  let ?c = "unat (msgcount port)" let ?h = "unat (head port)"
  have h: "?h < 12" using assms(1) by (simp add: port_ok_def)
  obtain n where n: "?c = Suc n" using assms(2) by (metis not0_implies_Suc unat_eq_zero)
  have n': "unat (msgcount port - 1) = n" using n assms(2) by (simp add: unat_count_prev)
  have h': "unat ((head port + 1) mod 12) = (?h + 1) mod 12" by (rule unat_ring_next [OF h])
  have "queue port = map (\<lambda>i. msgbuf port ((?h + i) mod 12)) (0 # map Suc [0..<n])"
    unfolding queue_def n by (simp only: upt_conv_Cons [OF zero_less_Suc] map_Suc_upt)
  also have "\<dots> = port_first port # map (\<lambda>i. msgbuf port ((?h + Suc i) mod 12)) [0..<n]"
    using h by (simp add: comp_def)
  also have "map (\<lambda>i. msgbuf port ((?h + Suc i) mod 12)) [0..<n] = queue (port_take port)"
    unfolding queue_def port_take_def by (simp add: n' h' mod_simps)
  finally show ?thesis .
qed

lemma port_take_ok:
  assumes "port_ok port" and "port_some port"
  shows "port_ok (port_take port)"
proof -
  let ?c = "unat (msgcount port)" let ?h = "unat (head port)"
  have h: "?h < 12" and t: "unat (tail port) = (?h + ?c) mod 12" using assms(1) by (simp_all add: port_ok_def)
  have c: "0 < ?c" using assms(2) by (simp add: unat_gt_0)
  have h': "unat ((head port + 1) mod 12) = (?h + 1) mod 12" by (rule unat_ring_next [OF h])
  have "((?h + 1) mod 12 + (?c - 1)) mod 12 = (?h + 1 + (?c - 1)) mod 12" by (rule mod_add_left_eq)
  then have "((?h + 1) mod 12 + (?c - 1)) mod 12 = (?h + ?c) mod 12" using c by simp
  moreover have "\<forall>m \<in> set (queue (port_take port)). message_ok m"
    using queue_take [OF assms] assms(1) by (auto simp: port_ok_def)
  ultimately show ?thesis
    using assms c t h' by (auto simp: port_ok_def port_take_def unat_count_prev)
qed

lemma length_queue [simp]: "length (queue port) = unat (msgcount port)"
  by (simp add: queue_def)

lemma queue_Nil: "queue port = [] \<longleftrightarrow> msgcount port = 0"
  by (simp add: queue_def unat_eq_zero)

interpretation ring: bounded_queue port_ok queue 12 message_ok port_room port_some port_put port_first port_take
  by unfold_locales
    (auto simp: queue_put port_put_ok port_take_ok queue_Nil word_less_nat_alt port_ok_def [THEN iffD1] intro: queue_take)

text \<open>
  C10. The ring of a port is a first-in first-out queue of at most 12 messages: over any sequence of
  puts and gets, the messages waiting at first followed by those accepted are those delivered
  followed by those still waiting. No message is lost, doubled or overtaken.
\<close>

theorem port_queue_fifo:
  assumes "port_ok port" and "\<forall>m. Put m \<in> set ops \<longrightarrow> message_ok m"
    and "queue_run port_room port_some port_put port_first port_take ops port = (port', sent, got)"
  shows "queue port @ sent = got @ queue port' \<and> length (queue port') \<le> 12 \<and> port_ok port'"
  using ring.fifo [OF assms(1) _ assms(3)] assms(2) by blast

section \<open>Fields of a message\<close>

lemma length_put32 [simp]: "length (put32 i v m) = length m"
  by (simp add: put32_def)

lemma bytes_of_word:
  "ucast (ucast v :: u8) OR push_bit 8 (ucast (ucast (drop_bit 8 v) :: u8)) OR push_bit 16 (ucast (ucast (drop_bit 16 v) :: u8)) OR
    push_bit 24 (ucast (ucast (drop_bit 24 v) :: u8)) = (v :: u32)"
proof (rule bit_word_eqI)
  fix n assume "n < LENGTH(32)"
  then consider "n < 8" | "8 \<le> n" "n < 16" | "16 \<le> n" "n < 24" | "24 \<le> n" "n < 32" by fastforce
  then show "bit (ucast (ucast v :: u8) OR push_bit 8 (ucast (ucast (drop_bit 8 v) :: u8)) OR push_bit 16 (ucast (ucast (drop_bit 16 v) :: u8)) OR
      push_bit 24 (ucast (ucast (drop_bit 24 v) :: u8)) :: u32) n = bit v n"
    by cases (auto simp: bit_simps)
qed

lemma get32_put32 [simp]: "i + 3 < length m \<Longrightarrow> get32 i (put32 i v m) = v"
  by (simp add: get32_def put32_def bytes_of_word)

lemma nth_put32 [simp]: "j < i \<or> i + 4 \<le> j \<Longrightarrow> put32 i v m ! j = m ! j"
  by (auto simp: put32_def)

lemma get32_put32_other [simp]: "j + 4 \<le> i \<or> i + 4 \<le> j \<Longrightarrow> get32 j (put32 i v m) = get32 j m"
  by (auto simp: get32_def)

lemma length_copy_into [simp]: "length bs \<le> length m \<Longrightarrow> length (copy_into m bs) = length m"
  by (simp add: copy_into_def)

lemma nth_copy_into [simp]: "j < length bs \<Longrightarrow> copy_into m bs ! j = bs ! j"
  by (simp add: copy_into_def nth_append)

lemma get32_copy_into [simp]: "j + 3 < length bs \<Longrightarrow> get32 j (copy_into m bs) = get32 j bs"
  by (simp add: get32_def)

section \<open>The object graph\<close>

text \<open>
  What the kernel relies on: the current thread belongs to a process, the handles of the processes
  are of live objects, the objects of type port have a live port, and a port has an owner that
  belongs to a process.
\<close>

definition owner_of :: "'a task_state_scheme \<Rightarrow> ptr \<Rightarrow> ptr option" where
  "owner_of s t = map_option t_owner (threads s t)"

definition process_ok :: "'a object_state_scheme \<Rightarrow> Process \<Rightarrow> bool" where
  "process_ok s pr \<longleftrightarrow> table_ok (p_handles pr) \<and>
     (\<forall>i < MAX_OBJ_PER_PROCESS. objlist (p_handles pr) i \<noteq> 0 \<longrightarrow> objlist (p_handles pr) i \<in> dom (objects s))"

definition owned_by_process :: "'a task_state_scheme \<Rightarrow> ptr \<Rightarrow> bool" where
  "owned_by_process s t \<longleftrightarrow> (\<exists>p \<in> dom (procs s). owner_of s t = Some p)"

definition objects_ok :: "'a object_state_scheme \<Rightarrow> bool" where
  "objects_ok s \<longleftrightarrow>
     owned_by_process s (current_thread s) \<and>
     (\<forall>pr \<in> ran (procs s). process_ok s pr) \<and>
     (\<forall>obj \<in> ran (objects s). o_type obj = OBJ_PORT \<and> o_data obj \<noteq> 0 \<longrightarrow> o_data obj \<in> dom (ports s)) \<and>
     (\<forall>port \<in> ran (ports s). port_ok port \<and> (port_owner port \<noteq> 0 \<longrightarrow> owned_by_process s (port_owner port)))"

lemma owned_by_processE:
  assumes "owned_by_process s t"
  obtains th pr where "threads s t = Some th" "procs s (t_owner th) = Some pr"
  using assms by (auto simp: owned_by_process_def owner_of_def)

lemma objects_okD:
  assumes "objects_ok s"
  shows "owned_by_process s (current_thread s)"
    and "procs s p = Some pr \<Longrightarrow> process_ok s pr"
    and "objects s q = Some obj \<Longrightarrow> o_type obj = OBJ_PORT \<Longrightarrow> o_data obj \<noteq> 0 \<Longrightarrow> \<exists>port. ports s (o_data obj) = Some port"
    and "ports s q = Some port \<Longrightarrow> port_ok port"
    and "ports s q = Some port \<Longrightarrow> port_owner port \<noteq> 0 \<Longrightarrow> owned_by_process s (port_owner port)"
  using assms by (auto simp: objects_ok_def intro: ranI)

lemma process_okD:
  "process_ok s pr \<Longrightarrow> i < MAX_OBJ_PER_PROCESS \<Longrightarrow> objlist (p_handles pr) i \<noteq> 0 \<Longrightarrow>
    \<exists>obj. objects s (objlist (p_handles pr) i) = Some obj"
  by (auto simp: process_ok_def)

lemma process_ok_objects: "objects s' = objects s \<Longrightarrow> process_ok s' = process_ok s"
  by (rule ext) (simp add: process_ok_def)

text \<open>What the invariant depends on.\<close>

lemma objects_ok_same:
  assumes "objects_ok s" and "owner_of s' = owner_of s" "procs s' = procs s" "objects s' = objects s" "ports s' = ports s"
    "current_thread s' = current_thread s"
  shows "objects_ok s'"
  using assms by (simp add: objects_ok_def owned_by_process_def process_ok_objects [of s' s])

lemma objects_ok_port:
  assumes "objects_ok s" and "ports s p = Some port" and "port_ok port'" and "port_owner port' = port_owner port"
  shows "objects_ok (s\<lparr>ports := (ports s)(p \<mapsto> port')\<rparr>)"
proof -
  let ?s = "s\<lparr>ports := (ports s)(p \<mapsto> port')\<rparr>"
  have o: "owned_by_process ?s = owned_by_process s" by (simp add: owned_by_process_def owner_of_def fun_eq_iff)
  have "port_ok q \<and> (port_owner q \<noteq> 0 \<longrightarrow> owned_by_process ?s (port_owner q))" if "q \<in> ran (ports ?s)" for q
  proof -
    from that consider "q = port'" | "q \<in> ran (ports s)" by (auto simp: ran_def split: if_splits)
    then show ?thesis
    proof cases
      case 1
      then show ?thesis using objects_okD(5) [OF assms(1,2)] assms(3,4) o by simp
    qed (use assms(1) o in \<open>simp add: objects_ok_def\<close>)
  qed
  then show ?thesis using assms(1) o by (simp add: objects_ok_def process_ok_objects [of ?s s])
qed

lemma WakeThread_same:
  assumes "WakeThread t s = Some s'"
  shows "owner_of s' = owner_of s" "procs s' = procs s" "objects s' = objects s" "ports s' = ports s"
    "current_thread s' = current_thread s"
  using assms by (auto simp: WakeThread_def owner_of_def fun_eq_iff split: bind_splits if_splits)

lemma WakeThread_total: "owned_by_process s t \<Longrightarrow> \<exists>s'. WakeThread t s = Some s'"
  by (auto simp: WakeThread_def elim!: owned_by_processE)

lemma objects_ok_handles:
  assumes "objects_ok s" and "procs s p = Some pr" and "process_ok s (pr\<lparr>p_handles := table\<rparr>)"
  shows "objects_ok (s\<lparr>procs := (procs s)(p \<mapsto> pr\<lparr>p_handles := table\<rparr>)\<rparr>)"
proof -
  let ?s = "s\<lparr>procs := (procs s)(p \<mapsto> pr\<lparr>p_handles := table\<rparr>)\<rparr>"
  have o: "owned_by_process ?s = owned_by_process s"
    using assms(2) by (intro ext) (auto simp: owned_by_process_def owner_of_def)
  have "process_ok s q" if "q \<in> ran (procs ?s)" for q
    using that assms objects_okD(2) [OF assms(1)] by (auto simp: ran_def split: if_splits)
  then show ?thesis using assms(1) o by (simp add: objects_ok_def process_ok_objects [of ?s s])
qed

lemma process_ok_append:
  assumes "process_ok s pr" and "obj \<noteq> 0" and "objects s obj \<noteq> None" and "AppendToHandleTable (p_handles pr) obj = (h, table)"
  shows "process_ok s (pr\<lparr>p_handles := table\<rparr>)"
proof (rule AppendToHandleTable_cases [where t = "p_handles pr" and obj = obj])
  assume "AppendToHandleTable (p_handles pr) obj = (- 1, p_handles pr)"
  with assms show ?thesis by (simp add: process_ok_def)
next
  fix i
  assume "i < MAX_OBJ_PER_PROCESS" "\<not> handle_used (p_handles pr) i" and
    "AppendToHandleTable (p_handles pr) obj =
      (int i, p_handles pr\<lparr>valid_bitmap := SET_BIT (valid_bitmap (p_handles pr)) i, objlist := (objlist (p_handles pr))(i := obj)\<rparr>)"
  then have t: "i < MAX_OBJ_PER_PROCESS" "table = p_handles pr\<lparr>valid_bitmap := SET_BIT (valid_bitmap (p_handles pr)) i,
      objlist := (objlist (p_handles pr))(i := obj)\<rparr>"
    using assms(4) by simp_all
  have "table_ok table" unfolding t(2) using assms(1) by (intro table_ok_append [OF _ assms(2) t(1)]) (simp add: process_ok_def)
  then show ?thesis using assms(1,3) by (auto simp: process_ok_def t(2))
qed

lemma translate_reply_ok:
  assumes ok: "objects_ok s" and "procs s cp \<noteq> None" and own: "owned_by_process s (port_owner port)"
  shows "\<exists>r s'. translate_reply cp port from s = Some (r, s') \<and> objects_ok s' \<and> ports s' = ports s \<and> threads s' = threads s \<and>
    owned_by_process s' (port_owner port)"
proof -
  obtain pr where pr: "procs s cp = Some pr" using assms(2) by blast
  let ?obj = "objlist (p_handles pr) (nat from)"
  consider "\<not> (from \<ge> 0 \<and> from < int MAX_OBJ_PER_PROCESS)" | "from \<ge> 0" "from < int MAX_OBJ_PER_PROCESS" "?obj = 0"
    | "from \<ge> 0" "from < int MAX_OBJ_PER_PROCESS" "?obj \<noteq> 0" by blast
  then show ?thesis
  proof cases
    case 3
    then have "nat from < MAX_OBJ_PER_PROCESS" by simp
    from process_okD [OF objects_okD(2) [OF ok pr] this 3(3)] obtain obj where obj: "objects s ?obj = Some obj" by blast
    show ?thesis
    proof (cases "o_type obj = OBJ_PORT")
      case True
      obtain th tp where th: "threads s (port_owner port) = Some th" "procs s (t_owner th) = Some tp"
        using own by (rule owned_by_processE)
      let ?found = "find_handle (p_handles tp) ?obj 0 31"
      obtain h table where t: "(if ?found = - 1 then AppendToHandleTable (p_handles tp) ?obj else (?found, p_handles tp)) = (h, table)"
        by fastforce
      let ?s = "s\<lparr>procs := (procs s)(t_owner th \<mapsto> tp\<lparr>p_handles := table\<rparr>)\<rparr>"
      have "process_ok s (tp\<lparr>p_handles := table\<rparr>)"
        using t process_ok_append [OF objects_okD(2) [OF ok th(2)] 3(3)] obj objects_okD(2) [OF ok th(2)]
        by (auto simp: process_ok_def split: if_splits)
      then have "objects_ok ?s" by (rule objects_ok_handles [OF ok th(2)])
      moreover have "owned_by_process ?s (port_owner port)" using th by (simp add: owned_by_process_def owner_of_def)
      moreover have "translate_reply cp port from s = Some (if h \<ge> 0 then h else - 1, ?s)"
        using 3 pr obj True th t by (simp add: translate_reply_def upd_handles_def Let_def)
      ultimately show ?thesis by auto
    qed (use 3 pr obj ok own in \<open>simp add: translate_reply_def Let_def\<close>)
  qed (use pr ok own in \<open>auto simp: translate_reply_def Let_def\<close>)
qed

section \<open>Sending\<close>

text \<open>The bytes of the user's message that reach the receiver: all but the fields the kernel sets.\<close>

definition same_message :: "message \<Rightarrow> u8 list \<Rightarrow> bool" where
  "same_message msg bytes \<longleftrightarrow>
     (\<forall>j < length bytes. j < 4 \<or> 12 \<le> j \<and> j < 20 \<or> 24 \<le> j \<longrightarrow> msg ! j = bytes ! j)"

definition message_size :: "u32 \<Rightarrow> u32" where
  "message_size n = (if n > SIZEOF_MESSAGE then SIZEOF_MESSAGE else n)"

lemma kernel_fields:
  assumes "length slot = unat SIZEOF_MESSAGE" and "24 \<le> length bytes" and "length bytes \<le> 280"
    and "get32 PAYLOAD_LENGTH (copy_into slot bytes) \<le> of_nat (length bytes) - SIZEOF_MESSAGEHEADER"
    and "msg = put32 REPLY_HANDLE r (put32 RESERVED 0 (put32 SENDER pid (copy_into slot bytes)))"
  shows "message_ok msg \<and> get32 SENDER msg = pid \<and> get32 RESERVED msg = 0 \<and> same_message msg bytes \<and>
    unat (get32 PAYLOAD_LENGTH msg) + 24 \<le> length bytes"
proof -
  have l: "length (copy_into slot bytes) = 280" using assms(1,3) by simp
  have n: "unat (of_nat (length bytes) - 24 :: u32) = length bytes - 24"
    using assms(2,3) by (subst unat_sub) (simp_all add: word_le_nat_alt unat_of_nat_small)
  have p: "get32 PAYLOAD_LENGTH msg = get32 PAYLOAD_LENGTH (copy_into slot bytes)" using assms(5) by simp
  then have "unat (get32 PAYLOAD_LENGTH msg) \<le> length bytes - 24" using assms(4) n by (simp add: word_le_nat_alt)
  moreover from this have "message_ok msg" using assms(3,5) l by (simp add: message_ok_def word_le_nat_alt)
  moreover have "same_message msg bytes" using assms(5) by (auto simp: same_message_def)
  ultimately show ?thesis using assms(2,5) l by simp
qed

lemma port_of_handle:
  assumes ok: "objects_ok s" and "procs s p = Some pr" and "0 \<le> h" "h < int MAX_OBJ_PER_PROCESS"
    and "objlist (p_handles pr) (nat h) \<noteq> 0"
  obtains obj where "objects s (objlist (p_handles pr) (nat h)) = Some obj"
    "o_type obj = OBJ_PORT \<Longrightarrow> o_data obj \<noteq> 0 \<Longrightarrow> \<exists>port. ports s (o_data obj) = Some port"
proof -
  have "nat h < MAX_OBJ_PER_PROCESS" using assms(3,4) by simp
  from process_okD [OF objects_okD(2) [OF ok assms(2)] this assms(5)] show thesis
    using objects_okD(3) [OF ok] that by blast
qed

definition reply_translated :: "ptr \<Rightarrow> Port \<Rightarrow> u8 list \<Rightarrow> message \<Rightarrow> 'a object_state_scheme \<Rightarrow> bool" where
  "reply_translated cp port bytes msg s \<longleftrightarrow>
     (\<exists>(s1 :: 'a object_state_scheme) r s2. procs s1 = procs s \<and> objects s1 = objects s \<and> threads s1 = threads s \<and>
        translate_reply cp port (sint (get32 REPLY_HANDLE bytes)) s1 = Some (r, s2) \<and> get32 REPLY_HANDLE msg = word_of_int r)"

lemma DWIPCSend_post:
  assumes vm: "vm_inv s" and ok: "objects_ok s" and size: "24 \<le> message_size n" and h: "0 \<le> h" "h < int MAX_OBJ_PER_PROCESS"
    and ct: "threads s (current_thread s) = Some ct" "procs s (t_owner ct) = Some pr"
    and obj: "objlist (p_handles pr) (nat h) \<noteq> 0" "objects s (objlist (p_handles pr) (nat h)) = Some obj"
      "o_type obj = OBJ_PORT" "o_data obj \<noteq> 0" "ports s (o_data obj) = Some port"
    and own: "port_owner port \<noteq> 0" and room: "port_room port"
  shows "(\<exists>s'. DWIPCSend h m n s = Some (STATUS_BAD_ARGUMENT, s') \<and> objects_ok s' \<and>
      (\<forall>p. map_option queue (ports s' p) = map_option queue (ports s p))) \<or>
    (\<exists>s' bytes msg. DWIPCSend h m n s = Some (STATUS_OK, s') \<and> objects_ok s' \<and>
      CopyFromUser m (message_size n) s = Some (STATUS_OK, bytes) \<and> ports s' = (ports s)(o_data obj \<mapsto> port_put msg port) \<and>
      message_ok msg \<and> get32 SENDER msg = p_pid pr \<and> get32 RESERVED msg = 0 \<and> same_message msg bytes \<and>
      unat (get32 PAYLOAD_LENGTH msg) + 24 \<le> length bytes \<and> reply_translated (t_owner ct) port bytes msg s)" (is "?err \<or> ?sent")
proof -
  define size where "size = message_size n"
  have sz: "24 \<le> size" "size \<le> 280" using size by (auto simp: size_def message_size_def)
  have pok: "port_ok port" by (rule objects_okD(4) [OF ok obj(5)])
  have slot: "length (msgbuf port (unat (tail port))) = unat SIZEOF_MESSAGE" using pok by (simp add: port_ok_def)
  obtain st bytes where cp: "CopyFromUser m size s = Some (st, bytes)" "st = STATUS_OK \<longrightarrow> length bytes = unat size"
    using CopyFromUser_total [OF vm, of size m] sz by (auto simp: word_le_nat_alt)
  define kmsg where "kmsg = copy_into (msgbuf port (unat (tail port))) bytes"
  define s1 where "s1 = s\<lparr>ports := (ports s)(o_data obj \<mapsto> port\<lparr>msgbuf := (msgbuf port)(unat (tail port) := kmsg)\<rparr>)\<rparr>"
  have guards: "(size < 24) = False" "(12 \<le> msgcount port) = False" "(h < 0) = False" "((32 :: int) \<le> h) = False"
    using sz(1) room h by auto
  have send: "DWIPCSend h m n s = (if st \<noteq> STATUS_OK then Some (STATUS_BAD_ARGUMENT, s)
      else if get32 PAYLOAD_LENGTH kmsg > size - 24 then Some (STATUS_BAD_ARGUMENT, s1)
      else do {
        (reply, s2) \<leftarrow> translate_reply (t_owner ct) port (sint (get32 REPLY_HANDLE (put32 RESERVED 0 (put32 SENDER (p_pid pr) kmsg)))) s1;
        s3 \<leftarrow> WakeThread (port_owner port) (s2\<lparr>ports := (ports s2)(o_data obj \<mapsto>
          port_put (put32 REPLY_HANDLE (word_of_int reply) (put32 RESERVED 0 (put32 SENDER (p_pid pr) kmsg))) port)\<rparr>);
        Some (STATUS_OK, s3)
      })"
    using ct obj own cp(1) unfolding DWIPCSend_def message_size_def [symmetric] size_def [symmetric]
    by (simp add: GetCurrentExecutionThread_def Let_def guards
        del: get32_put32_other get32_copy_into split del: if_split)
      (simp only: Let_def kmsg_def s1_def)
  consider "st \<noteq> STATUS_OK" | "st = STATUS_OK" "get32 PAYLOAD_LENGTH kmsg > size - 24"
    | "st = STATUS_OK" "get32 PAYLOAD_LENGTH kmsg \<le> size - 24" by fastforce
  then show ?thesis
  proof cases
    case 1
    with send ok show ?thesis by auto
  next
    case 2
    then have l: "length kmsg = unat SIZEOF_MESSAGE" using cp(2) sz slot by (simp add: kmsg_def word_le_nat_alt)
    have "objects_ok s1" unfolding s1_def
      by (rule objects_ok_port [OF ok obj(5) port_slot_ok [OF pok room l]]) simp
    moreover have "map_option queue (ports s1 p) = map_option queue (ports s p)" for p
      using queue_slot [OF pok room] obj(5) by (simp add: s1_def)
    ultimately have ?err using send 2 by auto
    then show ?thesis ..
  next
    case 3
    then have len: "length bytes = unat size" using cp(2) by simp
    then have l: "length kmsg = unat SIZEOF_MESSAGE" using sz slot by (simp add: kmsg_def word_le_nat_alt)
    have ok1: "objects_ok s1" unfolding s1_def
      by (rule objects_ok_port [OF ok obj(5) port_slot_ok [OF pok room l]]) simp
    have own1: "owned_by_process s1 (port_owner port)"
      using objects_okD(5) [OF ok obj(5) own] by (simp add: s1_def owned_by_process_def owner_of_def)
    have "procs s1 (t_owner ct) \<noteq> None" using ct by (simp add: s1_def)
    from translate_reply_ok [OF ok1 this own1] obtain r s2 where
      r: "translate_reply (t_owner ct) port (sint (get32 REPLY_HANDLE (put32 RESERVED 0 (put32 SENDER (p_pid pr) kmsg)))) s1 = Some (r, s2)"
        "objects_ok s2" "ports s2 = ports s1" "owned_by_process s2 (port_owner port)" by blast
    define msg where "msg = put32 REPLY_HANDLE (word_of_int r) (put32 RESERVED 0 (put32 SENDER (p_pid pr) kmsg))"
    have "get32 PAYLOAD_LENGTH (copy_into (msgbuf port (unat (tail port))) bytes) \<le> of_nat (length bytes) - SIZEOF_MESSAGEHEADER"
      using 3 by (simp add: kmsg_def len)
    from kernel_fields [OF slot _ _ this msg_def [unfolded kmsg_def]] len sz
    have f: "message_ok msg \<and> get32 SENDER msg = p_pid pr \<and> get32 RESERVED msg = 0 \<and> same_message msg bytes \<and>
        unat (get32 PAYLOAD_LENGTH msg) + 24 \<le> length bytes"
      by (simp add: word_le_nat_alt)
    let ?s2 = "s2\<lparr>ports := (ports s2)(o_data obj \<mapsto> port_put msg port)\<rparr>"
    have "ports s2 (o_data obj) = Some (port\<lparr>msgbuf := (msgbuf port)(unat (tail port) := kmsg)\<rparr>)" by (simp add: r(3) s1_def)
    then have ok2: "objects_ok ?s2"
      by (rule objects_ok_port [OF r(2)]) (use port_put_ok [OF pok room] f in \<open>simp_all add: port_put_def\<close>)
    have "owned_by_process ?s2 (port_owner port)" using r(4) by (simp add: owned_by_process_def owner_of_def)
    then obtain s3 where s3: "WakeThread (port_owner port) ?s2 = Some s3" using WakeThread_total by blast
    note w = WakeThread_same [OF s3]
    have "objects_ok s3" by (rule objects_ok_same [OF ok2]) (use w in simp_all)
    moreover have "ports s3 = (ports s)(o_data obj \<mapsto> port_put msg port)" by (simp add: w(4) r(3) s1_def)
    moreover have "DWIPCSend h m n s = Some (STATUS_OK, s3)" using send 3 r(1) s3 by (simp add: msg_def)
    moreover have "get32 REPLY_HANDLE (put32 RESERVED 0 (put32 SENDER (p_pid pr) kmsg)) = get32 REPLY_HANDLE bytes"
      using len sz by (simp add: kmsg_def word_le_nat_alt)
    then have "translate_reply (t_owner ct) port (sint (get32 REPLY_HANDLE bytes)) s1 = Some (r, s2)" using r(1) by simp
    moreover have "get32 REPLY_HANDLE msg = word_of_int r" using l by (simp add: msg_def)
    moreover have "procs s1 = procs s" "objects s1 = objects s" "threads s1 = threads s" by (simp_all add: s1_def)
    ultimately have ?sent using f cp(1) 3(1) unfolding size_def reply_translated_def by blast
    then show ?thesis ..
  qed
qed

definition delivered :: "int \<Rightarrow> u32 \<Rightarrow> u32 \<Rightarrow> 'a object_state_scheme \<Rightarrow> 'a object_state_scheme \<Rightarrow> bool" where
  "delivered h m n s s' \<longleftrightarrow>
     (\<exists>ct pr obj port bytes msg. threads s (current_thread s) = Some ct \<and> procs s (t_owner ct) = Some pr \<and>
        0 \<le> h \<and> h < int MAX_OBJ_PER_PROCESS \<and> objects s (objlist (p_handles pr) (nat h)) = Some obj \<and> o_type obj = OBJ_PORT \<and>
        ports s (o_data obj) = Some port \<and> CopyFromUser m (message_size n) s = Some (STATUS_OK, bytes) \<and>
        length (queue port) < 12 \<and> ports s' = (ports s)(o_data obj \<mapsto> port_put msg port) \<and> queue (port_put msg port) = queue port @ [msg] \<and>
        get32 SENDER msg = p_pid pr \<and> same_message msg bytes \<and> unat (get32 PAYLOAD_LENGTH msg) + 24 \<le> length bytes \<and>
        reply_translated (t_owner ct) port bytes msg s)"

lemma DWIPCSend_spec:
  assumes vm: "vm_inv s" and ok: "objects_ok s"
  shows "\<exists>st s'. DWIPCSend h m n s = Some (st, s') \<and> objects_ok s' \<and>
    (if st = STATUS_OK then delivered h m n s s'
     else \<forall>p. map_option queue (ports s' p) = map_option queue (ports s p))" (is "?P (DWIPCSend h m n s)")
proof -
  obtain ct pr where ct: "threads s (current_thread s) = Some ct" "procs s (t_owner ct) = Some pr"
    using objects_okD(1) [OF ok] by (rule owned_by_processE)
  have refuse: "?P (Some (st, s))" if "st \<noteq> STATUS_OK" for st using ok that by auto
  note unf = DWIPCSend_def message_size_def [symmetric] GetCurrentExecutionThread_def Let_def
  show ?thesis
  proof (cases "message_size n < 24 \<or> h < 0 \<or> 32 \<le> h \<or> objlist (p_handles pr) (nat h) = 0")
    case True
    then have "\<exists>st. st \<noteq> STATUS_OK \<and> DWIPCSend h m n s = Some (st, s)" using ct by (auto simp: unf)
    with refuse show ?thesis by auto
  next
    case g: False
    then have h: "0 \<le> h" "h < int MAX_OBJ_PER_PROCESS" "objlist (p_handles pr) (nat h) \<noteq> 0" "24 \<le> message_size n" by auto
    obtain obj where obj: "objects s (objlist (p_handles pr) (nat h)) = Some obj"
      "o_type obj = OBJ_PORT \<Longrightarrow> o_data obj \<noteq> 0 \<Longrightarrow> \<exists>port. ports s (o_data obj) = Some port"
      using port_of_handle [OF ok ct(2) h(1-3)] by blast
    show ?thesis
    proof (cases "o_type obj \<noteq> OBJ_PORT \<or> o_data obj = 0")
      case True
      then have "DWIPCSend h m n s = Some (STATUS_NO_ENDPOINT, s)" using ct obj(1) g by (simp add: unf)
      with ok show ?thesis by simp
    next
      case False
      then obtain port where port: "ports s (o_data obj) = Some port" "o_type obj = OBJ_PORT" "o_data obj \<noteq> 0" using obj(2) by auto
      show ?thesis
      proof (cases "port_owner port = 0 \<or> 12 \<le> msgcount port")
        case True
        then have "\<exists>st. st \<noteq> STATUS_OK \<and> DWIPCSend h m n s = Some (st, s)" using ct obj(1) port g by (auto simp: unf)
        with refuse show ?thesis by auto
      next
        case False
        then have r: "port_owner port \<noteq> 0" "port_room port" by auto
        have q: "length (queue port) < 12" using r(2) by (simp add: word_less_nat_alt)
        from DWIPCSend_post [OF vm ok h(4,1,2) ct h(3) obj(1) port(2,3,1) r, where m = m] show ?thesis
        proof (elim disjE exE conjE)
          fix s' bytes msg
          assume a: "DWIPCSend h m n s = Some (STATUS_OK, s')" "objects_ok s'" "CopyFromUser m (message_size n) s = Some (STATUS_OK, bytes)"
            "ports s' = (ports s)(o_data obj \<mapsto> port_put msg port)" "get32 SENDER msg = p_pid pr" "same_message msg bytes"
            "unat (get32 PAYLOAD_LENGTH msg) + 24 \<le> length bytes" "reply_translated (t_owner ct) port bytes msg s"
          have "delivered h m n s s'"
            unfolding delivered_def using ct h obj(1) port a(3-8) q queue_put [OF objects_okD(4) [OF ok port(1)] r(2)] by blast
          then show ?thesis using a(1,2) by simp
        qed simp
      qed
    qed
  qed
qed

text \<open>
  C9. Sending is safe whatever a process passes: in a consistent kernel \<^verbatim>\<open>_DWIPCSend\<close> comes back for
  every handle, pointer and size, and the kernel stays consistent. A refused message changes no
  queue. An accepted one is the last of the queue of the port the handle stands for, with the
  number of the sending process in it and the rest as the process wrote it; the other ports are
  as they were.
\<close>

theorem ipc_send_correct:
  assumes "vm_inv s" and "objects_ok s"
  shows "\<exists>st s'. DWIPCSend h m n s = Some (st, s') \<and> objects_ok s' \<and>
    (if st = STATUS_OK then delivered h m n s s'
     else \<forall>p. map_option queue (ports s' p) = map_option queue (ports s p))"
  using assms by (rule DWIPCSend_spec)

text \<open>
  A reply handle that stands for no object of the sender is passed on as it is: the receiver
  gets the number the sender chose, which among the receiver's own handles stands for whatever it
  holds there.
\<close>

lemma ipc_reply_unchecked:
  assumes "vm_inv s" and "objects_ok s" and "DWIPCSend h m n s = Some (STATUS_OK, s')"
    and "threads s (current_thread s) = Some ct" and "procs s (t_owner ct) = Some pr"
    and "CopyFromUser m (message_size n) s = Some (STATUS_OK, bytes)" and "r = sint (get32 REPLY_HANDLE bytes)"
    and "0 \<le> r" and "r < int MAX_OBJ_PER_PROCESS" and "objlist (p_handles pr) (nat r) = 0"
  shows "\<exists>obj port msg. objects s (objlist (p_handles pr) (nat h)) = Some obj \<and>
    ports s' (o_data obj) = Some port \<and> last (queue port) = msg \<and> sint (get32 REPLY_HANDLE msg) = r"
proof -
  have "delivered h m n s s'" using DWIPCSend_spec [OF assms(1,2), of h m n] assms(3) by auto
  then obtain obj port msg where d: "objects s (objlist (p_handles pr) (nat h)) = Some obj"
    "ports s' = (ports s)(o_data obj \<mapsto> port_put msg port)" "queue (port_put msg port) = queue port @ [msg]"
    "reply_translated (t_owner ct) port bytes msg s"
    using assms(4-6) unfolding delivered_def by auto
  then obtain r' where "get32 REPLY_HANDLE msg = word_of_int r'" "r' = r"
    using assms(5,7-10) by (auto simp: reply_translated_def translate_reply_def Let_def)
  then have "sint (get32 REPLY_HANDLE msg) = r" using assms(7) by simp
  with d show ?thesis by auto
qed

section \<open>Receiving\<close>

lemma more_object:
  assumes "vm_state.more t = vm_state.more s"
  shows "objects t = objects s" "ports t = ports s" "kstrings t = kstrings s" "port_nodes t = port_nodes s"
    "port_list_head t = port_list_head s" "sections t = sections s" "junk_ports t = junk_ports s"
  using assms by (cases s; cases t; simp)+

definition frame_bytes :: "message \<Rightarrow> u8 list" where
  "frame_bytes m = take (24 + unat (get32 PAYLOAD_LENGTH m)) m"

lemma load32_memory: "pmem t = pmem s \<Longrightarrow> cr3 t = cr3 s \<Longrightarrow> load32 va t = load32 va s"
  by (simp add: load32_def walk_def Let_def cong: if_cong)

lemma read_bytes_memory: "pmem t = pmem s \<Longrightarrow> cr3 t = cr3 s \<Longrightarrow> read_bytes va n t = read_bytes va n s"
  by (induction n arbitrary: va) (simp_all add: load8_def load32_memory [of t s])

lemma CopyFromUser_memory:
  assumes "pmem t = pmem s" and "cr3 t = cr3 s"
  shows "CopyFromUser va n t = CopyFromUser va n s"
  unfolding CopyFromUser_def user_range_status_def ADDRESS_IS_MAPPED_def IsVirtualPageMapped_def
    load32_memory [OF assms] read_bytes_memory [OF assms] ..

text \<open>The current process reads from this port through its handle.\<close>

definition reads_from :: "'a object_state_scheme \<Rightarrow> int \<Rightarrow> ptr \<Rightarrow> Port \<Rightarrow> bool" where
  "reads_from s h p port \<longleftrightarrow> 0 \<le> h \<and> h < int MAX_OBJ_PER_PROCESS \<and>
     (\<exists>ct pr obj owner. threads s (current_thread s) = Some ct \<and> procs s (t_owner ct) = Some pr \<and>
        objlist (p_handles pr) (nat h) \<noteq> 0 \<and> objects s (objlist (p_handles pr) (nat h)) = Some obj \<and> o_type obj = OBJ_PORT \<and>
        p \<noteq> 0 \<and> o_data obj = p \<and> ports s p = Some port \<and> threads s (port_owner port) = Some owner \<and> t_owner owner = t_owner ct)"

lemma DWIPCReceive_reads:
  "reads_from s h p port \<Longrightarrow> DWIPCReceive h msave s = receive_message p msave s"
  by (auto simp: reads_from_def DWIPCReceive_def GetCurrentExecutionThread_def Let_def)

lemma length_frame_bytes: "message_ok m \<Longrightarrow> length (frame_bytes m) = 24 + unat (get32 PAYLOAD_LENGTH m)"
  by (simp add: frame_bytes_def message_ok_def word_le_nat_alt)

lemma frame_length:
  assumes "message_ok m"
  shows "unat (SIZEOF_MESSAGEHEADER + get32 PAYLOAD_LENGTH m) = 24 + unat (get32 PAYLOAD_LENGTH m)"
    and "\<not> SIZEOF_MESSAGEHEADER + get32 PAYLOAD_LENGTH m > SIZEOF_MESSAGE"
proof -
  have b: "unat (get32 PAYLOAD_LENGTH m) \<le> 256" using assms by (simp add: message_ok_def word_le_nat_alt)
  then show u: "unat (SIZEOF_MESSAGEHEADER + get32 PAYLOAD_LENGTH m) = 24 + unat (get32 PAYLOAD_LENGTH m)"
    by (subst unat_plus_no_wrap) simp_all
  show "\<not> SIZEOF_MESSAGEHEADER + get32 PAYLOAD_LENGTH m > SIZEOF_MESSAGE"
    using b by (simp add: word_less_nat_alt u)
qed

text \<open>
  C11. Receiving: a process that reads from a port of its own with messages waiting gets the oldest
  one, exactly its header and its payload, in its buffer, and the others wait on. The copy and the
  ring together lose nothing.
\<close>

theorem ipc_receive_correct:
  assumes vm: "vm_inv s" and ok: "objects_ok s" and port: "reads_from s h p port" and q: "queue port = m # ms"
    and buf: "unat msave + length (frame_bytes m) < unat KERNEL_VM_BASE"
    "\<forall>k \<le> length (frame_bytes m). (unat msave + k) div 4096 \<in> R" "\<forall>p \<in> R. writable_at s p (fr p)" "inj_on fr R"
  shows "\<exists>s' port'. DWIPCReceive h msave s = Some (Received STATUS_OK s') \<and> ports s' = (ports s)(p \<mapsto> port') \<and> queue port' = ms \<and>
    objects_ok s' \<and> CopyFromUser msave (of_nat (length (frame_bytes m))) s' = Some (STATUS_OK, frame_bytes m)"
proof -
  have p: "ports s p = Some port" using port by (auto simp: reads_from_def)
  have pok: "port_ok port" by (rule objects_okD(4) [OF ok p])
  have ne: "port_some port" using q queue_Nil [of port] by auto
  have m: "port_first port = m" "queue (port_take port) = ms" using queue_take [OF pok ne] q by simp_all
  have mok: "message_ok m" using pok q by (simp add: port_ok_def)
  obtain s1 where s1: "CopyToUser msave (frame_bytes m) s = Some (STATUS_OK, s1)" "vm_inv s1" "vmap s1 = vmap s"
    "CopyFromUser msave (of_nat (length (frame_bytes m))) s1 = Some (STATUS_OK, frame_bytes m)"
    using copy_to_from [OF vm buf] by blast
  let ?s = "s1\<lparr>ports := (ports s1)(p \<mapsto> port_take port)\<rparr>"
  note more = more_task [OF more_CopyToUser [OF s1(1)]] more_object [OF more_CopyToUser [OF s1(1)]]
  have "receive_message p msave s = Some (Received STATUS_OK ?s)"
    using p ne m(1) frame_length [OF mok] s1(1) by (simp add: receive_message_def Let_def frame_bytes_def)
  then have "DWIPCReceive h msave s = Some (Received STATUS_OK ?s)" by (simp add: DWIPCReceive_reads [OF port])
  moreover have "objects_ok s1" by (rule objects_ok_same [OF ok]) (use more in \<open>simp_all add: owner_of_def fun_eq_iff\<close>)
  then have "objects_ok ?s"
    by (rule objects_ok_port) (use p more port_take_ok [OF pok ne] in \<open>simp_all add: port_take_def\<close>)
  moreover have "CopyFromUser msave n ?s = CopyFromUser msave n s1" for n
    by (rule CopyFromUser_memory) simp_all
  ultimately show ?thesis using s1(4) m(2) more by auto
qed

section \<open>An example\<close>

definition ex_port :: Port where
  "ex_port = \<lparr>msgbuf = (\<lambda>_. replicate (unat SIZEOF_MESSAGE) 0), head = 0, tail = 0, msgcount = 0, port_name = '''', port_owner = ex_b\<rparr>"

text \<open>One process with two threads; its handle 1 is a port that the second thread owns.\<close>

definition ex_client :: Process where
  "ex_client = (ex_process 0)\<lparr>p_pid := 7, p_handles := \<lparr>objlist = (\<lambda>_. 0)(1 := 0xC0300200), valid_bitmap = 2\<rparr>\<rparr>"

definition ex_kernel :: object_state where
  "ex_kernel = task_state.extend
     (two_threads\<lparr>threads := [ex_a \<mapsto> ex_thread\<lparr>t_state := THREAD_RUNNING, t_next := ex_b, t_owner := 0xC0300000\<rparr>,
         ex_b \<mapsto> ex_thread\<lparr>t_esp := 0x3F00, t_id := 1, t_owner := 0xC0300000\<rparr>],
       procs := [0xC0300000 \<mapsto> ex_client]\<rparr>)
     \<lparr>kstrings = Map.empty, objects = [0xC0300200 \<mapsto> \<lparr>o_type = OBJ_PORT, o_name = 0, o_data = 0xC0300400, o_permissions = 0, o_refcnt = 1\<rparr>],
      ports = [0xC0300400 \<mapsto> ex_port], junk_ports = (\<lambda>_. ex_port), port_nodes = Map.empty, port_list_head = 0, sections = Map.empty\<rparr>"

lemma ex_kernel_simps [simp]:
  "pmem ex_kernel = pmem two_threads" "cr3 ex_kernel = cr3 two_threads" "bitmap ex_kernel = bitmap two_threads"
  "highest_addr ex_kernel = highest_addr two_threads" "current_thread ex_kernel = ex_a"
  "threads ex_kernel = [ex_a \<mapsto> ex_thread\<lparr>t_state := THREAD_RUNNING, t_next := ex_b, t_owner := 0xC0300000\<rparr>,
     ex_b \<mapsto> ex_thread\<lparr>t_esp := 0x3F00, t_id := 1, t_owner := 0xC0300000\<rparr>]"
  "procs ex_kernel = [0xC0300000 \<mapsto> ex_client]"
  "objects ex_kernel = [0xC0300200 \<mapsto> \<lparr>o_type = OBJ_PORT, o_name = 0, o_data = 0xC0300400, o_permissions = 0, o_refcnt = 1\<rparr>]"
  "ports ex_kernel = [0xC0300400 \<mapsto> ex_port]"
  by (simp_all add: ex_kernel_def two_threads_def task_state.extend_def)

lemma vm_inv_ex_kernel: "vm_inv ex_kernel"
proof -
  have "vm_inv ex_kernel = vm_inv (vm_state.truncate two_threads)"
    by (simp add: vm_inv_def frames_inv_def frame_free_def pd_frame_def pde_def pt_frame_def pd_present_def pd_writable_def vm_state.defs)
  also have "\<dots> = vm_inv two_threads"
    by (simp add: vm_inv_def frames_inv_def frame_free_def pd_frame_def pde_def pt_frame_def pd_present_def pd_writable_def vm_state.defs)
  finally show ?thesis using vm_inv_two_threads by simp
qed

lemma bit_2: "bit (2 :: u32) i \<longleftrightarrow> i = 1"
proof -
  have "(2 :: u32) = push_bit 1 1" by simp
  then show ?thesis by (simp only: bit_push_bit_iff bit_1_iff) auto
qed

lemma port_ok_ex_port: "port_ok ex_port"
  by (simp add: port_ok_def ex_port_def queue_def)

lemma objects_ok_ex_kernel: "objects_ok ex_kernel"
proof -
  have "owned_by_process ex_kernel ex_a" "owned_by_process ex_kernel ex_b"
    by (simp_all add: owned_by_process_def owner_of_def ex_thread_def)
  moreover have "process_ok ex_kernel ex_client"
    by (simp add: process_ok_def table_ok_def ex_client_def bit_2 del: bit_numeral_word_iff)
  ultimately show ?thesis
    using port_ok_ex_port by (auto simp: objects_ok_def ex_port_def)
qed

theorem port_queue_fifo_witness:
  "length (queue (fst (queue_run port_room port_some port_put port_first port_take [Put (replicate 280 0), Get, Get] ex_port))) \<le> 12"
proof -
  have "\<forall>m. Put m \<in> set [Put (replicate 280 0), Get, Get] \<longrightarrow> message_ok m"
    by (auto simp: message_ok_def get32_def)
  moreover obtain port sent got where
    r: "queue_run port_room port_some port_put port_first port_take [Put (replicate 280 0), Get, Get] ex_port = (port, sent, got)"
    by (rule prod_cases3)
  ultimately have "length (queue port) \<le> 12" using port_queue_fifo [OF port_ok_ex_port] by blast
  then show ?thesis unfolding r by simp
qed

theorem ipc_send_correct_witness:
  "\<exists>st s'. DWIPCSend 1 0x1000 24 ex_kernel = Some (st, s') \<and> objects_ok s'"
  using ipc_send_correct [OF vm_inv_ex_kernel objects_ok_ex_kernel, of 1 "0x1000" 24] by blast

lemma vmap_ex_kernel: "vmap ex_kernel 1 = Some 0x5007"
  by (simp add: vmap_def pd_present_def pt_frame_def pde_def pd_frame_def two_threads_def has_flag_def frame_no_def)

lemma load8_ex_kernel: "0x1000 \<le> unat x \<Longrightarrow> unat x < 0x1018 \<Longrightarrow> load8 x ex_kernel = Some 0"
proof -
  assume x: "0x1000 \<le> unat x" "unat x < 0x1018"
  then have "page_no x = 1" "x < PAGE_TABLE_BASE" by (simp_all add: frame_no_nat word_less_nat_alt)
  then have "map_option snd (walk ex_kernel x) = Some 0x5007" using walk_vmap [of x ex_kernel] vmap_ex_kernel by simp
  then obtain e where "walk ex_kernel x = Some (e, 0x5007)" by auto
  moreover have "pmem ex_kernel 5 i = 0" for i by (simp add: two_threads_def)
  ultimately show ?thesis by (simp add: load8_def load32_def frame_no_def)
qed

lemma CopyFromUser_ex_kernel: "CopyFromUser 0x1000 24 ex_kernel = Some (STATUS_OK, replicate 24 0)"
proof -
  have "ADDRESS_IS_MAPPED 0x1000 ex_kernel = Some True" "ADDRESS_IS_MAPPED 0x1018 ex_kernel = Some True"
    using ADDRESS_IS_MAPPED_vmap [OF vm_inv_ex_kernel, of "0x1000"] ADDRESS_IS_MAPPED_vmap [OF vm_inv_ex_kernel, of "0x1018"] vmap_ex_kernel
    by (simp_all add: frame_no_def)
  moreover have "read_bytes 0x1000 (length (replicate 24 0 :: u8 list)) ex_kernel = Some (replicate 24 0)"
  proof (rule read_bytes_nth)
    show "\<forall>x. unat (0x1000 :: u32) \<le> unat x \<and> unat x < unat (0x1000 :: u32) + length (replicate 24 0 :: u8 list) \<longrightarrow>
        load8 x ex_kernel = Some (replicate 24 0 ! (unat x - unat (0x1000 :: u32)))"
      using load8_ex_kernel by auto
  qed simp
  ultimately show ?thesis
    by (simp del: read_bytes.simps add: CopyFromUser_def user_range_status_def AdditionWouldOverflow_def IsUserPointer_def Let_def)
qed

lemma DWIPCSend_ex_kernel: "\<exists>s'. DWIPCSend 1 0x1000 24 ex_kernel = Some (STATUS_OK, s')"
proof -
  have g: "get32 i (copy_into m (replicate 24 0)) = 0" if "i \<le> 20" for i m
    using that by (simp add: get32_def)
  have "get32 PAYLOAD_LENGTH (copy_into (msgbuf ex_port 0) (replicate 24 0)) = 0" by (simp only: g)
  then show ?thesis
    using CopyFromUser_ex_kernel
    by (simp add: DWIPCSend_def GetCurrentExecutionThread_def Let_def ex_thread_def ex_client_def ex_port_def translate_reply_def
        WakeThread_def get32_def)
qed

lemma writable_memory:
  assumes "pmem t = pmem s" and "cr3 t = cr3 s"
  shows "writable_at t p f = writable_at s p f"
proof -
  have d: "pde t i = pde s i" "pd_frame t = pd_frame s" for i using assms by (simp_all add: pde_def pd_frame_def)
  then have e: "pt_frame t i = pt_frame s i" "pd_present t i = pd_present s i" "pd_writable t i = pd_writable s i" for i
    by (simp_all add: pt_frame_def pd_present_def pd_writable_def)
  then have "vmap t p = vmap s p" "table_frame t f = table_frame s f" using assms d by (simp_all add: vmap_def table_frame_def)
  with e show ?thesis by (simp add: writable_at_def)
qed

definition ex_server :: object_state where
  "ex_server = ex_kernel\<lparr>ports := [0xC0300400 \<mapsto> port_put (replicate 280 0) ex_port]\<rparr>"

theorem ipc_receive_correct_witness:
  "\<exists>s'. DWIPCReceive 1 0x1000 ex_server = Some (Received STATUS_OK s') \<and> CopyFromUser 0x1000 24 s' = Some (STATUS_OK, replicate 24 0)"
proof -
  let ?m = "replicate 280 0 :: message" let ?port = "port_put (replicate 280 0) ex_port"
  have room: "port_room ex_port" by (simp add: ex_port_def)
  have mok: "message_ok ?m" by (simp add: message_ok_def get32_def)
  have fb: "frame_bytes ?m = replicate 24 0" by (simp add: frame_bytes_def get32_def)
  have q: "queue ?port = [?m]" using queue_put [OF port_ok_ex_port room] by (simp add: queue_def ex_port_def)
  have ok: "objects_ok ex_server" unfolding ex_server_def
    using objects_ok_port [OF objects_ok_ex_kernel, of "0xC0300400" ex_port ?port] port_put_ok [OF port_ok_ex_port room mok]
    by (simp add: port_put_def)
  have vm: "vm_inv ex_server" using vm_inv_ex_kernel by (subst vm_inv_same [where s = ex_kernel]) (simp_all add: ex_server_def)
  have w: "\<forall>p \<in> {1}. writable_at ex_server p ((\<lambda>_. 5) p)"
    using two_threads_writable(1) by (subst writable_memory [where s = two_threads]) (simp_all add: ex_server_def)
  have r: "reads_from ex_server 1 0xC0300400 ?port"
    by (simp add: reads_from_def ex_server_def ex_client_def ex_thread_def port_put_def ex_port_def)
  have "\<forall>k \<le> length (frame_bytes ?m). (unat (0x1000 :: u32) + k) div 4096 \<in> {1}" by (auto simp: fb)
  from ipc_receive_correct [OF vm ok r q _ this w] show ?thesis by (auto simp: fb)
qed

lemma ipc_reply_unchecked_example:
  "\<exists>s' port. DWIPCSend 1 0x1000 24 ex_kernel = Some (STATUS_OK, s') \<and> ports s' 0xC0300400 = Some port \<and>
     sint (get32 REPLY_HANDLE (last (queue port))) = 0"
proof -
  obtain s' where s': "DWIPCSend 1 0x1000 24 ex_kernel = Some (STATUS_OK, s')" using DWIPCSend_ex_kernel by blast
  have "CopyFromUser 0x1000 (message_size 24) ex_kernel = Some (STATUS_OK, replicate 24 0)"
    by (simp add: message_size_def CopyFromUser_ex_kernel)
  from ipc_reply_unchecked [OF vm_inv_ex_kernel objects_ok_ex_kernel s' _ _ this refl,
      where ct = "ex_thread\<lparr>t_state := THREAD_RUNNING, t_next := ex_b, t_owner := 0xC0300000\<rparr>" and pr = ex_client]
  obtain port where "ports s' 0xC0300400 = Some port" "sint (get32 REPLY_HANDLE (last (queue port))) = sint (get32 REPLY_HANDLE (replicate 24 0))"
    by (auto simp: ex_client_def get32_def)
  moreover have "sint (get32 REPLY_HANDLE (replicate 24 0)) = 0" by (simp add: get32_def)
  ultimately show ?thesis using s' by auto
qed

end
