(* ===== verification/Interrupts.thy ===== *)
theory Interrupts
  imports Objects
begin

text \<open>
  Interrupts: the interrupt controllers (\<^verbatim>\<open>src/sys/ddk/ia32/pic.c\<close>), the interrupt lines and their
  handlers (\<^verbatim>\<open>irq.c\<close>), the descriptor tables (\<^verbatim>\<open>idt.c\<close>, \<^verbatim>\<open>gdt.c\<close>), critical sections and the timer
  (\<^verbatim>\<open>src/sys/time/timer.c\<close>).

  The two 8259 controllers are modelled as the processor sees them through their ports. The addresses of
  the interrupt routines, of the task state segment and of the tables are arguments.
\<close>

section \<open>The controllers\<close>

abbreviation PIC1_COMMAND :: u16 where "PIC1_COMMAND \<equiv> 0x20"
abbreviation PIC1_DATA :: u16 where "PIC1_DATA \<equiv> 0x21"
abbreviation PIC2_COMMAND :: u16 where "PIC2_COMMAND \<equiv> 0xA0"
abbreviation PIC2_DATA :: u16 where "PIC2_DATA \<equiv> 0xA1"
abbreviation ICW1_INIT :: u8 where "ICW1_INIT \<equiv> 0x10"
abbreviation ICW1_ICW4 :: u8 where "ICW1_ICW4 \<equiv> 0x01"
abbreviation ICW4_8086_MODE :: u8 where "ICW4_8086_MODE \<equiv> 0x01"
abbreviation NEW_IRQ_OFFSET_MASTER :: u8 where "NEW_IRQ_OFFSET_MASTER \<equiv> 0x20"
abbreviation NEW_IRQ_OFFSET_SLAVE :: u8 where "NEW_IRQ_OFFSET_SLAVE \<equiv> 0x28"
abbreviation PIT_CH0 :: u16 where "PIT_CH0 \<equiv> 0x40"
abbreviation PIT_CMD :: u16 where "PIT_CMD \<equiv> 0x43"
abbreviation PIT_FREQ :: u32 where "PIT_FREQ \<equiv> 1193182"
abbreviation TARGET_HZ :: u32 where "TARGET_HZ \<equiv> 100"
abbreviation MAX_IRQ :: nat where "MAX_IRQ \<equiv> 16"
abbreviation IRQ_BASE :: u32 where "IRQ_BASE \<equiv> 0x20"

text \<open>
  A command with the bit \<^verbatim>\<open>ICW1_INIT\<close> starts the initialisation: the mask is cleared and the next
  three bytes of data are the offset, the cascade and the mode. Any other byte of data is the mask.
  The end of interrupt command clears the highest interrupt in service; the model keeps their number.
\<close>

record Pic =
  imr :: u8
  vector_offset :: u8
  cascade :: u8
  icw4 :: u8
  icws_expected :: nat
  eois :: nat

definition pic_command :: "u8 \<Rightarrow> Pic \<Rightarrow> Pic" where
  "pic_command v c =
     (if v AND ICW1_INIT \<noteq> 0 then c\<lparr>imr := 0, icws_expected := (if v AND ICW1_ICW4 \<noteq> 0 then 3 else 2)\<rparr>
      else if v = 0x20 then c\<lparr>eois := Suc (eois c)\<rparr> else c)"

definition pic_data :: "u8 \<Rightarrow> Pic \<Rightarrow> Pic" where
  "pic_data v c =
     (if icws_expected c = 3 then c\<lparr>vector_offset := v, icws_expected := 2\<rparr>
      else if icws_expected c = 2 then c\<lparr>cascade := v, icws_expected := 1\<rparr>
      else if icws_expected c = 1 then c\<lparr>icw4 := v, icws_expected := 0\<rparr>
      else c\<lparr>imr := v\<rparr>)"

datatype IRQHandler = NullHandler | PITHandler

record IRQRelayHandler =
  irq_handler :: ptr
  irq_port_handle :: int
  is_active :: bool

record IDTEntry =
  idt_base_low :: u16
  idt_selector :: u16
  idt_zero :: u8
  idt_flags :: u8
  idt_base_high :: u16

record GDTEntry =
  limit_low :: u16
  base_low :: u16
  base_middle :: u8
  access :: u8
  granularity :: u8
  base_high :: u8

text \<open>\<open>io_writes\<close> are the bytes written to other ports, the last one first.\<close>

record irq_state = object_state +
  pic1 :: Pic
  pic2 :: Pic
  io_writes :: "(u16 \<times> u8) list"
  IRQHandlerCallbacks :: "nat \<Rightarrow> IRQHandler"
  IRQRelayCallback :: "nat \<Rightarrow> IRQRelayHandler"
  idt :: "nat \<Rightarrow> IDTEntry"
  idtr :: "u16 \<times> u32"
  gdt :: "nat \<Rightarrow> GDTEntry"
  gdtr :: "u16 \<times> u32"
  task_register :: u16
  interrupt_flag :: bool
  critical_counter :: int
  interrupts_were_enabled :: bool

definition outb :: "u16 \<Rightarrow> u8 \<Rightarrow> 'a irq_state_scheme \<Rightarrow> 'a irq_state_scheme" where
  "outb port v s =
     (if port = PIC1_COMMAND then s\<lparr>pic1 := pic_command v (pic1 s)\<rparr>
      else if port = PIC1_DATA then s\<lparr>pic1 := pic_data v (pic1 s)\<rparr>
      else if port = PIC2_COMMAND then s\<lparr>pic2 := pic_command v (pic2 s)\<rparr>
      else if port = PIC2_DATA then s\<lparr>pic2 := pic_data v (pic2 s)\<rparr>
      else s\<lparr>io_writes := (port, v) # io_writes s\<rparr>)"

text \<open>Reading the data ports of the controllers, the only ones that the modelled code reads.\<close>

definition inb_mask :: "u16 \<Rightarrow> 'a irq_state_scheme \<Rightarrow> u8" where
  "inb_mask port s = (if port = PIC1_DATA then imr (pic1 s) else imr (pic2 s))"

definition IOWait :: "'a irq_state_scheme \<Rightarrow> 'a irq_state_scheme" where
  "IOWait s = outb 0x80 0 (outb 0x80 0 s)"

definition mask_port :: "u32 \<Rightarrow> u16" where
  "mask_port n = (if n < 8 then PIC1_DATA else PIC2_DATA)"

definition DisableIRQ :: "u32 \<Rightarrow> 'a irq_state_scheme \<Rightarrow> 'a irq_state_scheme" where
  "DisableIRQ n s =
     (if \<not> inrange n 0 15 then s
      else let port = mask_port n in outb port (set_bit (unat n mod 8) (inb_mask port s)) s)"

definition unmask :: "u32 \<Rightarrow> 'a irq_state_scheme \<Rightarrow> 'a irq_state_scheme" where
  "unmask n s = (let port = mask_port n in outb port (unset_bit (unat n mod 8) (inb_mask port s)) s)"

definition EnableIRQ :: "u32 \<Rightarrow> 'a irq_state_scheme \<Rightarrow> 'a irq_state_scheme" where
  "EnableIRQ n s =
     (if \<not> inrange n 0 15 then s
      else let s1 = unmask n s in if n > 7 then unmask 2 s1 else s1)"

definition RemapPICInterrupts :: "'a irq_state_scheme \<Rightarrow> 'a irq_state_scheme" where
  "RemapPICInterrupts s = outb PIC2_DATA NEW_IRQ_OFFSET_SLAVE (IOWait (outb PIC1_DATA NEW_IRQ_OFFSET_MASTER s))"

definition InitializePIC :: "'a irq_state_scheme \<Rightarrow> Status \<times> 'a irq_state_scheme" where
  "InitializePIC s =
     (let s1 = IOWait (outb PIC1_COMMAND (ICW1_INIT OR ICW1_ICW4) s);
          s2 = IOWait (outb PIC2_COMMAND (ICW1_INIT OR ICW1_ICW4) s1);
          s3 = RemapPICInterrupts s2;
          s4 = IOWait (outb PIC2_DATA 0x02 (outb PIC1_DATA 0x04 s3));
          s5 = IOWait (outb PIC2_DATA ICW4_8086_MODE (outb PIC1_DATA ICW4_8086_MODE s4));
          s6 = outb PIC2_DATA 0xFF (outb PIC1_DATA 0xFF s5)
      in (STATUS_OK, s6))"

section \<open>Interrupt lines\<close>

definition SendEOI :: "u32 \<Rightarrow> 'a irq_state_scheme \<Rightarrow> 'a irq_state_scheme" where
  "SendEOI irq_no s = outb 0x20 0x20 (if irq_no \<ge> 8 then outb 0xA0 0x20 s else s)"

text \<open>A handler for line 16 would be written past the end of the table.\<close>

definition RegisterIRQHandler :: "int \<Rightarrow> IRQHandler \<Rightarrow> 'a irq_state_scheme \<Rightarrow> 'a irq_state_scheme option" where
  "RegisterIRQHandler which handler s =
     (if handler = NullHandler then Some (DisableIRQ (word_of_int which) s)
      else if inrange which 0 (int MAX_IRQ) then
        if which = int MAX_IRQ then None
        else Some (EnableIRQ (word_of_int which) (s\<lparr>IRQHandlerCallbacks := (IRQHandlerCallbacks s)(nat which := handler)\<rparr>))
      else Some s)"

definition RegisterIRQSubscriber :: "u32 \<Rightarrow> int \<Rightarrow> 'a irq_state_scheme \<Rightarrow> 'a irq_state_scheme" where
  "RegisterIRQSubscriber which port_handle s =
     (if \<not> inrange which 1 15 then s
      else if GetCurrentExecutionThread s = 0 then s
      else EnableIRQ which (s\<lparr>IRQRelayCallback := (IRQRelayCallback s)(unat which :=
        \<lparr>irq_handler = GetCurrentExecutionThread s, irq_port_handle = port_handle, is_active = True\<rparr>)\<rparr>))"

definition AcknowledgeUserIRQ :: "u32 \<Rightarrow> int \<Rightarrow> 'a irq_state_scheme \<Rightarrow> 'a irq_state_scheme" where
  "AcknowledgeUserIRQ which port_handle s =
     (if \<not> inrange which 1 15 then s
      else let handler = IRQRelayCallback s (unat which)
           in if \<not> is_active handler then s
              else if irq_handler handler \<noteq> GetCurrentExecutionThread s then s
              else if irq_port_handle handler \<noteq> port_handle then s
              else EnableIRQ which s)"

definition irq_message :: message where
  "irq_message = put32 RESERVED 0 (put32 PAYLOAD_LENGTH 0 (put32 SENDER KERNEL_SENDER (replicate (unat SIZEOF_MESSAGE) 0)))"

definition IRQHandlerCallback :: "u32 \<Rightarrow> 'a irq_state_scheme \<Rightarrow> 'a irq_state_scheme option" where
  "IRQHandlerCallback int_no s =
     (let irq = int_no - IRQ_BASE;
          s1 = SendEOI irq (DisableIRQ irq s)
      in if unat irq < MAX_IRQ then
           let user_handler = IRQRelayCallback s1 (unat irq)
           in if IRQHandlerCallbacks s1 (unat irq) \<noteq> NullHandler then map_option (EnableIRQ irq) (PITCallback s1)
              else if is_active user_handler then do {
                target \<leftarrow> threads s1 (irq_handler user_handler);
                (st, s2) \<leftarrow> SendMessage (t_owner target) (irq_port_handle user_handler) irq_message s1;
                if st \<noteq> STATUS_OK then Some s2
                else WakeThread (irq_handler user_handler) s2
              }
              else Some s1
         else Some s1)"

definition no_relay :: IRQRelayHandler where
  "no_relay = \<lparr>irq_handler = 0, irq_port_handle = 0, is_active = False\<rparr>"

definition IRQInit :: "'a irq_state_scheme \<Rightarrow> 'a irq_state_scheme" where
  "IRQInit s = snd (InitializePIC (s\<lparr>IRQRelayCallback := (\<lambda>_. no_relay), IRQHandlerCallbacks := (\<lambda>_. NullHandler)\<rparr>))"

fun drop_relays :: "ptr \<Rightarrow> nat \<Rightarrow> nat \<Rightarrow> 'a irq_state_scheme \<Rightarrow> 'a irq_state_scheme option" where
  "drop_relays p i 0 s = Some s"
| "drop_relays p i (Suc n) s =
     (let handler = IRQRelayCallback s i
      in if \<not> is_active handler then drop_relays p (Suc i) n s
         else do {
           t \<leftarrow> threads s (irq_handler handler);
           drop_relays p (Suc i) n (if t_owner t = p then s\<lparr>IRQRelayCallback := (IRQRelayCallback s)(i := no_relay)\<rparr> else s)
         })"

definition DeleteProcessFromIRQRelay :: "ptr \<Rightarrow> 'a irq_state_scheme \<Rightarrow> 'a irq_state_scheme option" where
  "DeleteProcessFromIRQRelay p s = drop_relays p 0 MAX_IRQ s"

section \<open>The timer\<close>

definition PITInit :: "u32 \<Rightarrow> 'a irq_state_scheme \<Rightarrow> 'a irq_state_scheme" where
  "PITInit freq s =
     (let divisor = ucast (PIT_FREQ div freq) :: u16
      in outb PIT_CH0 (ucast (drop_bit 8 divisor)) (outb PIT_CH0 (ucast divisor) (outb PIT_CMD 0x36 s)))"

definition StartSystemTimer :: "'a irq_state_scheme \<Rightarrow> 'a irq_state_scheme option" where
  "StartSystemTimer s = RegisterIRQHandler 0 PITHandler (PITInit TARGET_HZ s)"

text \<open>
  The software interrupt of \<^verbatim>\<open>YieldCurrentThread\<close> is taken like an interrupt of line 0: its handler runs
  and then the next thread is scheduled, which \<^verbatim>\<open>NeedsResched\<close> asks for (\<^verbatim>\<open>isr.asm\<close>).
\<close>

definition interrupt_return :: "'a task_state_scheme \<Rightarrow> 'a task_state_scheme option" where
  "interrupt_return s = (if NeedsResched s then ScheduleNext s else Some s)"

definition YieldCurrentThread :: "'a irq_state_scheme \<Rightarrow> 'a irq_state_scheme option" where
  "YieldCurrentThread s = do {
     s1 \<leftarrow> IRQHandlerCallback 0x20 (s\<lparr>NeedsResched := True\<rparr>);
     interrupt_return s1
   }"

section \<open>Critical sections\<close>

definition PushCritical :: "'a irq_state_scheme \<Rightarrow> 'a irq_state_scheme" where
  "PushCritical s =
     (let s1 = (if critical_counter s = 0 then s\<lparr>interrupts_were_enabled := interrupt_flag s\<rparr> else s)
      in s1\<lparr>interrupt_flag := False, critical_counter := critical_counter s1 + 1\<rparr>)"

definition PopCritical :: "'a irq_state_scheme \<Rightarrow> 'a irq_state_scheme option" where
  "PopCritical s =
     (if critical_counter s \<le> 0 then None
      else let s1 = s\<lparr>critical_counter := critical_counter s - 1\<rparr>
           in Some (if critical_counter s1 = 0 \<and> interrupts_were_enabled s1 then s1\<lparr>interrupt_flag := True\<rparr> else s1))"

section \<open>The interrupt descriptor table\<close>

abbreviation IDT_ENTRIES :: nat where "IDT_ENTRIES \<equiv> 256"
abbreviation SYSCALL_NO :: nat where "SYSCALL_NO \<equiv> 0x60"
abbreviation RING0_FLAG_EXCEPTION :: u16 where "RING0_FLAG_EXCEPTION \<equiv> 0x8E"
abbreviation RING3_FLAG_TRAP :: u16 where "RING3_FLAG_TRAP \<equiv> 0xEE"
abbreviation SEL_CODE_KERNEL :: u16 where "SEL_CODE_KERNEL \<equiv> 0x08"
abbreviation SEL_DATA_KERNEL :: u16 where "SEL_DATA_KERNEL \<equiv> 0x10"

definition IDTAddGate :: "nat \<Rightarrow> u32 \<Rightarrow> u16 \<Rightarrow> u16 \<Rightarrow> 'a irq_state_scheme \<Rightarrow> 'a irq_state_scheme" where
  "IDTAddGate n base selector flags s = s\<lparr>idt := (idt s)(n :=
     \<lparr>idt_base_low = ucast (base AND 0xFFFF), idt_selector = selector, idt_zero = 0, idt_flags = ucast flags,
      idt_base_high = ucast (drop_bit 16 base AND 0xFFFF)\<rparr>)\<rparr>"

text \<open>Gates for the routines of the vectors \<open>i\<close>, \<open>i + 1\<close>, ..., all alike.\<close>

fun add_gates :: "(nat \<Rightarrow> u32) \<Rightarrow> nat \<Rightarrow> nat \<Rightarrow> 'a irq_state_scheme \<Rightarrow> 'a irq_state_scheme" where
  "add_gates isr i 0 s = s"
| "add_gates isr i (Suc n) s = add_gates isr (Suc i) n (IDTAddGate i (isr i) SEL_CODE_KERNEL RING0_FLAG_EXCEPTION s)"

definition IRQInstall :: "(nat \<Rightarrow> u32) \<Rightarrow> 'a irq_state_scheme \<Rightarrow> 'a irq_state_scheme" where
  "IRQInstall isr s = add_gates isr (unat IRQ_BASE) 16 s"

definition InstallInterruptServiceRoutines :: "(nat \<Rightarrow> u32) \<Rightarrow> u32 \<Rightarrow> 'a irq_state_scheme \<Rightarrow> 'a irq_state_scheme" where
  "InstallInterruptServiceRoutines isr fallback s =
     (let s1 = add_gates isr 0 32 s;
          s2 = add_gates (\<lambda>_. fallback) (unat IRQ_BASE) (IDT_ENTRIES - unat IRQ_BASE) s1;
          s3 = IDTAddGate SYSCALL_NO (isr SYSCALL_NO) SEL_CODE_KERNEL RING3_FLAG_TRAP s2
      in IRQInstall isr s3)"

definition IDTInit :: "(nat \<Rightarrow> u32) \<Rightarrow> u32 \<Rightarrow> u32 \<Rightarrow> 'a irq_state_scheme \<Rightarrow> 'a irq_state_scheme" where
  "IDTInit isr fallback idt_addr s =
     IRQInit ((InstallInterruptServiceRoutines isr fallback s)\<lparr>idtr := (8 * 256 - 1, idt_addr)\<rparr>)"

section \<open>The global descriptor table\<close>

abbreviation GDT_ENTRIES :: nat where "GDT_ENTRIES \<equiv> 6"
abbreviation X86_MEMORY_LIMIT :: u32 where "X86_MEMORY_LIMIT \<equiv> 0xFFFFFFFF"
abbreviation GDT_ACCESS_PRESENT :: u8 where "GDT_ACCESS_PRESENT \<equiv> 0x80"
abbreviation GDT_ACCESS_RING3 :: u8 where "GDT_ACCESS_RING3 \<equiv> 0x60"
abbreviation GDT_ACCESS_DATA :: u8 where "GDT_ACCESS_DATA \<equiv> 0x10"
abbreviation GDT_ACCESS_EXECUTABLE :: u8 where "GDT_ACCESS_EXECUTABLE \<equiv> 0x08"
abbreviation GDT_ACCESS_RW :: u8 where "GDT_ACCESS_RW \<equiv> 0x02"
abbreviation GDT_TYPE_TSS :: u8 where "GDT_TYPE_TSS \<equiv> 0x09"
abbreviation GDT_GRAN_PAGESIZE :: u8 where "GDT_GRAN_PAGESIZE \<equiv> 0x80"
abbreviation GDT_ENTRY_32BIT :: u8 where "GDT_ENTRY_32BIT \<equiv> 0x40"

definition gdt_entry :: "u32 \<Rightarrow> u32 \<Rightarrow> u8 \<Rightarrow> u8 \<Rightarrow> GDTEntry" where
  "gdt_entry base limit acc gran =
     \<lparr>limit_low = ucast (limit AND 0xFFFF), base_low = ucast (base AND 0xFFFF),
      base_middle = ucast (drop_bit 16 base AND 0xFF), access = acc,
      granularity = ucast (drop_bit 16 limit AND 0x0F) OR (gran AND 0xF0),
      base_high = ucast (drop_bit 24 base AND 0xFF)\<rparr>"

definition GDTSetGate :: "nat \<Rightarrow> u32 \<Rightarrow> u32 \<Rightarrow> u8 \<Rightarrow> u8 \<Rightarrow> 'a irq_state_scheme \<Rightarrow> 'a irq_state_scheme" where
  "GDTSetGate n base limit acc gran s = s\<lparr>gdt := (gdt s)(n := gdt_entry base limit acc gran)\<rparr>"

definition GDTInit :: "u32 \<Rightarrow> u32 \<Rightarrow> 'a irq_state_scheme \<Rightarrow> 'a irq_state_scheme" where
  "GDTInit gdt_addr tss_addr s =
     (let flat = GDT_ENTRY_32BIT OR GDT_GRAN_PAGESIZE;
          s1 = s\<lparr>gdt := (\<lambda>_. gdt_entry 0 0 0 0)\<rparr>;
          s2 = GDTSetGate 0 0 0 0 0 s1;
          s3 = GDTSetGate 1 0 X86_MEMORY_LIMIT (GDT_ACCESS_PRESENT OR GDT_ACCESS_EXECUTABLE OR GDT_ACCESS_DATA) flat s2;
          s4 = GDTSetGate 2 0 X86_MEMORY_LIMIT (GDT_ACCESS_PRESENT OR GDT_ACCESS_DATA OR GDT_ACCESS_RW) flat s3;
          s5 = GDTSetGate 3 0 X86_MEMORY_LIMIT
                 (GDT_ACCESS_PRESENT OR GDT_ACCESS_DATA OR GDT_ACCESS_EXECUTABLE OR GDT_ACCESS_RING3) flat s4;
          s6 = GDTSetGate 4 0 X86_MEMORY_LIMIT
                 (GDT_ACCESS_PRESENT OR GDT_ACCESS_RW OR GDT_ACCESS_DATA OR GDT_ACCESS_RING3) flat s5;
          s7 = s6\<lparr>tss0 := \<lparr>tss_esp0 = tss_stack s6 + 4096, tss_ss0 = SEL_DATA_KERNEL, tss_iomap_base = SIZEOF_TSS,
                 tss_ioperm = (\<lambda>_. 0xFF), tss_terminator = 0xFF\<rparr>\<rparr>;
          s8 = GDTSetGate 5 tss_addr (ucast SIZEOF_TSS - 1) (GDT_ACCESS_PRESENT OR GDT_TYPE_TSS) 0x00 s7;
          s9 = s8\<lparr>gdtr := (8 * 6 - 1, gdt_addr), task_register := 5 * 8\<rparr>
      in SelectKernelStack (tss_esp0 (tss0 s9)) s9)"

end
