(* ===== verification/Irq.thy ===== *)
theory Irq
  imports Interrupts PortQueue
begin

text \<open>
  What the interrupt code guarantees: the descriptor tables, the controllers and their masks, critical
  sections and the relay of interrupts to drivers.
\<close>

section \<open>An example\<close>

definition ex_pic :: Pic where
  "ex_pic = \<lparr>imr = 0xFF, vector_offset = 0x20, cascade = 4, icw4 = 1, icws_expected = 0, eois = 0\<rparr>"

text \<open>The kernel of the example with its two controllers; line 1 belongs to the second thread.\<close>

definition ex_irq :: irq_state where
  "ex_irq = object_state.extend ex_kernel
     \<lparr>pic1 = ex_pic, pic2 = ex_pic\<lparr>vector_offset := 0x28, cascade := 2\<rparr>, io_writes = [],
      IRQHandlerCallbacks = (\<lambda>_. NullHandler)(0 := PITHandler),
      IRQRelayCallback = (\<lambda>_. no_relay)(1 := \<lparr>irq_handler = ex_b, irq_port_handle = 1, is_active = True\<rparr>),
      idt = (\<lambda>_. \<lparr>idt_base_low = 0, idt_selector = 0, idt_zero = 0, idt_flags = 0, idt_base_high = 0\<rparr>), idtr = (0, 0),
      gdt = (\<lambda>_. gdt_entry 0 0 0 0), gdtr = (0, 0), task_register = 0, interrupt_flag = True, critical_counter = 0,
      interrupts_were_enabled = False\<rparr>"

section \<open>Properties of the tables\<close>

definition gate_target :: "IDTEntry \<Rightarrow> u32" where
  "gate_target e = ucast (idt_base_low e) OR push_bit 16 (ucast (idt_base_high e))"

text \<open>The privilege level a program needs to raise the interrupt itself, and whether the gate is there.\<close>

definition gate_dpl :: "IDTEntry \<Rightarrow> u8" where
  "gate_dpl e = drop_bit 5 (idt_flags e) AND 3"

definition gate_present :: "IDTEntry \<Rightarrow> bool" where
  "gate_present e = bit (idt_flags e) 7"

lemma and_mask16: "(v :: u32) AND 0xFFFF = take_bit 16 v"
  by (simp add: take_bit_eq_mask mask_eq_exp_minus_1)

lemma halves_of_word: "ucast (ucast (v AND 0xFFFF) :: u16) OR push_bit 16 (ucast (ucast (drop_bit 16 v AND 0xFFFF) :: u16)) = (v :: u32)"
  unfolding and_mask16 by (rule bit_word_eqI) (auto simp: bit_simps)

lemma IDTAddGate_idt:
  "idt (IDTAddGate n base sel fl s) m = (if m = n then \<lparr>idt_base_low = ucast (base AND 0xFFFF), idt_selector = sel, idt_zero = 0,
     idt_flags = ucast fl, idt_base_high = ucast (drop_bit 16 base AND 0xFFFF)\<rparr> else idt s m)"
  by (simp add: IDTAddGate_def)

lemma add_gates_idt:
  "idt (add_gates isr i n s) m =
     (if i \<le> m \<and> m < i + n then idt (IDTAddGate m (isr m) SEL_CODE_KERNEL RING0_FLAG_EXCEPTION s) m else idt s m)"
  by (induction isr i n s rule: add_gates.induct) (auto simp: IDTAddGate_idt)

lemma outb_idt [simp]: "idt (outb p v s) = idt s"
  by (simp add: outb_def)

lemma IRQInit_idt [simp]: "idt (IRQInit s) = idt s"
  by (simp add: IRQInit_def InitializePIC_def RemapPICInterrupts_def IOWait_def Let_def)

lemma IDTInit_idt:
  "m < 256 \<Longrightarrow> idt (IDTInit isr fallback a s) m =
     idt (IDTAddGate m (if m < 48 \<or> m = SYSCALL_NO then isr m else fallback) SEL_CODE_KERNEL
       (if m = SYSCALL_NO then RING3_FLAG_TRAP else RING0_FLAG_EXCEPTION) s) m"
  by (auto simp: IDTInit_def InstallInterruptServiceRoutines_def IRQInstall_def Let_def add_gates_idt IDTAddGate_idt)

text \<open>
  C33. The interrupt table: after \<^verbatim>\<open>IDTInit\<close> every one of the 256 vectors has a gate into the kernel's
  code segment, exceptions and interrupt lines to the routine of their number. A program can raise
  the system call interrupt and no other one.
\<close>

theorem IDTInit_correct:
  assumes "m < IDT_ENTRIES"
  shows "gate_target (idt (IDTInit isr fallback a s) m) = (if m < 48 \<or> m = SYSCALL_NO then isr m else fallback) \<and>
    idt_selector (idt (IDTInit isr fallback a s) m) = SEL_CODE_KERNEL \<and> gate_present (idt (IDTInit isr fallback a s) m) \<and>
    gate_dpl (idt (IDTInit isr fallback a s) m) = (if m = SYSCALL_NO then 3 else 0)"
  using assms by (simp add: IDTInit_idt IDTAddGate_idt gate_target_def halves_of_word gate_present_def gate_dpl_def)

theorem IDTInit_correct_witness:
  "gate_dpl (idt (IDTInit (\<lambda>n. 0xC0100000 + 16 * of_nat n) 0xC0200000 0xC0300000 ex_irq) 0x21) = 0"
  using IDTInit_correct [of "0x21" "\<lambda>n. 0xC0100000 + 16 * of_nat n" "0xC0200000" "0xC0300000" ex_irq] by simp

definition seg_base :: "GDTEntry \<Rightarrow> u32" where
  "seg_base e = ucast (base_low e) OR push_bit 16 (ucast (base_middle e)) OR push_bit 24 (ucast (base_high e))"

definition seg_limit :: "GDTEntry \<Rightarrow> u32" where
  "seg_limit e = ucast (limit_low e) OR push_bit 16 (ucast (granularity e AND 0x0F))"

definition seg_dpl :: "GDTEntry \<Rightarrow> u8" where
  "seg_dpl e = drop_bit 5 (access e) AND 3"

lemma SelectKernelStack_tables [simp]:
  "gdt (SelectKernelStack e s) = gdt s" "tss_esp0 (tss0 (SelectKernelStack e s)) = e"
  by (simp_all add: SelectKernelStack_def Let_def)

lemma and_mask8: "(v :: u32) AND 0xFF = take_bit 8 v"
  by (simp add: take_bit_eq_mask mask_eq_exp_minus_1)

lemma and_mask4: "(v :: u32) AND 0x0F = take_bit 4 v" "(b :: u8) AND 0x0F = take_bit 4 b"
  by (simp_all add: take_bit_eq_mask mask_eq_exp_minus_1)

lemma seg_base_entry: "seg_base (gdt_entry base limit acc gran) = base"
proof (rule bit_word_eqI)
  fix n assume "n < LENGTH(32)"
  then consider "n < 16" | "16 \<le> n" "n < 24" | "24 \<le> n" "n < 32" by fastforce
  then show "bit (seg_base (gdt_entry base limit acc gran)) n = bit base n"
    unfolding seg_base_def gdt_entry_def and_mask8 and_mask16 by cases (auto simp: bit_simps)
qed

lemma bit_F0: "bit (0xF0 :: u8) n \<longleftrightarrow> 4 \<le> n \<and> n < 8"
proof -
  have "(0xF0 :: u8) = push_bit 4 (mask 4)" by (simp add: mask_eq_exp_minus_1 push_bit_eq_mult)
  then show ?thesis by (simp only: bit_push_bit_iff bit_mask_iff) auto
qed

lemma seg_limit_entry: "seg_limit (gdt_entry base limit acc gran) = take_bit 20 limit"
  unfolding seg_limit_def gdt_entry_def and_mask16 and_mask4
  by (rule bit_word_eqI) (auto simp: bit_simps bit_F0 simp del: bit_numeral_word_iff)

text \<open>
  The segments: after \<^verbatim>\<open>GDTInit\<close> code and data of the kernel and of programs are the whole 4 GiB
  in pages, the first two at privilege level 0 and the others at 3, the task segment descriptor is
  exactly the task state segment, and no I/O port is open to programs.
\<close>

lemma GDTInit_correct:
  "let s' = GDTInit gdt_addr tss_addr s in
    seg_base (gdt s' 1) = 0 \<and> seg_limit (gdt s' 1) = 0xFFFFF \<and> seg_dpl (gdt s' 1) = 0 \<and>
    seg_base (gdt s' 2) = 0 \<and> seg_limit (gdt s' 2) = 0xFFFFF \<and> seg_dpl (gdt s' 2) = 0 \<and>
    seg_base (gdt s' 3) = 0 \<and> seg_limit (gdt s' 3) = 0xFFFFF \<and> seg_dpl (gdt s' 3) = 3 \<and>
    seg_base (gdt s' 4) = 0 \<and> seg_limit (gdt s' 4) = 0xFFFFF \<and> seg_dpl (gdt s' 4) = 3 \<and>
    seg_base (gdt s' 5) = tss_addr \<and> seg_limit (gdt s' 5) + 1 = ucast SIZEOF_TSS \<and>
    \<not> port_open s' port \<and> tss_esp0 (tss0 s') = tss_stack s + 4096"
proof -
  define s' where "s' = GDTInit gdt_addr tss_addr s"
  have g: "gdt s' 1 = gdt_entry 0 0xFFFFFFFF 0x98 0xC0" "gdt s' 2 = gdt_entry 0 0xFFFFFFFF 0x92 0xC0"
    "gdt s' 3 = gdt_entry 0 0xFFFFFFFF 0xF8 0xC0" "gdt s' 4 = gdt_entry 0 0xFFFFFFFF 0xF2 0xC0"
    "gdt s' 5 = gdt_entry tss_addr 8296 0x89 0"
    unfolding s'_def GDTInit_def by (simp_all add: Let_def GDTSetGate_def)
  have t: "tss_iomap_base (tss0 s') = SIZEOF_TSS" "tss_esp0 (tss0 s') = tss_stack s + 4096"
    unfolding s'_def GDTInit_def by (simp_all add: Let_def GDTSetGate_def)
  have "access (gdt_entry b l a g) = a" for b l a g by (simp add: gdt_entry_def)
  then show ?thesis
    using t unfolding s'_def [symmetric] Let_def g seg_base_entry seg_limit_entry seg_dpl_def port_open_def by simp
qed


section \<open>The controllers\<close>

lemma outb_pics:
  "pic1 (outb PIC1_COMMAND v s) = pic_command v (pic1 s)" "pic2 (outb PIC1_COMMAND v s) = pic2 s"
  "pic1 (outb PIC1_DATA v s) = pic_data v (pic1 s)" "pic2 (outb PIC1_DATA v s) = pic2 s"
  "pic1 (outb PIC2_COMMAND v s) = pic1 s" "pic2 (outb PIC2_COMMAND v s) = pic_command v (pic2 s)"
  "pic1 (outb PIC2_DATA v s) = pic1 s" "pic2 (outb PIC2_DATA v s) = pic_data v (pic2 s)"
  "pic1 (outb 0x80 v s) = pic1 s" "pic2 (outb 0x80 v s) = pic2 s"
  by (simp_all add: outb_def)

lemma pic_initialised:
  "pic_data m (pic_data mode (pic_data casc (pic_data offs (pic_command (ICW1_INIT OR ICW1_ICW4) c)))) =
    c\<lparr>imr := m, vector_offset := offs, cascade := casc, icw4 := mode, icws_expected := 0\<rparr>"
proof -
  have "pic_command (ICW1_INIT OR ICW1_ICW4) c = c\<lparr>imr := 0, icws_expected := 3\<rparr>" by (simp add: pic_command_def)
  then show ?thesis by (simp add: pic_data_def)
qed

text \<open>
  \<^verbatim>\<open>InitializePIC\<close> brings both controllers, whatever state they are in, through their initialisation:
  interrupts come in at the vectors 32 to 39 and 40 to 47, the cascade is on line 2, and every line
  is masked.
\<close>

lemma InitializePIC_correct:
  "let s' = snd (InitializePIC s) in
    vector_offset (pic1 s') = 0x20 \<and> cascade (pic1 s') = 4 \<and> icw4 (pic1 s') = 1 \<and> icws_expected (pic1 s') = 0 \<and> imr (pic1 s') = 0xFF \<and>
    vector_offset (pic2 s') = 0x28 \<and> cascade (pic2 s') = 2 \<and> icw4 (pic2 s') = 1 \<and> icws_expected (pic2 s') = 0 \<and> imr (pic2 s') = 0xFF"
  unfolding InitializePIC_def RemapPICInterrupts_def IOWait_def
  by (simp only: Let_def snd_conv outb_pics pic_initialised) simp

definition pics_ready :: "'a irq_state_scheme \<Rightarrow> bool" where
  "pics_ready s \<longleftrightarrow> icws_expected (pic1 s) = 0 \<and> icws_expected (pic2 s) = 0"

text \<open>Interrupts of a line do not reach the processor.\<close>

definition irq_masked :: "'a irq_state_scheme \<Rightarrow> nat \<Rightarrow> bool" where
  "irq_masked s n \<longleftrightarrow> (if n < 8 then bit (imr (pic1 s)) n else bit (imr (pic2 s)) (n - 8) \<or> bit (imr (pic1 s)) 2)"

lemma mod8: "(n :: nat) < 16 \<Longrightarrow> \<not> n < 8 \<Longrightarrow> n mod 8 = n - 8"
  by (simp add: le_mod_geq)

lemma bit_set_u8: "i < 8 \<Longrightarrow> bit (set_bit i (w :: u8)) j \<longleftrightarrow> j = i \<or> bit w j"
  using bit_imp_le_length [of w j] by (auto simp: bit_set_bit_iff)

lemma bit_unset_u8: "bit (unset_bit i (w :: u8)) j \<longleftrightarrow> j \<noteq> i \<and> bit w j"
  by (auto simp: bit_unset_bit_iff)

lemma DisableIRQ_pics:
  assumes "pics_ready s" and "unat n < 16"
  shows "DisableIRQ n s = (if unat n < 8 then s\<lparr>pic1 := (pic1 s)\<lparr>imr := set_bit (unat n) (imr (pic1 s))\<rparr>\<rparr>
    else s\<lparr>pic2 := (pic2 s)\<lparr>imr := set_bit (unat n - 8) (imr (pic2 s))\<rparr>\<rparr>)"
  using assms mod8 [of "unat n"]
  by (auto simp: DisableIRQ_def mask_port_def outb_def inb_mask_def pic_data_def pics_ready_def inrange_def word_le_nat_alt
      word_less_nat_alt Let_def)

lemma unmask_pics:
  assumes "pics_ready s" and "unat n < 16"
  shows "unmask n s = (if unat n < 8 then s\<lparr>pic1 := (pic1 s)\<lparr>imr := unset_bit (unat n) (imr (pic1 s))\<rparr>\<rparr>
    else s\<lparr>pic2 := (pic2 s)\<lparr>imr := unset_bit (unat n - 8) (imr (pic2 s))\<rparr>\<rparr>)"
  using assms mod8 [of "unat n"]
  by (auto simp: unmask_def mask_port_def outb_def inb_mask_def pic_data_def pics_ready_def word_less_nat_alt Let_def)

lemma DisableIRQ_masks: "pics_ready s \<Longrightarrow> unat n < 16 \<Longrightarrow> irq_masked (DisableIRQ n s) (unat n)"
  by (simp add: DisableIRQ_pics irq_masked_def bit_set_u8)

lemma EnableIRQ_unmasks:
  assumes "pics_ready s" and "unat n < 16"
  shows "\<not> irq_masked (EnableIRQ n s) (unat n)"
proof (cases "unat n < 8")
  case True
  then show ?thesis using assms
    by (simp add: EnableIRQ_def unmask_pics irq_masked_def bit_unset_u8 inrange_def word_le_nat_alt word_less_nat_alt Let_def)
next
  case False
  let ?s = "s\<lparr>pic2 := (pic2 s)\<lparr>imr := unset_bit (unat n - 8) (imr (pic2 s))\<rparr>\<rparr>"
  have "pics_ready ?s" using assms(1) by (simp add: pics_ready_def)
  then show ?thesis using assms False unmask_pics [of ?s 2]
    by (simp add: EnableIRQ_def unmask_pics irq_masked_def bit_unset_u8 inrange_def word_le_nat_alt word_less_nat_alt Let_def)
qed

section \<open>Critical sections\<close>

datatype critical_op = Enter | Leave

fun critical_run :: "critical_op list \<Rightarrow> 'a irq_state_scheme \<Rightarrow> 'a irq_state_scheme option" where
  "critical_run [] s = Some s"
| "critical_run (Enter # ops) s = critical_run ops (PushCritical s)"
| "critical_run (Leave # ops) s = Option.bind (PopCritical s) (critical_run ops)"

text \<open>The depth after the operations, unless a section is left that was not entered.\<close>

fun nesting :: "critical_op list \<Rightarrow> nat \<Rightarrow> nat option" where
  "nesting [] d = Some d"
| "nesting (Enter # ops) d = nesting ops (Suc d)"
| "nesting (Leave # ops) d = (case d of 0 \<Rightarrow> None | Suc d' \<Rightarrow> nesting ops d')"

definition critical_ok :: "bool \<Rightarrow> nat \<Rightarrow> 'a irq_state_scheme \<Rightarrow> bool" where
  "critical_ok flag d s \<longleftrightarrow> critical_counter s = int d \<and> (if d = 0 then interrupt_flag s = flag
     else \<not> interrupt_flag s \<and> interrupts_were_enabled s = flag)"

lemma PushCritical_ok: "critical_ok flag d s \<Longrightarrow> critical_ok flag (Suc d) (PushCritical s)"
  by (auto simp: critical_ok_def PushCritical_def Let_def split: if_splits)

lemma PopCritical_ok: "critical_ok flag (Suc d) s \<Longrightarrow> \<exists>s'. PopCritical s = Some s' \<and> critical_ok flag d s'"
  by (auto simp: critical_ok_def PopCritical_def Let_def)

lemma critical_run_ok:
  "critical_ok flag d s \<Longrightarrow>
    (case nesting ops d of None \<Rightarrow> critical_run ops s = None | Some d' \<Rightarrow> \<exists>s'. critical_run ops s = Some s' \<and> critical_ok flag d' s')"
proof (induction ops d arbitrary: s rule: nesting.induct)
  case (1 d)
  then show ?case by simp
next
  case (2 ops d)
  from "2.IH" [OF PushCritical_ok [OF "2.prems"]] show ?case by (simp split: option.splits)
next
  case (3 ops d)
  show ?case
  proof (cases d)
    case 0
    with 3(2) have "PopCritical s = None" by (simp add: critical_ok_def PopCritical_def)
    with 0 show ?thesis by simp
  next
    case (Suc d')
    with 3(2) obtain s' where "PopCritical s = Some s'" "critical_ok flag d' s'" using PopCritical_ok by blast
    with "3.IH" [OF Suc, of s'] Suc show ?thesis by (simp split: option.splits)
  qed
qed

text \<open>
  Critical sections: however they are nested, interrupts are off while one is open, and when the
  last one is left they are as they were before the first. Leaving a section that was not entered
  stops the kernel.
\<close>

lemma critical_sections_nest:
  assumes "critical_counter s = 0"
  shows "case nesting ops 0 of
      None \<Rightarrow> critical_run ops s = None
    | Some d \<Rightarrow> \<exists>s'. critical_run ops s = Some s' \<and> critical_counter s' = int d \<and>
        interrupt_flag s' = (if d = 0 then interrupt_flag s else False)"
proof -
  have "critical_ok (interrupt_flag s) 0 s" using assms by (simp add: critical_ok_def)
  from critical_run_ok [OF this, of ops] show ?thesis
    by (auto simp: critical_ok_def split: option.splits if_splits)
qed

lemma critical_sections_nest_example:
  "\<exists>s'. critical_run [Enter, Enter, Leave, Leave] ex_irq = Some s' \<and> interrupt_flag s'"
proof -
  have "critical_counter ex_irq = 0" "interrupt_flag ex_irq" by (simp_all add: ex_irq_def object_state.extend_def)
  with critical_sections_nest [of ex_irq "[Enter, Enter, Leave, Leave]"] show ?thesis by auto
qed

section \<open>Interrupts for drivers\<close>

lemma pics_ready_more:
  "pics_ready s \<Longrightarrow> unat n < 16 \<Longrightarrow> pics_ready (DisableIRQ n s)"
  by (auto simp: DisableIRQ_pics pics_ready_def)

lemma outb_kernel:
  "threads (outb p v s) = threads s" "procs (outb p v s) = procs s" "objects (outb p v s) = objects s" "ports (outb p v s) = ports s"
  "current_thread (outb p v s) = current_thread s" "IRQHandlerCallbacks (outb p v s) = IRQHandlerCallbacks s"
  "IRQRelayCallback (outb p v s) = IRQRelayCallback s"
  by (simp_all add: outb_def)

definition taken :: "u32 \<Rightarrow> 'a irq_state_scheme \<Rightarrow> 'a irq_state_scheme" where
  "taken n s = SendEOI n (DisableIRQ n s)"

lemma taken_kernel:
  "threads (taken n s) = threads s" "procs (taken n s) = procs s" "objects (taken n s) = objects s" "ports (taken n s) = ports s"
  "current_thread (taken n s) = current_thread s" "IRQHandlerCallbacks (taken n s) = IRQHandlerCallbacks s"
  "IRQRelayCallback (taken n s) = IRQRelayCallback s"
  by (simp_all add: taken_def SendEOI_def DisableIRQ_def outb_kernel Let_def)

lemma taken_masked:
  assumes "pics_ready s" and "unat n < 16"
  shows "pics_ready (taken n s) \<and> irq_masked (taken n s) (unat n)"
proof -
  let ?s = "DisableIRQ n s"
  have e: "pic_command 0x20 c = c\<lparr>eois := Suc (eois c)\<rparr>" for c by (simp add: pic_command_def)
  have "imr (pic1 (SendEOI n ?s)) = imr (pic1 ?s)" "imr (pic2 (SendEOI n ?s)) = imr (pic2 ?s)"
    "icws_expected (pic1 (SendEOI n ?s)) = icws_expected (pic1 ?s)" "icws_expected (pic2 (SendEOI n ?s)) = icws_expected (pic2 ?s)"
    by (simp_all add: SendEOI_def outb_pics e)
  with pics_ready_more [OF assms] DisableIRQ_masks [OF assms] show ?thesis
    by (simp add: taken_def pics_ready_def irq_masked_def)
qed

lemma irq_message_fields: "length irq_message = 280" "get32 PAYLOAD_LENGTH irq_message = 0"
  by (simp_all add: irq_message_def)

lemma EnqueueMessage_ok:
  assumes ok: "objects_ok s" and p: "ports s p = Some port" "port_room port" "port_owner port \<noteq> 0"
    and m: "length new = 280" "get32 PAYLOAD_LENGTH new \<le> MESSAGE_BUFFER_SIZE"
  shows "\<exists>s' msg. EnqueueMessage p new s = Some (STATUS_OK, s') \<and> objects_ok s' \<and> ports s' = (ports s)(p \<mapsto> port_put msg port) \<and>
    message_ok msg \<and> (\<forall>j < 24. msg ! j = new ! j) \<and> (\<exists>t. WakeThread t (s\<lparr>ports := (ports s)(p \<mapsto> port_put msg port)\<rparr>) = Some s')"
proof -
  have pok: "port_ok port" by (rule objects_okD(4) [OF ok p(1)])
  have slot: "length (msgbuf port (unat (tail port))) = 280" using pok by (simp add: port_ok_def)
  have b: "unat (get32 PAYLOAD_LENGTH new) \<le> 256" using m(2) by (simp add: word_le_nat_alt)
  have u: "unat (SIZEOF_MESSAGEHEADER + get32 PAYLOAD_LENGTH new) = 24 + unat (get32 PAYLOAD_LENGTH new)"
    using b by (subst unat_plus_no_wrap) simp_all
  define bs where "bs = take (unat (SIZEOF_MESSAGEHEADER + get32 PAYLOAD_LENGTH new)) new"
  define msg where "msg = copy_into (msgbuf port (unat (tail port))) bs"
  have l: "length bs = 24 + unat (get32 PAYLOAD_LENGTH new)" using b m(1) by (simp add: bs_def u)
  have j: "msg ! j = new ! j" if "j < 24" for j using that l by (simp add: msg_def bs_def)
  have "get32 PAYLOAD_LENGTH msg = get32 PAYLOAD_LENGTH new" using j by (simp add: get32_def)
  then have mok: "message_ok msg" using slot l b m(2) by (simp add: message_ok_def msg_def)
  let ?s = "s\<lparr>ports := (ports s)(p \<mapsto> port_put msg port)\<rparr>"
  have ok1: "objects_ok ?s"
    by (rule objects_ok_port [OF ok p(1) port_put_ok [OF pok p(2) mok]]) (simp add: port_put_def)
  have "owned_by_process ?s (port_owner port)"
    using objects_okD(5) [OF ok p(1,3)] by (simp add: owned_by_process_def owner_of_def)
  then obtain s' where s': "WakeThread (port_owner port) ?s = Some s'" using WakeThread_total by blast
  note w = WakeThread_same [OF s']
  have "objects_ok s'" by (rule objects_ok_same [OF ok1]) (use w in simp_all)
  moreover have "\<not> SIZEOF_MESSAGEHEADER + get32 PAYLOAD_LENGTH new > SIZEOF_MESSAGE" using b u by (simp add: word_less_nat_alt)
  then have "EnqueueMessage p new s = Some (STATUS_OK, s')"
    using p(1,2) s' by (simp add: EnqueueMessage_def Let_def msg_def bs_def not_le [symmetric])
  ultimately show ?thesis using w(4) mok j s' by auto
qed

lemma WakeThread_irq:
  assumes "WakeThread t s = Some (s' :: 'a irq_state_scheme)"
  shows "pic1 s' = pic1 s" "pic2 s' = pic2 s" "IRQRelayCallback s' = IRQRelayCallback s"
  using assms by (auto simp: WakeThread_def split: bind_splits if_splits)

lemma WakeThread_awake:
  assumes "WakeThread t s = Some s'"
  shows "thread_is s' (\<lambda>th. t_state th \<in> {THREAD_READY, THREAD_RUNNING}) t"
  using assms by (auto simp: WakeThread_def thread_is_def split: bind_splits if_splits)

text \<open>The object that the driver of a line receives its interrupts with.\<close>

definition relayed :: "'a irq_state_scheme \<Rightarrow> nat \<Rightarrow> ptr \<Rightarrow> int \<Rightarrow> Object \<Rightarrow> bool" where
  "relayed s n t h obj \<longleftrightarrow> 1 \<le> n \<and> n < MAX_IRQ \<and> IRQHandlerCallbacks s n = NullHandler \<and>
     IRQRelayCallback s n = \<lparr>irq_handler = t, irq_port_handle = h, is_active = True\<rparr> \<and> 0 \<le> h \<and> h < int MAX_OBJ_PER_PROCESS \<and>
     (\<exists>th pr. threads s t = Some th \<and> procs s (t_owner th) = Some pr \<and> objects s (objlist (p_handles pr) (nat h)) = Some obj)"

lemma SendMessage_irq:
  assumes ok: "objects_ok s" and "procs s pp = Some pr" and h: "0 \<le> h" "h < int MAX_OBJ_PER_PROCESS"
    and obj: "objects s (objlist (p_handles pr) (nat h)) = Some obj" "o_type obj = OBJ_PORT" "o_data obj \<noteq> 0"
    and port: "ports s (o_data obj) = Some port" "port_room port" "port_owner port \<noteq> 0"
  shows "\<exists>s' msg. SendMessage pp h irq_message s = Some (STATUS_OK, s') \<and> objects_ok s' \<and>
    ports s' = (ports s)(o_data obj \<mapsto> port_put msg port) \<and> message_ok msg \<and> get32 SENDER msg = KERNEL_SENDER \<and>
    (\<exists>t. WakeThread t (s\<lparr>ports := (ports s)(o_data obj \<mapsto> port_put msg port)\<rparr>) = Some s')"
proof -
  let ?m = "put32 RESERVED 0 (put32 REPLY_HANDLE (- 1) (put32 SENDER KERNEL_SENDER irq_message))"
  have "length ?m = 280" "get32 PAYLOAD_LENGTH ?m \<le> MESSAGE_BUFFER_SIZE" by (simp_all add: irq_message_fields)
  from EnqueueMessage_ok [OF ok port this] obtain s' msg where
    e: "EnqueueMessage (o_data obj) ?m s = Some (STATUS_OK, s')" "objects_ok s'" "ports s' = (ports s)(o_data obj \<mapsto> port_put msg port)"
      "message_ok msg" "\<forall>j < 24. msg ! j = ?m ! j" "\<exists>t. WakeThread t (s\<lparr>ports := (ports s)(o_data obj \<mapsto> port_put msg port)\<rparr>) = Some s'"
    by blast
  have "get32 SENDER msg = get32 SENDER ?m" using e(5) by (simp add: get32_def)
  also have "\<dots> = KERNEL_SENDER" by (simp add: irq_message_fields)
  finally have "get32 SENDER msg = KERNEL_SENDER" .
  moreover have "SendMessage pp h irq_message s = Some (STATUS_OK, s')"
    using assms(2) h obj e(1) by (simp add: SendMessage_def inrange_def irq_message_fields)
  ultimately show ?thesis using e by blast
qed

text \<open>
  C30. An interrupt for a driver: the message of the kernel is the last of the driver's port, the
  driver's thread is ready, and the line is masked. It stays masked until that thread acknowledges
  the interrupt with the handle it has bound; nobody else can unmask it that way.
\<close>

theorem irq_relay_correct:
  assumes "pics_ready s" and "objects_ok s" and r: "relayed s n t h obj" and "o_type obj = OBJ_PORT" and "o_data obj \<noteq> 0"
    and "ports s (o_data obj) = Some port" and "port_room port" and "port_owner port \<noteq> 0"
  shows "\<exists>s' msg. IRQHandlerCallback (IRQ_BASE + of_nat n) s = Some s' \<and> objects_ok s' \<and>
    ports s' = (ports s)(o_data obj \<mapsto> port_put msg port) \<and> queue (port_put msg port) = queue port @ [msg] \<and>
    get32 SENDER msg = KERNEL_SENDER \<and> thread_is s' (\<lambda>th. t_state th \<in> {THREAD_READY, THREAD_RUNNING}) t \<and> irq_masked s' n \<and>
    (\<forall>u k. irq_masked (AcknowledgeUserIRQ (of_nat n) k (s'\<lparr>current_thread := u\<rparr>)) n = (\<not> (u = t \<and> k = h)))"
proof -
  let ?n = "of_nat n :: u32" let ?s = "taken ?n s"
  have n: "1 \<le> n" "n < 16" "unat ?n = n" using r by (simp_all add: relayed_def unat_of_nat_small)
  obtain th pr where th: "threads ?s t = Some th" "procs ?s (t_owner th) = Some pr"
    "objects ?s (objlist (p_handles pr) (nat h)) = Some obj" and hh: "0 \<le> h" "h < int MAX_OBJ_PER_PROCESS"
    and cb: "IRQHandlerCallbacks ?s n = NullHandler" "IRQRelayCallback ?s n = \<lparr>irq_handler = t, irq_port_handle = h, is_active = True\<rparr>"
    using r by (auto simp: relayed_def taken_kernel)
  have tk: "pics_ready ?s" "irq_masked ?s n" using taken_masked [OF assms(1), of ?n] n by simp_all
  have ok: "objects_ok ?s" by (rule objects_ok_same [OF assms(2)]) (simp_all add: taken_kernel owner_of_def fun_eq_iff)
  have "ports ?s (o_data obj) = Some port" using assms(6) by (simp add: taken_kernel)
  from SendMessage_irq [OF ok th(2) hh th(3) assms(4,5) this assms(7,8)] obtain s1 msg w where
    s1: "SendMessage (t_owner th) h irq_message ?s = Some (STATUS_OK, s1)" "objects_ok s1" "ports s1 = (ports s)(o_data obj \<mapsto> port_put msg port)"
      "get32 SENDER msg = KERNEL_SENDER" "WakeThread w (?s\<lparr>ports := (ports s)(o_data obj \<mapsto> port_put msg port)\<rparr>) = Some s1"
    by (auto simp: taken_kernel)
  have "threads s1 t \<noteq> None" using s1(5) th(1) by (auto simp: WakeThread_def split: bind_splits if_splits)
  then have "WakeThread t s1 \<noteq> None" by (auto simp: WakeThread_def)
  then obtain s' where s': "WakeThread t s1 = Some s'" by blast
  have i: "pic1 s' = pic1 ?s" "pic2 s' = pic2 ?s" "IRQRelayCallback s' = IRQRelayCallback ?s"
    using WakeThread_irq [OF s'] WakeThread_irq [OF s1(5)] by simp_all
  have "IRQHandlerCallback (IRQ_BASE + ?n) s = Some s'"
    using n cb th(1) s1(1) s' by (simp add: IRQHandlerCallback_def taken_def [symmetric] Let_def)
  moreover have "objects_ok s'" by (rule objects_ok_same [OF s1(2)]) (use WakeThread_same [OF s'] in simp_all)
  moreover have "ports s' = (ports s)(o_data obj \<mapsto> port_put msg port)" using WakeThread_same(4) [OF s'] s1(3) by simp
  moreover have "queue (port_put msg port) = queue port @ [msg]" by (rule queue_put [OF objects_okD(4) [OF assms(2,6)] assms(7)])
  moreover have m: "irq_masked s' n" using tk(2) i by (simp add: irq_masked_def)
  moreover have "irq_masked (AcknowledgeUserIRQ ?n k (s'\<lparr>current_thread := u\<rparr>)) n = (\<not> (u = t \<and> k = h))" for u k
  proof (cases "u = t \<and> k = h")
    case True
    have "pics_ready (s'\<lparr>current_thread := u\<rparr>)" using tk(1) i by (simp add: pics_ready_def)
    from EnableIRQ_unmasks [OF this, of ?n] True n cb i show ?thesis
      by (simp add: AcknowledgeUserIRQ_def inrange_def word_le_nat_alt GetCurrentExecutionThread_def Let_def)
  next
    case False
    then have "AcknowledgeUserIRQ ?n k (s'\<lparr>current_thread := u\<rparr>) = s'\<lparr>current_thread := u\<rparr>"
      using n cb i by (auto simp: AcknowledgeUserIRQ_def GetCurrentExecutionThread_def Let_def)
    with False m show ?thesis by (simp add: irq_masked_def)
  qed
  ultimately show ?thesis using WakeThread_awake [OF s'] s1(4) by blast
qed

lemma ex_irq_simps [simp]:
  "pic1 ex_irq = ex_pic" "pic2 ex_irq = ex_pic\<lparr>vector_offset := 0x28, cascade := 2\<rparr>"
  "IRQHandlerCallbacks ex_irq = (\<lambda>_. NullHandler)(0 := PITHandler)"
  "IRQRelayCallback ex_irq = (\<lambda>_. no_relay)(1 := \<lparr>irq_handler = ex_b, irq_port_handle = 1, is_active = True\<rparr>)"
  "threads ex_irq = threads ex_kernel" "procs ex_irq = procs ex_kernel" "objects ex_irq = objects ex_kernel" "ports ex_irq = ports ex_kernel"
  "current_thread ex_irq = current_thread ex_kernel"
  by (simp_all add: ex_irq_def object_state.extend_def)

lemma objects_ok_ex_irq: "objects_ok ex_irq"
proof -
  have "owned_by_process ex_irq ex_a" "owned_by_process ex_irq ex_b"
    by (simp_all add: owned_by_process_def owner_of_def ex_thread_def)
  moreover have "process_ok ex_irq ex_client"
    by (simp add: process_ok_def table_ok_def ex_client_def bit_2 del: bit_numeral_word_iff)
  ultimately show ?thesis
    using port_ok_ex_port by (auto simp: objects_ok_def ex_port_def)
qed

theorem irq_relay_correct_witness:
  "\<exists>s'. IRQHandlerCallback 0x21 ex_irq = Some s' \<and> irq_masked s' 1 \<and>
     \<not> irq_masked (AcknowledgeUserIRQ 1 1 (s'\<lparr>current_thread := ex_b\<rparr>)) 1"
proof -
  have "pics_ready ex_irq" by (simp add: pics_ready_def ex_pic_def)
  moreover have "relayed ex_irq 1 ex_b 1 \<lparr>o_type = OBJ_PORT, o_name = 0, o_data = 0xC0300400, o_permissions = 0, o_refcnt = 1\<rparr>"
    by (simp add: relayed_def ex_thread_def ex_client_def)
  ultimately show ?thesis
    using irq_relay_correct [OF _ objects_ok_ex_irq, of 1 ex_b 1 _ ex_port] by (fastforce simp: ex_port_def)
qed

text \<open>
  Closing the port does not unbind the interrupt: when the handle a line is bound to has been
  deleted, the next interrupt of the line makes the kernel follow a null pointer.
\<close>

lemma irq_after_close_faults:
  assumes "1 \<le> n" and "n < MAX_IRQ" and "IRQHandlerCallbacks s n = NullHandler"
    and "IRQRelayCallback s n = \<lparr>irq_handler = t, irq_port_handle = h, is_active = True\<rparr>" and "0 \<le> h" and "h < int MAX_OBJ_PER_PROCESS"
    and "threads s t = Some th" and "procs s (t_owner th) = Some pr" and "DeleteFromHandleTable (p_handles pr) h = Some (obj, table)"
    and "objects s 0 = None"
  shows "IRQHandlerCallback (IRQ_BASE + of_nat n) (s\<lparr>procs := (procs s)(t_owner th \<mapsto> pr\<lparr>p_handles := table\<rparr>)\<rparr>) = None"
proof -
  let ?n = "of_nat n :: u32" let ?s = "taken ?n (s\<lparr>procs := (procs s)(t_owner th \<mapsto> pr\<lparr>p_handles := table\<rparr>)\<rparr>)"
  have n: "unat ?n = n" using assms(2) by (simp add: unat_of_nat_small)
  have "objlist table (nat h) = 0" using assms(5,6,9) by (auto simp: DeleteFromHandleTable_def Let_def)
  then have "SendMessage (t_owner th) h irq_message ?s = None"
    using assms(5,6,10) by (simp add: SendMessage_def inrange_def taken_kernel)
  then show ?thesis
    using n assms(2-4,7) by (simp add: IRQHandlerCallback_def taken_def [symmetric] taken_kernel Let_def)
qed

lemma irq_after_close_faults_example:
  "IRQHandlerCallback 0x21 (ex_irq\<lparr>procs := [0xC0300000 \<mapsto>
     ex_client\<lparr>p_handles := \<lparr>objlist = (\<lambda>_. 0)(1 := 0), valid_bitmap = CLEAR_BIT 2 1\<rparr>\<rparr>]\<rparr>) = None"
  using irq_after_close_faults [of 1 ex_irq ex_b 1 "ex_thread\<lparr>t_esp := 0x3F00, t_id := 1, t_owner := 0xC0300000\<rparr>" ex_client "0xC0300200"
      "\<lparr>objlist = (\<lambda>_. 0)(1 := 0), valid_bitmap = CLEAR_BIT 2 1\<rparr>"]
  by (simp add: DeleteFromHandleTable_def ex_client_def Let_def)

end
