(* ===== verification/Arith64.thy ===== *)
theory Arith64
  imports Prelude "HOL-Library.Signed_Division"
begin

unbundle bit_operations_syntax

text \<open>
  The 64-bit arithmetic that the compiler calls on a 32-bit processor,
  \<^verbatim>\<open>src/freestanding/compat/arith64.c\<close> (\<^verbatim>\<open>src/libc/compat/arith64.c\<close> is the same file).
  Signed and unsigned values are \<open>64 word\<close>s, read by \<open>sint\<close> and \<open>unat\<close>. A division by zero
  raises the processor's exception and is \<open>None\<close>.
\<close>

section \<open>Words of two halves\<close>

definition arith64_hi :: "u64 \<Rightarrow> u32" where
  "arith64_hi n = ucast (drop_bit 32 n)"

definition arith64_lo :: "u64 \<Rightarrow> u32" where
  "arith64_lo n = ucast n"

text \<open>The value of the union after its two halves have been stored.\<close>

definition arith64_word :: "u32 \<Rightarrow> u32 \<Rightarrow> u64" where
  "arith64_word hi lo = push_bit 32 (ucast hi) OR ucast lo"

definition arith64_neg :: "u64 \<Rightarrow> u64 \<Rightarrow> u64" where
  "arith64_neg a b = (a XOR (if 0 \<le>s b then 0 else - 1)) + (if b <s 0 then 1 else 0)"

definition arith64_abs :: "u64 \<Rightarrow> u64" where
  "arith64_abs a = arith64_neg a a"

definition absvdi2 :: "u64 \<Rightarrow> u64" where
  "absvdi2 a = arith64_abs a"

section \<open>Shifts\<close>

definition ashldi3 :: "u64 \<Rightarrow> u32 \<Rightarrow> u64" where
  "ashldi3 a b0 =
     (let lo = arith64_lo a; hi = arith64_hi a; b = unat (b0 AND 63) in
      if b \<ge> 32 then arith64_word (push_bit (b - 32) lo) 0
      else if b \<noteq> 0 then arith64_word (drop_bit (32 - b) lo OR push_bit b hi) (push_bit b lo)
      else arith64_word hi lo)"

definition ashrdi3 :: "u64 \<Rightarrow> u32 \<Rightarrow> u64" where
  "ashrdi3 a b0 =
     (let lo = arith64_lo a; hi = arith64_hi a; b = unat (b0 AND 63) in
      if b \<ge> 32 then arith64_word (signed_drop_bit 31 hi) (signed_drop_bit (b - 32) hi)
      else if b \<noteq> 0 then arith64_word (signed_drop_bit b hi) (push_bit (32 - b) hi OR drop_bit b lo)
      else arith64_word hi lo)"

definition lshrdi3 :: "u64 \<Rightarrow> u32 \<Rightarrow> u64" where
  "lshrdi3 a b0 =
     (let lo = arith64_lo a; hi = arith64_hi a; b = unat (b0 AND 63) in
      if b \<ge> 32 then arith64_word 0 (drop_bit (b - 32) hi)
      else if b \<noteq> 0 then arith64_word (drop_bit b hi) (push_bit (32 - b) hi OR drop_bit b lo)
      else arith64_word hi lo)"

section \<open>Counting bits\<close>

text \<open>
  One line of the counting functions: if the bits of the mask are clear, count \<open>w\<close> more and
  shift \<open>a\<close> by \<open>w\<close>.
\<close>

definition clz_step :: "'a::len word \<Rightarrow> nat \<Rightarrow> nat \<times> 'a word \<Rightarrow> nat \<times> 'a word" where
  "clz_step m w na = (let b = (if snd na AND m = 0 then w else 0) in (fst na + b, push_bit b (snd na)))"

definition ctz_step :: "'a::len word \<Rightarrow> nat \<Rightarrow> nat \<times> 'a word \<Rightarrow> nat \<times> 'a word" where
  "ctz_step m w na = (let b = (if snd na AND m = 0 then w else 0) in (fst na + b, drop_bit b (snd na)))"

definition clzsi2 :: "u32 \<Rightarrow> nat" where
  "clzsi2 a0 =
     (let (n, a) = clz_step 0xc0000000 2 (clz_step 0xf0000000 4 (clz_step 0xff000000 8 (clz_step 0xffff0000 16 (0, a0))))
      in n + (if a AND 0x80000000 = 0 then 1 else 0))"

definition clzdi2 :: "u64 \<Rightarrow> nat" where
  "clzdi2 a0 =
     (let (n, a) = clz_step 0xc000000000000000 2 (clz_step 0xf000000000000000 4 (clz_step 0xff00000000000000 8
        (clz_step 0xffff000000000000 16 (clz_step 0xffffffff00000000 32 (0, a0)))))
      in n + (if a AND 0x8000000000000000 = 0 then 1 else 0))"

definition ctzsi2 :: "u32 \<Rightarrow> nat" where
  "ctzsi2 a0 =
     (let (n, a) = ctz_step 0x3 2 (ctz_step 0xf 4 (ctz_step 0xff 8 (ctz_step 0xffff 16 (0, a0))))
      in n + (if a AND 1 = 0 then 1 else 0))"

definition ctzdi2 :: "u64 \<Rightarrow> nat" where
  "ctzdi2 a0 =
     (let (n, a) = ctz_step 0x3 2 (ctz_step 0xf 4 (ctz_step 0xff 8 (ctz_step 0xffff 16 (ctz_step 0xffffffff 32 (0, a0)))))
      in n + (if a AND 1 = 0 then 1 else 0))"

definition ffsdi2 :: "u64 \<Rightarrow> nat" where
  "ffsdi2 a = (if a \<noteq> 0 then ctzdi2 a + 1 else 0)"

definition popcountsi2 :: "u32 \<Rightarrow> u32" where
  "popcountsi2 a0 =
     (let a = a0 - (drop_bit 1 a0 AND 0x55555555);
          a = (drop_bit 2 a AND 0x33333333) + (a AND 0x33333333);
          a = (a + drop_bit 4 a) AND 0x0F0F0F0F;
          a = a + drop_bit 16 a
      in (a + drop_bit 8 a) AND 63)"

definition popcountdi2 :: "u64 \<Rightarrow> u64" where
  "popcountdi2 a0 =
     (let a = a0 - (drop_bit 1 a0 AND 0x5555555555555555);
          a = (drop_bit 2 a AND 0x3333333333333333) + (a AND 0x3333333333333333);
          a = (a + drop_bit 4 a) AND 0x0F0F0F0F0F0F0F0F;
          a = a + drop_bit 32 a;
          a = a + drop_bit 16 a
      in (a + drop_bit 8 a) AND 127)"

section \<open>Division\<close>

text \<open>The loop of the long division, for the number of bits left.\<close>

fun divmod_bits :: "nat \<Rightarrow> u64 \<Rightarrow> u64 \<Rightarrow> u64 \<Rightarrow> u64 \<Rightarrow> u64 \<times> u64" where
  "divmod_bits 0 b rem a wrap = (push_bit 1 a OR (wrap AND 1), rem)"
| "divmod_bits (Suc bits) b rem a wrap =
     (let rem = push_bit 1 rem OR drop_bit 63 a;
          a = push_bit 1 a OR (wrap AND 1);
          wrap = signed_drop_bit 63 (b - rem - 1);
          rem = rem - (b AND wrap)
      in divmod_bits bits b rem a wrap)"

text \<open>
  The quotient and the remainder. \<open>bits\<close> is a signed char; it is between 1 and 63 when the loop
  is reached.
\<close>

definition divmoddi4 :: "u64 \<Rightarrow> u64 \<Rightarrow> (u64 \<times> u64) option" where
  "divmoddi4 a b =
     (if b > a then Some (0, a)
      else if arith64_hi b = 0 \<and> b = 0 then None
      else if arith64_hi b = 0 \<and> b = 1 then Some (a, 0)
      else if arith64_hi b = 0 \<and> arith64_hi a = 0 then
        Some (ucast (arith64_lo a div arith64_lo b), ucast (arith64_lo a mod arith64_lo b))
      else
        let bits = nat (signed_take_bit 7 (int (clzdi2 b) - int (clzdi2 a) + 1))
        in Some (divmod_bits bits b (drop_bit bits a) (push_bit (64 - bits) a) 0))"

definition divdi3 :: "u64 \<Rightarrow> u64 \<Rightarrow> u64 option" where
  "divdi3 a b = map_option (\<lambda>(q, r). arith64_neg q (a XOR b)) (divmoddi4 (arith64_abs a) (arith64_abs b))"

definition moddi3 :: "u64 \<Rightarrow> u64 \<Rightarrow> u64 option" where
  "moddi3 a b = map_option (\<lambda>(q, r). arith64_neg r a) (divmoddi4 (arith64_abs a) (arith64_abs b))"

definition udivdi3 :: "u64 \<Rightarrow> u64 \<Rightarrow> u64 option" where
  "udivdi3 a b = map_option fst (divmoddi4 a b)"

definition umoddi3 :: "u64 \<Rightarrow> u64 \<Rightarrow> u64 option" where
  "umoddi3 a b = map_option snd (divmoddi4 a b)"

text \<open>The routine taken from libgcc: shift the divisor up, then subtract on the way down.\<close>

partial_function (option) justify :: "u64 \<Rightarrow> u64 \<Rightarrow> (u64 \<times> u64) option" where
  "justify den qbit = (if 0 \<le>s den then justify (push_bit 1 den) (push_bit 1 qbit) else Some (den, qbit))"

declare justify.simps [code]

function subtract_bits :: "u64 \<Rightarrow> u64 \<Rightarrow> u64 \<Rightarrow> u64 \<Rightarrow> u64 \<times> u64" where
  "subtract_bits num den qbit quot =
     (if qbit \<noteq> 0 then
        if den \<le> num then subtract_bits (num - den) (drop_bit 1 den) (drop_bit 1 qbit) (quot + qbit)
        else subtract_bits num (drop_bit 1 den) (drop_bit 1 qbit) quot
      else (quot, num))"
  by pat_completeness auto
termination
  by (relation "measure (\<lambda>(num, den, qbit, quot). unat qbit)")
    (auto simp: drop_bit_eq_div unat_div word_neq_0_conv unat_gt_0 intro!: div_less_dividend)

declare subtract_bits.simps [simp del]

definition udivmoddi4 :: "u64 \<Rightarrow> u64 \<Rightarrow> (u64 \<times> u64) option" where
  "udivmoddi4 num den =
     (if den = 0 then None
      else do {
        (den, qbit) \<leftarrow> justify den 1;
        Some (subtract_bits num den qbit 0)
      })"

section \<open>Halves and shifts: facts\<close>

lemma bit_arith64_word:
  "bit (arith64_word hi lo) n \<longleftrightarrow> (if n < 32 then bit lo n else bit hi (n - 32))"
  by (auto simp: arith64_word_def bit_simps dest: bit_imp_le_length)

lemma bit_arith64_hi: "bit (arith64_hi a) n \<longleftrightarrow> bit a (n + 32)"
  by (auto simp: arith64_hi_def bit_simps ac_simps dest: bit_imp_le_length)

lemma bit_arith64_lo: "bit (arith64_lo a) n \<longleftrightarrow> n < 32 \<and> bit a n"
  by (auto simp: arith64_lo_def bit_simps)

lemmas arith64_bits = bit_arith64_word bit_arith64_hi bit_arith64_lo

lemma shift_count: "unat (b AND 63 :: u32) < 64"
proof -
  have "b AND 63 \<le> 63" by (rule word_and_le1)
  then show ?thesis by (simp add: word_le_nat_alt)
qed

lemma ashldi3_eq: "ashldi3 a b = push_bit (unat (b AND 63)) a"
proof (rule bit_word_eqI)
  fix n :: nat assume "n < LENGTH(64)"
  then have n: "n < 64" by simp
  let ?b = "unat (b AND 63)"
  have b: "?b < 64" by (rule shift_count)
  consider "32 \<le> ?b" | "?b = 0" | "0 < ?b" "?b < 32" by linarith
  then show "bit (ashldi3 a b) n = bit (push_bit ?b a) n"
  proof cases
    case 1
    with b n show ?thesis by (auto simp: ashldi3_def Let_def arith64_bits bit_simps)
  next
    case 2
    with n show ?thesis by (auto simp: ashldi3_def Let_def arith64_bits bit_simps)
  next
    case 3
    with n show ?thesis by (auto simp: ashldi3_def Let_def arith64_bits bit_simps)
  qed
qed

lemma bit_sar:
  fixes w :: "'a::len word"
  shows "bit (signed_drop_bit k w) n \<longleftrightarrow> n < LENGTH('a) \<and> bit w (if n + k < LENGTH('a) then n + k else LENGTH('a) - 1)"
  using bit_imp_le_length [of w "n + k"] by (auto simp: bit_signed_drop_bit_iff ac_simps)

lemma top_bit_index: "LENGTH(32) - 1 = 31" "LENGTH(64) - 1 = 63"
  by simp_all

lemma bit_sar32: "bit (signed_drop_bit k (w :: u32)) n \<longleftrightarrow> n < 32 \<and> bit w (if n + k < 32 then n + k else 31)"
  unfolding bit_sar top_bit_index by simp

lemma bit_sar64: "bit (signed_drop_bit k (w :: u64)) n \<longleftrightarrow> n < 64 \<and> bit w (if n + k < 64 then n + k else 63)"
  unfolding bit_sar top_bit_index by simp

lemma lshrdi3_eq: "lshrdi3 a b = drop_bit (unat (b AND 63)) a"
proof (rule bit_word_eqI)
  fix n :: nat assume "n < LENGTH(64)"
  then have n: "n < 64" by simp
  let ?b = "unat (b AND 63)"
  have b: "?b < 64" by (rule shift_count)
  have h: "\<not> bit a m" if "64 \<le> m" for m using that bit_imp_le_length [of a m] by auto
  consider "32 \<le> ?b" | "?b = 0" | "0 < ?b" "?b < 32" "n + ?b < 32" | "0 < ?b" "?b < 32" "32 \<le> n + ?b" by linarith
  then show "bit (lshrdi3 a b) n = bit (drop_bit ?b a) n"
    by cases (use b n h [of "n + ?b"] in \<open>auto simp: lshrdi3_def Let_def arith64_bits bit_simps ac_simps\<close>)
qed

lemma ashrdi3_eq: "ashrdi3 a b = signed_drop_bit (unat (b AND 63)) a"
proof (rule bit_word_eqI)
  fix n :: nat assume "n < LENGTH(64)"
  then have n: "n < 64" by simp
  let ?b = "unat (b AND 63)"
  have b: "?b < 64" by (rule shift_count)
  consider "32 \<le> ?b" | "?b = 0" | "0 < ?b" "?b < 32" "n + ?b < 32" | "0 < ?b" "?b < 32" "32 \<le> n + ?b" by linarith
  then show "bit (ashrdi3 a b) n = bit (signed_drop_bit ?b a) n"
    by cases (use b n in \<open>auto simp: ashrdi3_def Let_def arith64_bits bit_sar32 bit_sar64 bit_push_bit_iff bit_drop_bit_eq bit_or_iff ac_simps\<close>)
qed

text \<open>
  The 64-bit shifts built from 32-bit halves are the shifts of the 64-bit value by the
  count modulo 64: left, logical right and arithmetic right.
\<close>

lemma shifts_correct:
  "ashldi3 a b = push_bit (unat (b AND 63)) a \<and> lshrdi3 a b = drop_bit (unat (b AND 63)) a \<and>
   ashrdi3 a b = signed_drop_bit (unat (b AND 63)) a"
  by (simp add: ashldi3_eq lshrdi3_eq ashrdi3_eq)

section \<open>Counting zeros: facts\<close>

lemma and_not_mask_0: "(a :: 'a::len word) AND NOT (mask m) = 0 \<longleftrightarrow> unat a < 2 ^ m" if "m < LENGTH('a)"
proof -
  have "a AND NOT (mask m) = 0 \<longleftrightarrow> take_bit m a = a"
    by (auto simp: bit_eq_iff bit_simps)
  also have "\<dots> \<longleftrightarrow> take_bit m (unat a) = unat a"
    using that by (metis unsigned_take_bit_eq word_unat_eq_iff)
  also have "\<dots> \<longleftrightarrow> unat a < 2 ^ m" by (rule take_bit_nat_eq_self_iff)
  finally show ?thesis .
qed

lemma clz_step_spec:
  assumes "clz_step m w (n, a) = (n', a')" and "m = NOT (mask (LENGTH('a) - w))" and "0 < w" and "w < LENGTH('a)"
    and "unat (a :: 'a::len word) = x * 2 ^ n" and "2 ^ (LENGTH('a) - 2 * w) \<le> unat a" and "2 * w \<le> LENGTH('a)"
  shows "unat a' = x * 2 ^ n' \<and> 2 ^ (LENGTH('a) - w) \<le> unat a'"
proof (cases "unat a < 2 ^ (LENGTH('a) - w)")
  case True
  then have z: "a AND m = 0" using and_not_mask_0 [of "LENGTH('a) - w" a] assms(2-4) by simp
  have "unat a * 2 ^ w < 2 ^ (LENGTH('a) - w) * 2 ^ w" using True by simp
  also have "\<dots> = 2 ^ LENGTH('a)" using assms(4) by (simp add: power_add [symmetric])
  finally have lt: "unat a * 2 ^ w < 2 ^ LENGTH('a)" .
  have "unat (push_bit w a) = unat a * 2 ^ w"
    using lt unfolding unsigned_push_bit_eq by (simp add: push_bit_eq_mult take_bit_nat_eq_self_iff)
  moreover have "2 ^ (LENGTH('a) - w) \<le> unat a * 2 ^ w"
  proof -
    have "2 ^ (LENGTH('a) - w) = 2 ^ (LENGTH('a) - 2 * w) * (2 ^ w :: nat)" using assms(7) by (simp add: power_add [symmetric])
    then show ?thesis using assms(6) by simp
  qed
  ultimately show ?thesis using assms(1,5) z by (auto simp: clz_step_def Let_def power_add)
next
  case False
  then have "a AND m \<noteq> 0" using and_not_mask_0 [of "LENGTH('a) - w" a] assms(2-4) by simp
  then have "n' = n" "a' = a" using assms(1) by (simp_all add: clz_step_def Let_def)
  with False assms(5) show ?thesis by simp
qed

lemma clzdi2_spec:
  assumes "a \<noteq> 0"
  shows "clzdi2 a < 64 \<and> 2 ^ 63 \<le> unat a * 2 ^ clzdi2 a \<and> unat a * 2 ^ clzdi2 a < 2 ^ 64"
proof -
  have L: "LENGTH(64) = 64" by simp
  obtain n1 a1 where s1: "clz_step 0xffffffff00000000 32 (0, a) = (n1, a1)" by fastforce
  obtain n2 a2 where s2: "clz_step 0xffff000000000000 16 (n1, a1) = (n2, a2)" by fastforce
  obtain n3 a3 where s3: "clz_step 0xff00000000000000 8 (n2, a2) = (n3, a3)" by fastforce
  obtain n4 a4 where s4: "clz_step 0xf000000000000000 4 (n3, a3) = (n4, a4)" by fastforce
  obtain n5 a5 where s5: "clz_step 0xc000000000000000 2 (n4, a4) = (n5, a5)" by fastforce
  have "1 \<le> unat a" using assms by (simp add: Suc_le_eq unat_gt_0)
  then have i1: "unat a1 = unat a * 2 ^ n1 \<and> 2 ^ 32 \<le> unat a1"
    using clz_step_spec [OF s1, of "unat a"] by (simp add: mask_eq_exp_minus_1)
  then have i2: "unat a2 = unat a * 2 ^ n2 \<and> 2 ^ 48 \<le> unat a2"
    using clz_step_spec [OF s2, of "unat a"] by (simp add: mask_eq_exp_minus_1)
  then have i3: "unat a3 = unat a * 2 ^ n3 \<and> 2 ^ 56 \<le> unat a3"
    using clz_step_spec [OF s3, of "unat a"] by (simp add: mask_eq_exp_minus_1)
  then have i4: "unat a4 = unat a * 2 ^ n4 \<and> 2 ^ 60 \<le> unat a4"
    using clz_step_spec [OF s4, of "unat a"] by (simp add: mask_eq_exp_minus_1)
  then have i5: "unat a5 = unat a * 2 ^ n5 \<and> 2 ^ 62 \<le> unat a5"
    using clz_step_spec [OF s5, of "unat a"] by (simp add: mask_eq_exp_minus_1)
  have c: "clzdi2 a = n5 + (if a5 AND 0x8000000000000000 = 0 then 1 else 0)"
    by (simp add: clzdi2_def s1 s2 s3 s4 s5)
  have z: "a5 AND 0x8000000000000000 = 0 \<longleftrightarrow> unat a5 < 2 ^ 63"
  proof -
    have "(NOT (mask 63) :: u64) = 0x8000000000000000" by code_simp
    with and_not_mask_0 [of 63 a5] show ?thesis by simp
  qed
  have up: "unat a5 < 2 ^ 64" using unsigned_less [of a5] by simp
  have m: "2 ^ 63 \<le> unat a * 2 ^ clzdi2 a \<and> unat a * 2 ^ clzdi2 a < 2 ^ 64"
  proof (cases "unat a5 < 2 ^ 63")
    case True
    with c z i5 show ?thesis by simp
  next
    case False
    with c z i5 up show ?thesis by simp
  qed
  have "(2 :: nat) ^ clzdi2 a \<le> unat a * 2 ^ clzdi2 a" using \<open>1 \<le> unat a\<close> by simp
  then have "(2 :: nat) ^ clzdi2 a < 2 ^ 64" using m by linarith
  then have "clzdi2 a < 64" by (simp only: power_strict_increasing_iff)
  with m show ?thesis by simp
qed

lemma clzsi2_spec:
  assumes "a \<noteq> 0"
  shows "2 ^ 31 \<le> unat a * 2 ^ clzsi2 a \<and> unat a * 2 ^ clzsi2 a < 2 ^ 32"
proof -
  obtain n2 a2 where s2: "clz_step 0xffff0000 16 (0, a) = (n2, a2)" by fastforce
  obtain n3 a3 where s3: "clz_step 0xff000000 8 (n2, a2) = (n3, a3)" by fastforce
  obtain n4 a4 where s4: "clz_step 0xf0000000 4 (n3, a3) = (n4, a4)" by fastforce
  obtain n5 a5 where s5: "clz_step 0xc0000000 2 (n4, a4) = (n5, a5)" by fastforce
  have "1 \<le> unat a" using assms by (simp add: Suc_le_eq unat_gt_0)
  then have i2: "unat a2 = unat a * 2 ^ n2 \<and> 2 ^ 16 \<le> unat a2"
    using clz_step_spec [OF s2, of "unat a"] by (simp add: mask_eq_exp_minus_1)
  then have i3: "unat a3 = unat a * 2 ^ n3 \<and> 2 ^ 24 \<le> unat a3"
    using clz_step_spec [OF s3, of "unat a"] by (simp add: mask_eq_exp_minus_1)
  then have i4: "unat a4 = unat a * 2 ^ n4 \<and> 2 ^ 28 \<le> unat a4"
    using clz_step_spec [OF s4, of "unat a"] by (simp add: mask_eq_exp_minus_1)
  then have i5: "unat a5 = unat a * 2 ^ n5 \<and> 2 ^ 30 \<le> unat a5"
    using clz_step_spec [OF s5, of "unat a"] by (simp add: mask_eq_exp_minus_1)
  have c: "clzsi2 a = n5 + (if a5 AND 0x80000000 = 0 then 1 else 0)"
    by (simp add: clzsi2_def s2 s3 s4 s5)
  have z: "a5 AND 0x80000000 = 0 \<longleftrightarrow> unat a5 < 2 ^ 31"
  proof -
    have "(NOT (mask 31) :: u32) = 0x80000000" by code_simp
    with and_not_mask_0 [of 31 a5] show ?thesis by simp
  qed
  have up: "unat a5 < 2 ^ 32" using unsigned_less [of a5] by simp
  show ?thesis
  proof (cases "unat a5 < 2 ^ 31")
    case True
    with c z i5 show ?thesis by simp
  next
    case False
    with c z i5 up show ?thesis by simp
  qed
qed

lemma and_mask_0: "(a :: 'a::len word) AND mask w = 0 \<longleftrightarrow> 2 ^ w dvd unat a" if "w < LENGTH('a)"
proof -
  have "a AND mask w = 0 \<longleftrightarrow> unat (take_bit w a) = 0" by (simp add: take_bit_eq_mask unat_eq_0)
  also have "\<dots> \<longleftrightarrow> 2 ^ w dvd unat a" unfolding unsigned_take_bit_eq unfolding take_bit_eq_mod by (simp add: dvd_eq_mod_eq_0)
  finally show ?thesis .
qed

lemma ctz_step_spec:
  assumes "ctz_step m w (n, a) = (n', a')" and "m = mask w" and "w < LENGTH('a)"
    and "x = unat (a :: 'a::len word) * 2 ^ n" and "\<not> 2 ^ (2 * w) dvd unat a"
  shows "x = unat a' * 2 ^ n' \<and> \<not> 2 ^ w dvd unat a'"
proof (cases "2 ^ w dvd unat a")
  case True
  then obtain y where y: "unat a = 2 ^ w * y" by (auto elim: dvdE)
  have "n' = n + w" "a' = drop_bit w a"
    using assms(1) True and_mask_0 [OF assms(3), of a] assms(2) by (simp_all add: ctz_step_def Let_def)
  moreover have "unat (drop_bit w a) = y" unfolding unat_drop_bit_eq unfolding drop_bit_eq_div y by simp
  moreover have "\<not> 2 ^ w dvd y" using assms(5) y by (simp add: mult_2 power_add)
  ultimately show ?thesis using assms(4) y by (simp add: power_add)
next
  case False
  then have "n' = n" "a' = a"
    using assms(1) and_mask_0 [OF assms(3), of a] assms(2) by (simp_all add: ctz_step_def Let_def)
  with False assms(4) show ?thesis by simp
qed

lemma ctz_final:
  assumes "x = unat (a :: 'a::len word) * 2 ^ n" and "\<not> 4 dvd unat a" and "1 < LENGTH('a)"
    and "n' = n + (if a AND 1 = 0 then 1 else 0)"
  shows "2 ^ n' dvd x \<and> \<not> 2 ^ Suc n' dvd x"
proof -
  have z: "a AND 1 = 0 \<longleftrightarrow> 2 dvd unat a" using and_mask_0 [OF assms(3), of a] by (simp add: mask_Suc_0)
  show ?thesis
  proof (cases "2 dvd unat a")
    case True
    then obtain y where "unat a = 2 * y" by (auto elim: dvdE)
    with assms z True show ?thesis by (auto simp: ac_simps)
  next
    case False
    with assms z show ?thesis by simp
  qed
qed

lemma ctzdi2_spec:
  assumes "a \<noteq> 0"
  shows "2 ^ ctzdi2 a dvd unat a \<and> \<not> 2 ^ Suc (ctzdi2 a) dvd unat a"
proof -
  obtain n1 a1 where s1: "ctz_step 0xffffffff 32 (0, a) = (n1, a1)" by fastforce
  obtain n2 a2 where s2: "ctz_step 0xffff 16 (n1, a1) = (n2, a2)" by fastforce
  obtain n3 a3 where s3: "ctz_step 0xff 8 (n2, a2) = (n3, a3)" by fastforce
  obtain n4 a4 where s4: "ctz_step 0xf 4 (n3, a3) = (n4, a4)" by fastforce
  obtain n5 a5 where s5: "ctz_step 3 2 (n4, a4) = (n5, a5)" by fastforce
  have "unat a < 2 ^ 64" "0 < unat a" using unsigned_less [of a] assms by (simp_all add: unat_gt_0)
  then have "\<not> 2 ^ (2 * 32) dvd unat a" by (auto dest: dvd_imp_le)
  then have i1: "unat a = unat a1 * 2 ^ n1 \<and> \<not> 2 ^ 32 dvd unat a1"
    using ctz_step_spec [OF s1, of "unat a"] by (simp add: mask_eq_exp_minus_1)
  then have i2: "unat a = unat a2 * 2 ^ n2 \<and> \<not> 2 ^ 16 dvd unat a2"
    using ctz_step_spec [OF s2, of "unat a"] by (simp add: mask_eq_exp_minus_1)
  then have i3: "unat a = unat a3 * 2 ^ n3 \<and> \<not> 2 ^ 8 dvd unat a3"
    using ctz_step_spec [OF s3, of "unat a"] by (simp add: mask_eq_exp_minus_1)
  then have i4: "unat a = unat a4 * 2 ^ n4 \<and> \<not> 2 ^ 4 dvd unat a4"
    using ctz_step_spec [OF s4, of "unat a"] by (simp add: mask_eq_exp_minus_1)
  then have i5: "unat a = unat a5 * 2 ^ n5 \<and> \<not> 4 dvd unat a5"
    using ctz_step_spec [OF s5, of "unat a"] by (simp add: mask_eq_exp_minus_1)
  show ?thesis
    by (rule ctz_final [where a = a5 and n = n5]) (use i5 in \<open>simp_all add: ctzdi2_def s1 s2 s3 s4 s5\<close>)
qed

lemma ctzsi2_spec:
  assumes "a \<noteq> 0"
  shows "2 ^ ctzsi2 a dvd unat a \<and> \<not> 2 ^ Suc (ctzsi2 a) dvd unat a"
proof -
  obtain n2 a2 where s2: "ctz_step 0xffff 16 (0, a) = (n2, a2)" by fastforce
  obtain n3 a3 where s3: "ctz_step 0xff 8 (n2, a2) = (n3, a3)" by fastforce
  obtain n4 a4 where s4: "ctz_step 0xf 4 (n3, a3) = (n4, a4)" by fastforce
  obtain n5 a5 where s5: "ctz_step 3 2 (n4, a4) = (n5, a5)" by fastforce
  have "0 < unat a" using assms by (simp add: unat_gt_0)
  then have "\<not> 2 ^ (2 * 16) dvd unat a" by (intro nat_dvd_not_less) (use unat_u32_less in simp_all)
  then have i2: "unat a = unat a2 * 2 ^ n2 \<and> \<not> 2 ^ 16 dvd unat a2"
    using ctz_step_spec [OF s2, of "unat a"] by (simp add: mask_eq_exp_minus_1)
  then have i3: "unat a = unat a3 * 2 ^ n3 \<and> \<not> 2 ^ 8 dvd unat a3"
    using ctz_step_spec [OF s3, of "unat a"] by (simp add: mask_eq_exp_minus_1)
  then have i4: "unat a = unat a4 * 2 ^ n4 \<and> \<not> 2 ^ 4 dvd unat a4"
    using ctz_step_spec [OF s4, of "unat a"] by (simp add: mask_eq_exp_minus_1)
  then have i5: "unat a = unat a5 * 2 ^ n5 \<and> \<not> 4 dvd unat a5"
    using ctz_step_spec [OF s5, of "unat a"] by (simp add: mask_eq_exp_minus_1)
  show ?thesis
    by (rule ctz_final [where a = a5 and n = n5]) (use i5 in \<open>simp_all add: ctzsi2_def s2 s3 s4 s5\<close>)
qed

text \<open>
  The counting functions find the highest and the lowest set bit: for a value that is not
  zero, shifting it left by the count of leading zeros brings a one to the top bit and loses
  nothing, and two to the count of trailing zeros is the highest power of two that divides it.
\<close>

lemma count_zeros_correct:
  "(a \<noteq> 0 \<longrightarrow> 2 ^ 63 \<le> unat a * 2 ^ clzdi2 a \<and> unat a * 2 ^ clzdi2 a < 2 ^ 64 \<and>
      2 ^ ctzdi2 a dvd unat a \<and> \<not> 2 ^ Suc (ctzdi2 a) dvd unat a \<and> ffsdi2 a = Suc (ctzdi2 a)) \<and>
   (b \<noteq> 0 \<longrightarrow> 2 ^ 31 \<le> unat b * 2 ^ clzsi2 b \<and> unat b * 2 ^ clzsi2 b < 2 ^ 32 \<and>
      2 ^ ctzsi2 b dvd unat b \<and> \<not> 2 ^ Suc (ctzsi2 b) dvd unat b)"
  using clzdi2_spec [of a] ctzdi2_spec [of a] clzsi2_spec [of b] ctzsi2_spec [of b] by (simp add: ffsdi2_def)

lemma count_zeros_correct_example:
  "2 ^ 63 \<le> unat (0x10 :: u64) * 2 ^ clzdi2 0x10 \<and> \<not> 2 ^ Suc (ctzdi2 0x10) dvd unat (0x10 :: u64) \<and>
   unat (0x50 :: u32) * 2 ^ clzsi2 0x50 < 2 ^ 32 \<and> 2 ^ ctzsi2 0x50 dvd unat (0x50 :: u32)"
proof -
  have "(0x10 :: u64) \<noteq> 0" "(0x50 :: u32) \<noteq> 0" by simp_all
  with count_zeros_correct [of "0x10" "0x50"] show ?thesis by blast
qed

section \<open>Long division: facts\<close>

lemma unat_shift_in:
  fixes r c :: u64
  assumes "unat c \<le> 1"
  shows "unat (push_bit 1 r OR c) = (2 * unat r) mod 2 ^ 64 + unat c"
proof -
  have "unat c = 0 \<or> unat c = 1" using assms by linarith
  then have c: "c = 0 \<or> c = 1" using word_unat_eq_iff [of c 0] word_unat_eq_iff [of c 1] by simp
  have p: "unat (push_bit 1 r) = (2 * unat r) mod 2 ^ 64"
    unfolding unsigned_push_bit_eq unfolding take_bit_eq_mod push_bit_eq_mult by (simp add: mult.commute)
  have "push_bit 1 r OR c = push_bit 1 r + c"
    using c by (auto intro!: disjunctive_add [symmetric] simp: bit_simps bit_0)
  moreover have "unat (push_bit 1 r) + unat c < 2 ^ 64"
  proof -
    have "(2 * unat r) mod 2 ^ 64 = 2 * (unat r mod 2 ^ 63)" by (simp add: mult_mod_right)
    moreover have "unat r mod 2 ^ 63 < 2 ^ 63" by (rule mod_less_divisor) simp
    ultimately have "Suc ((2 * unat r) mod 2 ^ 64) < 2 ^ 64" by simp
    then show ?thesis using p assms by simp
  qed
  ultimately show ?thesis using p by (simp add: unat_word_ariths)
qed

lemma top_bit: "bit (x :: u64) 63 \<longleftrightarrow> 2 ^ 63 \<le> unat x"
proof -
  have "bit x 63 \<longleftrightarrow> bit (unat x) 63" by (simp add: bit_unsigned_iff)
  also have "\<dots> \<longleftrightarrow> odd (unat x div 2 ^ 63)" by (simp add: bit_iff_odd)
  also have "\<dots> \<longleftrightarrow> 2 ^ 63 \<le> unat x"
  proof -
    have "unat x < 2 ^ 64" using unsigned_less [of x] by simp
    then have "unat x div 2 ^ 63 < 2" by (simp add: less_mult_imp_div_less)
    then have "odd (unat x div 2 ^ 63) \<longleftrightarrow> 0 < unat x div 2 ^ 63" using less_2_cases by fastforce
    then show ?thesis by (simp add: div_greater_zero_iff)
  qed
  finally show ?thesis .
qed

lemma top_bit_uint: "bit (x :: u64) 63 \<longleftrightarrow> 2 ^ 63 \<le> uint x"
  using top_bit [of x] by (metis nat_le_iff nat_numeral nat_power_eq of_nat_le_iff of_nat_numeral of_nat_power uint_nat)

lemma wrap_spec:
  fixes b r :: u64
  assumes "uint r < uint b \<Longrightarrow> uint b \<le> 2 ^ 63 + uint r" and "uint b \<le> uint r \<Longrightarrow> uint r + 1 \<le> 2 ^ 63 + uint b"
  shows "signed_drop_bit 63 (b - r - 1) = (if b \<le> r then - 1 else 0)"
proof -
  have bd: "0 \<le> uint b" "0 \<le> uint r" "uint b < 2 ^ 64" "uint r < 2 ^ 64"
    using uint_lt2p [of b] uint_lt2p [of r] by simp_all
  have u: "uint (b - r - 1) = (uint b - uint r - 1) mod 2 ^ 64" by (simp add: uint_word_ariths mod_simps)
  have neg: "bit (b - r - 1) 63 \<longleftrightarrow> uint b \<le> uint r"
  proof (cases "uint b \<le> uint r")
    case True
    have "(uint b - uint r - 1) mod 2 ^ 64 = (uint b - uint r - 1 + 2 ^ 64) mod 2 ^ 64" by (simp only: mod_add_self2)
    also have "\<dots> = uint b - uint r - 1 + 2 ^ 64" using True bd by (intro mod_pos_pos_trivial) linarith+
    finally have "2 ^ 63 \<le> uint (b - r - 1)" using assms(2) [OF True] u by simp
    with True show ?thesis by (simp add: top_bit_uint)
  next
    case False
    then have "(uint b - uint r - 1) mod 2 ^ 64 = uint b - uint r - 1" using bd by (intro mod_pos_pos_trivial) linarith+
    then have "uint (b - r - 1) < 2 ^ 63" using assms(1) False u by simp
    with False show ?thesis by (simp add: top_bit_uint)
  qed
  show ?thesis
  proof (rule bit_word_eqI)
    fix n :: nat assume "n < LENGTH(64)"
    then show "bit (signed_drop_bit 63 (b - r - 1)) n = bit (if b \<le> r then - 1 else 0 :: u64) n"
      using neg by (cases "n = 0") (auto simp: bit_sar64 word_le_def)
  qed
qed

lemma uint_le_nat: "uint (x :: 'a::len word) \<le> int k + uint y \<longleftrightarrow> unat x \<le> k + unat y"
  unfolding uint_nat of_nat_add [symmetric] of_nat_le_iff ..

lemma wrap_spec_nat:
  fixes b r :: u64
  assumes "unat r < unat b \<Longrightarrow> unat b \<le> 2 ^ 63 + unat r" and "unat b \<le> unat r \<Longrightarrow> unat r + 1 \<le> 2 ^ 63 + unat b"
  shows "signed_drop_bit 63 (b - r - 1) = (if b \<le> r then - 1 else 0)"
proof (rule wrap_spec)
  assume "uint r < uint b"
  then have "unat r < unat b" by (simp only: uint_nat of_nat_less_iff)
  from assms(1) [OF this] show "uint b \<le> 2 ^ 63 + uint r" using uint_le_nat [of b "2 ^ 63" r] by simp
next
  assume "uint b \<le> uint r"
  then have "unat b \<le> unat r" by (simp only: uint_nat of_nat_le_iff)
  then have "unat r \<le> (2 ^ 63 - 1) + unat b" using assms(2) by simp
  then show "uint r + 1 \<le> 2 ^ 63 + uint b" using uint_le_nat [of r "2 ^ 63 - 1" b] by simp
qed

lemma divmod_arith:
  fixes b :: nat
  assumes "0 < b" and "r1 = 2 * r + t" and "r1 = w * b + r2" and "x = t * 2 ^ k + x1"
  shows "(r * 2 ^ Suc k + x) div b = w * 2 ^ k + (r2 * 2 ^ k + x1) div b"
    and "(r * 2 ^ Suc k + x) mod b = (r2 * 2 ^ k + x1) mod b"
proof -
  have "r * 2 ^ Suc k + x = r1 * 2 ^ k + x1" using assms(2,4) by (simp add: algebra_simps)
  also have "\<dots> = (r2 * 2 ^ k + x1) + b * (w * 2 ^ k)" using assms(3) by (simp add: algebra_simps)
  finally have e: "r * 2 ^ Suc k + x = (r2 * 2 ^ k + x1) + b * (w * 2 ^ k)" .
  show "(r * 2 ^ Suc k + x) div b = w * 2 ^ k + (r2 * 2 ^ k + x1) div b"
    unfolding e using assms(1) by (subst div_mult_self2) simp_all
  show "(r * 2 ^ Suc k + x) mod b = (r2 * 2 ^ k + x1) mod b" unfolding e by (rule mod_mult_self2)
qed

text \<open>
  The state of the loop with \<open>k\<close> bits to go: the register holds the \<open>k\<close> bits of the numerator
  that are left (\<open>x\<close>) on top and the quotient so far (\<open>y\<close>) but for its last bit below.
\<close>

lemma divmod_bits_spec:
  assumes "unat rem < unat b" and "1 \<le> k \<Longrightarrow> unat rem < 2 ^ 63 \<and> unat b \<le> 2 ^ 63 + 2 * unat rem"
    and "2 \<le> k \<Longrightarrow> unat b \<le> 2 ^ 63" and "k < 64" and "unat a = x * 2 ^ (64 - k) + y" and "x < 2 ^ k"
    and "(2 * y + unat (wrap AND 1) + 1) * 2 ^ k \<le> 2 ^ 64"
  shows "\<exists>q r. divmod_bits k b rem a wrap = (q, r) \<and>
    unat q = (2 * y + unat (wrap AND 1)) * 2 ^ k + (unat rem * 2 ^ k + x) div unat b \<and>
    unat r = (unat rem * 2 ^ k + x) mod unat b"
  using assms
proof (induction k arbitrary: rem a wrap x y)
  case 0
  have w: "unat (wrap AND 1) \<le> 1" using word_and_le1 [of wrap 1] by (simp add: word_le_nat_alt)
  have "unat (push_bit 1 a OR (wrap AND 1)) = 2 * y + unat (wrap AND 1)"
    using unat_shift_in [OF w, of a] 0 by simp
  with 0 show ?case by simp
next
  case (Suc k)
  let ?w = "unat (wrap AND 1)"
  have w: "?w \<le> 1" using word_and_le1 [of wrap 1] by (simp add: word_le_nat_alt)
  define t where "t = x div 2 ^ k"
  define x1 where "x1 = x mod 2 ^ k"
  have x: "x = t * 2 ^ k + x1" "x1 < 2 ^ k" unfolding t_def x1_def by (simp_all only: div_mult_mod_eq) simp
  have t: "t \<le> 1"
  proof -
    have "t < 2" unfolding t_def using Suc.prems(6) by (intro less_mult_imp_div_less) (simp add: mult.commute)
    then show ?thesis by simp
  qed
  have e: "2 ^ (64 - k) = 2 * (2 :: nat) ^ (64 - Suc k)" "2 ^ 63 = 2 ^ k * (2 :: nat) ^ (64 - Suc k)"
    using Suc.prems(4) by (simp_all add: power_add [symmetric] flip: power_Suc)
  let ?p = "(2 :: nat) ^ (64 - Suc k)"
  have y: "2 * y + ?w + 1 \<le> ?p"
  proof -
    have "(2 * y + ?w + 1) * 2 ^ Suc k \<le> ?p * 2 ^ Suc k"
      using Suc.prems(4,7) by (simp add: power_add [symmetric] flip: power_Suc)
    then show ?thesis unfolding mult_le_cancel2 by simp
  qed
  have "(x1 + 1) * ?p \<le> 2 ^ k * ?p" using x(2) by (intro mult_le_mono1) simp
  then have lo: "x1 * ?p + y < 2 ^ 63" unfolding e(2) using y by simp
  have a: "unat a = t * 2 ^ 63 + (x1 * ?p + y)" unfolding Suc.prems(5) x(1) e(2) by (simp add: algebra_simps)
  have top: "unat (drop_bit 63 a) = t"
    unfolding unat_drop_bit_eq unfolding drop_bit_eq_div a using lo by simp
  let ?rem = "push_bit 1 rem OR drop_bit 63 a" and ?a = "push_bit 1 a OR (wrap AND 1)"
  have rem: "unat ?rem = 2 * unat rem + t" using unat_shift_in [of "drop_bit 63 a" rem] top t Suc.prems(2) by simp
  have a': "unat ?a = x1 * 2 ^ (64 - k) + (2 * y + ?w)"
  proof -
    have "(2 * unat a) mod 2 ^ 64 = (2 * (x1 * ?p + y) + 2 ^ 64 * t) mod 2 ^ 64" unfolding a by (simp add: algebra_simps)
    also have "\<dots> = 2 * (x1 * ?p + y)" unfolding mod_mult_self2 using lo by simp
    finally show ?thesis using unat_shift_in [OF w, of a] e(1) by (simp add: algebra_simps)
  qed
  let ?wrap = "signed_drop_bit 63 (b - ?rem - 1)"
  have wrap: "?wrap = (if b \<le> ?rem then - 1 else 0)"
    by (rule wrap_spec_nat) (use rem Suc.prems(1,2) t in linarith)+
  let ?v = "if b \<le> ?rem then 1 else 0 :: nat" and ?r = "?rem - (b AND ?wrap)"
  have v: "unat (?wrap AND 1) = ?v" unfolding wrap by simp
  have r: "unat ?rem = ?v * unat b + unat ?r" unfolding wrap by (simp add: unat_sub word_le_nat_alt)
  have rb: "unat ?r < unat b" using r rem Suc.prems(1) t by (auto simp: word_le_nat_alt split: if_splits)
  obtain q r' where q: "divmod_bits k b ?r ?a ?wrap = (q, r') \<and>
      unat q = (2 * (2 * y + ?w) + unat (?wrap AND 1)) * 2 ^ k + (unat ?r * 2 ^ k + x1) div unat b \<and>
      unat r' = (unat ?r * 2 ^ k + x1) mod unat b"
  proof (atomize_elim, rule Suc.IH [OF rb _ _ _ a' x(2)])
    show "unat ?r < 2 ^ 63 \<and> unat b \<le> 2 ^ 63 + 2 * unat ?r" if "1 \<le> k" using rb Suc.prems(3) that by simp
    show "unat b \<le> 2 ^ 63" if "2 \<le> k" using Suc.prems(3) that by simp
    show "k < 64" using Suc.prems(4) by simp
    have "2 * (2 * y + ?w) + ?v + 1 \<le> 2 * (2 * y + ?w + 1)" by simp
    then have "(2 * (2 * y + ?w) + ?v + 1) * 2 ^ k \<le> 2 * (2 * y + ?w + 1) * 2 ^ k" by (rule mult_le_mono1)
    also have "\<dots> = (2 * y + ?w + 1) * 2 ^ Suc k" by simp
    finally show "(2 * (2 * y + ?w) + unat (?wrap AND 1) + 1) * 2 ^ k \<le> 2 ^ 64" using Suc.prems(7) unfolding v by linarith
  qed
  have step: "divmod_bits (Suc k) b rem a wrap = divmod_bits k b ?r ?a ?wrap" by (simp add: Let_def)
  have "0 < unat b" using Suc.prems(1) by simp
  note da = divmod_arith [OF this rem r x(1)]
  have "(2 * (2 * y + ?w) + ?v) * 2 ^ k + d = (2 * y + ?w) * 2 ^ Suc k + (?v * 2 ^ k + d)" for d
    by (simp add: algebra_simps)
  with q show ?case unfolding step v da by auto
qed

text \<open>The number of bits of the loop.\<close>

lemma divmod_count:
  assumes "b \<le> a" and "1 < unat b"
  obtains n where "int (clzdi2 b) - int (clzdi2 a) + 1 = int n" "1 \<le> n" "n < 64" "unat a < unat b * 2 ^ n"
    "n = 1 \<or> unat b \<le> 2 ^ 63"
proof -
  let ?ca = "clzdi2 a" and ?cb = "clzdi2 b"
  have ba: "unat b \<le> unat a" using assms(1) by (simp add: word_le_nat_alt)
  have "a \<noteq> 0" "b \<noteq> 0" using assms(2) ba by auto
  note a = clzdi2_spec [OF this(1)] and b = clzdi2_spec [OF this(2)]
  have le: "?ca \<le> ?cb"
  proof (rule ccontr)
    assume "\<not> ?ca \<le> ?cb"
    then have "(2 :: nat) ^ Suc ?cb \<le> 2 ^ ?ca" by (intro power_increasing) simp_all
    then have "unat b * 2 ^ Suc ?cb \<le> unat a * 2 ^ ?ca" using ba by (rule mult_le_mono [rotated])
    moreover have "(2 :: nat) ^ 64 \<le> unat b * 2 ^ Suc ?cb" using b by simp
    ultimately show False using a by linarith
  qed
  let ?n = "?cb - ?ca + 1"
  have "2 * 2 ^ ?cb \<le> unat b * 2 ^ ?cb" using assms(2) by (intro mult_le_mono1) simp
  then have "(2 :: nat) ^ Suc ?cb < 2 ^ 64" using b unfolding power_Suc by linarith
  then have "Suc ?cb < 64" by (simp only: power_strict_increasing_iff)
  moreover have "unat a < unat b * 2 ^ ?n"
  proof -
    have "unat b * 2 ^ ?n * 2 ^ ?ca = 2 * (unat b * 2 ^ ?cb)" using le by (simp add: power_add [symmetric] flip: power_Suc)
    moreover have "unat a * 2 ^ ?ca < 2 * (unat b * 2 ^ ?cb)"
    proof -
      have "2 * 2 ^ 63 \<le> 2 * (unat b * 2 ^ ?cb)" using b by (intro mult_le_mono2) blast
      moreover have "unat a * 2 ^ ?ca < 2 * 2 ^ 63" using a by simp
      ultimately show ?thesis by (rule less_le_trans [rotated])
    qed
    ultimately have "unat a * 2 ^ ?ca < unat b * 2 ^ ?n * 2 ^ ?ca" by (simp only:)
    then show ?thesis by (simp only: mult_less_cancel2)
  qed
  moreover have "?n = 1 \<or> unat b \<le> 2 ^ 63"
  proof (cases "?cb = 0")
    case False
    then have "unat b * 2 ^ 1 \<le> unat b * 2 ^ ?cb" by (intro mult_le_mono2 power_increasing) simp_all
    also have "\<dots> < 2 ^ 64" using b by blast
    finally show ?thesis by simp
  qed simp
  ultimately show thesis using le by (intro that [of ?n]) simp_all
qed

lemma divmod_long:
  assumes "b \<le> a" and "1 < unat b" and "int (clzdi2 b) - int (clzdi2 a) + 1 = int n" and "1 \<le> n" and "n < 64"
    and "unat a < unat b * 2 ^ n" and "n = 1 \<or> unat b \<le> 2 ^ 63"
  shows "divmod_bits n b (drop_bit n a) (push_bit (64 - n) a) 0 = (a div b, a mod b)"
proof -
  let ?rem = "drop_bit n a"
  have ba: "unat b \<le> unat a" using assms(1) by (simp add: word_le_nat_alt)
  have A: "unat a < 2 ^ 64" using unsigned_less [of a] by simp
  have rem: "unat ?rem = unat a div 2 ^ n" unfolding unat_drop_bit_eq unfolding drop_bit_eq_div ..
  have r1: "unat ?rem < unat b" unfolding rem using assms(6) by (simp add: less_mult_imp_div_less)
  have r2: "unat ?rem < 2 ^ 63"
  proof -
    have "(2 :: nat) ^ 1 \<le> 2 ^ n" using assms(4) by (intro power_increasing) simp_all
    then have "unat a div 2 ^ n \<le> unat a div 2" by (intro div_le_mono2) simp_all
    also have "\<dots> < 2 ^ 63" using A by (simp add: less_mult_imp_div_less)
    finally show ?thesis unfolding rem .
  qed
  have r3: "unat b \<le> 2 ^ 63 + 2 * unat ?rem"
    using assms(7) rem ba by auto
  have pa: "unat (push_bit (64 - n) a) = (unat a mod 2 ^ n) * 2 ^ (64 - n) + 0"
  proof -
    have "(2 :: nat) ^ 64 = 2 ^ n * 2 ^ (64 - n)" using assms(5) by (simp add: power_add [symmetric])
    moreover have "unat (push_bit (64 - n) a) = (unat a * 2 ^ (64 - n)) mod 2 ^ 64"
      unfolding unsigned_push_bit_eq unfolding take_bit_eq_mod push_bit_eq_mult by simp
    ultimately show ?thesis by (simp add: mult_mod_left)
  qed
  have p64: "(2 :: nat) ^ n \<le> 2 ^ 64" using assms(5) by (intro power_increasing) simp_all
  obtain q r where q: "divmod_bits n b ?rem (push_bit (64 - n) a) 0 = (q, r)"
    "unat q = (unat ?rem * 2 ^ n + unat a mod 2 ^ n) div unat b" "unat r = (unat ?rem * 2 ^ n + unat a mod 2 ^ n) mod unat b"
    using divmod_bits_spec [OF r1 _ _ assms(5) pa, of 0] r2 r3 p64 assms(7) by auto
  have "unat ?rem * 2 ^ n + unat a mod 2 ^ n = unat a" unfolding rem by (rule div_mult_mod_eq)
  with q have "unat q = unat (a div b)" "unat r = unat (a mod b)" by (simp_all add: unat_div unat_mod)
  with q(1) show ?thesis by (simp add: word_unat_eq_iff)
qed

lemma arith64_hi_0: "arith64_hi a = 0 \<longleftrightarrow> unat a < 2 ^ 32"
proof -
  have "unat a < 2 ^ 64" using unsigned_less [of a] by simp
  then have "unat a div 2 ^ 32 < 2 ^ 32" by (simp add: less_mult_imp_div_less)
  then have "unat (arith64_hi a) = unat a div 2 ^ 32"
    unfolding arith64_hi_def unsigned_ucast_eq unat_drop_bit_eq unfolding drop_bit_eq_div take_bit_eq_mod by simp
  then show ?thesis by (metis div_eq_0_iff unat_eq_0 zero_less_numeral zero_less_power power_eq_0_iff zero_neq_numeral)
qed

lemma divmoddi4_eq: "divmoddi4 a b = (if b = 0 then None else Some (a div b, a mod b))"
proof -
  consider "a < b" | "b = 0" | "b = 1" "b \<le> a" | "b \<le> a" "1 < unat b" "arith64_hi b = 0" "arith64_hi a = 0"
    | "b \<le> a" "1 < unat b" "arith64_hi b \<noteq> 0 \<or> arith64_hi a \<noteq> 0"
  proof -
    have "unat b = 0 \<or> unat b = 1 \<or> 1 < unat b" by linarith
    then have "b = 0 \<or> b = 1 \<or> 1 < unat b" using word_unat_eq_iff [of b 0] word_unat_eq_iff [of b 1] by simp
    then show thesis using that leI by blast
  qed
  then show ?thesis
  proof cases
    case 1
    then have "b \<noteq> 0" by auto
    moreover have "a div b = 0" "a mod b = a"
      using 1 by (simp_all add: word_unat_eq_iff unat_div unat_mod word_less_nat_alt)
    ultimately show ?thesis using 1 by (simp add: divmoddi4_def)
  next
    case 2
    then show ?thesis by (simp add: divmoddi4_def arith64_hi_0)
  next
    case 3
    then show ?thesis by (auto simp: divmoddi4_def arith64_hi_0)
  next
    case 4
    have lo: "unat (arith64_lo a) = unat a" "unat (arith64_lo b) = unat b"
      using 4(3,4) by (simp_all add: arith64_hi_0 arith64_lo_def unsigned_ucast_eq take_bit_eq_mod)
    have "unat a < 2 ^ 64" using unsigned_less [of a] by simp
    then have "unat a div unat b < 2 ^ 64" "unat a mod unat b < 2 ^ 64"
      by (rule le_less_trans [OF div_le_dividend], rule le_less_trans [OF mod_less_eq_dividend])
    then have "ucast (arith64_lo a div arith64_lo b) = a div b" "ucast (arith64_lo a mod arith64_lo b) = a mod b"
      using lo by (simp_all add: word_unat_eq_iff unat_div unat_mod unsigned_ucast_eq take_bit_nat_eq_self)
    moreover have "b \<noteq> 0" "b \<noteq> 1" using 4(2) by auto
    ultimately show ?thesis using 4 by (simp add: divmoddi4_def leD)
  next
    case 5
    obtain n where n: "int (clzdi2 b) - int (clzdi2 a) + 1 = int n" "1 \<le> n" "n < 64" "unat a < unat b * 2 ^ n"
      "n = 1 \<or> unat b \<le> 2 ^ 63" by (rule divmod_count [OF 5(1,2)])
    have c: "nat (signed_take_bit 7 (int (clzdi2 b) - int (clzdi2 a) + 1)) = n"
      unfolding n(1) using n(3) by (subst signed_take_bit_int_eq_self) simp_all
    have "b \<noteq> 0" "b \<noteq> 1" using 5(2) by auto
    then have "divmoddi4 a b = Some (divmod_bits n b (drop_bit n a) (push_bit (64 - n) a) 0)"
      using 5 unfolding divmoddi4_def c Let_def by auto
    with divmod_long [OF 5(1,2) n] \<open>b \<noteq> 0\<close> show ?thesis by simp
  qed
qed

lemma sge_0: "0 \<le>s (w :: u64) \<longleftrightarrow> \<not> bit w 63"
proof -
  have "bit w 63 \<longleftrightarrow> sint w < 0" using bit_last_iff [of w] unfolding One_nat_def [symmetric] top_bit_index .
  then show ?thesis by (simp add: word_sle_eq not_less)
qed

lemma slt_0: "(w :: u64) <s 0 \<longleftrightarrow> bit w 63"
  using sge_0 [of w] by (auto simp: word_sle_eq word_sless_alt)

lemma justify_spec:
  assumes "den \<noteq> 0" and "unat den * 2 ^ j < 2 ^ 64" and "j < 64"
  shows "\<exists>k. justify (push_bit j den) (push_bit j 1) = Some (push_bit k den, push_bit k 1) \<and> k < 64 \<and>
    2 ^ 63 \<le> unat den * 2 ^ k \<and> unat den * 2 ^ k < 2 ^ 64"
  using assms(2,3)
proof (induction "64 - j" arbitrary: j rule: less_induct)
  case less
  have u: "unat (push_bit j den) = unat den * 2 ^ j"
    using less.prems(1) unfolding unsigned_push_bit_eq unfolding push_bit_eq_mult by (simp add: take_bit_nat_eq_self)
  have neg: "0 \<le>s push_bit j den \<longleftrightarrow> unat den * 2 ^ j < 2 ^ 63"
    unfolding sge_0 top_bit u by linarith
  show ?case
  proof (cases "unat den * 2 ^ j < 2 ^ 63")
    case True
    have "(2 :: nat) ^ j \<le> unat den * 2 ^ j" using assms(1) by (simp add: Suc_le_eq unat_gt_0)
    then have "(2 :: nat) ^ j < 2 ^ 63" using True by linarith
    then have j: "j < 63" by (simp only: power_strict_increasing_iff)
    have "justify (push_bit j den) (push_bit j 1) = justify (push_bit (Suc j) den) (push_bit (Suc j) 1)"
      using True neg by (subst justify.simps) (simp add: push_bit_push_bit mult.commute)
    with less.hyps [of "Suc j"] True j show ?thesis by simp
  next
    case False
    then have "justify (push_bit j den) (push_bit j 1) = Some (push_bit j den, push_bit j 1)"
      using neg by (subst justify.simps) simp
    with False less.prems show ?thesis by auto
  qed
qed

lemma unat_push_bit64:
  fixes w :: u64
  assumes "unat w * 2 ^ k < 2 ^ 64"
  shows "unat (push_bit k w) = unat w * 2 ^ k"
  using assms unfolding unsigned_push_bit_eq unfolding push_bit_eq_mult by (simp add: take_bit_nat_eq_self)

text \<open>One bit of the quotient.\<close>

lemma subtract_step:
  fixes num0 :: u64
  assumes "unat den * 2 ^ k < 2 ^ 64" and "k < 64" and "unat num < 2 * (unat den * 2 ^ k)"
    and "unat quot * unat den + unat num = unat num0" and "den \<noteq> 0"
  obtains num' quot' where "subtract_bits num (push_bit k den) (push_bit k 1) quot =
      subtract_bits num' (drop_bit 1 (push_bit k den)) (drop_bit 1 (push_bit k 1)) quot'"
    "unat num' < unat den * 2 ^ k" "unat quot' * unat den + unat num' = unat num0"
proof -
  have d: "unat (push_bit k den) = unat den * 2 ^ k" using assms(1) by (rule unat_push_bit64)
  have "(2 :: nat) ^ k < 2 ^ 64" using assms(2) by (simp only: power_strict_increasing_iff)
  then have q: "unat (push_bit k 1 :: u64) = 2 ^ k" using unat_push_bit64 [of 1 k] by simp
  then have q0: "push_bit k 1 \<noteq> (0 :: u64)" by (metis unat_0 power_not_zero zero_neq_numeral)
  have den: "0 < unat den" using assms(5) by (simp add: unat_gt_0)
  show thesis
  proof (cases "push_bit k den \<le> num")
    case True
    then have le: "unat den * 2 ^ k \<le> unat num" by (simp add: word_le_nat_alt d)
    have n: "unat (num - push_bit k den) = unat num - unat den * 2 ^ k" using True by (simp add: unat_sub d)
    have s: "(unat quot + 2 ^ k) * unat den + (unat num - unat den * 2 ^ k) = unat num0"
      using assms(4) le by (simp add: algebra_simps)
    have "(unat quot + 2 ^ k) * 1 \<le> (unat quot + 2 ^ k) * unat den" using den by (intro mult_le_mono2) simp
    also have "\<dots> \<le> unat num0" using s by linarith
    also have "\<dots> < 2 ^ 64" using unsigned_less [of num0] by simp
    finally have "unat quot + 2 ^ k < 2 ^ 64" by simp
    then have "unat (quot + push_bit k 1) = unat quot + 2 ^ k" unfolding unat_word_ariths(1) q by simp
    moreover have "subtract_bits num (push_bit k den) (push_bit k 1) quot =
        subtract_bits (num - push_bit k den) (drop_bit 1 (push_bit k den)) (drop_bit 1 (push_bit k 1)) (quot + push_bit k 1)"
      by (subst subtract_bits.simps) (simp only: True q0 not_False_eq_True if_True)
    ultimately show thesis using that n s assms(3) le by simp
  next
    case False
    then have "unat num < unat den * 2 ^ k" by (simp add: word_le_nat_alt d)
    moreover have "subtract_bits num (push_bit k den) (push_bit k 1) quot =
        subtract_bits num (drop_bit 1 (push_bit k den)) (drop_bit 1 (push_bit k 1)) quot"
      by (subst subtract_bits.simps) (simp only: False q0 not_False_eq_True if_True if_False)
    ultimately show thesis using that assms(4) by blast
  qed
qed

lemma drop_push_bit:
  fixes w :: u64
  assumes "unat w * 2 ^ Suc k < 2 ^ 64"
  shows "drop_bit 1 (push_bit (Suc k) w) = push_bit k w"
proof -
  have "unat w * 2 ^ k < 2 ^ 64" using assms by simp
  then have "unat (drop_bit 1 (push_bit (Suc k) w)) = unat (push_bit k w)"
    unfolding unat_drop_bit_eq using unat_push_bit64 [OF assms] unat_push_bit64 [of w k] by (simp add: drop_bit_eq_div)
  then show ?thesis by (simp only: word_unat_eq_iff)
qed

lemma subtract_bits_spec:
  assumes "unat den * 2 ^ k < 2 ^ 64" and "k < 64" and "unat num < 2 * (unat den * 2 ^ k)"
    and "unat quot * unat den + unat num = unat num0" and "den \<noteq> 0"
  shows "subtract_bits num (push_bit k den) (push_bit k 1) quot = (num0 div den, num0 mod den)"
  using assms
proof (induction k arbitrary: num quot)
  case 0
  obtain num' quot' where n: "subtract_bits num (push_bit 0 den) (push_bit 0 1) quot =
      subtract_bits num' (drop_bit 1 (push_bit 0 den)) (drop_bit 1 (push_bit 0 1)) quot'"
    "unat num' < unat den * 2 ^ 0" "unat quot' * unat den + unat num' = unat num0"
    by (rule subtract_step [OF "0.prems"])
  have "unat num0 div unat den = unat quot'" "unat num0 mod unat den = unat num'"
    using n(2) unfolding n(3) [symmetric] by simp_all
  then have "num0 div den = quot'" "num0 mod den = num'" by (simp_all add: word_unat_eq_iff unat_div unat_mod)
  moreover have "drop_bit 1 (push_bit 0 1 :: u64) = 0" by simp
  ultimately show ?case using n(1) by (simp add: subtract_bits.simps)
next
  case (Suc k)
  obtain num' quot' where n: "subtract_bits num (push_bit (Suc k) den) (push_bit (Suc k) 1) quot =
      subtract_bits num' (drop_bit 1 (push_bit (Suc k) den)) (drop_bit 1 (push_bit (Suc k) 1)) quot'"
    "unat num' < unat den * 2 ^ Suc k" "unat quot' * unat den + unat num' = unat num0"
    by (rule subtract_step [OF Suc.prems])
  have "(2 :: nat) ^ Suc k < 2 ^ 64" using Suc.prems(2) by (simp only: power_strict_increasing_iff)
  then have "drop_bit 1 (push_bit (Suc k) 1) = push_bit k (1 :: u64)" using drop_push_bit [of 1 k] by simp
  moreover have "subtract_bits num' (push_bit k den) (push_bit k 1) quot' = (num0 div den, num0 mod den)"
    using Suc.IH [of num' quot'] Suc.prems(1,2,5) n(2,3) by simp
  ultimately show ?case using n(1) drop_push_bit [OF Suc.prems(1)] by simp
qed

lemma udivmoddi4_eq: "udivmoddi4 a b = (if b = 0 then None else Some (a div b, a mod b))"
proof (cases "b = 0")
  case False
  obtain k where k: "justify b 1 = Some (push_bit k b, push_bit k 1)" "k < 64" "2 ^ 63 \<le> unat b * 2 ^ k" "unat b * 2 ^ k < 2 ^ 64"
    using justify_spec [OF False, of 0] unsigned_less [of b] by auto
  have "unat a < 2 ^ 64" using unsigned_less [of a] by simp
  also have "\<dots> \<le> 2 * (unat b * 2 ^ k)" using k(3) by simp
  finally have "subtract_bits a (push_bit k b) (push_bit k 1) 0 = (a div b, a mod b)"
    using subtract_bits_spec [OF k(4,2), of a 0 a] False by simp
  with k(1) False show ?thesis by (simp add: udivmoddi4_def)
qed (simp add: udivmoddi4_def)

text \<open>
  C32. The long division computes the quotient and the remainder of the 64-bit values, and it
  raises the division exception exactly when the divisor is zero. The routine taken from libgcc
  always ends and computes the same.
\<close>

theorem unsigned_division_correct:
  "divmoddi4 a b = (if b = 0 then None else Some (a div b, a mod b)) \<and> udivmoddi4 a b = divmoddi4 a b \<and>
   udivdi3 a b = (if b = 0 then None else Some (a div b)) \<and> umoddi3 a b = (if b = 0 then None else Some (a mod b))"
  by (simp add: divmoddi4_eq udivmoddi4_eq udivdi3_def umoddi3_def)

section \<open>Signed division: facts\<close>

lemma arith64_neg_eq: "arith64_neg a b = (if bit b 63 then - a else a)"
proof (cases "bit b 63")
  case True
  have "a XOR - 1 = NOT a" by simp
  then have "(a XOR - 1) + 1 = - a" by (simp only: minus_eq_not_plus_1)
  with True show ?thesis unfolding arith64_neg_def sge_0 slt_0 by (simp only: not_True_eq_False if_True if_False)
next
  case False
  then show ?thesis by (simp add: arith64_neg_def sge_0 slt_0)
qed

lemma sint_sign: "bit (a :: u64) 63 \<longleftrightarrow> sint a < 0"
  using sge_0 [of a] by (auto simp: word_sle_eq)

text \<open>The absolute value, also of the lowest number, is right as an unsigned number.\<close>

lemma sint_uint64: "sint (a :: u64) = (if bit a 63 then uint a - 2 ^ 64 else uint a)"
proof -
  have "sint a = signed_take_bit 63 (uint a)" by (simp add: sint_uint)
  also have "\<dots> = take_bit (Suc 63) (uint a) - 2 ^ Suc 63 * of_bool (bit (uint a) 63)"
    by (rule signed_take_bit_eq_take_bit_minus)
  also have "take_bit (Suc 63) (uint a) = uint a" using uint_lt2p [of a] by (simp add: take_bit_int_eq_self)
  finally show ?thesis by (simp add: bit_unsigned_iff)
qed

lemma uint_arith64_abs: "uint (arith64_abs a) = \<bar>sint a\<bar>"
proof (cases "bit a 63")
  case True
  then have p: "0 < uint a" using top_bit_uint [of a] by simp
  have "uint (- a) = (- uint a) mod 2 ^ 64" by (simp add: uint_word_ariths)
  also have "\<dots> = (- uint a + 2 ^ 64) mod 2 ^ 64" by (simp only: mod_add_self2)
  also have "\<dots> = 2 ^ 64 - uint a" using uint_lt2p [of a] p by (subst mod_pos_pos_trivial) simp_all
  finally show ?thesis using True uint_lt2p [of a] by (simp add: arith64_abs_def arith64_neg_eq sint_uint64)
next
  case False
  then show ?thesis by (simp add: arith64_abs_def arith64_neg_eq sint_uint64)
qed

lemma arith64_abs_0: "arith64_abs b = 0 \<longleftrightarrow> b = 0"
  by (auto simp: arith64_abs_def arith64_neg_eq)

lemma divdi3_eq: "divdi3 a b = (if b = 0 then None else Some (word_of_int (sint a sdiv sint b)))"
proof (cases "b = 0")
  case True
  then show ?thesis by (simp add: divdi3_def divmoddi4_eq arith64_abs_0)
next
  case False
  let ?q = "\<bar>sint a\<bar> div \<bar>sint b\<bar>"
  have q: "arith64_abs a div arith64_abs b = word_of_int ?q"
    by (simp add: word_div_def uint_arith64_abs)
  have sb: "sint b \<noteq> 0" using False by (metis signed_eq_0_iff)
  have "word_of_int (sint a sdiv sint b) = arith64_neg (word_of_int ?q) (a XOR b)"
  proof -
    have "sint a sdiv sint b = sgn (sint a) * (sgn (sint b) * ?q)" by (simp add: signed_divide_int_def mult.assoc)
    moreover have "sint a = 0 \<Longrightarrow> ?q = 0" by simp
    moreover have "bit (a XOR b) 63 \<longleftrightarrow> (sint a < 0) \<noteq> (sint b < 0)"
      unfolding sint_sign [symmetric] by (rule bit_xor_iff)
    ultimately show ?thesis unfolding arith64_neg_eq using sb
      by (cases "sint a" "0 :: int" rule: linorder_cases; cases "sint b" "0 :: int" rule: linorder_cases) simp_all
  qed
  with q False show ?thesis by (simp add: divdi3_def divmoddi4_eq arith64_abs_0)
qed

lemma moddi3_eq: "moddi3 a b = (if b = 0 then None else Some (word_of_int (sint a smod sint b)))"
proof (cases "b = 0")
  case True
  then show ?thesis by (simp add: moddi3_def divmoddi4_eq arith64_abs_0)
next
  case False
  let ?r = "\<bar>sint a\<bar> mod \<bar>sint b\<bar>"
  have "arith64_abs a mod arith64_abs b = word_of_int ?r"
    by (simp add: word_mod_def uint_arith64_abs)
  moreover have "word_of_int (sint a smod sint b) = arith64_neg (word_of_int ?r) a"
    unfolding arith64_neg_eq sint_sign signed_modulo_int_def
    by (cases "sint a" "0 :: int" rule: linorder_cases) simp_all
  ultimately show ?thesis using False by (simp add: moddi3_def divmoddi4_eq arith64_abs_0)
qed

text \<open>
  The signed division and remainder truncate towards zero, as C requires, for every pair
  of values; the one quotient that does not fit, of the lowest number by minus one, wraps
  around. Both raise the division exception exactly when the divisor is zero.
\<close>

lemma signed_division_correct:
  "divdi3 a b = (if b = 0 then None else Some (word_of_int (sint a sdiv sint b))) \<and>
   moddi3 a b = (if b = 0 then None else Some (word_of_int (sint a smod sint b)))"
  by (simp add: divdi3_eq moddi3_eq)

end
