(* ===== verification/Processes.thy ===== *)
theory Processes
  imports Interrupts Ipc
begin

text \<open>
  Processes (\<^verbatim>\<open>src/sys/task/process.c\<close>): temporary mappings, the creation of an address space with its
  stacks and its program, the list of processes and the deletion of a process.
\<close>

section \<open>State\<close>

abbreviation FLAT_BINARY_DEFAULT_ENTRY :: u32 where "FLAT_BINARY_DEFAULT_ENTRY \<equiv> 0x100000"
abbreviation DEFAULT_USER_STACK_ADDR :: u32 where "DEFAULT_USER_STACK_ADDR \<equiv> 0xBFFF0000"
abbreviation USER_STACK_SIZE_PAGES :: nat where "USER_STACK_SIZE_PAGES \<equiv> 4"
abbreviation KERNEL_STACK_SIZE_PAGES :: nat where "KERNEL_STACK_SIZE_PAGES \<equiv> 2"
abbreviation TMPMAP_MAX_PAGES :: nat where "TMPMAP_MAX_PAGES \<equiv> 1024"
abbreviation TMPMAP_BITMAP_WORDS :: nat where "TMPMAP_BITMAP_WORDS \<equiv> 32"
abbreviation TEMPORARY_VIRT_MAPADDR :: u32 where "TEMPORARY_VIRT_MAPADDR \<equiv> 0xF2000000"
abbreviation MAX_IO_PORTS_PER_PROCESS :: u32 where "MAX_IO_PORTS_PER_PROCESS \<equiv> 20"
abbreviation KERNEL_PD_INDEX :: nat where "KERNEL_PD_INDEX \<equiv> 768"
abbreviation MAX_PT_ENTRIES :: nat where "MAX_PT_ENTRIES \<equiv> 1024"
abbreviation PAGE_FRAME_MASK :: u32 where "PAGE_FRAME_MASK \<equiv> 0xFFFFF000"
abbreviation SIZEOF_VIRTUALMAP :: u32 where "SIZEOF_VIRTUALMAP \<equiv> 16"
abbreviation SIZEOF_PROCESS :: u32 where "SIZEOF_PROCESS \<equiv> 216"

text \<open>The field \<^verbatim>\<open>next\<close> of a temporary mapping is neither read nor written by the kernel.\<close>

record VirtualMap =
  vm_addr :: VMAddress
  vm_slot :: nat

record process_state = irq_state +
  tmpmap_bitmap :: words
  virtual_maps :: "ptr \<rightharpoonup> VirtualMap"
  process_id_counter :: u32
  process_list :: ptr

section \<open>Temporary mappings\<close>

text \<open>The bits of a word one by one.\<close>

fun free_bit :: "u32 \<Rightarrow> nat \<Rightarrow> nat \<Rightarrow> nat option" where
  "free_bit w b 0 = None"
| "free_bit w b (Suc n) = (if \<not> IS_SET w b then Some b else free_bit w (Suc b) n)"

fun free_slot :: "words \<Rightarrow> nat \<Rightarrow> nat \<Rightarrow> int" where
  "free_slot bm w 0 = - 1"
| "free_slot bm w (Suc n) =
     (if bm w \<noteq> 0xFFFFFFFF then
        case free_bit (bm w) 0 32 of Some b \<Rightarrow> int (w * 32 + b) | None \<Rightarrow> free_slot bm (Suc w) n
      else free_slot bm (Suc w) n)"

definition FindFreeTmpMapSlot :: "'a process_state_scheme \<Rightarrow> int" where
  "FindFreeTmpMapSlot s = free_slot (tmpmap_bitmap s) 0 TMPMAP_BITMAP_WORDS"

definition MarkTmpMapUsed :: "nat \<Rightarrow> 'a process_state_scheme \<Rightarrow> 'a process_state_scheme option" where
  "MarkTmpMapUsed idx s =
     (if idx \<ge> TMPMAP_MAX_PAGES then None else Some (s\<lparr>tmpmap_bitmap := bm_mark idx (tmpmap_bitmap s)\<rparr>))"

definition MarkTmpMapFree :: "nat \<Rightarrow> 'a process_state_scheme \<Rightarrow> 'a process_state_scheme option" where
  "MarkTmpMapFree idx s =
     (if idx \<ge> TMPMAP_MAX_PAGES then None else Some (s\<lparr>tmpmap_bitmap := bm_clear idx (tmpmap_bitmap s)\<rparr>))"

definition TmpMapUsed :: "nat \<Rightarrow> 'a process_state_scheme \<Rightarrow> bool option" where
  "TmpMapUsed idx s = (if idx \<ge> TMPMAP_MAX_PAGES then None else Some (bm_used (tmpmap_bitmap s) idx))"

definition TmpMapAddrFromIndex :: "nat \<Rightarrow> u32" where
  "TmpMapAddrFromIndex idx = TEMPORARY_VIRT_MAPADDR - of_nat idx * PAGE_SIZE"

definition CreateTempVirtualMap :: "'a process_state_scheme \<Rightarrow> (ptr \<times> 'a process_state_scheme) option" where
  "CreateTempVirtualMap s = do {
     (m, s1) \<leftarrow> kmalloc SIZEOF_VIRTUALMAP s;
     if m = 0 then Some (0, s1)
     else do {
       let slot = FindFreeTmpMapSlot s1;
       if slot < 0 then do { s2 \<leftarrow> kfree m s1; Some (0, s2) }
       else do {
         let virt = TmpMapAddrFromIndex (nat slot);
         let (phys, s2) = AllocateFrame s1;
         if phys = 0 then do { s3 \<leftarrow> kfree m s2; Some (0, s3) }
         else do {
           (st, s3) \<leftarrow> MapSinglePage phys virt (PAGE_PRESENT OR PAGE_RW) s2;
           if st \<noteq> STATUS_OK then do { s4 \<leftarrow> kfree m (FreeFrame phys s3); Some (0, s4) }
           else do {
             s4 \<leftarrow> MarkTmpMapUsed (nat slot) s3;
             let s5 = s4\<lparr>virtual_maps := (virtual_maps s4)(m \<mapsto> \<lparr>vm_addr = \<lparr>phys = phys, virt = virt\<rparr>, vm_slot = nat slot\<rparr>)\<rparr>;
             s6 \<leftarrow> zero_page virt s5;
             Some (m, s6)
           }
         }
       }
     }
   }"

definition DeleteTempVirtualMap :: "ptr \<Rightarrow> 'a process_state_scheme \<Rightarrow> 'a process_state_scheme option" where
  "DeleteTempVirtualMap m s = do {
     vm \<leftarrow> virtual_maps s m;
     used \<leftarrow> TmpMapUsed (vm_slot vm) s;
     if \<not> used then None
     else do {
       s1 \<leftarrow> UnmapSinglePage (virt (vm_addr vm)) s;
       s2 \<leftarrow> MarkTmpMapFree (vm_slot vm) s1;
       s3 \<leftarrow> kfree m s2;
       Some (s3\<lparr>virtual_maps := (virtual_maps s3)(m := None)\<rparr>)
     }
   }"

section \<open>Creating a process\<close>

text \<open>
  The search of \<^verbatim>\<open>process.c\<close> looks at the same pages in the same order as that of \<^verbatim>\<open>thread.c\<close>, but stops
  the kernel when it finds nothing.
\<close>

definition NextProcessStack :: "'a vm_state_scheme \<Rightarrow> u32 option" where
  "NextProcessStack s = Option.bind (next_kernel_stack KERNEL_STACK_BASE s) (\<lambda>a. if a = 0 then None else Some a)"

definition no_process :: Process where
  "no_process = \<lparr>p_main_thread = 0, p_cr3 = 0, p_kstacks = (\<lambda>_. \<lparr>phys = 0, virt = 0\<rparr>), p_pid = 0,
     p_handles = \<lparr>objlist = (\<lambda>_. 0), valid_bitmap = 0\<rparr>, p_ioports = (\<lambda>_. 0), p_ports_used = 0, p_flags = 0, p_prev = 0, p_next = 0\<rparr>"

definition upd_process :: "ptr \<Rightarrow> (Process \<Rightarrow> Process) \<Rightarrow> 'a task_state_scheme \<Rightarrow> 'a task_state_scheme option" where
  "upd_process p f s = map_option (\<lambda>pr. s\<lparr>procs := (procs s)(p \<mapsto> f pr)\<rparr>) (procs s p)"

fun map_kstacks :: "ptr \<Rightarrow> u32 \<Rightarrow> nat \<Rightarrow> nat \<Rightarrow> 'a task_state_scheme \<Rightarrow> 'a task_state_scheme option" where
  "map_kstacks p base i 0 s = Some s"
| "map_kstacks p base i (Suc n) s = do {
     let (frame, s1) = AllocateFrame s;
     let page = base + of_nat i * PAGE_SIZE;
     (st, s2) \<leftarrow> MapSinglePage frame page (PAGE_PRESENT OR PAGE_RW OR PAGE_GLOBAL) s1;
     s3 \<leftarrow> upd_process p (\<lambda>pr. pr\<lparr>p_kstacks := (p_kstacks pr)(i := \<lparr>phys = frame, virt = page\<rparr>)\<rparr>) s2;
     map_kstacks p base (Suc i) n s3
   }"

fun copy_kernel_space :: "u32 \<Rightarrow> nat \<Rightarrow> nat \<Rightarrow> 'a vm_state_scheme \<Rightarrow> 'a vm_state_scheme option" where
  "copy_kernel_space pd i 0 s = Some s"
| "copy_kernel_space pd i (Suc n) s = do {
     e \<leftarrow> load32 (CURRENT_PAGE_DIRECTORY + 4 * of_nat i) s;
     s1 \<leftarrow> store32 (pd + 4 * of_nat i) e s;
     copy_kernel_space pd (Suc i) n s1
   }"

abbreviation USER_PAGE :: u32 where "USER_PAGE \<equiv> PAGE_PRESENT OR PAGE_RW OR PAGE_USER"

fun map_user_stack :: "u32 \<Rightarrow> nat \<Rightarrow> nat \<Rightarrow> 'a process_state_scheme \<Rightarrow> 'a process_state_scheme option" where
  "map_user_stack stack_pt i 0 s = Some s"
| "map_user_stack stack_pt i (Suc n) s = do {
     let ptindex = PT_INDEX (DEFAULT_USER_STACK_ADDR - of_nat i * PAGE_SIZE);
     (currstack, s1) \<leftarrow> CreateTempVirtualMap s;
     vm \<leftarrow> virtual_maps s1 currstack;
     s2 \<leftarrow> store32 (stack_pt + 4 * ptindex) (phys (vm_addr vm) OR USER_PAGE) s1;
     s3 \<leftarrow> DeleteTempVirtualMap currstack s2;
     map_user_stack stack_pt (Suc i) n s3
   }"

text \<open>
  Where the entry for the page at offset \<open>i\<close> of the program is written.  The loop over the pages of the program
  does not end if its counter wraps around.
\<close>

definition code_entry :: "u32 \<Rightarrow> u32 \<Rightarrow> u32" where
  "code_entry pt i = pt + 4 * ((FLAT_BINARY_DEFAULT_ENTRY + i) div PAGE_SIZE)"

partial_function (option) copy_code :: "u32 \<Rightarrow> u32 \<Rightarrow> u32 \<Rightarrow> u32 \<Rightarrow> 'a process_state_scheme \<Rightarrow> 'a process_state_scheme option" where
  "copy_code pt code code_size i s =
     (if i < code_size then
        Option.bind (CreateTempVirtualMap s) (\<lambda>(codemap, s1).
        Option.bind (virtual_maps s1 codemap) (\<lambda>vm.
        Option.bind (store32 (code_entry pt i) (phys (vm_addr vm) OR USER_PAGE) s1) (\<lambda>s2.
        Option.bind (zero_page (virt (vm_addr vm)) s2) (\<lambda>s3.
        Option.bind (read_bytes (code + i) (unat (if code_size - i < PAGE_SIZE then code_size - i else PAGE_SIZE)) s3) (\<lambda>bytes.
        Option.bind (write_bytes (virt (vm_addr vm)) bytes s3) (\<lambda>s4.
        Option.bind (DeleteTempVirtualMap codemap s4) (\<lambda>s5.
          copy_code pt code code_size (i + PAGE_SIZE) s5)))))))
      else Some s)"

definition next_process :: "'a task_state_scheme \<Rightarrow> ptr \<Rightarrow> ptr option" where
  "next_process s p = map_option p_next (procs s p)"

definition append_process :: "ptr \<Rightarrow> 'a process_state_scheme \<Rightarrow> 'a process_state_scheme option" where
  "append_process p s =
     (if process_list s \<noteq> 0 then do {
        iter \<leftarrow> last_node (next_process s) (process_list s);
        s1 \<leftarrow> upd_process p (\<lambda>pr. pr\<lparr>p_prev := iter\<rparr>) s;
        upd_process iter (\<lambda>pr. pr\<lparr>p_next := p\<rparr>) s1
      } else upd_process p (\<lambda>pr. pr\<lparr>p_prev := 0\<rparr>) (s\<lparr>process_list := p\<rparr>))"

text \<open>From the page directory on; \<open>p\<close> and \<open>main_thread\<close> are allocated.\<close>

definition create_address_space :: "ptr \<Rightarrow> ptr \<Rightarrow> ptr \<Rightarrow> u32 \<Rightarrow> u32 \<Rightarrow> 'a process_state_scheme \<Rightarrow> 'a process_state_scheme option" where
  "create_address_space p main_thread pdmap code code_size s = do {
     pdm \<leftarrow> virtual_maps s pdmap;
     let pd = virt (vm_addr pdm);
     s1 \<leftarrow> copy_kernel_space pd KERNEL_PD_INDEX (MAX_PD_ENTRIES - 1 - KERNEL_PD_INDEX) s;
     (ptmap, s2) \<leftarrow> CreateTempVirtualMap s1;
     ptm \<leftarrow> virtual_maps s2 ptmap;
     s3 \<leftarrow> zero_page (virt (vm_addr ptm)) s2;
     (stackmap, s4) \<leftarrow> CreateTempVirtualMap s3;
     stm \<leftarrow> virtual_maps s4 stackmap;
     s5 \<leftarrow> zero_page (virt (vm_addr stm)) s4;
     s6 \<leftarrow> map_user_stack (virt (vm_addr stm)) 0 USER_STACK_SIZE_PAGES s5;
     s7 \<leftarrow> store32 (pd + 4 * PD_INDEX DEFAULT_USER_STACK_ADDR) (phys (vm_addr stm) OR USER_PAGE) s6;
     s8 \<leftarrow> DeleteTempVirtualMap stackmap s7;
     s9 \<leftarrow> copy_code (virt (vm_addr ptm)) code code_size 0 s8;
     s10 \<leftarrow> store32 pd (phys (vm_addr ptm) OR USER_PAGE) s9;
     s11 \<leftarrow> store32 (pd + 4 * of_nat (MAX_PD_ENTRIES - 1)) (phys (vm_addr pdm) OR PAGE_PRESENT OR PAGE_RW) s10;
     s12 \<leftarrow> upd_process p (\<lambda>pr. pr\<lparr>p_cr3 := phys (vm_addr pdm), p_main_thread := main_thread, p_pid := process_id_counter s11,
       p_next := 0, p_ports_used := 0, p_ioports := (\<lambda>_. 0), p_handles := \<lparr>objlist = (\<lambda>_. 0), valid_bitmap = 0\<rparr>\<rparr>)
       (s11\<lparr>process_id_counter := process_id_counter s11 + 1\<rparr>);
     s13 \<leftarrow> upd_thread main_thread (\<lambda>t. t\<lparr>t_owner := p\<rparr>) s12;
     s14 \<leftarrow> DeleteTempVirtualMap pdmap s13;
     DeleteTempVirtualMap ptmap s14
   }"

definition CreateProcess :: "u32 \<Rightarrow> u32 \<Rightarrow> u32 \<Rightarrow> 'a process_state_scheme \<Rightarrow> (ptr \<times> 'a process_state_scheme) option" where
  "CreateProcess trampoline code code_size s =
     (if code_size = 0 then Some (0, s)
      else do {
        kernel_stack_addr \<leftarrow> NextProcessStack s;
        (p, s1) \<leftarrow> kzalloc SIZEOF_PROCESS s;
        if p = 0 then Some (0, s1)
        else do {
          s2 \<leftarrow> map_kstacks p kernel_stack_addr 0 KERNEL_STACK_SIZE_PAGES (s1\<lparr>procs := (procs s1)(p \<mapsto> no_process)\<rparr>);
          (main_thread, s3) \<leftarrow> AllocateUserThread trampoline FLAT_BINARY_DEFAULT_ENTRY DEFAULT_USER_STACK_ADDR
            (kernel_stack_addr + 2 * PAGE_SIZE) 0 s2;
          if main_thread = 0 then Some (0, s3)
          else do {
            (pdmap, s4) \<leftarrow> CreateTempVirtualMap s3;
            if pdmap = 0 then do {
              s5 \<leftarrow> kfree p s4;
              Some (0, s5\<lparr>procs := (procs s5)(p := None)\<rparr>)
            } else do {
              s5 \<leftarrow> create_address_space p main_thread pdmap code code_size s4;
              s6 \<leftarrow> AddThreadToScheduler main_thread s5;
              s7 \<leftarrow> append_process p s6;
              Some (p, s7)
            }
          }
        }
      })"

section \<open>Deleting a process\<close>

definition unlink_process :: "ptr \<Rightarrow> 'a process_state_scheme \<Rightarrow> 'a process_state_scheme option" where
  "unlink_process p s = do {
     pr \<leftarrow> procs s p;
     s1 \<leftarrow> (if p_prev pr \<noteq> 0 then upd_process (p_prev pr) (\<lambda>q. q\<lparr>p_next := p_next pr\<rparr>) s
           else Some (s\<lparr>process_list := p_next pr\<rparr>));
     s2 \<leftarrow> (if p_next pr \<noteq> 0 then upd_process (p_next pr) (\<lambda>q. q\<lparr>p_prev := p_prev pr\<rparr>) s1 else Some s1);
     upd_process p (\<lambda>q. q\<lparr>p_next := 0, p_prev := 0\<rparr>) s2
   }"

fun delete_handles :: "ptr \<Rightarrow> nat \<Rightarrow> nat \<Rightarrow> 'a object_state_scheme \<Rightarrow> 'a object_state_scheme option" where
  "delete_handles p i 0 s = Some s"
| "delete_handles p i (Suc n) s = do {
     pr \<leftarrow> procs s p;
     (ob, table) \<leftarrow> DeleteFromHandleTable (p_handles pr) (int i);
     s1 \<leftarrow> upd_handles p table s;
     s2 \<leftarrow> (if ob \<noteq> 0 then DeleteObject ob s1 else Some s1);
     delete_handles p (Suc i) n s2
   }"

fun free_table :: "u32 \<Rightarrow> nat \<Rightarrow> nat \<Rightarrow> 'a vm_state_scheme \<Rightarrow> 'a vm_state_scheme option" where
  "free_table pt j 0 s = Some s"
| "free_table pt j (Suc n) s = do {
     e \<leftarrow> load32 (pt + 4 * of_nat j) s;
     free_table pt (Suc j) n (if has_flag e PAGE_PRESENT then FreeFrame (e AND PAGE_FRAME_MASK) s else s)
   }"

text \<open>A page table that cannot be mapped is logged, and the loop goes on with what \<open>pt_virt\<close> shows.\<close>

fun free_user_space :: "u32 \<Rightarrow> u32 \<Rightarrow> nat \<Rightarrow> nat \<Rightarrow> 'a vm_state_scheme \<Rightarrow> 'a vm_state_scheme option" where
  "free_user_space pd_virt pt_virt i 0 s = Some s"
| "free_user_space pd_virt pt_virt i (Suc n) s = do {
     e \<leftarrow> load32 (pd_virt + 4 * of_nat i) s;
     s' \<leftarrow> (if has_flag e PAGE_PRESENT then do {
              (mapstatus, s1) \<leftarrow> MapSinglePage (e AND PAGE_FRAME_MASK) pt_virt (PAGE_PRESENT OR PAGE_RW) s;
              s2 \<leftarrow> free_table pt_virt 0 MAX_PT_ENTRIES s1;
              s3 \<leftarrow> UnmapSinglePage pt_virt s2;
              e' \<leftarrow> load32 (pd_virt + 4 * of_nat i) s3;
              Some (FreeFrame (e' AND PAGE_FRAME_MASK) s3)
            } else Some s);
     free_user_space pd_virt pt_virt (Suc i) n s'
   }"

definition DeleteProcess :: "ptr \<Rightarrow> 'a process_state_scheme \<Rightarrow> (Status \<times> 'a process_state_scheme) option" where
  "DeleteProcess p s = do {
     s1 \<leftarrow> DeleteProcessFromIRQRelay p s;
     s2 \<leftarrow> unlink_process p s1;
     s3 \<leftarrow> delete_handles p 0 MAX_OBJ_PER_PROCESS s2;
     let pd_slot = FindFreeTmpMapSlot s3;
     if pd_slot < 0 then None
     else do {
       s4 \<leftarrow> MarkTmpMapUsed (nat pd_slot) s3;
       let pt_slot = FindFreeTmpMapSlot s4;
       if pt_slot < 0 then None
       else do {
         let pd_virt = TmpMapAddrFromIndex (nat pd_slot);
         let pt_virt = TmpMapAddrFromIndex (nat pt_slot);
         pr \<leftarrow> procs s4 p;
         (st, s5) \<leftarrow> MapSinglePage (p_cr3 pr) pd_virt (PAGE_PRESENT OR PAGE_RW) s4;
         s6 \<leftarrow> upd_thread (p_main_thread pr) (\<lambda>t. t\<lparr>t_state := THREAD_TERMINATED\<rparr>) s5;
         s7 \<leftarrow> free_user_space pd_virt pt_virt 0 KERNEL_PD_INDEX s6;
         s8 \<leftarrow> UnmapSinglePage pd_virt s7;
         s9 \<leftarrow> MarkTmpMapFree (nat pd_slot) s8;
         s10 \<leftarrow> MarkTmpMapFree (nat pt_slot) s9;
         let s11 = FreeFrame (p_cr3 pr) (free_frames (\<lambda>i. phys (p_kstacks pr i)) 0 KERNEL_STACK_SIZE_PAGES s10);
         s12 \<leftarrow> kfree p s11;
         Some (STATUS_OK, s12\<lparr>procs := (procs s12)(p := None)\<rparr>)
       }
     }
   }"

section \<open>Capabilities and look-up\<close>

definition SetProcessCapabilities :: "ptr \<Rightarrow> u32 \<Rightarrow> 'a task_state_scheme \<Rightarrow> 'a task_state_scheme option" where
  "SetProcessCapabilities process flags s = upd_process process (\<lambda>pr. pr\<lparr>p_flags := p_flags pr OR flags\<rparr>) s"

partial_function (option) find_process :: "u32 \<Rightarrow> ptr \<Rightarrow> 'a process_state_scheme \<Rightarrow> ptr option" where
  "find_process pid iter s =
     (if iter = 0 then Some 0
      else Option.bind (procs s iter) (\<lambda>pr. if p_pid pr = pid then Some iter else find_process pid (p_next pr) s))"

definition FindProcessByID :: "u32 \<Rightarrow> 'a process_state_scheme \<Rightarrow> ptr option" where
  "FindProcessByID pid s = (if process_list s = 0 then Some 0 else find_process pid (process_list s) s)"

declare find_process.simps [code]
declare copy_code.simps [code]

end
