(* ===== verification/ProcessTable.thy ===== *)
theory ProcessTable
  imports Processes Irq
begin

text \<open>
  What \<^verbatim>\<open>process.c\<close> keeps: the window of temporary mappings as an instance of the slot allocator's contract, the
  doubly linked list of processes, and the kernel half that every address space shares.
\<close>

section \<open>Temporary mapping slots\<close>

lemma free_bit_Some: "free_bit w b n = Some k \<Longrightarrow> b + n \<le> 32 \<Longrightarrow>
    b \<le> k \<and> k < b + n \<and> \<not> bit w k \<and> (\<forall>j. b \<le> j \<and> j < k \<longrightarrow> bit w j)"
proof (induction w b n rule: free_bit.induct)
  case (2 w b n)
  show ?case
  proof (cases "bit w b")
    case True
    with 2 have "Suc b \<le> k \<and> k < Suc b + n \<and> \<not> bit w k \<and> (\<forall>j. Suc b \<le> j \<and> j < k \<longrightarrow> bit w j)"
      by (simp add: bm_simps)
    with True show ?thesis by (metis Suc_leI Suc_leD add_Suc_shift le_neq_implies_less)
  next
    case False
    with 2 show ?thesis by (auto simp: bm_simps)
  qed
qed simp

lemma free_bit_None: "free_bit w b n = None \<longleftrightarrow> (\<forall>j. b \<le> j \<and> j < b + n \<longrightarrow> bit w j)" if "b + n \<le> 32"
  using that
proof (induction w b n rule: free_bit.induct)
  case (2 w b n)
  then have IH: "bit w b \<Longrightarrow> free_bit w (Suc b) n = None \<longleftrightarrow> (\<forall>j. Suc b \<le> j \<and> j < Suc b + n \<longrightarrow> bit w j)"
    by (simp add: bm_simps)
  show ?case
  proof (cases "bit w b")
    case True
    then have "(\<forall>j. b \<le> j \<and> j < b + Suc n \<longrightarrow> bit w j) \<longleftrightarrow> (\<forall>j. Suc b \<le> j \<and> j < Suc b + n \<longrightarrow> bit w j)"
      by (metis Suc_leD Suc_leI add_Suc_shift le_neq_implies_less)
    with IH [OF True] True 2 show ?thesis by (simp add: bm_simps)
  next
    case False
    with 2 show ?thesis by (auto simp: bm_simps)
  qed
qed auto

text \<open>The two nested loops are the word-wise search of the other bitmaps of the kernel.\<close>

lemma free_slot_scan: "free_slot bm w n = (case bm_scan bm w (w + n) of Some k \<Rightarrow> int k | None \<Rightarrow> - 1)"
proof (induction bm w n rule: free_slot.induct)
  case (1 bm w)
  then show ?case by (simp add: bm_scan.simps [of bm w])
next
  case (2 bm w n)
  show ?case
  proof (cases "bm w = 0xFFFFFFFF")
    case True
    with 2(2) show ?thesis by (simp add: bm_scan.simps [of bm w "Suc (w + n)"])
  next
    case False
    then have "\<not> (\<forall>j < 32. bit (bm w) j)" using all_ones_iff [of "bm w"] by auto
    then obtain k where k: "free_bit (bm w) 0 32 = Some k" using free_bit_None [of 0 32 "bm w"] by auto
    from free_bit_Some [OF k] have b: "k < 32" "\<not> bit (bm w) k" "\<And>j. j < k \<Longrightarrow> bit (bm w) j" by auto
    from False obtain m where m: "bm_scan bm w (w + Suc n) = Some m" by (simp add: bm_scan.simps [of bm w "Suc (w + n)"])
    note ms = bm_scan_Some [OF m]
    have "m = w * 32 + k"
    proof (rule ccontr)
      assume ne: "m \<noteq> w * 32 + k"
      have dm: "(w * 32 + i) div 32 = w" "(w * 32 + i) mod 32 = i" if "i < 32" for i using that by auto
      show False
      proof (cases "m < w * 32 + k")
        case True
        then have "bit (bm w) (m - w * 32)" using ms b(1) by (intro b(3)) auto
        with dm [of "m - w * 32"] True b(1) ms show False by (simp add: bm_used_bit)
      next
        case False
        with ne have "bm_used bm (w * 32 + k)" using ms by auto
        with dm [of k] b show False by (simp add: bm_used_bit)
      qed
    qed
    with k m False show ?thesis by simp
  qed
qed

definition tmp_used :: "'a process_state_scheme \<Rightarrow> nat \<Rightarrow> bool" where
  "tmp_used s = bm_used (tmpmap_bitmap s)"

lemma FindFreeTmpMapSlot_cases:
  obtains (full) "FindFreeTmpMapSlot s = - 1" "\<And>j. j < TMPMAP_MAX_PAGES \<Longrightarrow> tmp_used s j"
  | (slot) k where "FindFreeTmpMapSlot s = int k" "k < TMPMAP_MAX_PAGES" "\<not> tmp_used s k" "\<And>j. j < k \<Longrightarrow> tmp_used s j"
proof (cases "bm_scan (tmpmap_bitmap s) 0 32")
  case None
  with bm_scan_None [of "tmpmap_bitmap s" 0 32] show thesis
    by (intro full) (simp_all add: FindFreeTmpMapSlot_def free_slot_scan tmp_used_def)
next
  case (Some k)
  from bm_scan_Some [OF this] Some show thesis
    by (intro slot [of k]) (simp_all add: FindFreeTmpMapSlot_def free_slot_scan tmp_used_def)
qed

definition tmp_take :: "'a process_state_scheme \<Rightarrow> (nat \<times> 'a process_state_scheme) option" where
  "tmp_take s =
     (let slot = FindFreeTmpMapSlot s
      in if slot < 0 then None else map_option (Pair (nat slot)) (MarkTmpMapUsed (nat slot) s))"

definition tmp_drop :: "nat \<Rightarrow> 'a process_state_scheme \<Rightarrow> 'a process_state_scheme" where
  "tmp_drop k s = (case MarkTmpMapFree k s of Some s' \<Rightarrow> s' | None \<Rightarrow> s)"

lemma tmp_take_Some:
  assumes "tmp_take s = Some (k, s')"
  shows "k < TMPMAP_MAX_PAGES" "\<not> tmp_used s k" "tmp_used s' j \<longleftrightarrow> j = k \<or> tmp_used s j"
  using assms by (cases rule: FindFreeTmpMapSlot_cases [of s];
    auto simp: tmp_take_def MarkTmpMapUsed_def tmp_used_def bm_simps)+

lemma tmp_take_None: "tmp_take s = None \<Longrightarrow> j < TMPMAP_MAX_PAGES \<Longrightarrow> tmp_used s j"
  by (cases rule: FindFreeTmpMapSlot_cases [of s]) (auto simp: tmp_take_def MarkTmpMapUsed_def)

interpretation tmpmaps: slot_alloc "\<lambda>_. True" "\<lambda>s k. k < TMPMAP_MAX_PAGES" tmp_used tmp_take tmp_drop
  by unfold_locales
    (auto simp: tmp_take_Some tmp_drop_def MarkTmpMapFree_def tmp_used_def bm_simps dest: tmp_take_Some tmp_take_None [unfolded tmp_used_def])

section \<open>Addresses of the window\<close>

lemma TmpMapAddr_unat: "i < TMPMAP_MAX_PAGES \<Longrightarrow> unat (TmpMapAddrFromIndex i) = 0xF2000000 - i * 4096"
proof -
  assume i: "i < TMPMAP_MAX_PAGES"
  have u: "unat (of_nat i * 4096 :: u32) = i * 4096" using i by (simp add: unat_word_ariths unat_of_nat)
  then have "of_nat i * 4096 \<le> (0xF2000000 :: u32)" using i by (simp add: word_le_nat_alt)
  from unat_sub [OF this] u show ?thesis by (simp add: TmpMapAddrFromIndex_def)
qed

lemma TmpMapAddr_aligned: "i < TMPMAP_MAX_PAGES \<Longrightarrow> isaligned (TmpMapAddrFromIndex i) PAGE_SIZE"
proof -
  assume i: "i < TMPMAP_MAX_PAGES"
  have "unat (TmpMapAddrFromIndex i) = (0xF2000 - i) * 4096" using TmpMapAddr_unat [OF i] i by (simp add: algebra_simps)
  then show ?thesis by (simp add: isaligned_def word_unat_eq_iff unat_mod_distrib)
qed

lemma TmpMapAddr_inj: "i < TMPMAP_MAX_PAGES \<Longrightarrow> j < TMPMAP_MAX_PAGES \<Longrightarrow> TmpMapAddrFromIndex i = TmpMapAddrFromIndex j \<Longrightarrow> i = j"
  using TmpMapAddr_unat [of i] TmpMapAddr_unat [of j] by simp

section \<open>The list of processes\<close>

text \<open>
  A segment of the doubly linked list: from \<open>p\<close>, the processes are \<open>xs\<close>, each pointing back to the one before it
  (the first one to \<open>before\<close>), and the last one points to \<open>q\<close>.
\<close>

primrec segment :: "(ptr \<rightharpoonup> Process) \<Rightarrow> ptr \<Rightarrow> ptr \<Rightarrow> ptr list \<Rightarrow> ptr \<Rightarrow> bool" where
  "segment m before p [] q \<longleftrightarrow> p = q"
| "segment m before p (x # xs) q \<longleftrightarrow>
     p = x \<and> x \<noteq> 0 \<and> (\<exists>pr. m x = Some pr \<and> p_prev pr = before \<and> segment m x (p_next pr) xs q)"

definition processes_ok :: "'a process_state_scheme \<Rightarrow> ptr list \<Rightarrow> bool" where
  "processes_ok s ps \<longleftrightarrow> distinct ps \<and> segment (procs s) 0 (process_list s) ps 0"

lemma segment_append:
  "segment m before p (xs @ ys) q \<longleftrightarrow> (\<exists>r. segment m before p xs r \<and> segment m (last (before # xs)) r ys q)"
  by (induction xs arbitrary: before p) auto

lemma segment_cong: "(\<And>x. x \<in> set xs \<Longrightarrow> m' x = m x) \<Longrightarrow> segment m' before p xs q = segment m before p xs q"
  by (induction xs arbitrary: before p) auto

lemma segment_chain: "segment (procs s) before p xs 0 \<Longrightarrow> chain (next_process s) p xs"
  by (induction xs arbitrary: before p) (auto simp: next_process_def)

lemma segment_procs: "segment m before p xs q \<Longrightarrow> x \<in> set xs \<Longrightarrow> x \<noteq> 0 \<and> (\<exists>pr. m x = Some pr)"
  by (induction xs arbitrary: before p) auto

lemma segment_set_next:
  assumes "segment m before p (xs @ [x]) q" and "x \<notin> set xs" and "m x = Some pr"
  shows "segment (m(x \<mapsto> pr\<lparr>p_next := q'\<rparr>)) before p (xs @ [x]) q'"
proof -
  have "segment (m(x \<mapsto> pr\<lparr>p_next := q'\<rparr>)) before p xs r = segment m before p xs r" for r
    using assms(2) by (intro segment_cong) auto
  with assms show ?thesis by (auto simp: segment_append)
qed

lemma segment_set_prev:
  assumes "segment m before p (x # xs) q" and "x \<notin> set xs" and "m x = Some pr"
  shows "segment (m(x \<mapsto> pr\<lparr>p_prev := before'\<rparr>)) before' p (x # xs) q"
proof -
  have "segment (m(x \<mapsto> pr\<lparr>p_prev := before'\<rparr>)) b r xs q = segment m b r xs q" for b r
    using assms(2) by (intro segment_cong) auto
  with assms show ?thesis by auto
qed

lemma find_process_segment:
  "segment (procs s) before p xs 0 \<Longrightarrow>
     find_process pid p s = Some (case find (\<lambda>x. map_option p_pid (procs s x) = Some pid) xs of Some x \<Rightarrow> x | None \<Rightarrow> 0)"
proof (induction xs arbitrary: before p)
  case Nil
  then show ?case by (subst find_process.simps) simp
next
  case (Cons x xs)
  then obtain pr where pr: "p = x" "x \<noteq> 0" "procs s x = Some pr" "segment (procs s) x (p_next pr) xs 0" by auto
  from pr Cons.IH [OF pr(4)] show ?case by (subst find_process.simps) simp
qed

lemma append_process_ok:
  assumes ok: "processes_ok s ps" and p: "p \<noteq> 0" "p \<notin> set ps" "procs s p = Some pr" "p_next pr = 0"
  shows "\<exists>s'. append_process p s = Some s' \<and> processes_ok s' (ps @ [p])"
proof (cases ps rule: rev_cases)
  case Nil
  with ok p show ?thesis by (auto simp: processes_ok_def append_process_def upd_process_def)
next
  case (snoc xs x)
  note seg = ok [unfolded processes_ok_def snoc]
  then have x: "process_list s \<noteq> 0" "x \<notin> set xs" "x \<noteq> p" "distinct (xs @ [x])"
    using p(2) snoc by (cases xs; auto)+
  obtain qr where qr: "procs s x = Some qr" using seg segment_procs by fastforce
  have l: "last_node (next_process s) (process_list s) = Some x"
    using chain_snoc [OF segment_chain, of s 0 "process_list s" xs x] seg by blast
  let ?m = "(procs s)(p \<mapsto> pr\<lparr>p_prev := x\<rparr>)"
  have a: "append_process p s = Some (s\<lparr>procs := ?m(x \<mapsto> qr\<lparr>p_next := p\<rparr>)\<rparr>)"
    using l x qr p(3) by (simp add: append_process_def upd_process_def)
  have "segment ?m 0 (process_list s) (xs @ [x]) 0 = segment (procs s) 0 (process_list s) (xs @ [x]) 0"
    using p(2) snoc by (intro segment_cong) auto
  with seg have "segment ?m 0 (process_list s) (xs @ [x]) 0" by simp
  then have "segment (?m(x \<mapsto> qr\<lparr>p_next := p\<rparr>)) 0 (process_list s) (xs @ [x]) p"
    using x(2,3) qr by (intro segment_set_next) auto
  then have "segment (?m(x \<mapsto> qr\<lparr>p_next := p\<rparr>)) 0 (process_list s) ((xs @ [x]) @ [p]) 0"
    using p x(3) by (subst segment_append) auto
  with a x(4) p(2) snoc show ?thesis by (auto simp: processes_ok_def)
qed

text \<open>
  Joining the two parts of the list around the process that is taken out: the one before it points to the one
  after it and back.
\<close>

lemma segment_join:
  assumes "segment m 0 h us p" and "segment m p q vs 0" and "distinct (us @ vs)" and "q = hd (vs @ [0])"
    and m': "\<And>x. x \<noteq> last (0 # us) \<Longrightarrow> x \<noteq> q \<Longrightarrow> m' x = m x"
    and u: "us \<noteq> [] \<Longrightarrow> m' (last us) = map_option (\<lambda>pr. pr\<lparr>p_next := q\<rparr>) (m (last us))"
    and v: "vs \<noteq> [] \<Longrightarrow> m' q = map_option (\<lambda>pr. pr\<lparr>p_prev := last (0 # us)\<rparr>) (m q)"
  shows "segment m' 0 (if us = [] then q else h) (us @ vs) 0"
proof -
  have front: "segment m' 0 (if us = [] then q else h) us q"
  proof (cases us rule: rev_cases)
    case Nil
    then show ?thesis by simp
  next
    case (snoc xs x)
    obtain pr where pr: "m x = Some pr" using segment_procs [OF assms(1)] snoc by auto
    have "segment (m(x \<mapsto> pr\<lparr>p_next := q\<rparr>)) 0 h (xs @ [x]) q"
      using assms(1,3) snoc pr by (intro segment_set_next) auto
    moreover have "m' y = (m(x \<mapsto> pr\<lparr>p_next := q\<rparr>)) y" if y: "y \<in> set (xs @ [x])" for y
    proof -
      have "vs \<noteq> [] \<Longrightarrow> y \<noteq> q" using y assms(3,4) snoc by (cases vs) auto
      moreover have "y \<noteq> 0" using y segment_procs [OF assms(1)] snoc by auto
      ultimately have "y \<noteq> q" using assms(4) by (cases vs) auto
      with u m' [of y] pr snoc show ?thesis by auto
    qed
    ultimately have "segment m' 0 h (xs @ [x]) q" using segment_cong [of "xs @ [x]" m'] by blast
    with snoc show ?thesis by simp
  qed
  have back': "segment m' (last (0 # us)) q vs 0"
  proof (cases vs)
    case Nil
    with assms(4) show ?thesis by simp
  next
    case (Cons y ys)
    then have q: "q = y" using assms(4) by simp
    obtain pr where pr: "m y = Some pr" using segment_procs [OF assms(2)] Cons by auto
    have "segment (m(y \<mapsto> pr\<lparr>p_prev := last (0 # us)\<rparr>)) (last (0 # us)) q (y # ys) 0"
      using assms(2,3) Cons pr by (intro segment_set_prev) auto
    moreover have "m' z = (m(y \<mapsto> pr\<lparr>p_prev := last (0 # us)\<rparr>)) z" if z: "z \<in> set (y # ys)" for z
    proof -
      have "z \<noteq> 0" using z segment_procs [OF assms(2)] Cons by auto
      then have "z \<noteq> last (0 # us)" using z assms(3) Cons by (cases us rule: rev_cases) auto
      with v m' [of z] pr q Cons show ?thesis by auto
    qed
    ultimately have "segment m' (last (0 # us)) q (y # ys) 0" using segment_cong [of "y # ys" m'] by blast
    with Cons show ?thesis by simp
  qed
  from front back' show ?thesis by (auto simp: segment_append)
qed

lemma unlink_process_ok:
  assumes ok: "processes_ok s ps" and p: "p \<in> set ps"
  shows "\<exists>s'. unlink_process p s = Some s' \<and> processes_ok s' (remove1 p ps)"
proof -
  obtain us vs where ps: "ps = us @ p # vs" using p by (auto dest: split_list)
  note d = ok [unfolded processes_ok_def ps]
  then obtain pr where pr: "p \<noteq> 0" "procs s p = Some pr" "segment (procs s) 0 (process_list s) us p"
    "p_prev pr = last (0 # us)" "segment (procs s) p (p_next pr) vs 0"
    by (auto simp: segment_append)
  let ?q = "p_next pr" and ?u = "last (0 # us)"
  have q: "?q = hd (vs @ [0])" using pr(5) by (cases vs) auto
  have u0: "?u = 0 \<longleftrightarrow> us = []" using segment_procs [OF pr(3)] by (cases us rule: rev_cases) auto
  have q0: "?q = 0 \<longleftrightarrow> vs = []" using segment_procs [OF pr(5)] q by (cases vs) auto
  have up: "us \<noteq> [] \<Longrightarrow> \<exists>ur. procs s (last us) = Some ur" using segment_procs [OF pr(3)] by auto
  have vp: "vs \<noteq> [] \<Longrightarrow> \<exists>vr. procs s ?q = Some vr" using segment_procs [OF pr(5)] q by (cases vs) auto
  have ne: "us \<noteq> [] \<Longrightarrow> last us \<noteq> p" "vs \<noteq> [] \<Longrightarrow> ?q \<noteq> p" "us \<noteq> [] \<Longrightarrow> vs \<noteq> [] \<Longrightarrow> last us \<noteq> ?q"
    using d q by (cases vs; cases us rule: rev_cases; auto)+
  let ?m1 = "if us = [] then procs s else (procs s)(last us := map_option (\<lambda>r. r\<lparr>p_next := ?q\<rparr>) (procs s (last us)))"
  let ?m2 = "if vs = [] then ?m1 else ?m1(?q := map_option (\<lambda>r. r\<lparr>p_prev := ?u\<rparr>) (procs s ?q))"
  let ?s' = "s\<lparr>process_list := (if us = [] then ?q else process_list s), procs := ?m2(p \<mapsto> pr\<lparr>p_next := 0, p_prev := 0\<rparr>)\<rparr>"
  have e: "unlink_process p s = Some ?s'"
    using pr(2,4) u0 q0 up vp ne by (cases "us = []"; cases "vs = []") (auto simp: unlink_process_def upd_process_def fun_upd_twist)
  have "segment (procs ?s') 0 (if us = [] then ?q else process_list s) (us @ vs) 0"
  proof (rule segment_join [OF _ _ _ q])
    show "segment ((procs s)(p \<mapsto> pr\<lparr>p_next := 0, p_prev := 0\<rparr>)) 0 (process_list s) us p"
      using pr(3) d by (subst segment_cong [of us _ "procs s"]) auto
    show "segment ((procs s)(p \<mapsto> pr\<lparr>p_next := 0, p_prev := 0\<rparr>)) p ?q vs 0"
      using pr(5) d by (subst segment_cong [of vs _ "procs s"]) auto
    show "distinct (us @ vs)" using d by auto
  qed (use ne u0 in auto)
  then have "processes_ok ?s' (us @ vs)" using d by (simp add: processes_ok_def)
  moreover have "remove1 p ps = us @ vs" using d ps by (simp add: remove1_append)
  ultimately show ?thesis using e by simp
qed

section \<open>The kernel half of an address space\<close>

lemma entry_addr:
  assumes "isaligned pd PAGE_SIZE" and "i < 1024"
  shows "page_no (pd + 4 * of_nat i) = page_no pd" and "dword_no (pd + 4 * of_nat i) = i"
    and "pd < PAGE_TABLE_BASE \<Longrightarrow> pd + 4 * of_nat i < PAGE_TABLE_BASE"
proof -
  obtain k where k: "unat pd = k * 4096" using unat_aligned [of pd] assms(1) by simp
  have "unat pd < 4294967296" by simp
  with k have "k < 1048576" by simp
  then have u: "unat (pd + 4 * of_nat i) = k * 4096 + 4 * i"
    using assms(2) k by (simp add: unat_word_ariths unat_of_nat)
  then show "page_no (pd + 4 * of_nat i) = page_no pd" "dword_no (pd + 4 * of_nat i) = i"
    using assms(2) k by (simp_all add: frame_no_nat dword_no_def)
  show "pd + 4 * of_nat i < PAGE_TABLE_BASE" if "pd < PAGE_TABLE_BASE"
  proof -
    from that k have "k * 4096 < 1047552 * 4096" by (simp add: word_less_nat_alt)
    then have "k < 1047552" by simp
    with u assms(2) show ?thesis by (simp add: word_less_nat_alt)
  qed
qed

lemma copy_kernel_space_spec:
  assumes "vm_inv s" and "writable_at s (page_no pd) k" and pd: "isaligned pd PAGE_SIZE" "pd < PAGE_TABLE_BASE" and "i + n \<le> 1024"
  shows "copy_kernel_space pd i n s =
    Some (s\<lparr>pmem := (pmem s)(k := (\<lambda>j. if i \<le> j \<and> j < i + n then pde s j else pmem s k j))\<rparr>)"
  using assms(1,2,5)
proof (induction n arbitrary: i s)
  case 0
  have "(pmem s)(k := (\<lambda>j. if i \<le> j \<and> j < i + 0 then pde s j else pmem s k j)) = pmem s" by (auto simp: fun_eq_iff)
  then show ?case by simp
next
  case (Suc n)
  have i: "i < 1024" using Suc.prems(3) by simp
  then have ui: "unat (of_nat i :: u32) = i" by (simp add: unat_of_nat)
  have "stack_cell s (pd + 4 * of_nat i) (k, i)"
    using entry_addr [OF pd(1) i] pd(2) Suc.prems(2) by (simp add: stack_cell_def)
  then have st: "store32 (pd + 4 * of_nat i) v s = Some (poke k i v s)" for v by (simp add: store_cell set_word_def)
  have nt: "\<not> table_frame s k" using Suc.prems(2) by (auto simp: writable_at_def)
  note p = poke_data [OF nt Suc.prems(1), of i "pde s i"]
  have "pmem (poke k i (pde s i) s) (pd_frame s) = pmem s (pd_frame s)" using nt by (auto simp: table_frame_def)
  then have e: "pde (poke k i (pde s i) s) = pde s" by (simp add: pde_def fun_eq_iff)
  have "copy_kernel_space pd i (Suc n) s = copy_kernel_space pd (Suc i) n (poke k i (pde s i) s)"
    using st load_pd [OF Suc.prems(1), of "of_nat i"] i ui by simp
  also have "\<dots> = Some (s\<lparr>pmem := (pmem s)(k := (\<lambda>j. if i \<le> j \<and> j < i + Suc n then pde s j else pmem s k j))\<rparr>)"
    using p Suc.prems e by (subst Suc.IH) (auto simp: poke_def fun_eq_iff)
  finally show ?case .
qed

text \<open>An address space whose directory repeats the entries of the kernel translates the kernel's addresses alike.\<close>

lemma vmap_shared:
  assumes "\<not> table_frame s k" and "frame_no a = k" and "page div 1024 < 1023"
    and "pmem s' = (pmem s)(k := d)" and "cr3 s' = a" and "d (page div 1024) = pde s (page div 1024)"
  shows "vmap s' page = vmap s page"
proof -
  have "pde s' (page div 1024) = pde s (page div 1024)" using assms by (simp add: pde_def pd_frame_def)
  then have "pt_frame s' (page div 1024) = pt_frame s (page div 1024)" "pd_present s' (page div 1024) = pd_present s (page div 1024)"
    by (simp_all add: pt_frame_def pd_present_def)
  moreover have "pt_frame s (page div 1024) \<noteq> k" if "pd_present s (page div 1024)"
    using that assms(1,3) by (auto simp: table_frame_def)
  ultimately show ?thesis using assms(4) by (auto simp: vmap_def)
qed

section \<open>Properties\<close>



text \<open>
  C19. The list of processes. On a well-formed doubly linked list, \<open>FindProcessByID\<close> always comes back with the
  first process of that number (or null), a new process is appended at the end, and taking any process out leaves
  the well-formed list of the others.
\<close>

theorem process_list_correct:
  assumes "processes_ok s ps"
  shows "FindProcessByID pid s = Some (case find (\<lambda>p. map_option p_pid (procs s p) = Some pid) ps of Some p \<Rightarrow> p | None \<Rightarrow> 0) \<and>
    (\<forall>p pr. p \<noteq> 0 \<and> p \<notin> set ps \<and> procs s p = Some pr \<and> p_next pr = 0 \<longrightarrow>
       (\<exists>s'. append_process p s = Some s' \<and> processes_ok s' (ps @ [p]))) \<and>
    (\<forall>p \<in> set ps. \<exists>s'. unlink_process p s = Some s' \<and> processes_ok s' (remove1 p ps))"
proof -
  have "FindProcessByID pid s = find_process pid (process_list s) s"
    by (simp add: FindProcessByID_def find_process.simps [of pid 0])
  with assms find_process_segment [of s 0 "process_list s" ps pid] show ?thesis
    using append_process_ok [OF assms] unlink_process_ok [OF assms] by (auto simp: processes_ok_def)
qed


section \<open>Examples\<close>

text \<open>The process of the earlier examples, a second one after it, and a third one that is not in the list.\<close>

definition ex_procs :: process_state where
  "ex_procs = irq_state.extend
     (ex_irq\<lparr>procs := [0xC0300000 \<mapsto> ex_client\<lparr>p_next := 0xC0301000\<rparr>,
       0xC0301000 \<mapsto> (ex_process 0)\<lparr>p_pid := 8, p_prev := 0xC0300000\<rparr>, 0xC0302000 \<mapsto> (ex_process 0)\<lparr>p_pid := 9\<rparr>]\<rparr>)
     \<lparr>tmpmap_bitmap = (\<lambda>_. 0), virtual_maps = Map.empty, process_id_counter = 10, process_list = 0xC0300000\<rparr>"

lemma ex_procs_simps [simp]:
  "procs ex_procs = [0xC0300000 \<mapsto> ex_client\<lparr>p_next := 0xC0301000\<rparr>,
     0xC0301000 \<mapsto> (ex_process 0)\<lparr>p_pid := 8, p_prev := 0xC0300000\<rparr>, 0xC0302000 \<mapsto> (ex_process 0)\<lparr>p_pid := 9\<rparr>]"
  "process_list ex_procs = 0xC0300000" "tmpmap_bitmap ex_procs = (\<lambda>_. 0)"
  by (simp_all add: ex_procs_def irq_state.extend_def ex_irq_def object_state.extend_def)

lemma processes_ok_ex_procs: "processes_ok ex_procs [0xC0300000, 0xC0301000]"
  by (simp add: processes_ok_def ex_client_def ex_process_def)



theorem process_list_correct_witness:
  "FindProcessByID 8 ex_procs = Some 0xC0301000 \<and> FindProcessByID 9 ex_procs = Some 0 \<and>
   (\<exists>s'. append_process 0xC0302000 ex_procs = Some s' \<and> processes_ok s' [0xC0300000, 0xC0301000, 0xC0302000]) \<and>
   (\<exists>s'. unlink_process 0xC0300000 ex_procs = Some s' \<and> processes_ok s' [0xC0301000])"
proof -
  note l = process_list_correct [OF processes_ok_ex_procs]
  have "FindProcessByID 8 ex_procs = Some 0xC0301000" using l [of 8] by (simp add: ex_client_def)
  moreover have "FindProcessByID 9 ex_procs = Some 0" using l [of 9] by (simp add: ex_client_def)
  moreover have "\<exists>s'. append_process 0xC0302000 ex_procs = Some s' \<and> processes_ok s' [0xC0300000, 0xC0301000, 0xC0302000]"
    using l [of 0] by (auto simp: ex_process_def)
  moreover have "\<exists>s'. unlink_process 0xC0300000 ex_procs = Some s' \<and> processes_ok s' [0xC0301000]"
    using l [of 0] by auto
  ultimately show ?thesis by blast
qed


end
