(* ===== verification/Devices.thy ===== *)
theory Devices
  imports Processes KString
begin

text \<open>
  The device manager (\<^verbatim>\<open>src/sys/iomgr/devmgr.c\<close>, \<^verbatim>\<open>node.c\<close>, \<^verbatim>\<open>class.h\<close>) and the list of output devices of
  the kernel (\<^verbatim>\<open>src/sys/video/output.c\<close>).
\<close>

section \<open>State\<close>

abbreviation MAX_DEVICE_NODE_NAME :: nat where "MAX_DEVICE_NODE_NAME \<equiv> 96"
abbreviation SIZEOF_DEVICENODE :: u32 where "SIZEOF_DEVICENODE \<equiv> 140"
abbreviation SIZEOF_OUTPUTNODE :: u32 where "SIZEOF_OUTPUTNODE \<equiv> 8"
abbreviation DEVCLASS_FRAMEBUFFER :: u64 where "DEVCLASS_FRAMEBUFFER \<equiv> 1"
abbreviation DEVCLASS_CONSOLE :: u64 where "DEVCLASS_CONSOLE \<equiv> 2"

record DeviceManagerNodeAttributes =
  dev_name :: string
  claimed :: bool
  mmio_addr :: u64
  mmio_len :: u32
  kernel_mapped_addr :: u32

record DeviceInterfaceTable =
  device_class :: u64
  ddo :: ptr

record DeviceManagerNode =
  attr :: DeviceManagerNodeAttributes
  devtable :: DeviceInterfaceTable
  private_state :: ptr
  dev_child :: ptr
  dev_next :: ptr

record OutputNode =
  out_node :: ptr
  out_next :: ptr

record device_state = process_state +
  devices :: "ptr \<rightharpoonup> DeviceManagerNode"
  device_root :: ptr
  output_nodes :: "ptr \<rightharpoonup> OutputNode"
  output_list :: ptr
  output_current :: ptr

text \<open>What \<open>kzalloc\<close> leaves in a new node.\<close>

definition zero_node :: DeviceManagerNode where
  "zero_node = \<lparr>attr = \<lparr>dev_name = replicate MAX_DEVICE_NODE_NAME NUL, claimed = False, mmio_addr = 0, mmio_len = 0, kernel_mapped_addr = 0\<rparr>,
     devtable = \<lparr>device_class = 0, ddo = 0\<rparr>, private_state = 0, dev_child = 0, dev_next = 0\<rparr>"

definition SupportsClass :: "DeviceManagerNode \<Rightarrow> u64 \<Rightarrow> bool" where
  "SupportsClass dev cls \<longleftrightarrow> device_class (devtable dev) AND cls \<noteq> 0"

definition upd_device :: "ptr \<Rightarrow> (DeviceManagerNode \<Rightarrow> DeviceManagerNode) \<Rightarrow> 'a device_state_scheme \<Rightarrow> 'a device_state_scheme option" where
  "upd_device p f s = map_option (\<lambda>d. s\<lparr>devices := (devices s)(p \<mapsto> f d)\<rparr>) (devices s p)"

definition node_name :: "ptr \<Rightarrow> 'a device_state_scheme \<Rightarrow> string option" where
  "node_name p s = map_option (\<lambda>d. dev_name (attr d)) (devices s p)"

text \<open>\<open>strncpy\<close> into the name of a node, and the zero behind it.\<close>

definition set_name :: "ptr \<Rightarrow> string \<Rightarrow> 'a device_state_scheme \<Rightarrow> 'a device_state_scheme option" where
  "set_name p new_name s = do {
     old \<leftarrow> node_name p s;
     copied \<leftarrow> strncpy old new_name MAX_DEVICE_NODE_NAME;
     name \<leftarrow> wr copied (MAX_DEVICE_NODE_NAME - 1) NUL;
     upd_device p (\<lambda>d. d\<lparr>attr := (attr d)\<lparr>dev_name := name\<rparr>\<rparr>) s
   }"

section \<open>Nodes\<close>

definition GetRootDeviceManagerNode :: "'a device_state_scheme \<Rightarrow> ptr" where
  "GetRootDeviceManagerNode s = device_root s"

definition MakeDeviceNode :: "string option \<Rightarrow> u64 \<Rightarrow> 'a device_state_scheme \<Rightarrow> (ptr \<times> 'a device_state_scheme) option" where
  "MakeDeviceNode name cls s =
     (case name of
        None \<Rightarrow> Some (0, s)
      | Some str \<Rightarrow> do {
          first \<leftarrow> rd str 0;
          if first = NUL then Some (0, s)
          else do {
            len \<leftarrow> strlen str;
            if len > MAX_DEVICE_NODE_NAME then Some (0, s)
            else do {
              (node, s1) \<leftarrow> kzalloc SIZEOF_DEVICENODE s;
              if node = 0 then Some (0, s1)
              else do {
                s2 \<leftarrow> set_name node str (s1\<lparr>devices := (devices s1)(node \<mapsto> zero_node)\<rparr>);
                s3 \<leftarrow> upd_device node (\<lambda>d. d\<lparr>attr := (attr d)\<lparr>claimed := False\<rparr>, dev_next := 0, dev_child := 0,
                  devtable := \<lparr>device_class = cls, ddo = 0\<rparr>, private_state := 0\<rparr>) s2;
                Some (node, s3)
              }
            }
          }
        })"

definition RenameDeviceNode :: "ptr \<Rightarrow> string \<Rightarrow> 'a device_state_scheme \<Rightarrow> 'a device_state_scheme option" where
  "RenameDeviceNode node new_name s = set_name node new_name s"

section \<open>Output devices\<close>

definition GetAllOutputsKnown :: "'a device_state_scheme \<Rightarrow> ptr" where
  "GetAllOutputsKnown s = output_list s"

definition next_output :: "'a device_state_scheme \<Rightarrow> ptr \<Rightarrow> ptr option" where
  "next_output s p = map_option out_next (output_nodes s p)"

text \<open>A failed allocation leaves the list as it was: the pointer that holds the result was null before.\<close>

definition AddNewOutputDevice :: "ptr \<Rightarrow> 'a device_state_scheme \<Rightarrow> 'a device_state_scheme option" where
  "AddNewOutputDevice dev s = do {
     d \<leftarrow> devices s dev;
     if \<not> SupportsClass d DEVCLASS_CONSOLE \<and> \<not> SupportsClass d DEVCLASS_FRAMEBUFFER then Some s
     else do {
       iter \<leftarrow> (if output_list s = 0 then Some 0 else last_node (next_output s) (output_list s));
       (n, s1) \<leftarrow> kzalloc SIZEOF_OUTPUTNODE s;
       if n = 0 then Some s1
       else do {
         let s2 = s1\<lparr>output_nodes := (output_nodes s1)(n \<mapsto> \<lparr>out_node = dev, out_next = 0\<rparr>)\<rparr>;
         s3 \<leftarrow> (if iter = 0 then Some (s2\<lparr>output_list := n\<rparr>)
               else map_option (\<lambda>out. s2\<lparr>output_nodes := (output_nodes s2)(iter \<mapsto> out\<lparr>out_next := n\<rparr>)\<rparr>) (output_nodes s2 iter));
         Some (if output_current s3 = 0 then s3\<lparr>output_current := output_list s3\<rparr> else s3)
       }
     }
   }"

text \<open>The entry of a device and the one before it.\<close>

partial_function (option) find_output :: "ptr \<Rightarrow> ptr \<Rightarrow> ptr \<Rightarrow> 'a device_state_scheme \<Rightarrow> (ptr \<times> ptr) option" where
  "find_output node prev entry s =
     (if entry = 0 then Some (prev, 0)
      else Option.bind (output_nodes s entry) (\<lambda>out.
        if out_node out = node then Some (prev, entry) else find_output node entry (out_next out) s))"

definition RemoveKernelOutput :: "ptr \<Rightarrow> 'a device_state_scheme \<Rightarrow> (Status \<times> 'a device_state_scheme) option" where
  "RemoveKernelOutput node s =
     (if output_list s = 0 \<or> output_current s = 0 then Some (STATUS_NOT_FOUND, s)
      else do {
        (prev, entry) \<leftarrow> find_output node 0 (output_list s) s;
        if entry = 0 then Some (STATUS_NOT_FOUND, s)
        else do {
          d \<leftarrow> devices s node;
          s1 \<leftarrow> unmap_pages (kernel_mapped_addr (attr d)) 0 (unat (pagealign (mmio_len (attr d)) div PAGE_SIZE)) s;
          e \<leftarrow> output_nodes s1 entry;
          s2 \<leftarrow> (if prev = 0 then Some (s1\<lparr>output_list := out_next e\<rparr>)
                else map_option (\<lambda>out. s1\<lparr>output_nodes := (output_nodes s1)(prev \<mapsto> out\<lparr>out_next := out_next e\<rparr>)\<rparr>) (output_nodes s1 prev));
          cur \<leftarrow> output_nodes s2 (output_current s2);
          Some (STATUS_OK,
            if out_node cur = node then s2\<lparr>output_current := (if out_next cur \<noteq> 0 then out_next cur else output_list s2)\<rparr> else s2)
        }
      })"

definition SelectPrimaryOutputDevice :: "ptr \<Rightarrow> 'a device_state_scheme \<Rightarrow> 'a device_state_scheme" where
  "SelectPrimaryOutputDevice node s = s\<lparr>output_current := node\<rparr>"

definition GetPrimaryOutputDevice :: "'a device_state_scheme \<Rightarrow> ptr" where
  "GetPrimaryOutputDevice s = output_current s"

section \<open>The tree of devices\<close>

definition InitDeviceManager :: "'a device_state_scheme \<Rightarrow> (Status \<times> 'a device_state_scheme) option" where
  "InitDeviceManager s =
     (if device_root s \<noteq> 0 then Some (STATUS_OK, s)
      else do {
        (r, s1) \<leftarrow> kzalloc SIZEOF_DEVICENODE s;
        if r = 0 then Some (STATUS_OUT_OF_MEMORY, s1)
        else do {
          s2 \<leftarrow> set_name r (''Devices'' @ [NUL]) (s1\<lparr>device_root := r, devices := (devices s1)(r \<mapsto> zero_node)\<rparr>);
          s3 \<leftarrow> upd_device r (\<lambda>d. d\<lparr>attr := (attr d)\<lparr>claimed := False\<rparr>, dev_next := 0, dev_child := 0\<rparr>) s2;
          Some (STATUS_OK, s3)
        }
      })"

definition next_device :: "'a device_state_scheme \<Rightarrow> ptr \<Rightarrow> ptr option" where
  "next_device s p = map_option dev_next (devices s p)"

definition AddDevice :: "ptr \<Rightarrow> ptr \<Rightarrow> 'a device_state_scheme \<Rightarrow> 'a device_state_scheme option" where
  "AddDevice parent new_node s = do {
     let actual_parent = (if parent \<noteq> 0 then parent else GetRootDeviceManagerNode s);
     if actual_parent = 0 then Some s
     else do {
       s1 \<leftarrow> upd_device new_node (\<lambda>d. d\<lparr>dev_next := 0\<rparr>) s;
       d \<leftarrow> devices s1 new_node;
       s2 \<leftarrow> (if SupportsClass d DEVCLASS_FRAMEBUFFER \<or> SupportsClass d DEVCLASS_CONSOLE then AddNewOutputDevice new_node s1 else Some s1);
       p \<leftarrow> devices s2 actual_parent;
       if dev_child p = 0 then upd_device actual_parent (\<lambda>d. d\<lparr>dev_child := new_node\<rparr>) s2
       else do {
         iter \<leftarrow> last_node (next_device s2) (dev_child p);
         upd_device iter (\<lambda>d. d\<lparr>dev_next := new_node\<rparr>) s2
       }
     }
   }"

text \<open>
  The loop over the children \<open>cur\<close> of \<open>node\<close>. It tests the first child of each child, so the node it returns is
  the one above the parent.
\<close>

partial_function (option) find_parent :: "ptr \<Rightarrow> ptr \<Rightarrow> ptr \<Rightarrow> 'a device_state_scheme \<Rightarrow> ptr option" where
  "find_parent dev node cur s =
     (if cur = 0 then Some 0
      else Option.bind (devices s cur) (\<lambda>c.
        if dev_child c = dev then Some node
        else Option.bind (find_parent dev cur (dev_child c) s) (\<lambda>p.
          if p \<noteq> 0 then Some p else find_parent dev node (dev_next c) s)))"

definition FindDeviceParent :: "ptr \<Rightarrow> ptr \<Rightarrow> 'a device_state_scheme \<Rightarrow> ptr option" where
  "FindDeviceParent dev node s =
     (if node = 0 \<or> dev = 0 then Some 0
      else Option.bind (devices s node) (\<lambda>n. find_parent dev node (dev_child n) s))"

definition FindDeviceParentOf :: "ptr \<Rightarrow> 'a device_state_scheme \<Rightarrow> ptr option" where
  "FindDeviceParentOf dev s = FindDeviceParent dev (device_root s) s"

partial_function (option) unlink_sibling :: "ptr \<Rightarrow> ptr \<Rightarrow> ptr \<Rightarrow> 'a device_state_scheme \<Rightarrow> 'a device_state_scheme option" where
  "unlink_sibling device following iter s =
     Option.bind (devices s iter) (\<lambda>d.
       if dev_next d = 0 then Some s
       else if dev_next d = device then upd_device iter (\<lambda>d. d\<lparr>dev_next := following\<rparr>) s
       else unlink_sibling device following (dev_next d) s)"

text \<open>The part of \<open>RemoveDevice\<close> behind the loop over the children.\<close>

definition free_device :: "ptr \<Rightarrow> 'a device_state_scheme \<Rightarrow> 'a device_state_scheme option" where
  "free_device device s = do {
     parent \<leftarrow> FindDeviceParentOf device s;
     s1 \<leftarrow> (if parent \<noteq> 0 then do {
             p \<leftarrow> devices s parent;
             d \<leftarrow> devices s device;
             if dev_child p = 0 then Some s
             else if dev_child p = device then upd_device parent (\<lambda>q. q\<lparr>dev_child := dev_next d\<rparr>) s
             else unlink_sibling device (dev_next d) (dev_child p) s
           } else Some s);
     s2 \<leftarrow> kfree device s1;
     Some (s2\<lparr>devices := (devices s2)(device := None)\<rparr>)
   }"

text \<open>The loop over the children, each of which is removed with its own children.\<close>

partial_function (option) remove_children :: "ptr \<Rightarrow> 'a device_state_scheme \<Rightarrow> 'a device_state_scheme option" where
  "remove_children c s =
     (if c = 0 then Some s
      else Option.bind (devices s c) (\<lambda>d.
        Option.bind (if c = device_root s then Some s
                     else Option.bind (remove_children (dev_child d) s) (free_device c)) (\<lambda>s1.
          remove_children (dev_next d) s1)))"

definition RemoveDevice :: "ptr \<Rightarrow> 'a device_state_scheme \<Rightarrow> (Status \<times> 'a device_state_scheme) option" where
  "RemoveDevice device s =
     (if device = 0 \<or> device = device_root s then Some (STATUS_BAD_ARGUMENT, s)
      else do {
        d \<leftarrow> devices s device;
        s1 \<leftarrow> remove_children (dev_child d) s;
        s2 \<leftarrow> free_device device s1;
        Some (STATUS_OK, s2)
      })"

section \<open>Looking up a path\<close>

abbreviation SLASH :: char where "SLASH \<equiv> CHR ''/''"

function skip_slashes :: "string \<Rightarrow> nat \<Rightarrow> nat option" where
  "skip_slashes path i = (case rd path i of None \<Rightarrow> None | Some c \<Rightarrow> if c = SLASH then skip_slashes path (Suc i) else Some i)"
  by pat_completeness auto
termination
  by (relation "measure (\<lambda>(s, i). length s - i)") (auto dest: rd_less rd_less_sym)

function token_end :: "string \<Rightarrow> nat \<Rightarrow> nat option" where
  "token_end path i =
     (case rd path i of None \<Rightarrow> None | Some c \<Rightarrow> if c \<noteq> NUL \<and> c \<noteq> SLASH then token_end path (Suc i) else Some i)"
  by pat_completeness auto
termination
  by (relation "measure (\<lambda>(s, i). length s - i)") (auto dest: rd_less rd_less_sym)

declare skip_slashes.simps [simp del] token_end.simps [simp del]

partial_function (option) find_child :: "string \<Rightarrow> ptr \<Rightarrow> 'a device_state_scheme \<Rightarrow> ptr option" where
  "find_child token child s =
     (if child = 0 then Some 0
      else Option.bind (devices s child) (\<lambda>d.
        Option.bind (strcmp (dev_name (attr d)) token) (\<lambda>r.
          if r = 0 then Some child else find_child token (dev_next d) s)))"

partial_function (option) walk_path :: "string \<Rightarrow> nat \<Rightarrow> ptr \<Rightarrow> 'a device_state_scheme \<Rightarrow> ptr option" where
  "walk_path path start0 node s =
     Option.bind (skip_slashes path start0) (\<lambda>start.
       Option.bind (rd path start) (\<lambda>c.
         if c = NUL then Some node
         else Option.bind (token_end path start) (\<lambda>tend.
           let len = tend - start in
           if len \<ge> MAX_DEVICE_NODE_NAME + 4 then Some 0
           else Option.bind (devices s node) (\<lambda>d.
             Option.bind (find_child (take len (drop start path) @ [NUL]) (dev_child d) s) (\<lambda>child.
               if child = 0 then Some 0 else walk_path path tend child s)))))"

definition GetDeviceFromPath :: "string \<Rightarrow> 'a device_state_scheme \<Rightarrow> ptr option" where
  "GetDeviceFromPath path s = do {
     first \<leftarrow> rd path 0;
     if first = NUL \<or> first \<noteq> SLASH then Some 0
     else do {
       let rest = drop 1 path;
       next_slash \<leftarrow> strchr (Some rest) 47;
       first_len \<leftarrow> (case next_slash of Some i \<Rightarrow> Some i | None \<Rightarrow> strlen rest);
       root_first \<leftarrow> (if first_len > 0 then do {
           name \<leftarrow> node_name (device_root s) s;
           r \<leftarrow> strncmp rest name first_len;
           if r = 0 then map_option (\<lambda>c. c = NUL) (rd name first_len) else Some False
         } else Some False);
       let start = (if root_first then (case next_slash of Some i \<Rightarrow> 1 + i + 1 | None \<Rightarrow> 1 + first_len) else 1);
       walk_path path start (device_root s) s
     }
   }"

declare find_output.simps [code] find_parent.simps [code] unlink_sibling.simps [code] remove_children.simps [code]
  find_child.simps [code] walk_path.simps [code]

end
