(* ===== verification/DeviceTree.thy ===== *)
theory DeviceTree
  imports Devices ProcessTable
begin

text \<open>
  Looking up devices by path: what \<open>GetDeviceFromPath\<close> finds in a well-formed tree, stated against a relation that follows
  the components of a path from node to node.
\<close>

section \<open>Paths and trees\<close>

definition component :: "string \<Rightarrow> bool" where
  "component c \<longleftrightarrow> c \<noteq> [] \<and> NUL \<notin> set c \<and> SLASH \<notin> set c \<and> length c < MAX_DEVICE_NODE_NAME + 4"

definition slashed :: "string list \<Rightarrow> string" where
  "slashed cs = concat (map (\<lambda>c. SLASH # c) cs)"

definition called :: "'a device_state_scheme \<Rightarrow> ptr \<Rightarrow> string \<Rightarrow> bool" where
  "called s p xs \<longleftrightarrow> (\<exists>name. node_name p s = Some name \<and> cstr name xs)"

definition children :: "'a device_state_scheme \<Rightarrow> ptr \<Rightarrow> ptr list \<Rightarrow> bool" where
  "children s p cs \<longleftrightarrow> (\<exists>d. devices s p = Some d \<and> chain (next_device s) (dev_child d) cs)"

text \<open>Every node has a zero terminated name and a list of children that ends.\<close>

definition tree_ok :: "'a device_state_scheme \<Rightarrow> bool" where
  "tree_ok s \<longleftrightarrow> (\<forall>p d. devices s p = Some d \<longrightarrow> (\<exists>xs. called s p xs) \<and> (\<exists>cs. children s p cs))"

text \<open>Following components from a node: the first child of each name, or null when there is none.\<close>

inductive resolves :: "'a device_state_scheme \<Rightarrow> ptr \<Rightarrow> string list \<Rightarrow> ptr \<Rightarrow> bool" for s :: "'a device_state_scheme" where
  here: "resolves s p [] p"
| missing: "children s p qs \<Longrightarrow> \<forall>q \<in> set qs. \<not> called s q c \<Longrightarrow> resolves s p (c # cs) 0"
| child: "children s p (us @ q # vs) \<Longrightarrow> \<forall>u \<in> set us. \<not> called s u c \<Longrightarrow> called s q c \<Longrightarrow> resolves s q cs r \<Longrightarrow>
    resolves s p (c # cs) r"

inductive_cases resolves_ConsE: "resolves s p (c # cs) r"

lemma called_unique: "called s p xs \<Longrightarrow> called s p ys \<Longrightarrow> xs = ys"
  by (auto simp: called_def dest: cstr_unique)

lemma chain_nodes: "chain (next_device s) p qs \<Longrightarrow> q \<in> set qs \<Longrightarrow> \<exists>d. devices s q = Some d"
  by (induction qs arbitrary: p) (auto simp: next_device_def)

lemma chain_nonzero: "chain nx p qs \<Longrightarrow> q \<in> set qs \<Longrightarrow> q \<noteq> 0"
  using chain_zero_notin by blast

lemma resolves_total: "tree_ok s \<Longrightarrow> devices s p = Some d \<Longrightarrow> \<exists>r. resolves s p cs r"
proof (induction cs arbitrary: p d)
  case Nil
  then show ?case using here by blast
next
  case (Cons c cs)
  then obtain qs where qs: "children s p qs" by (auto simp: tree_ok_def)
  show ?case
  proof (cases "\<exists>q \<in> set qs. called s q c")
    case False
    with qs show ?thesis using missing by blast
  next
    case True
    then obtain us q vs where q: "qs = us @ q # vs" "called s q c" "\<forall>u \<in> set us. \<not> called s u c"
      using split_list_first_prop [of qs "\<lambda>q. called s q c"] by blast
    have "\<exists>d. devices s q = Some d" using qs q(1) chain_nodes by (fastforce simp: children_def)
    then obtain r where "resolves s q cs r" using Cons.IH [OF Cons.prems(1)] by blast
    with qs q show ?thesis using child by blast
  qed
qed

section \<open>The children of a node\<close>

lemma next_device_Some: "next_device s p = Some q \<longleftrightarrow> (\<exists>d. devices s p = Some d \<and> dev_next d = q)"
  by (simp add: next_device_def)

lemma find_child_spec:
  assumes t: "tree_ok s" and c: "NUL \<notin> set c"
  shows "chain (next_device s) p qs \<Longrightarrow>
    find_child (c @ [NUL]) p s = Some (case find (\<lambda>q. called s q c) qs of Some q \<Rightarrow> q | None \<Rightarrow> 0)"
proof (induction qs arbitrary: p)
  case Nil
  then show ?case by (subst find_child.simps) simp
next
  case (Cons q qs)
  then obtain d where d: "p = q" "q \<noteq> 0" "devices s q = Some d" "chain (next_device s) (dev_next d) qs" by (auto simp: next_device_Some)
  obtain xs where xs: "called s q xs" using t d(3) by (auto simp: tree_ok_def)
  then have x: "cstr (dev_name (attr d)) xs" using d(3) by (simp add: called_def node_name_def)
  have "cstr (c @ [NUL]) c" using c by (simp add: cstr_def)
  from strcmp_cstr [OF x this] obtain r where r: "strcmp (dev_name (attr d)) (c @ [NUL]) = Some r" "r = 0 \<longleftrightarrow> xs = c" by blast
  have "called s q c \<longleftrightarrow> xs = c" using xs called_unique by blast
  with d r Cons.IH [OF d(4)] show ?case by (subst find_child.simps) simp
qed

section \<open>Reading a path\<close>

lemma rd_drop: "drop i path = c # rest \<Longrightarrow> rd path i = Some c"
  by (metis drop_eq_Nil list.simps(3) not_le_imp_less nth_via_drop rd_def)

lemma drop_step: "drop i path = c # rest \<Longrightarrow> drop (Suc i) path = rest"
  by (metis drop_Suc list.sel(3) tl_drop)

lemma token_end_spec:
  "drop i path = c @ e # rest \<Longrightarrow> e = NUL \<or> e = SLASH \<Longrightarrow> NUL \<notin> set c \<Longrightarrow> SLASH \<notin> set c \<Longrightarrow>
    token_end path i = Some (i + length c) \<and> drop (i + length c) path = e # rest"
proof (induction c arbitrary: i)
  case Nil
  then show ?case using rd_drop [of i path e rest] by (subst token_end.simps) auto
next
  case (Cons x c)
  have d: "drop i path = x # (c @ e # rest)" using Cons.prems(1) by simp
  from Cons.IH [OF drop_step [OF d]] Cons.prems(2-4)
  have "token_end path (Suc i) = Some (Suc i + length c) \<and> drop (Suc i + length c) path = e # rest" by simp
  with rd_drop [OF d] Cons.prems(3,4) show ?case by (subst token_end.simps) auto
qed

lemma skip_here: "drop i path = c # rest \<Longrightarrow> c \<noteq> SLASH \<Longrightarrow> skip_slashes path i = Some i"
  using rd_drop [of i path c rest] by (subst skip_slashes.simps) simp

lemma skip_one: "drop i path = SLASH # c # rest \<Longrightarrow> c \<noteq> SLASH \<Longrightarrow> skip_slashes path i = Some (Suc i)"
  using rd_drop [of i path SLASH "c # rest"] skip_here [OF drop_step, of i path SLASH c rest] by (subst skip_slashes.simps) simp

lemma slashed_simps [simp]: "slashed [] = []" "slashed (c # cs) = SLASH # c @ slashed cs" "slashed (cs @ ds) = slashed cs @ slashed ds"
  by (simp_all add: slashed_def)

text \<open>One round of the loop, from a place where a component starts.\<close>

lemma walk_step:
  assumes t: "tree_ok s" and c: "component c" and i: "skip_slashes path start = Some i" "drop i path = c @ slashed cs @ [NUL]"
    and p: "devices s p = Some d" "chain (next_device s) (dev_child d) qs"
  shows "walk_path path start p s =
    (case find (\<lambda>q. called s q c) qs of None \<Rightarrow> Some 0 | Some q \<Rightarrow> walk_path path (i + length c) q s)"
    and "drop (i + length c) path = slashed cs @ [NUL]"
proof -
  have c': "c \<noteq> []" "NUL \<notin> set c" "SLASH \<notin> set c" "length c < MAX_DEVICE_NODE_NAME + 4" using c by (simp_all add: component_def)
  then obtain x xs where x: "c = x # xs" "x \<noteq> NUL" by (cases c) auto
  obtain e rest where e: "slashed cs @ [NUL] = e # rest" "e = NUL \<or> e = SLASH" by (cases cs) auto
  have te: "token_end path i = Some (i + length c)" "drop (i + length c) path = e # rest"
    using token_end_spec [of i path c e rest] i(2) e c' by auto
  have rd: "rd path i = Some x" using i(2) x(1) by (simp add: rd_drop)
  have "take (length c) (drop i path) = c" using i(2) by simp
  moreover have "q \<noteq> 0" if "find (\<lambda>q. called s q c) qs = Some q" for q
    using that chain_nonzero [OF p(2)] by (auto simp: find_Some_iff)
  ultimately show "walk_path path start p s =
      (case find (\<lambda>q. called s q c) qs of None \<Rightarrow> Some 0 | Some q \<Rightarrow> walk_path path (i + length c) q s)"
    using i(1) rd x(2) te(1) c'(4) p(1) find_child_spec [OF t c'(2) p(2)]
    by (subst walk_path.simps) (simp add: Let_def split: option.splits)
  show "drop (i + length c) path = slashed cs @ [NUL]" using te(2) e(1) by simp
qed

lemma resolves_find:
  assumes "children s p qs" and "resolves s p (c # cs) r"
  shows "case find (\<lambda>q. called s q c) qs of None \<Rightarrow> r = 0 | Some q \<Rightarrow> resolves s q cs r"
proof -
  have same: "qs' = qs" if "children s p qs'" for qs' using assms(1) that chain_det by (fastforce simp: children_def)
  show ?thesis
  proof (rule resolves_ConsE [OF assms(2)])
    fix qs' assume a: "r = 0" "children s p qs'" "\<forall>q \<in> set qs'. \<not> called s q c"
    then have "find (\<lambda>q. called s q c) qs = None" using same by (auto simp: find_None_iff)
    with a(1) show ?thesis by simp
  next
    fix us q vs assume a: "children s p (us @ q # vs)" "\<forall>u \<in> set us. \<not> called s u c" "called s q c" "resolves s q cs r"
    have "find (\<lambda>q. called s q c) (us @ q # vs) = Some q" using a(2,3) by (induction us) auto
    with a(4) same [OF a(1)] show ?thesis by simp
  qed
qed

lemma walk_resolves:
  assumes t: "tree_ok s"
  shows "drop start path = slashed cs @ [NUL] \<Longrightarrow> \<forall>c \<in> set cs. component c \<Longrightarrow> devices s p = Some d \<Longrightarrow> resolves s p cs r \<Longrightarrow>
    walk_path path start p s = Some r"
proof (induction cs arbitrary: start p d)
  case Nil
  then have "r = p" by (auto elim: resolves.cases)
  with Nil.prems(1) rd_drop [of start path NUL "[]"] skip_here [of start path NUL "[]"] show ?case
    by (subst walk_path.simps) simp
next
  case (Cons c cs)
  have c: "component c" using Cons.prems(2) by simp
  then obtain x xs where x: "c = x # xs" "x \<noteq> SLASH" by (cases c) (auto simp: component_def)
  have i: "skip_slashes path start = Some (Suc start)" "drop (Suc start) path = c @ slashed cs @ [NUL]"
    using Cons.prems(1) x skip_one [of start path x "xs @ slashed cs @ [NUL]"] drop_step [of start path SLASH] by simp_all
  obtain qs where qs: "chain (next_device s) (dev_child d) qs" using t Cons.prems(3) by (auto simp: tree_ok_def children_def)
  note w = walk_step [OF t c i Cons.prems(3) qs]
  have "children s p qs" using qs Cons.prems(3) by (auto simp: children_def)
  note f = resolves_find [OF this Cons.prems(4)]
  show ?case
  proof (cases "find (\<lambda>q. called s q c) qs")
    case None
    with w(1) f show ?thesis by simp
  next
    case (Some q)
    then have "q \<in> set qs" by (auto simp: find_Some_iff)
    then obtain dq where "devices s q = Some dq" using chain_nodes [OF qs] by blast
    with Cons.IH [OF w(2) _ this] Cons.prems(2) f w(1) Some show ?thesis by simp
  qed
qed

text \<open>The same from the first component on, behind the slash that starts the path.\<close>

lemma walk_from_start:
  assumes t: "tree_ok s" and "drop start path = c @ slashed cs @ [NUL]" and "\<forall>x \<in> set (c # cs). component x" and p: "devices s p = Some d"
    and "resolves s p (c # cs) r"
  shows "walk_path path start p s = Some r"
proof -
  have c: "component c" using assms(3) by simp
  then obtain x xs where x: "c = x # xs" "x \<noteq> SLASH" by (cases c) (auto simp: component_def)
  have i: "skip_slashes path start = Some start" using assms(2) x skip_here [of start path x] by simp
  obtain qs where qs: "chain (next_device s) (dev_child d) qs" using t p by (auto simp: tree_ok_def children_def)
  note w = walk_step [OF t c i assms(2) p qs]
  have "children s p qs" using qs p by (auto simp: children_def)
  note f = resolves_find [OF this assms(5)]
  show ?thesis
  proof (cases "find (\<lambda>q. called s q c) qs")
    case None
    with w(1) f show ?thesis by simp
  next
    case (Some q)
    then have "q \<in> set qs" by (auto simp: find_Some_iff)
    then obtain dq where "devices s q = Some dq" using chain_nodes [OF qs] by blast
    with walk_resolves [OF t w(2) _ this] assms(3) f w(1) Some show ?thesis by simp
  qed
qed

section \<open>The name of the root\<close>

lemma char_code_range: "0 \<le> char_code c" "char_code c < 256"
proof -
  have "char_code c = int (of_char c)" by (simp add: char_code_def of_nat_of_char)
  then show "0 \<le> char_code c" "char_code c < 256" using nat_of_char_less_256 [of c] by simp_all
qed

lemma char_code_pos: "a \<noteq> NUL \<Longrightarrow> char_code NUL < char_code a"
  using char_code_eq [of a NUL] char_code_range(1) [of a] by (simp add: char_code_def)

lemma strncmp_from_cstr:
  assumes "cstr s xs" and "cstr name ns" and "n \<le> length xs"
  shows "i \<le> n \<Longrightarrow> i \<le> length ns \<Longrightarrow> take i xs = take i ns \<Longrightarrow>
    \<exists>r. strncmp_from s name n i = Some r \<and> (r = 0 \<longleftrightarrow> n \<le> length ns \<and> take n xs = take n ns)"
proof (induction "n - i" arbitrary: i rule: less_induct)
  case less
  show ?case
  proof (cases "i < n")
    case False
    with less.prems have "i = n" by simp
    with less.prems False show ?thesis by (subst strncmp_from.simps) simp
  next
    case True
    then have ix: "i < length xs" using assms(3) by simp
    note x = cstr_rd(1,3) [OF assms(1) ix]
    show ?thesis
    proof (cases "i < length ns")
      case False
      then have i: "i = length ns" using less.prems(2) by simp
      then have "rd name i = Some NUL" using cstr_rd(2) [OF assms(2)] by simp
      with x True char_code_pos [OF x(2)] i show ?thesis by (subst strncmp_from.simps) simp
    next
      case n: True
      note y = cstr_rd(1,3) [OF assms(2) n]
      show ?thesis
      proof (cases "xs ! i = ns ! i")
        case True
        have "take (Suc i) xs = take (Suc i) ns" using less.prems(3) True ix n by (simp add: take_Suc_conv_app_nth)
        with less.hyps [of "Suc i"] \<open>i < n\<close> n
        have "\<exists>r. strncmp_from s name n (Suc i) = Some r \<and> (r = 0 \<longleftrightarrow> n \<le> length ns \<and> take n xs = take n ns)" by simp
        with x y True \<open>i < n\<close> show ?thesis by (subst strncmp_from.simps) simp
      next
        case False
        then have "take n xs \<noteq> take n ns" using \<open>i < n\<close> by (metis nth_take)
        moreover have "char_code (xs ! i) < char_code (ns ! i) \<or> char_code (ns ! i) < char_code (xs ! i)"
          using False char_code_eq by (metis linorder_neqE)
        ultimately show ?thesis using x y \<open>i < n\<close> by (subst strncmp_from.simps) auto
      qed
    qed
  qed
qed

lemma strncmp_cstr:
  assumes "cstr s xs" and "cstr name ns" and "n \<le> length xs"
  obtains r where "strncmp s name n = Some r" "r = 0 \<longleftrightarrow> n \<le> length ns \<and> take n xs = take n ns"
  using strncmp_from_cstr [OF assms, of 0] unfolding strncmp_def by auto

lemma root_test:
  assumes "cstr s xs" and "cstr name ns" and "n \<le> length xs"
  shows "Option.bind (strncmp s name n) (\<lambda>r. if r = 0 then map_option (\<lambda>c. c = NUL) (rd name n) else Some False) = Some (take n xs = ns)"
proof -
  obtain r where r: "strncmp s name n = Some r" "r = 0 \<longleftrightarrow> n \<le> length ns \<and> take n xs = take n ns"
    by (rule strncmp_cstr [OF assms])
  consider (short) "length ns < n" | (same) "n = length ns" | (long) "n < length ns" by linarith
  then show ?thesis
  proof cases
    case short
    then have "take n xs \<noteq> ns" using assms(3) by auto
    with r short show ?thesis by simp
  next
    case same
    with r cstr_rd(2) [OF assms(2)] show ?thesis by simp
  next
    case long
    then have "take n xs \<noteq> ns" using assms(3) by auto
    with r cstr_rd(1,3) [OF assms(2) long] show ?thesis by simp
  qed
qed

text \<open>The last slash of a path.\<close>

lemma strchr_slash:
  assumes "cstr s xs"
  shows "SLASH \<notin> set xs \<Longrightarrow> strchr (Some s) 47 = Some None"
    and "xs = us @ SLASH # vs \<Longrightarrow> SLASH \<notin> set vs \<Longrightarrow> strchr (Some s) 47 = Some (Some (length us))"
proof -
  have l: "length xs + 1 \<le> length s" using cstr_rd(4) [OF assms] by simp
  obtain r where r: "strchr (Some s) 47 = Some r"
    "case r of None \<Rightarrow> \<forall>i < length xs + 1. schar_code (s ! i) \<noteq> 47
     | Some i \<Rightarrow> i < length xs + 1 \<and> schar_code (s ! i) = 47 \<and> (\<forall>j. i < j \<and> j < length xs + 1 \<longrightarrow> schar_code (s ! j) \<noteq> 47)"
    using chr_down_spec [OF l, of 47] strlen_cstr [OF assms] by (auto simp: strchr_def)
  have code: "schar_code c = 47 \<longleftrightarrow> c = SLASH" for c
  proof -
    have "schar_code c = 47 \<longleftrightarrow> char_code c = char_code SLASH" 
      using char_code_range [of c] by (auto simp: schar_code_def) (simp_all add: char_code_def)
    then show ?thesis by (simp only: char_code_eq)
  qed
  have at: "s ! i = (if i < length xs then xs ! i else NUL)" if "i < length xs + 1" for i
    using assms that by (auto simp: cstr_def nth_append)
  show "strchr (Some s) 47 = Some None" if "SLASH \<notin> set xs"
  proof (cases r)
    case (Some i)
    with r(2) have "i < length xs + 1" "s ! i = SLASH" by (simp_all add: code)
    with at [of i] that nth_mem [of i xs] show ?thesis by (auto split: if_splits)
  qed (use r(1) in simp)
  show "strchr (Some s) 47 = Some (Some (length us))" if x: "xs = us @ SLASH # vs" "SLASH \<notin> set vs"
  proof -
    have here: "s ! length us = SLASH" using at [of "length us"] x(1) by simp
    have later: "s ! j \<noteq> SLASH" if "length us < j" "j < length xs + 1" for j
    proof -
      have "j < length xs \<Longrightarrow> xs ! j \<in> set vs" using that(1) x(1) by (auto simp: nth_append nth_Cons')
      with at [OF that(2)] x(2) show ?thesis by (auto split: if_splits)
    qed
    have lt: "length us < length xs + 1" using x(1) by simp
    show ?thesis
    proof (cases r)
      case None
      with r(2) lt here show ?thesis by (auto simp: code)
    next
      case (Some i)
      with r(2) have i: "i < length xs + 1" "s ! i = SLASH" "\<forall>j. i < j \<and> j < length xs + 1 \<longrightarrow> s ! j \<noteq> SLASH" by (simp_all add: code)
      then have "i = length us" using later [of i] here lt by (meson linorder_neqE_nat)
      with Some r(1) show ?thesis by simp
    qed
  qed
qed

section \<open>Properties\<close>

text \<open>The components that are looked for below the root, for a root called \<open>ns\<close>.\<close>

definition below_root :: "string \<Rightarrow> string list \<Rightarrow> string list" where
  "below_root ns cs =
     (case cs of [c] \<Rightarrow> if c = ns then [] else cs | [c, z] \<Rightarrow> if c = ns then [z] else cs | _ \<Rightarrow> cs)"

lemma slashed_clean: "\<forall>c \<in> set cs. component c \<Longrightarrow> NUL \<notin> set (slashed cs)"
  by (auto simp: slashed_def component_def)

lemma GetDeviceFromPath_walks:
  assumes "rd path 0 = Some SLASH" and "drop 1 path = rest" and "strchr (Some rest) 47 = Some slash"
    and "(case slash of Some i \<Rightarrow> Some i | None \<Rightarrow> strlen rest) = Some n" and "0 < n" and "node_name (device_root s) s = Some name"
    and "Option.bind (strncmp rest name n) (\<lambda>r. if r = 0 then map_option (\<lambda>c. c = NUL) (rd name n) else Some False) = Some b"
  shows "GetDeviceFromPath path s = walk_path path (if b then (case slash of Some i \<Rightarrow> 1 + i + 1 | None \<Rightarrow> 1 + n) else 1) (device_root s) s"
  using assms by (simp add: GetDeviceFromPath_def Let_def del: One_nat_def)

lemma device_path:
  assumes t: "tree_ok s" and r: "devices s (device_root s) = Some d" "called s (device_root s) ns" "SLASH \<notin> set ns"
    and cs: "cs = c # ds" "\<forall>x \<in> set cs. component x" and res: "resolves s (device_root s) (below_root ns cs) p"
  shows "GetDeviceFromPath (slashed cs @ [NUL]) s = Some p"
proof -
  let ?path = "slashed cs @ [NUL]" and ?xs = "c @ slashed ds"
  have rest: "drop 1 ?path = ?xs @ [NUL]" using cs(1) by simp
  have x: "cstr (?xs @ [NUL]) ?xs" using cs slashed_clean [of ds] by (auto simp: cstr_def component_def)
  have c: "component c" using cs by simp
  then have c0: "0 < length c" "SLASH \<notin> set c" by (auto simp: component_def)
  obtain name where nm: "node_name (device_root s) s = Some name" "cstr name ns" using r(2) by (auto simp: called_def)
  have g: "GetDeviceFromPath ?path s = walk_path ?path
      (if take n ?xs = ns then (case ns' of Some i \<Rightarrow> 1 + i + 1 | None \<Rightarrow> 1 + n) else 1) (device_root s) s"
    if "strchr (Some (?xs @ [NUL])) 47 = Some ns'" "(case ns' of Some i \<Rightarrow> Some i | None \<Rightarrow> strlen (?xs @ [NUL])) = Some n" "0 < n" "n \<le> length ?xs" for ns' n
  proof -
    have "rd ?path 0 = Some SLASH" using cs(1) by (simp add: rd_def)
    from GetDeviceFromPath_walks [OF this rest that(1-3) nm(1) root_test [OF x nm(2) that(4)]] show ?thesis .
  qed
  show ?thesis
  proof (cases ds rule: rev_cases)
    case Nil
    then have "strchr (Some (?xs @ [NUL])) 47 = Some None" "strlen (?xs @ [NUL]) = Some (length c)"
      using strchr_slash(1) [OF x] strlen_cstr [OF x] c0(2) by simp_all
    then have "GetDeviceFromPath ?path s = walk_path ?path (if c = ns then 1 + length c else 1) (device_root s) s"
      using g [of None "length c"] Nil c0(1) by simp
    moreover have "walk_path ?path (1 + length c) (device_root s) s = Some p" if "c = ns"
      using walk_resolves [OF t _ _ r(1), of "1 + length c" ?path "[]" p] res cs(1) Nil that by (simp add: below_root_def)
    moreover have "walk_path ?path 1 (device_root s) s = Some p" if "c \<noteq> ns"
      using walk_from_start [OF t _ _ r(1), of 1 ?path c "[]" p] res cs Nil that by (simp add: below_root_def)
    ultimately show ?thesis by simp
  next
    case (snoc us z)
    have z: "SLASH \<notin> set z" using cs snoc by (auto simp: component_def)
    let ?n = "length (c @ slashed us)"
    have sc: "strchr (Some (?xs @ [NUL])) 47 = Some (Some ?n)"
      using strchr_slash(2) [OF x, of "c @ slashed us" z] snoc z by simp
    have gg: "GetDeviceFromPath ?path s = walk_path ?path (if c @ slashed us = ns then 1 + ?n + 1 else 1) (device_root s) s"
      using g [OF sc, of ?n] snoc c0(1) by simp
    have from_start: "walk_path ?path 1 (device_root s) s = Some p" if "below_root ns cs = cs"
      using walk_from_start [OF t _ _ r(1), of 1 ?path c ds p] res cs that by simp
    show ?thesis
    proof (cases us)
      case Nil
      have "walk_path ?path (1 + ?n + 1) (device_root s) s = Some p" if "c = ns"
        using walk_from_start [OF t _ _ r(1), of "1 + ?n + 1" ?path z "[]" p] res cs snoc Nil that by (simp add: below_root_def)
      with gg from_start Nil cs(1) snoc show ?thesis by (simp add: below_root_def)
    next
      case (Cons u us')
      then have "c @ slashed us \<noteq> ns" using r(3) by auto
      moreover have "below_root ns cs = cs" using cs(1) snoc Cons by (simp add: below_root_def split: list.splits)
      ultimately show ?thesis using gg from_start by simp
    qed
  qed
qed



section \<open>An example\<close>

definition ex_node :: "string \<Rightarrow> ptr \<Rightarrow> DeviceManagerNode" where
  "ex_node name c = zero_node\<lparr>attr := (attr zero_node)\<lparr>dev_name := name @ [NUL]\<rparr>, dev_child := c\<rparr>"

text \<open>The root with a processor node, which has one processor.\<close>

definition ex_tree :: device_state where
  "ex_tree = process_state.extend ex_procs
     \<lparr>devices = [0xC0400000 \<mapsto> ex_node ''Devices'' 0xC0400100, 0xC0400100 \<mapsto> ex_node ''CPU'' 0xC0400200, 0xC0400200 \<mapsto> ex_node ''CPU0'' 0],
      device_root = 0xC0400000, output_nodes = Map.empty, output_list = 0, output_current = 0\<rparr>"

lemma ex_tree_simps [simp]:
  "devices ex_tree = [0xC0400000 \<mapsto> ex_node ''Devices'' 0xC0400100, 0xC0400100 \<mapsto> ex_node ''CPU'' 0xC0400200, 0xC0400200 \<mapsto> ex_node ''CPU0'' 0]"
  "device_root ex_tree = 0xC0400000"
  by (simp_all add: ex_tree_def process_state.extend_def)

lemma called_ex_tree: "called ex_tree 0xC0400000 ''Devices''" "called ex_tree 0xC0400100 ''CPU''" "called ex_tree 0xC0400200 ''CPU0''"
  by (simp_all add: called_def node_name_def ex_node_def cstr_def)

lemma children_ex_tree: "children ex_tree 0xC0400000 [0xC0400100]" "children ex_tree 0xC0400100 [0xC0400200]" "children ex_tree 0xC0400200 []"
  by (simp_all add: children_def next_device_def ex_node_def zero_node_def)

lemma tree_ok_ex_tree: "tree_ok ex_tree"
  using called_ex_tree children_ex_tree by (auto simp: tree_ok_def)

lemma ex_components: "component ''Devices''" "component ''CPU''" "component ''CPU0''"
  by (simp_all add: component_def)



end
