(* ===== verification/Syscalls.thy ===== *)
theory Syscalls
  imports Devices Ipc
begin

text \<open>
  The system calls: operations on objects (\<^verbatim>\<open>src/sys/syscall/object.c\<close>), the dispatcher and the small calls
  (\<^verbatim>\<open>syscall.c\<close>, \<^verbatim>\<open>sysquery.c\<close>), exceptions (\<^verbatim>\<open>src/sys/ddk/ia32/exception.c\<close>) and the common interrupt
  handler (\<^verbatim>\<open>idt.c\<close>).

  What a framebuffer driver answers when it is asked for its geometry is an argument (\<open>get_fb\<close>, by the table of
  operations and the private data of the device), as are the address of the thread trampoline and the version numbers
  that the build fills in.
\<close>

section \<open>Data\<close>

abbreviation PROC_C_SERVER :: u32 where "PROC_C_SERVER \<equiv> 1"
abbreviation PROC_C_IOPL :: u32 where "PROC_C_IOPL \<equiv> 2"
abbreviation PROC_C_IRQ_DISPATCH :: u32 where "PROC_C_IRQ_DISPATCH \<equiv> 3"

abbreviation DEVICE_GET :: u32 where "DEVICE_GET \<equiv> 0"
abbreviation DEVICE_CLAIM :: u32 where "DEVICE_CLAIM \<equiv> 1"
abbreviation DEVICE_MAP :: u32 where "DEVICE_MAP \<equiv> 2"
abbreviation PORT_CREATE :: u32 where "PORT_CREATE \<equiv> 0"
abbreviation PORT_OPEN :: u32 where "PORT_OPEN \<equiv> 1"
abbreviation PORT_BIND_IRQ :: u32 where "PORT_BIND_IRQ \<equiv> 2"
abbreviation PORT_ACK_IRQ :: u32 where "PORT_ACK_IRQ \<equiv> 3"
abbreviation SECTION_REQUEST :: u32 where "SECTION_REQUEST \<equiv> 0"
abbreviation SECTION_MAP :: u32 where "SECTION_MAP \<equiv> 1"
abbreviation THREAD_CREATE :: u32 where "THREAD_CREATE \<equiv> 0"
abbreviation THREAD_RUN :: u32 where "THREAD_RUN \<equiv> 1"

record FramebufferInformation =
  fb_width :: u32
  fb_height :: u32
  fb_bpp :: u32
  fb_stride :: u32

record DeviceMapDescriptor =
  dm_irq :: u32
  dm_mmio_addr :: u64
  dm_mmio_len :: u64
  dm_fb :: FramebufferInformation

text \<open>Integers in memory, least significant byte first.\<close>

definition bytes32 :: "u32 \<Rightarrow> u8 list" where
  "bytes32 v = [ucast v, ucast (drop_bit 8 v), ucast (drop_bit 16 v), ucast (drop_bit 24 v)]"

definition bytes64 :: "u64 \<Rightarrow> u8 list" where
  "bytes64 v = bytes32 (ucast v) @ bytes32 (ucast (drop_bit 32 v))"

definition get16 :: "nat \<Rightarrow> u8 list \<Rightarrow> u16" where
  "get16 i m = ucast (m ! i) OR push_bit 8 (ucast (m ! (i + 1)))"

definition chars_of :: "u8 list \<Rightarrow> string" where
  "chars_of bs = map (\<lambda>b. char_of (unat b)) bs"

definition bytes_of :: "string \<Rightarrow> u8 list" where
  "bytes_of cs = map (\<lambda>c. word_of_int (char_code c)) cs"

definition descriptor_bytes :: "DeviceMapDescriptor \<Rightarrow> u8 list" where
  "descriptor_bytes d = bytes32 (dm_irq d) @ bytes64 (dm_mmio_addr d) @ bytes64 (dm_mmio_len d) @
     bytes32 (fb_width (dm_fb d)) @ bytes32 (fb_height (dm_fb d)) @ bytes32 (fb_bpp (dm_fb d)) @ bytes32 (fb_stride (dm_fb d))"

definition upd_object :: "ptr \<Rightarrow> (Object \<Rightarrow> Object) \<Rightarrow> 'a object_state_scheme \<Rightarrow> 'a object_state_scheme option" where
  "upd_object p f s = map_option (\<lambda>ob. s\<lparr>objects := (objects s)(p \<mapsto> f ob)\<rparr>) (objects s p)"

text \<open>\<^verbatim>\<open>GetCurrentExecutionThread()->owner\<close>.\<close>

definition current_owner :: "'a task_state_scheme \<Rightarrow> ptr option" where
  "current_owner s = map_option t_owner (threads s (GetCurrentExecutionThread s))"

text \<open>\<open>strnlen\<close> on memory.\<close>

fun mem_strnlen :: "u32 \<Rightarrow> nat \<Rightarrow> nat \<Rightarrow> 'a vm_state_scheme \<Rightarrow> nat option" where
  "mem_strnlen va i 0 s = Some i"
| "mem_strnlen va i (Suc n) s = do {
     b \<leftarrow> load8 (va + of_nat i) s;
     if b = 0 then Some i else mem_strnlen va (Suc i) n s
   }"

section \<open>Device objects\<close>

definition device_get :: "ptr \<Rightarrow> u32 \<Rightarrow> 'a device_state_scheme \<Rightarrow> (Status \<times> 'a device_state_scheme) option" where
  "device_get obj arg s = do {
     mapped \<leftarrow> ADDRESS_IS_MAPPED arg s;
     if \<not> mapped then Some (STATUS_BAD_ARGUMENT, s)
     else do {
       len \<leftarrow> mem_strnlen arg 0 (MAX_DEVICE_NODE_NAME * 16) s;
       let pathsize = len + 1;
       (path_real, s1) \<leftarrow> kmalloc (of_nat pathsize) s;
       if path_real = 0 then Some (STATUS_OUT_OF_MEMORY, s1)
       else do {
         (st, bytes) \<leftarrow> CopyFromUser arg (of_nat pathsize) s1;
         if st \<noteq> STATUS_OK then Some (STATUS_BAD_ARGUMENT, s1)
         else do {
           path \<leftarrow> wr (chars_of bytes) (pathsize - 1) NUL;
           dev \<leftarrow> GetDeviceFromPath path s1;
           s2 \<leftarrow> upd_object obj (\<lambda>ob. ob\<lparr>o_data := dev\<rparr>) s1;
           s3 \<leftarrow> kfree path_real s2;
           Some (if dev = 0 then STATUS_NOT_FOUND else STATUS_OK, s3)
         }
       }
     }
   }"

definition device_claim :: "(ptr \<Rightarrow> ptr \<Rightarrow> FramebufferInformation) \<Rightarrow> ptr \<Rightarrow> u32 \<Rightarrow> 'a device_state_scheme \<Rightarrow>
    (Status \<times> 'a device_state_scheme) option" where
  "device_claim get_fb dev arg s = do {
     mapped \<leftarrow> ADDRESS_IS_MAPPED arg s;
     if \<not> mapped then Some (STATUS_BAD_ARGUMENT, s)
     else if dev = 0 then Some (STATUS_NOT_FOUND, s)
     else do {
       d \<leftarrow> devices s dev;
       if claimed (attr d) then Some (STATUS_BAD, s)
       else do {
         fb \<leftarrow> (if SupportsClass d DEVCLASS_FRAMEBUFFER
               then if ddo (devtable d) = 0 then None else Some (get_fb (ddo (devtable d)) (private_state d))
               else Some \<lparr>fb_width = 0, fb_height = 0, fb_bpp = 0, fb_stride = 0\<rparr>);
         let descr = \<lparr>dm_irq = 0, dm_mmio_addr = mmio_addr (attr d), dm_mmio_len = ucast (mmio_len (attr d)), dm_fb = fb\<rparr>;
         (st, s1) \<leftarrow> CopyToUser arg (descriptor_bytes descr) s;
         if st \<noteq> STATUS_OK then Some (STATUS_BAD_ARGUMENT, s1)
         else do {
           s2 \<leftarrow> upd_device dev (\<lambda>d. d\<lparr>attr := (attr d)\<lparr>claimed := True\<rparr>\<rparr>) s1;
           s3 \<leftarrow> (if SupportsClass d DEVCLASS_FRAMEBUFFER \<or> SupportsClass d DEVCLASS_CONSOLE
                 then map_option snd (RemoveKernelOutput dev s2) else Some s2);
           Some (STATUS_OK, s3)
         }
       }
     }
   }"

definition device_map :: "ptr \<Rightarrow> u32 \<Rightarrow> 'a device_state_scheme \<Rightarrow> (Status \<times> 'a device_state_scheme) option" where
  "device_map dev mapaddr s = do {
     d \<leftarrow> devices s dev;
     if \<not> claimed (attr d) then Some (STATUS_RETRY, s)
     else if mmio_addr (attr d) \<ge> 0xFFFFFFFF then Some (STATUS_UNSUPPORTED, s)
     else do {
       let n_pages_map = pagealign (mmio_len (attr d)) div PAGE_SIZE;
       if mapaddr \<ge> KERNEL_VM_BASE \<or> mmio_len (attr d) > KERNEL_VM_BASE - mapaddr then Some (STATUS_BAD_ARGUMENT, s)
       else do {
         (mapped, s1) \<leftarrow> MapMemoryRange (ucast (mmio_addr (attr d))) mapaddr
           (PAGE_PRESENT OR PAGE_RW OR PAGE_USER OR PAGE_WRITETHROUGH OR PAGE_CACHE_DISABLED) n_pages_map s;
         Some (if mapped \<noteq> n_pages_map then STATUS_BAD else STATUS_OK, s1)
       }
     }
   }"

definition HandleDeviceObjectRequest :: "(ptr \<Rightarrow> ptr \<Rightarrow> FramebufferInformation) \<Rightarrow> ptr \<Rightarrow> u32 \<Rightarrow> u32 \<Rightarrow> 'a device_state_scheme \<Rightarrow>
    (Status \<times> 'a device_state_scheme) option" where
  "HandleDeviceObjectRequest get_fb obj op arg s = do {
     owner \<leftarrow> current_owner s;
     p_current \<leftarrow> procs s owner;
     ob \<leftarrow> objects s obj;
     if p_flags p_current AND PROC_C_SERVER = 0 then Some (STATUS_UNSUPPORTED, s)
     else if op = DEVICE_GET then device_get obj arg s
     else if op = DEVICE_CLAIM then device_claim get_fb (o_data ob) arg s
     else if op = DEVICE_MAP then device_map (o_data ob) arg s
     else Some (STATUS_BAD_ARGUMENT, s)
   }"

section \<open>Port objects\<close>

definition port_create_request :: "ptr \<Rightarrow> 'a object_state_scheme \<Rightarrow> (Status \<times> 'a object_state_scheme) option" where
  "port_create_request obj s = do {
     ob \<leftarrow> objects s obj;
     ((st, new_port), s1) \<leftarrow> CreatePort (o_name ob) (GetCurrentExecutionThread s) s;
     s2 \<leftarrow> (case new_port of None \<Rightarrow> Some s1 | Some p \<Rightarrow> upd_object obj (\<lambda>ob. ob\<lparr>o_data := p\<rparr>) s1);
     Some (st, s2)
   }"

definition port_open_request :: "ptr \<Rightarrow> u32 \<Rightarrow> 'a object_state_scheme \<Rightarrow> (Status \<times> 'a object_state_scheme) option" where
  "port_open_request obj arg s = do {
     (st, bytes) \<leftarrow> CopyFromUser arg (of_nat MAX_PORT_NAME) s;
     if st \<noteq> STATUS_OK then Some (STATUS_BAD_ARGUMENT, s)
     else do {
       p \<leftarrow> FindPortByName (chars_of bytes @ [NUL]) s;
       if p = 0 then Some (STATUS_NOT_FOUND, s)
       else do {
         s1 \<leftarrow> upd_object obj (\<lambda>ob. ob\<lparr>o_data := p, o_refcnt := o_refcnt ob + 1\<rparr>) s;
         Some (STATUS_OK, s1)
       }
     }
   }"

text \<open>The requests on interrupt lines differ in the capability they ask for and in what they do to the line.\<close>

definition port_irq :: "u32 \<Rightarrow> (u32 \<Rightarrow> 'a irq_state_scheme \<Rightarrow> 'a irq_state_scheme) \<Rightarrow> u32 \<Rightarrow> 'a irq_state_scheme \<Rightarrow>
    (Status \<times> 'a irq_state_scheme) option" where
  "port_irq capability act arg s = do {
     owner \<leftarrow> current_owner s;
     pr \<leftarrow> procs s owner;
     if p_flags pr AND capability = 0 then Some (STATUS_UNSUPPORTED, s)
     else do {
       (st, descr) \<leftarrow> CopyFromUser arg 8 s;
       if st \<noteq> STATUS_OK then Some (STATUS_BAD_ARGUMENT, s) else Some (STATUS_OK, act (get32 0 descr) s)
     }
   }"

definition HandlePortObjectRequest :: "int \<Rightarrow> ptr \<Rightarrow> u32 \<Rightarrow> u32 \<Rightarrow> 'a irq_state_scheme \<Rightarrow> (Status \<times> 'a irq_state_scheme) option" where
  "HandlePortObjectRequest handle obj op arg s =
     (if op = PORT_CREATE then port_create_request obj s
      else if op = PORT_OPEN then port_open_request obj arg s
      else if op = PORT_BIND_IRQ then port_irq PROC_C_SERVER (\<lambda>irq_no. RegisterIRQSubscriber irq_no handle) arg s
      else if op = PORT_ACK_IRQ then
        port_irq (PROC_C_SERVER OR PROC_C_IRQ_DISPATCH) (\<lambda>irq_no. AcknowledgeUserIRQ irq_no handle) arg s
      else Some (STATUS_UNSUPPORTED, s))"

section \<open>Section and thread objects\<close>

definition section_request :: "ptr \<Rightarrow> u32 \<Rightarrow> 'a object_state_scheme \<Rightarrow> (Status \<times> 'a object_state_scheme) option" where
  "section_request obj arg s = do {
     owner \<leftarrow> current_owner s;
     ob \<leftarrow> objects s obj;
     if o_data ob \<noteq> 0 then Some (STATUS_BAD, s)
     else do {
       (st, descr) \<leftarrow> CopyFromUser arg 8 s;
       if st \<noteq> STATUS_OK then Some (STATUS_BAD_ARGUMENT, s)
       else do {
         (sect, s1) \<leftarrow> AllocateSection (get32 0 descr) (get32 4 descr) s;
         if sect = 0 then Some (STATUS_OUT_OF_MEMORY, s1)
         else do {
           current \<leftarrow> procs s1 owner;
           s2 \<leftarrow> upd_section sect (\<lambda>sec. sec\<lparr>address_space := p_pid current\<rparr>) s1;
           s3 \<leftarrow> upd_object obj (\<lambda>ob. ob\<lparr>o_data := sect\<rparr>) s2;
           Some (STATUS_OK, s3)
         }
       }
     }
   }"

definition section_map :: "ptr \<Rightarrow> u32 \<Rightarrow> 'a object_state_scheme \<Rightarrow> (Status \<times> 'a object_state_scheme) option" where
  "section_map obj arg s = do {
     ob \<leftarrow> objects s obj;
     mapped \<leftarrow> ADDRESS_IS_MAPPED arg s;
     if \<not> mapped then Some (STATUS_BAD_ARGUMENT, s)
     else do {
       (base, s1) \<leftarrow> MapSection (o_data ob) s;
       if base = 0 then Some (STATUS_BAD, s1)
       else do {
         s2 \<leftarrow> write_bytes arg (bytes32 base) s1;
         Some (STATUS_OK, s2)
       }
     }
   }"

definition HandleSectionObjectRequest :: "ptr \<Rightarrow> u32 \<Rightarrow> u32 \<Rightarrow> 'a object_state_scheme \<Rightarrow> (Status \<times> 'a object_state_scheme) option" where
  "HandleSectionObjectRequest obj op arg s =
     (if op = SECTION_REQUEST then section_request obj arg s
      else if op = SECTION_MAP then section_map obj arg s
      else Some (STATUS_BAD_ARGUMENT, s))"

definition thread_create :: "u32 \<Rightarrow> ptr \<Rightarrow> u32 \<Rightarrow> 'a object_state_scheme \<Rightarrow> (Status \<times> 'a object_state_scheme) option" where
  "thread_create trampoline obj arg s = do {
     ob \<leftarrow> objects s obj;
     if o_data ob \<noteq> 0 then Some (STATUS_BAD_ARGUMENT, s)
     else do {
       (st, descr) \<leftarrow> CopyFromUser arg 12 s;
       if st \<noteq> STATUS_OK then Some (STATUS_BAD_ARGUMENT, s)
       else do {
         let entry = get32 0 descr;
         let stack = get32 4 descr;
         if stack = 0 \<or> entry = 0 then Some (STATUS_BAD_ARGUMENT, s)
         else do {
           (t, s1) \<leftarrow> CreateThread trampoline entry stack (get32 8 descr) s;
           s2 \<leftarrow> upd_object obj (\<lambda>ob. ob\<lparr>o_data := t\<rparr>) s1;
           Some (if t \<noteq> 0 then STATUS_OK else STATUS_BAD, s2)
         }
       }
     }
   }"

definition HandleThreadObjectRequest :: "u32 \<Rightarrow> ptr \<Rightarrow> u32 \<Rightarrow> u32 \<Rightarrow> 'a object_state_scheme \<Rightarrow> (Status \<times> 'a object_state_scheme) option" where
  "HandleThreadObjectRequest trampoline obj op arg s =
     (if op = THREAD_CREATE then thread_create trampoline obj arg s
      else if op = THREAD_RUN then do {
        ob \<leftarrow> objects s obj;
        if o_data ob \<noteq> 0 then map_option (Pair STATUS_OK) (RunThread obj s) else Some (STATUS_BAD_ARGUMENT, s)
      } else Some (STATUS_BAD_ARGUMENT, s))"

section \<open>Objects and handles\<close>

text \<open>The copy of the name; \<open>None\<close> inside is the early return.\<close>

definition copy_name :: "u32 \<Rightarrow> 'a object_state_scheme \<Rightarrow> (ptr option \<times> 'a object_state_scheme) option" where
  "copy_name name s = do {
     mapped \<leftarrow> (if name \<noteq> 0 then ADDRESS_IS_MAPPED name s else Some False);
     if \<not> mapped then Some (Some 0, s)
     else do {
       len \<leftarrow> mem_strnlen name 0 MAX_PORT_NAME s;
       let strsize = len + 1;
       (name_real, s1) \<leftarrow> kmalloc (of_nat strsize) s;
       if name_real = 0 then Some (None, s1)
       else do {
         (st, bytes) \<leftarrow> CopyFromUser name (of_nat strsize) s1;
         if st \<noteq> STATUS_OK then do { s2 \<leftarrow> kfree name_real s1; Some (None, s2) }
         else do {
           str \<leftarrow> wr (chars_of bytes) (strsize - 1) NUL;
           Some (Some name_real, s1\<lparr>kstrings := (kstrings s1)(name_real \<mapsto> str)\<rparr>)
         }
       }
     }
   }"

definition DWCreateObject :: "u32 \<Rightarrow> u32 \<Rightarrow> u32 \<Rightarrow> 'a object_state_scheme \<Rightarrow> (int \<times> 'a object_state_scheme) option" where
  "DWCreateObject name type perms s = do {
     (copied, s1) \<leftarrow> copy_name name s;
     case copied of
       None \<Rightarrow> Some (- 1, s1)
     | Some name_real \<Rightarrow> do {
         (obj, s2) \<leftarrow> AllocateObject name_real type 0 s1;
         if obj = 0 then Some (- 1, s2)
         else do {
           owner \<leftarrow> current_owner s2;
           pr \<leftarrow> procs s2 owner;
           let (handle, table) = AppendToHandleTable (p_handles pr) obj;
           s3 \<leftarrow> upd_handles owner table s2;
           Some (handle, s3)
         }
       }
   }"

definition DWInvokeObject :: "u32 \<Rightarrow> (ptr \<Rightarrow> ptr \<Rightarrow> FramebufferInformation) \<Rightarrow> int \<Rightarrow> u32 \<Rightarrow> u32 \<Rightarrow> 'a device_state_scheme \<Rightarrow>
    (Status \<times> 'a device_state_scheme) option" where
  "DWInvokeObject trampoline get_fb handle op argptr s =
     (if handle \<ge> int MAX_OBJ_PER_PROCESS \<or> handle < 0 then Some (STATUS_BAD_ARGUMENT, s)
      else do {
        owner \<leftarrow> current_owner s;
        current \<leftarrow> procs s owner;
        let target = objlist (p_handles current) (nat handle);
        if target = 0 then Some (STATUS_NOT_FOUND, s)
        else do {
          ob \<leftarrow> objects s target;
          if o_type ob = OBJ_UNKNOWN then Some (STATUS_BAD, s)
          else if o_type ob = OBJ_DEVICE then HandleDeviceObjectRequest get_fb target op argptr s
          else if o_type ob = OBJ_PORT then HandlePortObjectRequest handle target op argptr s
          else if o_type ob = OBJ_SECTION then HandleSectionObjectRequest target op argptr s
          else if o_type ob = OBJ_THREAD then HandleThreadObjectRequest trampoline target op argptr s
          else Some (STATUS_BAD_ARGUMENT, s)
        }
      })"

text \<open>A handle past the table is used as an index all the same.\<close>

definition DWDeleteObject :: "int \<Rightarrow> 'a object_state_scheme \<Rightarrow> 'a object_state_scheme option" where
  "DWDeleteObject handle s =
     (if handle < 0 then Some s
      else if handle \<ge> int MAX_OBJ_PER_PROCESS then None
      else do {
        owner \<leftarrow> current_owner s;
        current \<leftarrow> procs s owner;
        let target = objlist (p_handles current) (nat handle);
        if target = 0 then Some s
        else do {
          ob \<leftarrow> objects s target;
          s1 \<leftarrow> (if o_name ob \<noteq> 0 then map_option (\<lambda>s. s\<lparr>kstrings := (kstrings s)(o_name ob := None)\<rparr>) (kfree (o_name ob) s)
                else Some s);
          (gone, table) \<leftarrow> DeleteFromHandleTable (p_handles current) handle;
          s2 \<leftarrow> upd_handles owner table s1;
          DeleteObject target s2
        }
      })"

definition DWTranslateHandle :: "u32 \<Rightarrow> int \<Rightarrow> u32 \<Rightarrow> 'a process_state_scheme \<Rightarrow> (Status \<times> 'a process_state_scheme) option" where
  "DWTranslateHandle pid handle_of save s =
     (if pid = 0 then Some (STATUS_BAD_ARGUMENT, s)
      else if handle_of \<ge> int MAX_OBJ_PER_PROCESS \<or> handle_of < 0 then Some (STATUS_BAD_ARGUMENT, s)
      else do {
        origin \<leftarrow> FindProcessByID pid s;
        this \<leftarrow> current_owner s;
        if origin = this then CopyToUser save (bytes32 (word_of_int handle_of)) s
        else if origin = 0 then Some (STATUS_NOT_FOUND, s)
        else do {
          opr \<leftarrow> procs s origin;
          let original = objlist (p_handles opr) (nat handle_of);
          if original = 0 then Some (STATUS_NOT_FOUND, s)
          else do {
            tpr \<leftarrow> procs s this;
            let found = find_handle (p_handles tpr) original 0 MAX_OBJ_PER_PROCESS;
            let (new_hdl, table) = (if found = - 1 then AppendToHandleTable (p_handles tpr) original else (found, p_handles tpr));
            if new_hdl < 0 then Some (STATUS_OUT_OF_MEMORY, s)
            else do {
              s1 \<leftarrow> upd_handles this table s;
              s2 \<leftarrow> (if found = - 1 then upd_object original (\<lambda>ob. ob\<lparr>o_refcnt := o_refcnt ob + 1\<rparr>) s1 else Some s1);
              (copy_status, s3) \<leftarrow> CopyToUser save (bytes32 (word_of_int new_hdl)) s2;
              if copy_status \<noteq> STATUS_OK then do {
                (gone, table') \<leftarrow> DeleteFromHandleTable table new_hdl;
                s4 \<leftarrow> upd_handles this table' s3;
                s5 \<leftarrow> upd_object original (\<lambda>ob. ob\<lparr>o_refcnt := o_refcnt ob - 1\<rparr>) s4;
                Some (copy_status, s5)
              } else Some (copy_status, s3)
            }
          }
        }
      })"

section \<open>The other calls\<close>

record SystemVersion =
  v_tag :: string
  v_major :: u32
  v_minor :: u32
  v_patch :: u32
  v_build_id :: u64

abbreviation SI_MAX_NAME :: nat where "SI_MAX_NAME \<equiv> 24"
abbreviation SI_MAX_TAG :: nat where "SI_MAX_TAG \<equiv> 12"

text \<open>The version tag is an array of \<open>SI_MAX_TAG\<close> characters.\<close>

definition SystemIdentifySyscall :: "SystemVersion \<Rightarrow> u32 \<Rightarrow> 'a vm_state_scheme \<Rightarrow> 'a vm_state_scheme option" where
  "SystemIdentifySyscall v save s = do {
     name \<leftarrow> strncpy (replicate SI_MAX_NAME NUL) (''DragonWare'' @ replicate (SI_MAX_NAME - 10) NUL) SI_MAX_NAME;
     tag \<leftarrow> strncpy (replicate SI_MAX_TAG NUL) (v_tag v) SI_MAX_TAG;
     (st, s1) \<leftarrow> CopyToUser save (bytes_of name @ bytes_of tag @ bytes32 (v_major v) @ bytes32 (v_minor v) @ bytes32 (v_patch v) @
       bytes64 (v_build_id v)) s;
     Some s1
   }"

definition DWRequestPorts :: "u32 \<Rightarrow> u32 \<Rightarrow> 'a task_state_scheme \<Rightarrow> (Status \<times> 'a task_state_scheme) option" where
  "DWRequestPorts port_list list_size s = do {
     current \<leftarrow> current_owner s;
     pr \<leftarrow> procs s current;
     if p_flags pr AND PROC_C_IOPL = 0 then Some (STATUS_UNSUPPORTED, s)
     else if list_size > MAX_IO_PORTS_PER_PROCESS then Some (STATUS_BAD_ARGUMENT, s)
     else do {
       (st, bytes) \<leftarrow> CopyFromUser port_list (list_size * 2) s;
       if st \<noteq> STATUS_OK then Some (STATUS_BAD_ARGUMENT, s)
       else do {
         s1 \<leftarrow> DisableIOPortsOfProcess current s;
         s2 \<leftarrow> upd_process current (\<lambda>pr. pr\<lparr>p_ioports := (\<lambda>i. if i < unat list_size then get16 (2 * i) bytes else p_ioports pr i),
           p_ports_used := ucast list_size\<rparr>) s1;
         s3 \<leftarrow> EnableIOPortsOfProcess current s2;
         Some (STATUS_OK, s3)
       }
     }
   }"

definition DWGetTicksSinceBoot :: "u32 \<Rightarrow> 'a task_state_scheme \<Rightarrow> 'a task_state_scheme option" where
  "DWGetTicksSinceBoot store s = do {
     mapped \<leftarrow> ADDRESS_IS_MAPPED store s;
     if \<not> mapped then Some s else map_option snd (CopyToUser store (bytes64 (GetTicksSinceBoot s)) s)
   }"

definition DWSystemQuery :: "u32 \<Rightarrow> int" where
  "DWSystemQuery key =
     (if key = 1 then int MAX_OBJ_PER_PROCESS else if key = 2 then uint PAGE_SIZE else if key = 3 then - 1
      else if key = 4 then uint TARGET_HZ else if key = 5 then 0 else - 1)"

section \<open>The dispatcher\<close>

record SystemCallFrame =
  sc_ebx :: u32
  sc_esi :: u32
  sc_edi :: u32
  sc_ebp :: u32
  sc_eax :: u32

text \<open>
  A call comes back to its caller with its registers; or it has called \<open>ScheduleNext\<close>, and the caller gets the registers
  when it is chosen again (never, for one that has exited); or it is in the loop of \<open>DWIPCReceive\<close>, which looks at the port
  again when the thread is chosen.
\<close>

datatype 's outcome = Returned SystemCallFrame 's | Switched SystemCallFrame 's | Waiting SystemCallFrame 's

definition ReturnFromSystemCall :: "SystemCallFrame \<Rightarrow> (int \<times> 's) option \<Rightarrow> 's outcome option" where
  "ReturnFromSystemCall regs r = map_option (\<lambda>(v, s). Returned (regs\<lparr>sc_eax := word_of_int v\<rparr>) s) r"

definition as_int :: "(Status \<times> 's) option \<Rightarrow> (int \<times> 's) option" where
  "as_int r = map_option (\<lambda>(st, s). (status_code st, s)) r"

definition syscall_exit :: "'a process_state_scheme \<Rightarrow> 'a process_state_scheme option" where
  "syscall_exit s = do {
     let current = GetCurrentExecutionThread s;
     (st, s1) \<leftarrow> RemoveThreadFromScheduler current s;
     s2 \<leftarrow> upd_thread current (\<lambda>t. t\<lparr>t_state := THREAD_TERMINATED\<rparr>) s1;
     t \<leftarrow> threads s2 current;
     s3 \<leftarrow> (if t_owner t \<noteq> 0 then map_option snd (DeleteProcess (t_owner t) s2) else Some s2);
     ScheduleNext (s3\<lparr>NeedsResched := True\<rparr>)
   }"

definition DragonWareSyscall :: "SystemVersion \<Rightarrow> u32 \<Rightarrow> (ptr \<Rightarrow> ptr \<Rightarrow> FramebufferInformation) \<Rightarrow> SystemCallFrame \<Rightarrow>
    'a device_state_scheme \<Rightarrow> 'a device_state_scheme outcome option" where
  "DragonWareSyscall version trampoline get_fb regs s =
     (let n = sc_eax regs; ebx = sc_ebx regs; esi = sc_esi regs; edi = sc_edi regs
      in if n = 0 then map_option (Returned regs) (SystemIdentifySyscall version ebx s)
      else if n = 1 then map_option (Switched regs) (syscall_exit s)
      else if n = 2 then map_option (Switched regs) (YieldCurrentThread s)
      else if n = 3 then ReturnFromSystemCall regs (Some (DWSystemQuery ebx, s))
      else if n = 4 then ReturnFromSystemCall regs (as_int (DWRequestPorts ebx esi s))
      else if n = 5 then ReturnFromSystemCall regs (as_int (DWIPCSend (sint ebx) esi edi s))
      else if n = 6 then
        (case DWIPCReceive (sint ebx) esi s of
           None \<Rightarrow> None
         | Some (Received st s1) \<Rightarrow> ReturnFromSystemCall regs (Some (status_code st, s1))
         | Some (Blocked s1) \<Rightarrow> Some (Waiting regs s1))
      else if n = 7 then map_option (Returned regs) (DWGetTicksSinceBoot ebx s)
      else if n = 8 then ReturnFromSystemCall regs (DWCreateObject ebx esi edi s)
      else if n = 9 then ReturnFromSystemCall regs (as_int (DWInvokeObject trampoline get_fb (sint ebx) esi edi s))
      else if n = 10 then map_option (Returned regs) (DWDeleteObject (sint ebx) s)
      else if n = 11 then ReturnFromSystemCall regs (as_int (DWTranslateHandle ebx (sint esi) edi s))
      else Some (Returned (regs\<lparr>sc_eax := word_of_int (status_code STATUS_BAD_SYSCALL)\<rparr>) s))"

section \<open>Exceptions and interrupts\<close>

record InterruptStackFrame =
  if_gs :: u32
  if_fs :: u32
  if_es :: u32
  if_ds :: u32
  if_edi :: u32
  if_esi :: u32
  if_ebp :: u32
  if_esp :: u32
  if_ebx :: u32
  if_edx :: u32
  if_ecx :: u32
  if_eax :: u32
  int_no :: u32
  if_err_code :: u32
  if_eip :: u32
  if_cs :: u32
  if_eflags :: u32
  if_useresp :: u32
  if_ss :: u32

definition DWUserException :: "'a process_state_scheme \<Rightarrow> 'a process_state_scheme option" where
  "DWUserException s = do {
     curr \<leftarrow> current_owner s;
     pr \<leftarrow> procs s curr;
     (del, s1) \<leftarrow> DeleteProcess curr s;
     Some (s1\<lparr>NeedsResched := True\<rparr>)
   }"

text \<open>
  In the kernel's own code, the exceptions that are only logged are the non-maskable interrupt, the coprocessor overrun, the
  floating point exception and those without a name; all others stop the machine.
\<close>

definition DWExceptionHandler :: "InterruptStackFrame \<Rightarrow> 'a process_state_scheme \<Rightarrow> 'a process_state_scheme option" where
  "DWExceptionHandler frame s =
     (if if_cs frame = ucast SEL_CODE_USER then DWUserException s
      else if int_no frame \<in> {0, 1, 3, 4, 5, 6, 7, 8, 10, 11, 12, 13, 14, 16, 17} then None
      else Some s)"

definition SyscallFrameFromInterrupt :: "InterruptStackFrame \<Rightarrow> SystemCallFrame" where
  "SyscallFrameFromInterrupt iframe =
     \<lparr>sc_ebx = if_ebx iframe, sc_esi = if_esi iframe, sc_edi = if_edi iframe, sc_ebp = if_ebp iframe, sc_eax = if_eax iframe\<rparr>"

definition CopySyscallState :: "SystemCallFrame \<Rightarrow> InterruptStackFrame \<Rightarrow> InterruptStackFrame" where
  "CopySyscallState state frame = frame\<lparr>if_eax := sc_eax state, if_ebx := sc_ebx state, if_esi := sc_esi state,
     if_edi := sc_edi state, if_ebp := sc_ebp state\<rparr>"

text \<open>The registers that a system call comes back with are copied to the frame when it does.\<close>

datatype 's serviced = Serviced InterruptStackFrame 's | Away InterruptStackFrame 's

definition InterruptServiceHandler :: "SystemVersion \<Rightarrow> u32 \<Rightarrow> (ptr \<Rightarrow> ptr \<Rightarrow> FramebufferInformation) \<Rightarrow> InterruptStackFrame \<Rightarrow>
    'a device_state_scheme \<Rightarrow> 'a device_state_scheme serviced option" where
  "InterruptServiceHandler version trampoline get_fb frame s =
     (if int_no frame = 0x60 then
        (case DragonWareSyscall version trampoline get_fb (SyscallFrameFromInterrupt frame) s of
           None \<Rightarrow> None
         | Some (Returned f s1) \<Rightarrow> Some (Serviced (CopySyscallState f frame) s1)
         | Some (Switched f s1) \<Rightarrow> Some (Away (CopySyscallState f frame) s1)
         | Some (Waiting f s1) \<Rightarrow> Some (Away (CopySyscallState f frame) s1))
      else if inrange (int_no frame) 0 31 then map_option (Serviced frame) (DWExceptionHandler frame s)
      else if inrange (int_no frame) IRQ_BASE (IRQ_BASE + of_nat MAX_IRQ - 1) then
        map_option (Serviced frame) (IRQHandlerCallback (int_no frame) s)
      else Some (Serviced frame s))"

end
