(* ===== verification/Calls.thy ===== *)
theory Calls
  imports Syscalls ProcessTable Handles
begin

text \<open>
  Properties of the system calls: what reaches the caller's registers, the ports a process opens, handles passed between
  processes, deleted objects, and the requests that the kernel does not survive.
\<close>

section \<open>Registers\<close>

lemma ReturnFromSystemCall_Some: "ReturnFromSystemCall regs r = Some o' \<Longrightarrow> \<exists>v s. r = Some (v, s) \<and> o' = Returned (regs\<lparr>sc_eax := word_of_int v\<rparr>) s"
  by (auto simp: ReturnFromSystemCall_def)

fun outcome_frame :: "'s outcome \<Rightarrow> SystemCallFrame" where
  "outcome_frame (Returned f s) = f"
| "outcome_frame (Switched f s) = f"
| "outcome_frame (Waiting f s) = f"

lemma syscall_frame:
  "DragonWareSyscall version tr get_fb regs s = Some out \<Longrightarrow> \<exists>v. outcome_frame out = regs\<lparr>sc_eax := v\<rparr>"
proof -
  assume a: "DragonWareSyscall version tr get_fb regs s = Some out"
  have same: "\<exists>v. regs = regs\<lparr>sc_eax := v\<rparr>" by (rule exI [of _ "sc_eax regs"]) simp
  have r: "\<exists>v. outcome_frame out = regs\<lparr>sc_eax := v\<rparr>" if "ReturnFromSystemCall regs x = Some out" for x :: "(int \<times> 'a device_state_scheme) option"
    using ReturnFromSystemCall_Some [OF that] by auto
  from a show ?thesis
    unfolding DragonWareSyscall_def Let_def
    by (auto split: if_splits option.splits receipt.splits dest: r intro: same)
qed

text \<open>
  What an interrupt does to the registers it was taken with. A system call changes at most \<^verbatim>\<open>eax\<close>; every other
  interrupt that comes back leaves the frame as it was. A number that is not a system call comes back at once with
  \<open>STATUS_BAD_SYSCALL\<close> in \<^verbatim>\<open>eax\<close> and changes nothing else.
\<close>

lemma interrupt_keeps_registers:
  "(InterruptServiceHandler version tr get_fb frame s = Some (Serviced f s') \<longrightarrow>
      f = frame\<lparr>if_eax := if_eax f\<rparr> \<and> (int_no frame \<noteq> 0x60 \<longrightarrow> f = frame)) \<and>
   (int_no frame = 0x60 \<and> 11 < if_eax frame \<longrightarrow>
      InterruptServiceHandler version tr get_fb frame s = Some (Serviced (frame\<lparr>if_eax := 0xFFFFFFF6\<rparr>) s))"
proof -
  have "f = frame\<lparr>if_eax := if_eax f\<rparr> \<and> (int_no frame \<noteq> 0x60 \<longrightarrow> f = frame)"
    if h: "InterruptServiceHandler version tr get_fb frame s = Some (Serviced f s')"
  proof (cases "int_no frame = 0x60")
    case True
    with h obtain g where g: "DragonWareSyscall version tr get_fb (SyscallFrameFromInterrupt frame) s = Some (Returned g s')"
      "f = CopySyscallState g frame"
      by (auto simp: InterruptServiceHandler_def split: option.splits outcome.splits)
    from syscall_frame [OF g(1)] obtain v where "g = (SyscallFrameFromInterrupt frame)\<lparr>sc_eax := v\<rparr>" by auto
    with g(2) True show ?thesis by (simp add: CopySyscallState_def SyscallFrameFromInterrupt_def)
  next
    case False
    with h show ?thesis by (auto simp: InterruptServiceHandler_def split: if_splits)
  qed
  moreover have "InterruptServiceHandler version tr get_fb frame s = Some (Serviced (frame\<lparr>if_eax := 0xFFFFFFF6\<rparr>) s)"
    if n: "int_no frame = 0x60" "11 < if_eax frame"
  proof -
    have "if_eax frame \<noteq> k" if "k \<le> 11" for k using n(2) that by auto
    then have "DragonWareSyscall version tr get_fb (SyscallFrameFromInterrupt frame) s =
        Some (Returned ((SyscallFrameFromInterrupt frame)\<lparr>sc_eax := 0xFFFFFFF6\<rparr>) s)"
      by (simp add: DragonWareSyscall_def SyscallFrameFromInterrupt_def)
    with n(1) show ?thesis by (simp add: InterruptServiceHandler_def CopySyscallState_def SyscallFrameFromInterrupt_def)
  qed
  ultimately show ?thesis by blast
qed

section \<open>Ports\<close>

lemma list_size_nat: "n \<le> MAX_IO_PORTS_PER_PROCESS \<Longrightarrow> unat (ucast n :: u16) = unat n \<and> n * 2 \<le> PAGE_SIZE \<and> unat (n * 2) = 2 * unat n"
proof -
  assume "n \<le> MAX_IO_PORTS_PER_PROCESS"
  then have "unat n \<le> 20" by (simp add: word_le_nat_alt)
  then show ?thesis by (simp add: unsigned_ucast_eq word_le_nat_alt unat_word_ariths take_bit_nat_eq_self)
qed


section \<open>Handles of other processes\<close>

lemma find_handle_cases:
  obtains (none) "find_handle t obj i n = - 1" "\<And>k. i \<le> k \<Longrightarrow> k < i + n \<Longrightarrow> \<not> (handle_used t k \<and> objlist t k = obj)"
  | (found) k where "find_handle t obj i n = int k" "k < i + n" "handle_used t k" "objlist t k = obj"
proof -
  have "(find_handle t obj i n = - 1 \<and> (\<forall>k. i \<le> k \<and> k < i + n \<longrightarrow> \<not> (handle_used t k \<and> objlist t k = obj))) \<or>
    (\<exists>k < i + n. find_handle t obj i n = int k \<and> handle_used t k \<and> objlist t k = obj)"
  proof (induction t obj i n rule: find_handle.induct)
    case (2 t obj i n)
    show ?case
    proof (cases "handle_used t i \<and> objlist t i = obj")
      case True
      then show ?thesis by (intro disjI2 exI [of _ i]) simp
    next
      case False
      with "2.IH" show ?thesis by auto (metis Suc_leI le_neq_implies_less)+
    qed
  qed auto
  then show thesis using none found by blast
qed

text \<open>The handle table that \<open>DWTranslateHandle\<close> leaves, and the handle it reports.\<close>

definition share_handle :: "ptr \<Rightarrow> HandleTable \<Rightarrow> int \<times> HandleTable" where
  "share_handle obj t =
     (let found = find_handle t obj 0 MAX_OBJ_PER_PROCESS in if found = - 1 then AppendToHandleTable t obj else (found, t))"

lemma share_handle_cases:
  assumes "table_ok t" and "obj \<noteq> 0"
  obtains (exhausted) "share_handle obj t = (- 1, t)" "\<And>k. k < MAX_OBJ_PER_PROCESS \<Longrightarrow> handle_used t k"
  | (shared) k t' where "share_handle obj t = (int k, t')" "k < MAX_OBJ_PER_PROCESS" "table_ok t'" "handle_used t' k" "objlist t' k = obj"
      "\<And>j. j \<noteq> k \<Longrightarrow> objlist t' j = objlist t j"
      "find_handle t obj 0 MAX_OBJ_PER_PROCESS = - 1 \<longleftrightarrow> \<not> (\<exists>j < MAX_OBJ_PER_PROCESS. objlist t j = obj)"
proof (cases rule: find_handle_cases [of t obj 0 MAX_OBJ_PER_PROCESS])
  case none
  have no: "\<not> (\<exists>j < MAX_OBJ_PER_PROCESS. objlist t j = obj)"
    using none(2) assms unfolding table_ok_def by fastforce
  show thesis
  proof (cases rule: AppendToHandleTable_cases [of t obj])
    case full
    with none show thesis by (intro exhausted) (simp_all add: share_handle_def)
  next
    case (slot i)
    show thesis
    proof (rule shared [OF _ slot(1)])
      show "share_handle obj t = (int i, t\<lparr>valid_bitmap := SET_BIT (valid_bitmap t) i, objlist := (objlist t)(i := obj)\<rparr>)"
        using none slot(4) by (simp add: share_handle_def)
      show "table_ok (t\<lparr>valid_bitmap := SET_BIT (valid_bitmap t) i, objlist := (objlist t)(i := obj)\<rparr>)"
        by (rule table_ok_append [OF assms slot(1)])
    qed (use none no slot(1) in \<open>simp_all add: bit_handle\<close>)
  qed
next
  case (found k)
  have "find_handle t obj 0 MAX_OBJ_PER_PROCESS \<noteq> - 1" using found(1) by simp
  with found assms(1) show thesis by (intro shared [of k t]) (auto simp: share_handle_def)
qed

text \<open>
  C12. Translating a handle of another process. If the place for the result can be written, the call comes back: either all
  handles of the caller are in use and nothing has changed, or the caller reads back a handle of its own that names the same
  object. The object gets one more reference exactly if the caller had no handle for it; the other handles of the caller
  and the handles of all other processes stay as they are.
\<close>

theorem translate_handle_correct:
  assumes "vm_inv s" and "pid \<noteq> 0" and "FindProcessByID pid s = Some origin" and "origin \<noteq> 0" and "current_owner s = Some this"
    and "origin \<noteq> this" and "procs s origin = Some opr" and "procs s this = Some tpr" and "table_ok (p_handles tpr)"
    and "h < MAX_OBJ_PER_PROCESS" and "objlist (p_handles opr) h = obj" and "obj \<noteq> 0" and "objects s obj = Some ob"
    and save: "unat save + 4 < unat KERNEL_VM_BASE" "\<forall>k \<le> 4. (unat save + k) div 4096 \<in> R" "\<forall>q \<in> R. writable_at s q (fr q)" "inj_on fr R"
  shows "\<exists>st s'. DWTranslateHandle pid (int h) save s = Some (st, s') \<and>
    (st = STATUS_OUT_OF_MEMORY \<and> s' = s \<and> (\<forall>k < MAX_OBJ_PER_PROCESS. handle_used (p_handles tpr) k) \<or>
     st = STATUS_OK \<and> (\<exists>k t'. k < MAX_OBJ_PER_PROCESS \<and> CopyFromUser save 4 s' = Some (STATUS_OK, bytes32 (of_nat k)) \<and>
       procs s' = (procs s)(this \<mapsto> tpr\<lparr>p_handles := t'\<rparr>) \<and> table_ok t' \<and> objlist t' k = obj \<and>
       (\<forall>j. j \<noteq> k \<longrightarrow> objlist t' j = objlist (p_handles tpr) j) \<and>
       objects s' = (objects s)(obj \<mapsto> ob\<lparr>o_refcnt :=
         if \<exists>j < MAX_OBJ_PER_PROCESS. objlist (p_handles tpr) j = obj then o_refcnt ob else o_refcnt ob + 1\<rparr>)))"
proof (cases rule: share_handle_cases [OF assms(9,12)])
  case 1
  then have "DWTranslateHandle pid (int h) save s = Some (STATUS_OUT_OF_MEMORY, s)"
    using assms(2-8,10-12) by (simp add: DWTranslateHandle_def share_handle_def Let_def split: if_splits)
  with 1(2) show ?thesis by blast
next
  case (2 k t')
  let ?found = "find_handle (p_handles tpr) obj 0 MAX_OBJ_PER_PROCESS"
  let ?ob = "ob\<lparr>o_refcnt := if \<exists>j < MAX_OBJ_PER_PROCESS. objlist (p_handles tpr) j = obj then o_refcnt ob else o_refcnt ob + 1\<rparr>"
  let ?s2 = "s\<lparr>procs := (procs s)(this \<mapsto> tpr\<lparr>p_handles := t'\<rparr>), objects := (objects s)(obj \<mapsto> ?ob)\<rparr>"
  let ?bs = "bytes32 (of_nat k)"
  have l: "length ?bs = 4" by (simp add: bytes32_def)
  have vm: "vm_inv ?s2" using assms(1) by (subst vm_inv_same [where s = s]) simp_all
  have w: "\<forall>q \<in> R. writable_at ?s2 q (fr q)" using save(3) by (subst writable_memory [where s = s]) simp_all
  obtain s' where s': "CopyToUser save ?bs ?s2 = Some (STATUS_OK, s')" "CopyFromUser save 4 s' = Some (STATUS_OK, ?bs)"
    using copy_to_from [OF vm _ _ w save(4), of save ?bs] save(1,2) l by auto
  note m = more_CopyToUser [OF s'(1)]
  have p: "procs s' = procs ?s2" "objects s' = objects ?s2" by (rule more_task(3) [OF m], rule more_object(1) [OF m])
  have "DWTranslateHandle pid (int h) save s = Some (STATUS_OK, s')"
  proof (cases "?found = - 1")
    case True
    then have "AppendToHandleTable (p_handles tpr) obj = (int k, t')" using 2(1) by (simp add: share_handle_def)
    moreover have "?ob = ob\<lparr>o_refcnt := o_refcnt ob + 1\<rparr>" using True 2(7) by simp
    ultimately show ?thesis using assms(2-8,10-13) True s'(1)
      by (simp add: DWTranslateHandle_def upd_handles_def upd_object_def)
  next
    case False
    then have "(?found, p_handles tpr) = (int k, t')" using 2(1) by (simp only: share_handle_def Let_def if_False)
    then have e: "?found = int k" "t' = p_handles tpr" by auto
    have "?ob = ob" using False 2(7) by simp
    then have "(objects s)(obj \<mapsto> ?ob) = objects s" using assms(13) by (simp only: fun_upd_idem)
    then have s2: "?s2 = s\<lparr>procs := (procs s)(this \<mapsto> tpr\<lparr>p_handles := t'\<rparr>)\<rparr>" by simp
    have "CopyToUser save ?bs (s\<lparr>procs := (procs s)(this \<mapsto> tpr\<lparr>p_handles := t'\<rparr>)\<rparr>) = Some (STATUS_OK, s')"
      using s'(1) unfolding s2 .
    then show ?thesis using e(1) assms(2-8,10-12) unfolding e(2)
      by (simp add: DWTranslateHandle_def upd_handles_def)
  qed
  moreover have "procs s' = (procs s)(this \<mapsto> tpr\<lparr>p_handles := t'\<rparr>)" "objects s' = (objects s)(obj \<mapsto> ?ob)"
    using p by simp_all
  ultimately show ?thesis using s'(2) 2(2,3,5,6) by blast
qed

section \<open>Device objects that name no device\<close>

text \<open>
  A server process stops the kernel by asking to map a device object that it has not tied to a device yet: the request
  uses the null pointer, while claiming such an object is refused.
\<close>

lemma map_unresolved_device_faults:
  assumes "current_owner s = Some p" and "procs s p = Some pr" and "p_flags pr AND PROC_C_SERVER \<noteq> 0"
    and "h < MAX_OBJ_PER_PROCESS" and "objlist (p_handles pr) h = obj" and "obj \<noteq> 0"
    and "objects s obj = Some ob" and "o_type ob = OBJ_DEVICE" and "o_data ob = 0" and "devices s 0 = None"
  shows "DWInvokeObject tr get_fb (int h) DEVICE_MAP arg s = None \<and>
    (ADDRESS_IS_MAPPED arg s = Some True \<longrightarrow> DWInvokeObject tr get_fb (int h) DEVICE_CLAIM arg s = Some (STATUS_NOT_FOUND, s))"
  using assms by (simp add: DWInvokeObject_def HandleDeviceObjectRequest_def device_map_def device_claim_def)

section \<open>Examples\<close>

text \<open>A server process with a port and a device object, and a second process with a device object of its own.\<close>

definition ex_caller :: Process where
  "ex_caller = ex_client\<lparr>p_flags := 3, p_next := 0xC0301000,
     p_handles := \<lparr>objlist = (\<lambda>_. 0)(1 := 0xC0300200, 2 := 0xC0300800), valid_bitmap = 6\<rparr>\<rparr>"

definition ex_other :: Process where
  "ex_other = (ex_process 0)\<lparr>p_pid := 8, p_prev := 0xC0300000, p_handles := \<lparr>objlist = (\<lambda>_. 0)(0 := 0xC0300700), valid_bitmap = 1\<rparr>\<rparr>"

definition ex_device_object :: Object where
  "ex_device_object = \<lparr>o_type = OBJ_DEVICE, o_name = 0, o_data = 0, o_permissions = 0, o_refcnt = 1\<rparr>"

definition ex_calls :: device_state where
  "ex_calls = process_state.extend
     (ex_procs\<lparr>procs := [0xC0300000 \<mapsto> ex_caller, 0xC0301000 \<mapsto> ex_other],
        objects := [0xC0300700 \<mapsto> ex_device_object, 0xC0300800 \<mapsto> ex_device_object]\<rparr>)
     \<lparr>devices = Map.empty, device_root = 0, output_nodes = Map.empty, output_list = 0, output_current = 0\<rparr>"

lemma ex_calls_simps [simp]:
  "pmem ex_calls = pmem two_threads" "cr3 ex_calls = cr3 two_threads" "bitmap ex_calls = bitmap two_threads"
  "highest_addr ex_calls = highest_addr two_threads" "threads ex_calls = threads ex_kernel" "current_thread ex_calls = ex_a"
  "procs ex_calls = [0xC0300000 \<mapsto> ex_caller, 0xC0301000 \<mapsto> ex_other]" "process_list ex_calls = 0xC0300000"
  "objects ex_calls = [0xC0300700 \<mapsto> ex_device_object, 0xC0300800 \<mapsto> ex_device_object]" "devices ex_calls = Map.empty"
  by (simp_all add: ex_calls_def process_state.extend_def ex_procs_def irq_state.extend_def ex_irq_def object_state.extend_def)

lemma current_owner_ex_calls: "current_owner ex_calls = Some 0xC0300000"
  by (simp add: current_owner_def GetCurrentExecutionThread_def)

lemma table_ok_ex_caller: "table_ok (p_handles ex_caller)"
proof -
  have "(6 :: u32) = SET_BIT 2 2" by (simp add: SET_BIT_def)
  then have "bit (6 :: u32) i \<longleftrightarrow> i = 1 \<or> i = 2" for i using bit_SET_BIT [of 2 2 i] bit_2 [of i] by simp
  then show ?thesis by (simp add: table_ok_def ex_caller_def del: bit_numeral_word_iff)
qed

lemma vm_ex_calls: "vm_inv ex_calls" "writable_at ex_calls 1 5"
proof -
  have "vm_inv ex_calls = vm_inv two_threads"
    by (simp add: vm_inv_def frames_inv_def frame_free_def pd_frame_def pde_def pt_frame_def pd_present_def pd_writable_def)
  then show "vm_inv ex_calls" using vm_inv_two_threads by simp
  have "writable_at ex_calls 1 5 = writable_at two_threads 1 5"
    by (simp add: writable_at_def vmap_def table_frame_def pd_frame_def pde_def pt_frame_def pd_present_def pd_writable_def)
  then show "writable_at ex_calls 1 5" using two_threads_writable(1) by simp
qed

definition ex_frame :: InterruptStackFrame where
  "ex_frame = \<lparr>if_gs = 0x23, if_fs = 0x23, if_es = 0x23, if_ds = 0x23, if_edi = 1, if_esi = 2, if_ebp = 3, if_esp = 0xE0001FD0,
     if_ebx = 4, if_edx = 5, if_ecx = 6, if_eax = 12, int_no = 0x60, if_err_code = 0, if_eip = 0x100020, if_cs = 0x1B, if_eflags = 0x202,
     if_useresp = 0xBFFEFFF0, if_ss = 0x23\<rparr>"

definition ex_version :: SystemVersion where
  "ex_version = \<lparr>v_tag = ''-dev'' @ replicate 8 NUL, v_major = 0, v_minor = 0, v_patch = 2, v_build_id = 1\<rparr>"

definition ex_fb :: "ptr \<Rightarrow> ptr \<Rightarrow> FramebufferInformation" where
  "ex_fb table private = \<lparr>fb_width = 640, fb_height = 480, fb_bpp = 32, fb_stride = 2560\<rparr>"

lemma interrupt_keeps_registers_example:
  "InterruptServiceHandler ex_version 0xC0101000 ex_fb ex_frame ex_calls = Some (Serviced (ex_frame\<lparr>if_eax := 0xFFFFFFF6\<rparr>) ex_calls)"
  using interrupt_keeps_registers [of ex_version "0xC0101000" ex_fb ex_frame ex_calls ex_frame ex_calls] by (simp add: ex_frame_def)


theorem translate_handle_correct_witness:
  "\<exists>s' k. DWTranslateHandle 8 0 0x1000 ex_calls = Some (STATUS_OK, s') \<and> k < MAX_OBJ_PER_PROCESS \<and>
     CopyFromUser 0x1000 4 s' = Some (STATUS_OK, bytes32 (of_nat k))"
proof -
  have f: "FindProcessByID 8 ex_calls = Some 0xC0301000"
    by (simp add: FindProcessByID_def find_process.simps [of 8 "0xC0300000"] find_process.simps [of 8 "0xC0301000"]
        ex_caller_def ex_other_def ex_client_def)
  have u: "\<not> (\<forall>k < MAX_OBJ_PER_PROCESS. handle_used (p_handles ex_caller) k)"
    by (intro notI, drule spec [of _ 0]) (simp add: ex_caller_def)
  have w: "\<forall>q \<in> {1}. writable_at ex_calls q ((\<lambda>_. 5) q)" using vm_ex_calls(2) by simp
  have r: "\<forall>k \<le> 4. (unat (0x1000 :: u32) + k) div 4096 \<in> {1}" by auto
  have o: "objlist (p_handles ex_other) 0 = 0xC0300700" by (simp add: ex_other_def)
  have "objects ex_calls 0xC0300700 = Some ex_device_object" by simp
  from translate_handle_correct [OF vm_ex_calls(1) _ f _ current_owner_ex_calls _ _ _ table_ok_ex_caller _ o _ this _ r w] u
  show ?thesis by fastforce
qed

lemma map_unresolved_device_faults_example: "DWInvokeObject 0xC0101000 ex_fb 2 DEVICE_MAP 0x1000 ex_calls = None"
proof -
  have "objlist (p_handles ex_caller) 2 = 0xC0300800" "p_flags ex_caller AND PROC_C_SERVER \<noteq> 0" by (simp_all add: ex_caller_def)
  from map_unresolved_device_faults [OF current_owner_ex_calls _ this(2) _ this(1), of ex_device_object "0xC0101000" ex_fb "0x1000"]
  show ?thesis by (simp add: ex_device_object_def)
qed

end
