(* ===== verification/Startup.thy ===== *)
theory Startup
  imports Calls ContextSwitch
begin

text \<open>
  The assembly and C code by which control passes between user code and the kernel outside of interrupts: the fast system call
  entry (\<^verbatim>\<open>src/sys/ddk/ia32/sysenter.asm\<close>), the first entry of a thread into user mode (\<^verbatim>\<open>src/sys/task/task.c\<close>,
  \<^verbatim>\<open>src/sys/task/task.asm\<close>) and the end of a kernel thread (\<^verbatim>\<open>src/sys/sched/schedule.c\<close>).
\<close>

section \<open>The fast system call entry\<close>

text \<open>
  The registers of user code at \<^verbatim>\<open>sysenter\<close>: it passes its stack pointer in \<^verbatim>\<open>ecx\<close> and the return address in
  \<^verbatim>\<open>edx\<close>, where \<^verbatim>\<open>sysexit\<close> expects them. A call that gives up the processor comes back with the registers
  of \<open>Sysaway\<close> when its thread is chosen again.
\<close>

abbreviation USER_DATA_SEL :: u32 where "USER_DATA_SEL \<equiv> 0x23"

record SysenterRegisters =
  se_ebx :: u32
  se_esi :: u32
  se_edi :: u32
  se_ebp :: u32
  se_eax :: u32
  se_edx :: u32
  se_ecx :: u32
  se_ds :: u32
  se_es :: u32
  se_fs :: u32
  se_gs :: u32

datatype 's sysexit = Sysexit SysenterRegisters 's | Sysaway SysenterRegisters 's

definition sysenter_frame :: "SysenterRegisters \<Rightarrow> SystemCallFrame" where
  "sysenter_frame r = \<lparr>sc_ebx = se_ebx r, sc_esi = se_esi r, sc_edi = se_edi r, sc_ebp = se_ebp r, sc_eax = se_eax r\<rparr>"

definition sysenter_restore :: "SystemCallFrame \<Rightarrow> SysenterRegisters \<Rightarrow> SysenterRegisters" where
  "sysenter_restore f r = r\<lparr>se_ds := USER_DATA_SEL, se_es := USER_DATA_SEL, se_fs := USER_DATA_SEL, se_gs := USER_DATA_SEL,
     se_ebx := sc_ebx f, se_esi := sc_esi f, se_edi := sc_edi f, se_ebp := sc_ebp f, se_eax := sc_eax f\<rparr>"

definition SysenterEntry :: "SystemVersion \<Rightarrow> u32 \<Rightarrow> (ptr \<Rightarrow> ptr \<Rightarrow> FramebufferInformation) \<Rightarrow> SysenterRegisters \<Rightarrow>
    'a device_state_scheme \<Rightarrow> 'a device_state_scheme sysexit option" where
  "SysenterEntry version trampoline get_fb r s =
     (case DragonWareSyscall version trampoline get_fb (sysenter_frame r) s of
        None \<Rightarrow> None
      | Some (Returned f s1) \<Rightarrow> Some (Sysexit (sysenter_restore f r) s1)
      | Some (Switched f s1) \<Rightarrow> Some (Sysaway (sysenter_restore f r) s1)
      | Some (Waiting f s1) \<Rightarrow> Some (Sysaway (sysenter_restore f r) s1))"

section \<open>Starting and ending a thread\<close>

text \<open>The registers with which \<^verbatim>\<open>iret\<close> enters user mode.\<close>

record UserEntry =
  ue_eip :: u32
  ue_cs :: u32
  ue_eflags :: u32
  ue_esp :: u32
  ue_ss :: u32
  ue_general :: "u32 list"
  ue_data_segments :: "u32 list"

definition ThreadStartup :: "u32 \<Rightarrow> 'a vm_state_scheme \<Rightarrow> (UserEntry \<times> 'a vm_state_scheme) option" where
  "ThreadStartup trapframe s = do {
     useresp \<leftarrow> load32 (trapframe + 12) s;
     extra_data \<leftarrow> load32 (trapframe + 20) s;
     s1 \<leftarrow> write_bytes (useresp - 4) (bytes32 extra_data) s;
     s2 \<leftarrow> write_bytes (useresp - 8) (bytes32 0) s1;
     s3 \<leftarrow> store32 (trapframe + 12) (useresp - 8) s2;
     eip \<leftarrow> load32 trapframe s3;
     cs \<leftarrow> load32 (trapframe + 4) s3;
     eflags \<leftarrow> load32 (trapframe + 8) s3;
     esp \<leftarrow> load32 (trapframe + 12) s3;
     ss \<leftarrow> load32 (trapframe + 16) s3;
     Some (\<lparr>ue_eip = eip, ue_cs = cs, ue_eflags = eflags, ue_esp = esp, ue_ss = ss,
       ue_general = replicate 7 0, ue_data_segments = replicate 4 USER_DATA_SEL\<rparr>, s3)
   }"

datatype 's started = Enters UserEntry 's | Stopped 's

definition ThreadBootstrapTrampoline :: "'a irq_state_scheme \<Rightarrow> 'a irq_state_scheme started option" where
  "ThreadBootstrapTrampoline s = do {
     let current = GetCurrentExecutionThread s;
     t \<leftarrow> threads s current;
     esp \<leftarrow> load32 (t_trapframe t + 12) s;
     ok \<leftarrow> (if esp \<ge> KERNEL_VM_BASE then Some False
           else do { m \<leftarrow> ADDRESS_IS_MAPPED esp s; if \<not> m then Some False else ADDRESS_IS_MAPPED (esp - 8) s });
     if ok then map_option (\<lambda>(e, s1). Enters e s1) (ThreadStartup (t_trapframe t) s)
     else do {
       s1 \<leftarrow> DeleteThread current s;
       s2 \<leftarrow> YieldCurrentThread s1;
       Some (Stopped s2)
     }
   }"

text \<open>The processor has gone to another thread when this returns; if there is none to go to, the thread waits in its loop.\<close>

definition ThreadExitProc :: "'a irq_state_scheme \<Rightarrow> 'a irq_state_scheme option" where
  "ThreadExitProc s = do {
     s1 \<leftarrow> upd_thread (current_thread s) (\<lambda>t. t\<lparr>t_state := THREAD_TERMINATED, t_esp := t_stack_top t\<rparr>) s;
     YieldCurrentThread s1
   }"

section \<open>Words written byte by byte\<close>

lemma set_bytes32: "set_byte 3 (ucast (drop_bit 24 v)) (set_byte 2 (ucast (drop_bit 16 v)) (set_byte 1 (ucast (drop_bit 8 v))
    (set_byte 0 (ucast v) w))) = v"
proof (rule bit_word_eqI)
  fix n assume "n < LENGTH(32)"
  then have n: "n < 32" by simp
  then show "bit (set_byte 3 (ucast (drop_bit 24 v)) (set_byte 2 (ucast (drop_bit 16 v)) (set_byte 1 (ucast (drop_bit 8 v))
    (set_byte 0 (ucast v) w)))) n = bit v n"
    by (auto simp: bit_set_byte bit_simps not_le)
qed

text \<open>The bytes of an aligned word are in one page and one word.\<close>

lemma aligned_bytes:
  assumes "unat va mod 4 = 0" and "j < 4"
  shows "page_no (va + of_nat j) = page_no va" and "dword_no (va + of_nat j) = dword_no va" and "unat (va + of_nat j :: u32) mod 4 = j"
    and "va < PAGE_TABLE_BASE \<Longrightarrow> va + of_nat j < PAGE_TABLE_BASE"
proof -
  obtain q where q: "unat va = 4 * q" using assms(1) by (metis mod_0_imp_dvd dvd_def)
  have "4 * q < 4294967296" unfolding q [symmetric] by simp
  then have "4 * q + j < 4294967296" using assms(2) by simp
  moreover have j: "unat (of_nat j :: u32) = j" using assms(2) by (simp add: unat_of_nat_small)
  ultimately have u: "unat (va + of_nat j) = 4 * q + j" using unat_plus_no_wrap [of va "of_nat j"] q by simp
  have d: "(4 * q + j) div 4 = q" using assms(2) by simp
  have "(4 * q + j) div 4096 = 4 * q div 4096"
    using d div_mult2_eq [of "4 * q + j" 4 1024] div_mult2_eq [of "4 * q" 4 1024] by simp
  then show "page_no (va + of_nat j) = page_no va" by (simp add: frame_no_nat u q)
  have "(4 * q + j) mod 4096 div 4 = 4 * q mod 4096 div 4"
    using d mod_mult2_eq [of "4 * q + j" 4 1024] mod_mult2_eq [of "4 * q" 4 1024] assms(2) by simp
  then show "dword_no (va + of_nat j) = dword_no va" by (simp add: dword_no_def u q)
  show "unat (va + of_nat j) mod 4 = j" using assms(2) by (simp add: u)
  show "va + of_nat j < PAGE_TABLE_BASE" if "va < PAGE_TABLE_BASE"
  proof -
    have "4 * q < 4290772992" using that q by (simp add: word_less_nat_alt)
    then have "4 * q + j < 4290772992" using assms(2) by simp
    then show ?thesis by (simp add: word_less_nat_alt u)
  qed
qed

lemma store8_cell:
  assumes "vm_inv s" and "stack_cell s va c" and "unat va mod 4 = 0" and "j < 4"
  shows "store8 (va + of_nat j) b s = Some (set_word c (set_byte j b (word_at s c)) s)"
proof -
  note a = aligned_bytes [OF assms(3,4)]
  have "va + of_nat j < PAGE_TABLE_BASE" "writable_at s (page_no (va + of_nat j)) (fst c)" "snd c = dword_no va"
    using assms(2) a by (simp_all add: stack_cell_def)
  from writable_write_frame(1) [OF this(2,1)] this(3) a(2,3) show ?thesis
    by (simp add: store8_def set_word_def word_at_def)
qed

lemma set_word_space:
  assumes "vm_inv s" and "stack_cell s va c"
  shows "vm_inv (set_word c v s)" and "stack_cell (set_word c v s) = stack_cell s" and "vmap (set_word c v s) = vmap s"
proof -
  have "\<not> table_frame s (fst c)" using assms(2) by (auto simp: stack_cell_def writable_at_def)
  from poke_data(2) [OF this assms(1)] show "vmap (set_word c v s) = vmap s" by (simp add: set_word_def)
qed (use set_word_cell [OF assms] in simp_all)

lemma set_word_set_word [simp]: "set_word c v (set_word c w s) = set_word c v s"
  by (simp add: set_word_def poke_def)

lemma write_word:
  assumes "vm_inv s" and "stack_cell s va c" and "unat va mod 4 = 0"
  shows "write_bytes va (bytes32 v) s = Some (set_word c v s)"
proof -
  have st: "store8 (va + of_nat j) b (set_word c w s) = Some (set_word c (set_byte j b w) s)" if "j < 4" for j b w
    using store8_cell [of "set_word c w s" va c j b] set_word_cell [OF assms(1,2)] assms(2,3) that by simp
  have s0: "store8 va b s = Some (set_word c (set_byte 0 b (word_at s c)) s)" for b
    using store8_cell [OF assms, of 0] by simp
  have st': "store8 (va + 1) b (set_word c w s) = Some (set_word c (set_byte 1 b w) s)"
    "store8 (2 + va) b (set_word c w s) = Some (set_word c (set_byte 2 b w) s)"
    "store8 (3 + va) b (set_word c w s) = Some (set_word c (set_byte 3 b w) s)" for b w
    using st [of 1 b w] st [of 2 b w] st [of 3 b w] by (simp_all add: add.commute)
  show ?thesis unfolding bytes32_def using set_bytes32 [of v "word_at s c"] by (simp add: s0 st')
qed

section \<open>The first entry into user mode\<close>

text \<open>
  The six words of a trap frame are at \<open>ds\<close>, and the two words below the user stack pointer at \<open>a\<close> and \<open>b\<close>.
\<close>

definition entry_cells :: "'a vm_state_scheme \<Rightarrow> u32 \<Rightarrow> u32 \<Rightarrow> cell list \<Rightarrow> cell \<Rightarrow> cell \<Rightarrow> bool" where
  "entry_cells s frame useresp ds a b \<longleftrightarrow> length ds = 6 \<and> distinct (a # b # ds) \<and>
     list_all (\<lambda>i. stack_cell s (frame + 4 * of_nat i) (ds ! i)) [0..<6] \<and>
     stack_cell s (useresp - 4) a \<and> stack_cell s (useresp - 8) b \<and>
     unat (useresp - 4) mod 4 = 0 \<and> unat (useresp - 8) mod 4 = 0"

lemma entry_cellsD:
  assumes "entry_cells s frame useresp ds a b"
  obtains d0 d1 d2 d3 d4 d5 where "ds = [d0, d1, d2, d3, d4, d5]" "distinct [a, b, d0, d1, d2, d3, d4, d5]"
    "stack_cell s frame d0" "stack_cell s (frame + 4) d1" "stack_cell s (frame + 8) d2" "stack_cell s (frame + 12) d3"
    "stack_cell s (frame + 16) d4" "stack_cell s (frame + 20) d5" "stack_cell s (useresp - 4) a" "stack_cell s (useresp - 8) b"
    "unat (useresp - 4) mod 4 = 0" "unat (useresp - 8) mod 4 = 0"
proof -
  from assms have "length ds = 6" by (simp add: entry_cells_def)
  then obtain d0 d1 d2 d3 d4 d5 where ds: "ds = [d0, d1, d2, d3, d4, d5]"
    by (auto simp: numeral_eq_Suc length_Suc_conv)
  have "[0..<6] = [0, 1, 2, 3, 4, 5 :: nat]" by (simp add: upt_rec)
  with assms ds show thesis by (intro that [of d0 d1 d2 d3 d4 d5]) (simp_all add: entry_cells_def)
qed

lemma ThreadStartup_cells:
  assumes v: "vm_inv s" and c: "entry_cells s frame useresp ds a b" and e: "word_at s (ds ! 3) = useresp"
  shows "ThreadStartup frame s = Some (\<lparr>ue_eip = word_at s (ds ! 0), ue_cs = word_at s (ds ! 1), ue_eflags = word_at s (ds ! 2),
      ue_esp = useresp - 8, ue_ss = word_at s (ds ! 4), ue_general = replicate 7 0, ue_data_segments = replicate 4 USER_DATA_SEL\<rparr>,
    set_word (ds ! 3) (useresp - 8) (set_word b 0 (set_word a (word_at s (ds ! 5)) s)))"
proof -
  obtain d0 d1 d2 d3 d4 d5 where x: "ds = [d0, d1, d2, d3, d4, d5]" "distinct [a, b, d0, d1, d2, d3, d4, d5]"
    "stack_cell s frame d0" "stack_cell s (frame + 4) d1" "stack_cell s (frame + 8) d2" "stack_cell s (frame + 12) d3"
    "stack_cell s (frame + 16) d4" "stack_cell s (frame + 20) d5" "stack_cell s (useresp - 4) a" "stack_cell s (useresp - 8) b"
    "unat (useresp - 4) mod 4 = 0" "unat (useresp - 8) mod 4 = 0"
    by (rule entry_cellsD [OF c])
  have e: "word_at s d3 = useresp" using e x(1) by simp
  define s1 where "s1 = set_word a (word_at s d5) s"
  define s2 where "s2 = set_word b 0 s1"
  define s3 where "s3 = set_word d3 (useresp - 8) s2"
  have s1: "vm_inv s1" "stack_cell s1 = stack_cell s" unfolding s1_def using set_word_cell [OF v x(9)] by simp_all
  have s2: "vm_inv s2" "stack_cell s2 = stack_cell s"
    unfolding s2_def using set_word_cell [of s1, unfolded s1(2), OF s1(1) x(10)] by simp_all
  have s3: "stack_cell s3 = stack_cell s"
    unfolding s3_def using set_word_cell [of s2, unfolded s2(2), OF s2(1) x(6)] by simp_all
  have w: "write_bytes (useresp - 4) (bytes32 (word_at s d5)) s = Some s1" "write_bytes (useresp - 8) (bytes32 0) s1 = Some s2"
    using write_word [OF v x(9,11)] write_word [of s1, unfolded s1(2), OF s1(1) x(10,12)] by (simp_all add: s1_def s2_def)
  have st: "store32 (frame + 12) (useresp - 8) s2 = Some s3"
    using store_cell [of s2, unfolded s2(2), OF x(6)] by (simp add: s3_def)
  have l: "load32 frame s3 = Some (word_at s d0)" "load32 (frame + 4) s3 = Some (word_at s d1)"
    "load32 (frame + 8) s3 = Some (word_at s d2)" "load32 (frame + 12) s3 = Some (useresp - 8)"
    "load32 (frame + 16) s3 = Some (word_at s d4)"
    using x(2) load_cell [of s3, unfolded s3] x(3-7) by (auto simp: s3_def s2_def s1_def)
  show ?thesis
    unfolding ThreadStartup_def by (simp add: load_cell [OF x(6)] load_cell [OF x(8)] e w st l x(1))
      (simp add: s3_def s2_def s1_def)
qed

text \<open>
  C16. The first time a thread runs. Its start routine leaves the kernel only with a user stack pointer below the kernel's part of
  the address space whose page, and that of the two words below it, are mapped. With the trap frame that was prepared for the
  thread and a writable stack, it enters user mode at the thread's entry point with the selectors and flags of the frame, with
  all general registers cleared; the word at the new stack pointer is a null return address and the one above it the
  argument of the thread.
\<close>

theorem new_thread_enters_user:
  assumes "vm_inv s" and "threads s (current_thread s) = Some t" and "entry_cells s (t_trapframe t) useresp ds a b"
    and "map (word_at s) ds = [entry, cs, eflags, useresp, ss, extra]" and "useresp < KERNEL_VM_BASE"
  shows "case vmap s (page_no useresp) of
      None \<Rightarrow> \<nexists>e s'. ThreadBootstrapTrampoline s = Some (Enters e s')
    | Some _ \<Rightarrow> \<exists>s'. ThreadBootstrapTrampoline s = Some (Enters \<lparr>ue_eip = entry, ue_cs = cs, ue_eflags = eflags, ue_esp = useresp - 8,
          ue_ss = ss, ue_general = replicate 7 0, ue_data_segments = replicate 4 USER_DATA_SEL\<rparr> s') \<and>
        load32 (useresp - 8) s' = Some 0 \<and> load32 (useresp - 4) s' = Some extra \<and> vmap s' = vmap s"
proof -
  obtain d0 d1 d2 d3 d4 d5 where x: "ds = [d0, d1, d2, d3, d4, d5]" "distinct [a, b, d0, d1, d2, d3, d4, d5]"
    "stack_cell s (t_trapframe t + 12) d3" "stack_cell s (useresp - 4) a" "stack_cell s (useresp - 8) b"
    by (rule entry_cellsD [OF assms(3)])
  have w: "word_at s d0 = entry" "word_at s d1 = cs" "word_at s d2 = eflags" "word_at s d3 = useresp" "word_at s d4 = ss" "word_at s d5 = extra"
    using assms(4) x(1) by simp_all
  have lt: "useresp < PAGE_TABLE_BASE" using assms(5) by (rule order.strict_trans) simp
  have "useresp - 8 < PAGE_TABLE_BASE" "vmap s (page_no (useresp - 8)) \<noteq> None" using x(5) by (auto simp: stack_cell_def writable_at_def)
  then have m: "ADDRESS_IS_MAPPED (useresp - 8) s = Some True" "ADDRESS_IS_MAPPED useresp s = Some (vmap s (page_no useresp) \<noteq> None)"
    using ADDRESS_IS_MAPPED_vmap [OF assms(1)] lt by simp_all
  have l: "load32 (t_trapframe t + 12) s = Some useresp" using load_cell [OF x(3)] w(4) by simp
  note k = not_le [THEN iffD2, OF assms(5)]
  show ?thesis
  proof (cases "vmap s (page_no useresp)")
    case None
    then show ?thesis using m k l assms(2)
      by (auto simp: ThreadBootstrapTrampoline_def GetCurrentExecutionThread_def Let_def bind_eq_Some_conv)
  next
    case (Some e)
    let ?s = "set_word d3 (useresp - 8) (set_word b 0 (set_word a extra s))"
    have up: "ThreadStartup (t_trapframe t) s = Some (\<lparr>ue_eip = entry, ue_cs = cs, ue_eflags = eflags, ue_esp = useresp - 8,
        ue_ss = ss, ue_general = replicate 7 0, ue_data_segments = replicate 4 USER_DATA_SEL\<rparr>, ?s)"
      using ThreadStartup_cells [OF assms(1,3)] x(1) w by simp
    have s1: "vm_inv (set_word a extra s)" "stack_cell (set_word a extra s) = stack_cell s" "vmap (set_word a extra s) = vmap s"
      using set_word_space [OF assms(1) x(4)] by simp_all
    have s2: "vm_inv (set_word b 0 (set_word a extra s))" "stack_cell (set_word b 0 (set_word a extra s)) = stack_cell s"
      "vmap (set_word b 0 (set_word a extra s)) = vmap s"
      using set_word_space [of "set_word a extra s", unfolded s1(2,3), OF s1(1) x(5)] by simp_all
    have s3: "stack_cell ?s = stack_cell s" "vmap ?s = vmap s"
      using set_word_space [of "set_word b 0 (set_word a extra s)", unfolded s2(2,3), OF s2(1) x(3)] by simp_all
    have r: "load32 (useresp - 8) ?s = Some 0" "load32 (useresp - 4) ?s = Some extra"
      using x(2) load_cell [of ?s, unfolded s3(1), OF x(5)] load_cell [of ?s, unfolded s3(1), OF x(4)] by auto
    have "ThreadBootstrapTrampoline s = map_option (\<lambda>(e, s1). Enters e s1) (ThreadStartup (t_trapframe t) s)"
      using m k l assms(2) Some by (simp add: ThreadBootstrapTrampoline_def GetCurrentExecutionThread_def Let_def)
    with up r s3(2) Some show ?thesis by simp
  qed
qed


section \<open>Examples\<close>

lemma set_words_space:
  "vm_inv s \<Longrightarrow> list_all (\<lambda>(c, v). \<exists>va. stack_cell s va c) ws \<Longrightarrow>
   vm_inv (fold (\<lambda>(c, v). set_word c v) ws s) \<and> stack_cell (fold (\<lambda>(c, v). set_word c v) ws s) = stack_cell s \<and>
   vmap (fold (\<lambda>(c, v). set_word c v) ws s) = vmap s"
proof (induction ws arbitrary: s)
  case Nil
  then show ?case by simp
next
  case (Cons w ws)
  obtain c v where w: "w = (c, v)" by (cases w)
  then obtain va where "stack_cell s va c" using Cons.prems(2) by auto
  note p = set_word_space [OF Cons.prems(1) this, of v]
  have "list_all (\<lambda>(c, v). \<exists>va. stack_cell (set_word c' v' s) va c) ws" if "c' = c" "v' = v" for c' v'
    using Cons.prems(2) p(2) that by (simp add: w)
  from Cons.IH [OF p(1) this [OF refl refl]] show ?case using p(2,3) by (simp add: w)
qed

text \<open>A thread about to run for the first time, with its trap frame at \<open>0x1100\<close> and its stack below \<open>0x1800\<close>.\<close>

definition ex_words :: "(cell \<times> u32) list" where
  "ex_words = [((5, 64), 0x400000), ((5, 65), 0x1B), ((5, 66), 0x202), ((5, 67), 0x1800), ((5, 68), 0x23), ((5, 69), 42)]"

definition ex_start :: device_state where
  "ex_start = (fold (\<lambda>(c, v). set_word c v) ex_words ex_calls)\<lparr>threads := [ex_a \<mapsto> ex_thread\<lparr>t_trapframe := 0x1100\<rparr>]\<rparr>"

lemma ex_start_vm:
  "vm_inv ex_start" "stack_cell ex_start = stack_cell ex_calls" "vmap ex_start = vmap ex_calls" "current_thread ex_start = ex_a"
  "map (word_at ex_start) [(5, 64), (5, 65), (5, 66), (5, 67), (5, 68), (5, 69)] = [0x400000, 0x1B, 0x202, 0x1800, 0x23, 42]"
proof -
  let ?s = "fold (\<lambda>(c, v). set_word c v) ex_words ex_calls"
  have "stack_cell ex_calls (0x1100 + 4 * of_nat i) (5, 64 + i)" if "i \<in> {0, 1, 2, 3, 4, 5}" for i :: nat
    using that vm_ex_calls(2) by (auto simp: stack_cell_def frame_no_nat dword_no_def)
  then have c: "\<exists>va. stack_cell ex_calls va (5, 64 + i)" if "i \<in> {0, 1, 2, 3, 4, 5}" for i :: nat using that by blast
  have "list_all (\<lambda>(c, v). \<exists>va. stack_cell ex_calls va c) ex_words"
    using c [of 0] c [of 1] c [of 2] c [of 3] c [of 4] c [of 5] by (simp add: ex_words_def)
  note p = set_words_space [OF vm_ex_calls(1) this]
  have m: "pmem ex_start = pmem ?s" "cr3 ex_start = cr3 ?s" "bitmap ex_start = bitmap ?s" "highest_addr ex_start = highest_addr ?s"
    by (simp_all add: ex_start_def)
  show "vm_inv ex_start" using p vm_inv_same [OF m] by simp
  show "stack_cell ex_start = stack_cell ex_calls" "vmap ex_start = vmap ex_calls" using p vm_same [OF m(1,2)] by simp_all
  show "current_thread ex_start = ex_a" by (simp add: ex_start_def ex_words_def)
  show "map (word_at ex_start) [(5, 64), (5, 65), (5, 66), (5, 67), (5, 68), (5, 69)] = [0x400000, 0x1B, 0x202, 0x1800, 0x23, 42]"
    using vm_same(2) [OF m(1,2)] by (simp add: ex_words_def)
qed

theorem new_thread_enters_user_witness:
  "\<exists>e s'. ThreadBootstrapTrampoline ex_start = Some (Enters e s') \<and> ue_eip e = 0x400000 \<and> ue_esp e = 0x17F8 \<and>
     load32 0x17FC s' = Some 42"
proof -
  have t: "threads ex_start (current_thread ex_start) = Some (ex_thread\<lparr>t_trapframe := 0x1100\<rparr>)"
    unfolding ex_start_vm(4) by (simp add: ex_start_def)
  have u: "[0..<6] = [0, 1, 2, 3, 4, 5 :: nat]" by (simp add: upt_rec)
  have c: "entry_cells ex_start (t_trapframe (ex_thread\<lparr>t_trapframe := 0x1100\<rparr>)) 0x1800
      [(5, 64), (5, 65), (5, 66), (5, 67), (5, 68), (5, 69)] (5, 511) (5, 510)"
    unfolding entry_cells_def ex_start_vm(2) u using vm_ex_calls(2) by (simp add: stack_cell_def frame_no_nat dword_no_def)
  have "vmap ex_start (page_no 0x1800) \<noteq> None"
    unfolding ex_start_vm(3) using vm_ex_calls(2) by (auto simp: writable_at_def frame_no_nat)
  with new_thread_enters_user [OF ex_start_vm(1) t c ex_start_vm(5)] show ?thesis by auto
qed

definition ex_fast :: SysenterRegisters where
  "ex_fast = \<lparr>se_ebx = if_ebx ex_frame, se_esi = if_esi ex_frame, se_edi = if_edi ex_frame, se_ebp = if_ebp ex_frame,
     se_eax = if_eax ex_frame, se_edx = 0x400010, se_ecx = 0xBFFEFFF0, se_ds = 0x23, se_es = 0x23, se_fs = 0x23, se_gs = 0x23\<rparr>"


end
