(* ===== verification/BootInfo.thy ===== *)
theory BootInfo
  imports Regions KString
begin

text \<open>
  What the boot loader passed to the kernel (\<^verbatim>\<open>src/sys/init/bootinfo.c\<close>): the copy of the structure, the modules and the
  options of the command line.  The character array and the array of modules that the structure points to are arguments.
\<close>

section \<open>Definitions\<close>

abbreviation MULTIBOOT_CMDLINE :: u32 where "MULTIBOOT_CMDLINE \<equiv> 4"
abbreviation MAX_BOOT_MODULES :: nat where "MAX_BOOT_MODULES \<equiv> 32"
abbreviation MAX_CMDLINE :: nat where "MAX_CMDLINE \<equiv> 512"

record boot_state =
  bootinfo :: Multiboot
  boot_modules :: "nat \<Rightarrow> MultibootModule"
  n_boot_modules :: u32
  boot_cmdline :: string

definition RegisterBootInformation :: "Multiboot \<Rightarrow> string \<Rightarrow> boot_state \<Rightarrow> boot_state option" where
  "RegisterBootInformation mb cmdline b =
     (let b1 = b\<lparr>boot_modules := (\<lambda>_. \<lparr>mod_start = 0, mod_end = 0\<rparr>), boot_cmdline := replicate MAX_CMDLINE NUL, bootinfo := mb\<rparr>
      in if mb_flags mb AND MULTIBOOT_CMDLINE \<noteq> 0
         then map_option (\<lambda>c. b1\<lparr>boot_cmdline := c\<rparr>) (strncpy (boot_cmdline b1) cmdline MAX_CMDLINE)
         else Some b1)"

definition GetBootInformationStructure :: "boot_state \<Rightarrow> Multiboot" where
  "GetBootInformationStructure b = bootinfo b"

definition GetBootModuleAt :: "u32 \<Rightarrow> boot_state \<Rightarrow> Status \<times> MultibootModule option" where
  "GetBootModuleAt index b =
     (if index \<ge> n_boot_modules b then (STATUS_OUT_OF_BOUNDS, None) else (STATUS_OK, Some (boot_modules b (unat index))))"

text \<open>More modules than the array has room for are written past its end.\<close>

definition RegisterBootModules :: "(nat \<Rightarrow> MultibootModule) \<Rightarrow> boot_state \<Rightarrow> boot_state option" where
  "RegisterBootModules mods b =
     (let n = mb_mods_count (bootinfo b)
      in if unat n > MAX_BOOT_MODULES then None
         else Some (b\<lparr>n_boot_modules := n, boot_modules := (\<lambda>i. if i < unat n then mods i else boot_modules b i)\<rparr>))"

abbreviation SPACE :: char where "SPACE \<equiv> CHR 0x20"

function skip_spaces :: "string \<Rightarrow> nat \<Rightarrow> nat option" where
  "skip_spaces s i = (case rd s i of None \<Rightarrow> None | Some c \<Rightarrow> if c = SPACE then skip_spaces s (Suc i) else Some i)"
  by pat_completeness auto
termination
  by (relation "measure (\<lambda>(s, i). length s - i)") (auto dest: rd_less rd_less_sym)

function word_end :: "string \<Rightarrow> nat \<Rightarrow> nat option" where
  "word_end s i =
     (case rd s i of None \<Rightarrow> None | Some c \<Rightarrow> if c \<noteq> SPACE \<and> c \<noteq> NUL then word_end s (Suc i) else Some i)"
  by pat_completeness auto
termination
  by (relation "measure (\<lambda>(s, i). length s - i)") (auto dest: rd_less rd_less_sym)

declare skip_spaces.simps [simp del] word_end.simps [simp del]

partial_function (option) option_from :: "string \<Rightarrow> string \<Rightarrow> nat \<Rightarrow> nat \<Rightarrow> bool option" where
  "option_from line opt targetlen i =
     Option.bind (skip_spaces line i) (\<lambda>start.
       Option.bind (rd line start) (\<lambda>c.
         if c = NUL then Some False
         else Option.bind (word_end line start) (\<lambda>iter.
           Option.bind (if iter - start = targetlen then map_option (\<lambda>r. r = 0) (strcmp opt (drop start line)) else Some False) (\<lambda>found.
             if found then Some True else option_from line opt targetlen iter))))"

definition BootOptionProvided :: "string \<Rightarrow> boot_state \<Rightarrow> bool option" where
  "BootOptionProvided opt b =
     (if mb_flags (bootinfo b) AND MULTIBOOT_CMDLINE = 0 then Some False
      else Option.bind (strlen opt) (\<lambda>targetlen. option_from (boot_cmdline b) opt targetlen 0))"

declare option_from.simps [code]

section \<open>Words of the command line\<close>

lemma rd_at: "cstr s xs \<Longrightarrow> drop i xs = c # rest \<Longrightarrow> rd s i = Some c"
  using cstr_rd(1) [of s xs i] by (metis drop_eq_Nil list.simps(3) not_le_imp_less nth_via_drop)

lemma rd_end: "cstr s xs \<Longrightarrow> i \<le> length xs \<Longrightarrow> drop i xs = [] \<Longrightarrow> rd s i = Some NUL"
  using cstr_rd(2) [of s xs] by (simp add: le_antisym)

lemma drop_more: "drop i xs = us @ vs \<Longrightarrow> i \<le> length xs \<Longrightarrow> drop (i + length us) xs = vs \<and> i + length us \<le> length xs"
  by (metis add.commute append_eq_conv_conj drop_drop length_append length_drop le_add1 add_le_cancel_left le_add_diff_inverse)

lemma skip_spaces_spec:
  assumes "cstr s xs"
  shows "drop i xs = replicate n SPACE @ ys \<Longrightarrow> i \<le> length xs \<Longrightarrow> ys = [] \<or> hd ys \<noteq> SPACE \<Longrightarrow> skip_spaces s i = Some (i + n)"
proof (induction n arbitrary: i)
  case 0
  then show ?case using rd_at [OF assms, of i] rd_end [OF assms, of i] by (cases ys) (auto simp: skip_spaces.simps [of s i])
next
  case (Suc n)
  then have d: "drop i xs = [SPACE] @ replicate n SPACE @ ys" by simp
  from drop_more [OF d] Suc.prems(2,3) Suc.IH [of "Suc i"] rd_at [OF assms, of i SPACE] d show ?case
    by (subst skip_spaces.simps) simp
qed

lemma word_end_spec:
  assumes "cstr s xs"
  shows "drop i xs = w @ ys \<Longrightarrow> i \<le> length xs \<Longrightarrow> SPACE \<notin> set w \<Longrightarrow> ys = [] \<or> hd ys = SPACE \<Longrightarrow> word_end s i = Some (i + length w)"
proof (induction w arbitrary: i)
  case Nil
  then show ?case using rd_at [OF assms, of i] rd_end [OF assms, of i] by (cases ys) (auto simp: word_end.simps [of s i])
next
  case (Cons c w)
  then have d: "drop i xs = [c] @ w @ ys" by simp
  have "c \<in> set (drop i xs)" using d by simp
  then have "c \<noteq> NUL" using assms by (auto simp: cstr_def dest: in_set_dropD)
  with drop_more [OF d] Cons.prems(2-4) Cons.IH [of "Suc i"] rd_at [OF assms, of i c] d show ?case
    by (subst word_end.simps) auto
qed

text \<open>The last word of a line: what is left of it when the option is the end, at its start or behind a space.\<close>

definition last_word :: "string \<Rightarrow> string \<Rightarrow> bool" where
  "last_word xs opt \<longleftrightarrow> (\<exists>us. xs = us @ opt \<and> (us = [] \<or> last us = SPACE))"

lemma last_word_spaces: "opt \<noteq> [] \<Longrightarrow> SPACE \<notin> set opt \<Longrightarrow> \<not> last_word (replicate n SPACE) opt"
proof
  assume o: "opt \<noteq> []" "SPACE \<notin> set opt" and "last_word (replicate n SPACE) opt"
  then obtain us where "replicate n SPACE = us @ opt" by (auto simp: last_word_def)
  then have "set opt \<subseteq> {SPACE}" by (metis Un_upper2 set_append set_replicate_conv_if empty_subsetI order_trans subset_refl)
  with o show False by (cases opt) auto
qed

lemma last_word_only:
  assumes "opt \<noteq> []" and "SPACE \<notin> set opt" and "w \<noteq> []" and "SPACE \<notin> set w"
  shows "last_word (replicate n SPACE @ w) opt \<longleftrightarrow> w = opt"
proof
  assume "last_word (replicate n SPACE @ w) opt"
  then obtain us where us: "replicate n SPACE @ w = us @ opt" "us = [] \<or> last us = SPACE" by (auto simp: last_word_def)
  then consider (long) vs where "us = replicate n SPACE @ vs" "w = vs @ opt" | (short) vs where "replicate n SPACE = us @ vs" "opt = vs @ w"
    by (auto simp: append_eq_append_conv2)
  then show "w = opt"
  proof cases
    case long
    then have "vs = []" using us(2) assms(4) by (cases vs rule: rev_cases) auto
    with long show ?thesis by simp
  next
    case short
    then have "set vs \<subseteq> {SPACE}" by (metis Un_upper2 set_append set_replicate_conv_if empty_subsetI order_trans subset_refl)
    with short(2) assms(2) have "vs = []" by (cases vs) auto
    with short show ?thesis by simp
  qed
next
  assume "w = opt"
  then show "last_word (replicate n SPACE @ w) opt" by (cases n) (auto simp: last_word_def last_replicate intro!: exI [of _ "replicate n SPACE"])
qed

lemma last_word_later:
  assumes "SPACE \<notin> set opt" and "hd ys = SPACE" and "ys \<noteq> []"
  shows "last_word (zs @ ys) opt \<longleftrightarrow> last_word ys opt"
proof
  assume "last_word (zs @ ys) opt"
  then obtain us where us: "zs @ ys = us @ opt" "us = [] \<or> last us = SPACE" by (auto simp: last_word_def)
  then consider (long) vs where "us = zs @ vs" "ys = vs @ opt" | (short) vs where "zs = us @ vs" "opt = vs @ ys"
    by (auto simp: append_eq_append_conv2)
  then show "last_word ys opt"
  proof cases
    case long
    then show ?thesis using us(2) by (cases vs) (auto simp: last_word_def intro!: exI [of _ vs])
  next
    case short
    then have "SPACE \<in> set opt" using assms(2,3) by (cases ys) auto
    with assms(1) show ?thesis by simp
  qed
next
  assume "last_word ys opt"
  then obtain us where us: "ys = us @ opt" "us = [] \<or> last us = SPACE" by (auto simp: last_word_def)
  have "us \<noteq> []" using us(1) assms by (cases opt) auto
  with us show "last_word (zs @ ys) opt" by (auto simp: last_word_def intro!: exI [of _ "zs @ us"])
qed

lemma split_word:
  obtains n w ys where "xs = replicate n SPACE @ w @ ys" "SPACE \<notin> set w" "ys = [] \<or> hd ys = SPACE" "w = [] \<longrightarrow> ys = []"
proof -
  let ?v = "dropWhile (\<lambda>c. c = SPACE) xs"
  have r: "takeWhile (\<lambda>c. c = SPACE) xs = replicate (length (takeWhile (\<lambda>c. c = SPACE) xs)) SPACE"
    by (rule replicate_length_same [symmetric]) (auto dest: set_takeWhileD)
  let ?w = "takeWhile (\<lambda>c. c \<noteq> SPACE) ?v" and ?y = "dropWhile (\<lambda>c. c \<noteq> SPACE) ?v"
  have f1: "xs = replicate (length (takeWhile (\<lambda>c. c = SPACE) xs)) SPACE @ ?w @ ?y" unfolding r [symmetric] by simp
  have f2: "SPACE \<notin> set ?w" by (auto dest: set_takeWhileD)
  have f3: "?y = [] \<or> hd ?y = SPACE" using hd_dropWhile [of "\<lambda>c. c \<noteq> SPACE" ?v] by blast
  have f4: "?y = []" if "?w = []"
  proof (cases ?v)
    case (Cons c cs)
    then have "c \<noteq> SPACE" using hd_dropWhile [of "\<lambda>c. c = SPACE" xs] by (metis list.sel(1) list.simps(3))
    with Cons that show ?thesis by simp
  next
    case Nil
    show ?thesis unfolding Nil by simp
  qed
  show thesis by (rule that [OF f1 f2 f3 impI [OF f4]])
qed

lemma option_from_spec:
  assumes s: "cstr line xs" and o: "cstr opt os" "os \<noteq> []" "SPACE \<notin> set os"
  shows "i \<le> length xs \<Longrightarrow> option_from line opt (length os) i = Some (last_word (drop i xs) os)"
proof (induction "length xs - i" arbitrary: i rule: less_induct)
  case less
  obtain n w ys where d: "drop i xs = replicate n SPACE @ w @ ys" "SPACE \<notin> set w" "ys = [] \<or> hd ys = SPACE" "w = [] \<longrightarrow> ys = []"
    by (rule split_word)
  let ?st = "i + n" and ?en = "i + n + length w"
  have "w @ ys = [] \<or> hd (w @ ys) \<noteq> SPACE" using d(2,4) by (cases w) auto
  note sk = skip_spaces_spec [OF s d(1) less.prems this]
  have st: "drop ?st xs = w @ ys" "?st \<le> length xs" using drop_more [OF d(1) less.prems] by simp_all
  have en: "drop ?en xs = ys" "?en \<le> length xs" using drop_more [OF st] by simp_all
  show ?case
  proof (cases "w = []")
    case True
    then have "rd line ?st = Some NUL" using rd_end [OF s st(2)] st(1) d(4) by simp
    with sk True d(1,4) last_word_spaces [OF o(2,3), of n] show ?thesis by (subst option_from.simps) simp
  next
    case False
    then obtain c w' where w: "w = c # w'" by (cases w) auto
    then have rdc: "rd line ?st = Some c" using rd_at [OF s, of ?st c "w' @ ys"] st(1) by simp
    have "c \<in> set (drop ?st xs)" using st(1) w by simp
    then have c: "c \<noteq> NUL" using s by (auto simp: cstr_def dest: in_set_dropD)
    have we: "word_end line ?st = Some ?en" by (rule word_end_spec [OF s st d(2,3)])
    have "NUL \<notin> set (w @ ys)" using s set_drop_subset [of ?st xs] unfolding st(1) by (auto simp: cstr_def)
    then have "cstr (drop ?st line) (w @ ys)" using s st by (auto simp: cstr_def)
    from strcmp_cstr [OF o(1) this] obtain r where r: "strcmp opt (drop ?st line) = Some r" "r = 0 \<longleftrightarrow> os = w @ ys" by blast
    let ?hit = "length w = length os \<and> os = w @ ys"
    have step: "option_from line opt (length os) i = (if ?hit then Some True else option_from line opt (length os) ?en)"
      using sk rdc c we r by (subst option_from.simps) (cases "length w = length os"; simp)
    show ?thesis
    proof (cases "ys = []")
      case True
      then have e: "?en = length xs" using en by simp
      have "option_from line opt (length os) ?en = Some False"
        using rd_end [OF s en(2)] en(1) True by (subst option_from.simps) (auto simp: skip_spaces.simps [of line ?en])
      moreover have "last_word (drop i xs) os \<longleftrightarrow> w = os" using last_word_only [OF o(2,3) False d(2)] d(1) True by simp
      ultimately show ?thesis using step True by auto
    next
      case False
      then have "\<not> ?hit" by auto
      then have "option_from line opt (length os) i = option_from line opt (length os) ?en" using step by (simp only: if_False)
      moreover have "length xs - ?en < length xs - i" using w en False by (cases ys) auto
      then have "option_from line opt (length os) ?en = Some (last_word ys os)" using less.hyps [of ?en] en by simp
      moreover have "last_word (drop i xs) os \<longleftrightarrow> last_word ys os"
        using last_word_later [OF o(3), of ys "replicate n SPACE @ w"] d(1,3) False by simp
      ultimately show ?thesis by simp
    qed
  qed
qed

section \<open>Properties\<close>

text \<open>
  C40. An option of the command line is recognised only if it comes last: the check always comes back, and it finds a word
  exactly if the command line ends with it, at its start or behind a space. An option that another one or a space follows is
  reported as missing.
\<close>

theorem boot_option_only_last:
  assumes "mb_flags (bootinfo b) AND MULTIBOOT_CMDLINE \<noteq> 0" and "cstr (boot_cmdline b) xs" and "cstr opt os" and "os \<noteq> []"
    and "SPACE \<notin> set os"
  shows "BootOptionProvided opt b = Some (\<exists>us. xs = us @ os \<and> (us = [] \<or> last us = SPACE))"
  using assms(1) strlen_cstr [OF assms(3)] option_from_spec [OF assms(2-5), of 0]
  by (simp add: BootOptionProvided_def last_word_def)

definition ex_boot :: boot_state where
  "ex_boot = \<lparr>bootinfo = \<lparr>mb_flags = 4, mb_mods_count = 0, mb_mods_addr = 0, mb_mmap_len = 0, mb_mmap_addr = 0\<rparr>,
     boot_modules = (\<lambda>_. \<lparr>mod_start = 0, mod_end = 0\<rparr>), n_boot_modules = 0, boot_cmdline = ''quiet serial'' @ [NUL]\<rparr>"

theorem boot_option_only_last_witness:
  "BootOptionProvided (''serial'' @ [NUL]) ex_boot = Some True \<and> BootOptionProvided (''quiet'' @ [NUL]) ex_boot = Some False"
proof -
  have b: "mb_flags (bootinfo ex_boot) AND MULTIBOOT_CMDLINE \<noteq> 0" "cstr (boot_cmdline ex_boot) ''quiet serial''"
    by (simp_all add: ex_boot_def cstr_def)
  have o: "cstr (''serial'' @ [NUL]) ''serial''" "cstr (''quiet'' @ [NUL]) ''quiet''" by (simp_all add: cstr_def)
  have "\<exists>us. ''quiet serial'' = us @ ''serial'' \<and> (us = [] \<or> last us = SPACE)" by (rule exI [of _ "''quiet ''"]) simp
  moreover have "\<not> (\<exists>us. ''quiet serial'' = us @ ''quiet'' \<and> (us = [] \<or> last us = SPACE))"
  proof
    assume "\<exists>us. ''quiet serial'' = us @ ''quiet'' \<and> (us = [] \<or> last us = SPACE)"
    then obtain us where "''quiet serial'' = us @ ''quiet''" by blast
    then have "last ''quiet serial'' = last ''quiet''" by (metis last_appendR list.simps(3))
    then show False by simp
  qed
  ultimately show ?thesis
    using boot_option_only_last [OF b o(1)] boot_option_only_last [OF b o(2)] by simp
qed

end
