(* ===== verification/BootHeap.thy ===== *)
theory BootHeap
  imports Heap
begin

text \<open>
  The memory of the boot manager: its frames (\<^verbatim>\<open>src/bootmanager/core/common/frame.c\<close>), its heap (\<^verbatim>\<open>kmalloc.c\<close>) and the
  pages above 1 MiB for the kernel's modules (\<^verbatim>\<open>highmem.c\<close>). The boot manager runs without paging. Its heap threads the
  free frames and the free objects through their first words, which are the field \<open>bh_links\<close>; a slab header at the start of a
  frame is in \<open>bh_slabs\<close>. Names that the kernel uses too end in \<open>_boot\<close>.
\<close>

section \<open>Frames\<close>

record PhysicalPool =
  frame_start :: u32
  n_frames :: u32
  free_frames :: ptr

record boot_heap =
  pool :: PhysicalPool
  bh_links :: "ptr \<Rightarrow> ptr"
  bh_slabs :: "ptr \<rightharpoonup> Slab"
  bh_caches :: "nat \<Rightarrow> SlabCache"
  bh_initialized :: bool

abbreviation BOOT_HEAP_START :: u32 where "BOOT_HEAP_START \<equiv> 0x35000"
abbreviation BOOT_HEAP_END :: u32 where "BOOT_HEAP_END \<equiv> 0x80000"

definition InitFrameManager_boot :: "'a boot_heap_scheme \<Rightarrow> 'a boot_heap_scheme" where
  "InitFrameManager_boot s = s\<lparr>pool := \<lparr>frame_start = BOOT_HEAP_START div FRAME_SIZE,
     n_frames = (BOOT_HEAP_END - BOOT_HEAP_START) div FRAME_SIZE, free_frames = 0\<rparr>\<rparr>"

text \<open>The frame is cleared: the words in it that link objects become 0, and a slab header that was there is gone.\<close>

definition clear_words :: "ptr \<Rightarrow> u32 \<Rightarrow> 'a boot_heap_scheme \<Rightarrow> 'a boot_heap_scheme" where
  "clear_words p n s = s\<lparr>bh_links := (\<lambda>q. if p \<le> q \<and> q - p < n then 0 else bh_links s q)\<rparr>"

definition clear_frame :: "ptr \<Rightarrow> 'a boot_heap_scheme \<Rightarrow> 'a boot_heap_scheme" where
  "clear_frame p s = (clear_words p FRAME_SIZE s)\<lparr>bh_slabs := (bh_slabs s)(p := None)\<rparr>"

definition AllocateFrame_boot :: "'a boot_heap_scheme \<Rightarrow> ptr \<times> 'a boot_heap_scheme" where
  "AllocateFrame_boot s =
     (let (p, s1) =
        (if free_frames (pool s) \<noteq> 0 then
           (free_frames (pool s), s\<lparr>pool := (pool s)\<lparr>free_frames := bh_links s (free_frames (pool s))\<rparr>\<rparr>)
         else if n_frames (pool s) > 0 then
           (frame_start (pool s) * FRAME_SIZE,
            s\<lparr>pool := (pool s)\<lparr>frame_start := frame_start (pool s) + 1, n_frames := n_frames (pool s) - 1\<rparr>\<rparr>)
         else (0, s))
      in if p \<noteq> 0 then (p, clear_frame p s1) else (p, s1))"

definition FreeFrame_boot :: "ptr \<Rightarrow> 'a boot_heap_scheme \<Rightarrow> 'a boot_heap_scheme" where
  "FreeFrame_boot frameaddr s =
     (if frameaddr = 0 then s
      else s\<lparr>bh_links := (bh_links s)(frameaddr := free_frames (pool s)), pool := (pool s)\<lparr>free_frames := frameaddr\<rparr>\<rparr>)"

section \<open>Objects\<close>

abbreviation BOOT_SLAB_TYPES :: nat where "BOOT_SLAB_TYPES \<equiv> 8"

definition boot_slab_sizes :: "nat \<Rightarrow> u32" where
  "boot_slab_sizes i = [8, 16, 32, 64, 128, 256, 512, 1024] ! i"

definition init_slab_caches_boot :: "'a boot_heap_scheme \<Rightarrow> 'a boot_heap_scheme" where
  "init_slab_caches_boot s = s\<lparr>bh_caches := (\<lambda>i. if i < BOOT_SLAB_TYPES then \<lparr>sc_slabs = 0, sc_objsize = boot_slab_sizes i\<rparr> else bh_caches s i)\<rparr>"

definition GetSlabCacheForSize_boot :: "u32 \<Rightarrow> nat option" where
  "GetSlabCacheForSize_boot bytes = find (\<lambda>i. bytes \<le> boot_slab_sizes i) [0..<BOOT_SLAB_TYPES]"

definition CreateSlab_boot :: "u32 \<Rightarrow> 'a boot_heap_scheme \<Rightarrow> ptr \<times> 'a boot_heap_scheme" where
  "CreateSlab_boot objsize0 s =
     (let objsize = (if objsize0 < 4 then 4 else objsize0);
          (slab, s1) = AllocateFrame_boot s
      in if slab = 0 then (0, s1)
      else
        let aligned = (slab + SIZEOF_SLAB + 7) AND NOT 7;
            n_objects = (PAGE_SIZE - (aligned - slab)) div objsize
        in if n_objects = 0 then (0, FreeFrame_boot slab s1)
        else (slab, s1\<lparr>bh_slabs := (bh_slabs s1)(slab \<mapsto>
                \<lparr>sl_free_list = aligned, sl_objstart = aligned, sl_n_objects = n_objects, sl_objsize = objsize, sl_next = 0\<rparr>),
              bh_links := thread_links aligned objsize (unat n_objects - 1) (bh_links s1)\<rparr>))"

partial_function (option) find_slab_boot :: "'a boot_heap_scheme \<Rightarrow> ptr \<Rightarrow> ptr option" where
  "find_slab_boot s p =
     (if p = 0 then Some 0
      else Option.bind (bh_slabs s p) (\<lambda>sl. if sl_free_list sl \<noteq> 0 then Some p else find_slab_boot s (sl_next sl)))"

declare find_slab_boot.simps [code]

text \<open>A size above a frame has no cache, and the code then follows a null pointer.\<close>

definition kmalloc_boot :: "u32 \<Rightarrow> 'a boot_heap_scheme \<Rightarrow> (ptr \<times> 'a boot_heap_scheme) option" where
  "kmalloc_boot bytes s =
     (if bytes = 0 then Some (0, s)
      else if bytes > boot_slab_sizes (BOOT_SLAB_TYPES - 1) \<and> bytes \<le> FRAME_SIZE then Some (AllocateFrame_boot s)
      else do {
        let s1 = (if bh_initialized s then s else (init_slab_caches_boot s)\<lparr>bh_initialized := True\<rparr>);
        i \<leftarrow> GetSlabCacheForSize_boot bytes;
        p \<leftarrow> find_slab_boot s1 (sc_slabs (bh_caches s1 i));
        (q, s2) \<leftarrow> (if p \<noteq> 0 then Some (p, s1)
          else let (c, s2) = CreateSlab_boot (sc_objsize (bh_caches s1 i)) s1
               in if c = 0 then Some (0, s2)
               else do {
                 sl \<leftarrow> bh_slabs s2 c;
                 Some (c, s2\<lparr>bh_slabs := (bh_slabs s2)(c \<mapsto> sl\<lparr>sl_next := sc_slabs (bh_caches s2 i)\<rparr>),
                   bh_caches := (bh_caches s2)(i := (bh_caches s2 i)\<lparr>sc_slabs := c\<rparr>)\<rparr>)
               });
        if q = 0 then Some (0, s2)
        else do {
          sl \<leftarrow> bh_slabs s2 q;
          let obj = sl_free_list sl;
          Some (obj, s2\<lparr>bh_slabs := (bh_slabs s2)(q \<mapsto> sl\<lparr>sl_free_list := bh_links s2 obj\<rparr>)\<rparr>)
        }
      })"

definition kzalloc_boot :: "u32 \<Rightarrow> 'a boot_heap_scheme \<Rightarrow> (ptr \<times> 'a boot_heap_scheme) option" where
  "kzalloc_boot bytes s = do {
     (p, s1) \<leftarrow> kmalloc_boot bytes s;
     if p = 0 then Some (0, s1)
     else if bytes > 1024 then Some (p, clear_words p PAGE_SIZE s1)
     else
       let n = (case GetSlabCacheForSize_boot bytes of Some i \<Rightarrow> sc_objsize (bh_caches s1 i) | None \<Rightarrow> FRAME_SIZE)
       in Some (p, clear_words p n s1)
   }"

text \<open>The slab among those of a cache whose objects an address lies in.\<close>

partial_function (option) find_owner_boot :: "'a boot_heap_scheme \<Rightarrow> ptr \<Rightarrow> ptr \<Rightarrow> ptr option" where
  "find_owner_boot s p q =
     (if q = 0 then Some 0
      else Option.bind (bh_slabs s q) (\<lambda>sl.
        if sl_objstart sl \<le> p \<and> p < sl_objstart sl + sl_n_objects sl * sl_objsize sl then Some q
        else find_owner_boot s p (sl_next sl)))"

declare find_owner_boot.simps [code]

fun kfree_from_boot :: "nat \<Rightarrow> nat \<Rightarrow> ptr \<Rightarrow> 'a boot_heap_scheme \<Rightarrow> 'a boot_heap_scheme option" where
  "kfree_from_boot i 0 p s = Some (FreeFrame_boot p s)"
| "kfree_from_boot i (Suc n) p s = do {
     q \<leftarrow> find_owner_boot s p (sc_slabs (bh_caches s i));
     if q = 0 then kfree_from_boot (Suc i) n p s
     else do {
       sl \<leftarrow> bh_slabs s q;
       if (p - sl_objstart sl) mod sl_objsize sl \<noteq> 0 then Some s
       else Some (s\<lparr>bh_links := (bh_links s)(p := sl_free_list sl), bh_slabs := (bh_slabs s)(q \<mapsto> sl\<lparr>sl_free_list := p\<rparr>)\<rparr>)
     }
   }"

definition kfree_boot :: "ptr \<Rightarrow> 'a boot_heap_scheme \<Rightarrow> 'a boot_heap_scheme option" where
  "kfree_boot p s = (if p = 0 \<or> p < PAGE_SIZE then Some s else kfree_from_boot 0 BOOT_SLAB_TYPES p s)"

section \<open>High memory\<close>

record MemoryRegionE820 =
  e820_base :: u64
  e820_length :: u64
  e820_type :: u32

record high_memory =
  himem_start :: u32
  himem_break :: u32
  n_pages_high :: u32

abbreviation HIGH_MEMORY_START :: u32 where "HIGH_MEMORY_START \<equiv> 0x100000"
abbreviation E820_REGION_AVAILABLE :: u32 where "E820_REGION_AVAILABLE \<equiv> 1"

text \<open>
  The addresses that the code keeps in a \<^verbatim>\<open>uintptr_t\<close> have 32 bits, and the sizes it compares 64. The candidate so
  far is its start, its end and its size.
\<close>

definition consider_region :: "MemoryRegionE820 \<Rightarrow> u32 \<times> u32 \<times> u64 \<Rightarrow> u32 \<times> u32 \<times> u64" where
  "consider_region r best =
     (let (best_start, best_break, max_size) = best
      in if e820_type r \<noteq> E820_REGION_AVAILABLE then best
      else if e820_base r < ucast HIGH_MEMORY_START then best
      else if e820_length r = 0 then best
      else
        let aligned_base = alignup (ucast (e820_base r)) 0x1000;
            endaddr = e820_base r + e820_length r
        in if ucast aligned_base \<ge> endaddr then best
        else
          let candidate_size = endaddr - ucast aligned_base
          in if candidate_size > max_size then (aligned_base, ucast endaddr, candidate_size) else best)"

definition AllocHighInit :: "MemoryRegionE820 list \<Rightarrow> high_memory \<Rightarrow> high_memory" where
  "AllocHighInit regions h =
     (let (best_start, best_break, max_size) =
        fold consider_region regions (himem_start h, himem_break h, ucast (himem_break h - himem_start h));
          start = (if best_start < HIGH_MEMORY_START then HIGH_MEMORY_START else best_start)
      in \<lparr>himem_start = start, himem_break = best_break, n_pages_high = aligndown (best_break - start) 0x1000 div 0x1000\<rparr>)"

definition AllocHighBreakAt :: "u32 \<Rightarrow> u32 \<Rightarrow> high_memory \<Rightarrow> high_memory" where
  "AllocHighBreakAt start stop h =
     (let h1 = (if start > himem_start h then h\<lparr>himem_start := start\<rparr> else h);
          h2 = (if stop > 0 \<and> stop < himem_break h1 then h1\<lparr>himem_break := stop\<rparr> else h1)
      in if himem_break h2 > himem_start h2
         then h2\<lparr>n_pages_high := aligndown (himem_break h2 - himem_start h2) 0x1000 div 0x1000\<rparr>
         else h2\<lparr>n_pages_high := 0\<rparr>)"

definition AllocateHighMemory :: "u32 \<Rightarrow> high_memory \<Rightarrow> ptr \<times> high_memory" where
  "AllocateHighMemory n_pages h =
     (if n_pages = 0 then (0, h)
      else if n_pages_high h < n_pages then (0, h)
      else (himem_start h, h\<lparr>himem_start := himem_start h + n_pages * 0x1000, n_pages_high := n_pages_high h - n_pages\<rparr>))"

text \<open>Memory is never given back.\<close>

definition FreeHighMemory :: "ptr \<Rightarrow> high_memory \<Rightarrow> high_memory" where
  "FreeHighMemory p h = h"

section \<open>What is claimed of high memory\<close>

definition below_4g :: "MemoryRegionE820 \<Rightarrow> bool" where
  "below_4g r \<longleftrightarrow> unat (e820_base r) \<le> 0xFFFFF000 \<and> unat (e820_base r) + unat (e820_length r) < 2 ^ 32"

text \<open>A range of high memory: the megabyte that is claimed without a map, or the pages of a region.\<close>

definition claimable :: "MemoryRegionE820 set \<Rightarrow> u32 \<Rightarrow> u32 \<Rightarrow> bool" where
  "claimable R start stop \<longleftrightarrow> (start = HIGH_MEMORY_START \<and> stop = 0x200000) \<or>
     (\<exists>r \<in> R. e820_type r = E820_REGION_AVAILABLE \<and> unat (e820_base r) \<le> unat start \<and> unat start \<le> unat stop \<and>
       unat stop = unat (e820_base r) + unat (e820_length r))"

definition high_ok :: "high_memory \<Rightarrow> bool" where
  "high_ok h \<longleftrightarrow> isaligned (himem_start h) 0x1000 \<and> unat (himem_start h) + unat (n_pages_high h) * 4096 \<le> unat (himem_break h)"

abbreviation high_reset :: high_memory where
  "high_reset \<equiv> \<lparr>himem_start = HIGH_MEMORY_START, himem_break = 0x200000, n_pages_high = 0\<rparr>"

definition candidate_ok :: "MemoryRegionE820 set \<Rightarrow> u32 \<times> u32 \<times> u64 \<Rightarrow> bool" where
  "candidate_ok R best \<longleftrightarrow> (case best of (start, stop, n) \<Rightarrow>
     claimable R start stop \<and> isaligned start 0x1000 \<and> HIGH_MEMORY_START \<le> start \<and> start \<le> stop \<and> unat n = unat stop - unat start)"

lemma unat_ucast_64: "unat (ucast (x :: u32) :: u64) = unat x"
proof -
  have "unat x < 2 ^ 64" by (rule order.strict_trans [OF unat_u32_less]) simp
  then show ?thesis by (simp add: unsigned_ucast_eq take_bit_nat_eq_self)
qed

lemma unat_ucast_32: "unat (ucast (x :: u64) :: u32) = unat x mod 2 ^ 32"
  by (simp add: unsigned_ucast_eq take_bit_eq_mod)

lemma candidate_step:
  assumes "candidate_ok R best" and "r \<in> R" and "below_4g r"
  shows "candidate_ok R (consider_region r best)"
proof -
  obtain start stop n where best: "best = (start, stop, n)" by (cases best)
  define b where "b = (ucast (e820_base r) :: u32)"
  define a where "a = alignup b 0x1000"
  define e where "e = e820_base r + e820_length r"
  have lt: "unat (e820_base r) + unat (e820_length r) < 4294967296" using assms(3) by (simp add: below_4g_def)
  have b: "unat b = unat (e820_base r)" using lt by (simp add: b_def unat_ucast_32)
  have e: "unat e = unat (e820_base r) + unat (e820_length r)"
    using lt by (simp add: e_def unat_word_ariths)
  have el: "unat (ucast e :: u32) = unat e" using lt e by (simp add: unat_ucast_32)
  have al: "isaligned a 0x1000" unfolding a_def using isaligned_pagealign [of b] by (simp add: pagealign_def)
  show ?thesis
  proof (cases "consider_region r best = best")
    case True
    then show ?thesis using assms(1) by simp
  next
    case False
    then have c: "e820_type r = E820_REGION_AVAILABLE" "\<not> e820_base r < ucast HIGH_MEMORY_START" "\<not> ucast a \<ge> e"
      "consider_region r best = (a, ucast e, e - ucast a)"
      unfolding best a_def b_def e_def
      by (auto simp: consider_region_def Let_def split: if_splits)
    have ae: "unat a < unat e" using c(3) by (simp add: word_le_nat_alt unat_ucast_64 not_le)
    have hb: "0x100000 \<le> unat b" using c(2) b by (simp add: word_less_nat_alt not_less)
    have "unat b \<le> 0xFFFFF000" using assms(3) b by (simp add: below_4g_def)
    then have "unat a = (unat b + 4095) div 4096 * 4096" unfolding a_def using pagealign_nat [of b] by (simp add: pagealign_def)
    then have ba: "unat b \<le> unat a" using div_mult_mod_eq [of "unat b + 4095" 4096] mod_less_divisor [of 4096 "unat b + 4095"] by linarith
    have "unat (e - ucast a) = unat e - unat a" using ae by (simp add: unat_sub word_le_nat_alt unat_ucast_64)
    moreover have "claimable R a (ucast e)"
      unfolding claimable_def using assms(2) c(1) ba b ae el e by (intro disjI2 bexI [of _ r]) simp_all
    ultimately show ?thesis
      unfolding c(4) candidate_ok_def using al ae el ba hb by (simp add: word_le_nat_alt)
  qed
qed

lemma candidate_fold: "set rs \<subseteq> R \<Longrightarrow> list_all below_4g rs \<Longrightarrow> candidate_ok R best \<Longrightarrow> candidate_ok R (fold consider_region rs best)"
  by (induction rs arbitrary: best) (simp_all add: candidate_step)

lemma aligndown_pages: "unat (aligndown x 0x1000 div 0x1000) * 4096 \<le> unat x"
proof -
  have "unat (aligndown x 0x1000 div 0x1000) = unat x div 4096 * 4096 div 4096" by (simp add: unat_div aligndown_nat)
  then show ?thesis by simp
qed

lemma high_ok_init:
  assumes "candidate_ok R (start, stop, n)"
  shows "high_ok \<lparr>himem_start = start, himem_break = stop, n_pages_high = aligndown (stop - start) 0x1000 div 0x1000\<rparr>"
proof -
  have s: "start \<le> stop" "isaligned start 0x1000" using assms by (simp_all add: candidate_ok_def)
  have "unat (aligndown (stop - start) 0x1000 div 0x1000) * 4096 \<le> unat stop - unat start"
    using aligndown_pages [of "stop - start"] s(1) by (simp add: unat_sub)
  then show ?thesis using s by (simp add: high_ok_def word_le_nat_alt)
qed

lemma AllocateHighMemory_ok:
  assumes "high_ok h" and "AllocateHighMemory n h = (p, h')"
  shows "high_ok h' \<and> himem_break h' = himem_break h \<and>
    (p = 0 \<and> h' = h \<or> p = himem_start h \<and> unat (himem_start h') = unat p + unat n * 4096 \<and> unat (himem_start h') \<le> unat (himem_break h))"
proof (cases "n = 0 \<or> n_pages_high h < n")
  case True
  then show ?thesis using assms by (auto simp: AllocateHighMemory_def split: if_splits)
next
  case False
  then have n: "unat n \<le> unat (n_pages_high h)" by (simp add: word_le_nat_alt not_less)
  have h: "unat (himem_start h) + unat (n_pages_high h) * 4096 \<le> unat (himem_break h)" "isaligned (himem_start h) 0x1000"
    using assms(1) by (simp_all add: high_ok_def)
  have b: "unat (himem_break h) < 4294967296" by simp
  have le: "unat n * 4096 \<le> unat (n_pages_high h) * 4096" using n by simp
  have m: "unat (n * 0x1000) = unat n * 4096"
    using unat_mult_no_wrap [of n "0x1000"] h(1) le b by simp
  have a: "unat (himem_start h + n * 0x1000) = unat (himem_start h) + unat n * 4096"
    using unat_plus_no_wrap [of "himem_start h" "n * 0x1000"] m h(1) le b by simp
  have s: "unat (n_pages_high h - n) = unat (n_pages_high h) - unat n" using n by (simp add: unat_sub word_le_nat_alt)
  have r: "p = himem_start h" "h' = h\<lparr>himem_start := himem_start h + n * 0x1000, n_pages_high := n_pages_high h - n\<rparr>"
    using False assms(2) by (auto simp: AllocateHighMemory_def)
  have "isaligned (himem_start h + n * 0x1000) 0x1000" using h(2) a by (simp add: isaligned_nat)
  then have "high_ok h'" unfolding r(2) high_ok_def using a s h(1) n by (simp add: diff_mult_distrib)
  then show ?thesis using r a h(1) le by simp
qed

text \<open>
  C29. The pages handed out for modules. With a memory map below 4 GiB, the boot manager claims the default megabyte or the pages of
  one available region, starting at a page boundary at or above 1 MiB. From then on every allocation returns null and
  changes nothing, or returns the next pages of the claimed range, which are not handed out again.
\<close>

theorem high_memory_correct:
  assumes "\<forall>r \<in> set rs. below_4g r"
  shows "(let h = AllocHighInit rs high_reset in
      high_ok h \<and> HIGH_MEMORY_START \<le> himem_start h \<and> claimable (set rs) (himem_start h) (himem_break h)) \<and>
    (\<forall>h n p h'. high_ok h \<and> AllocateHighMemory n h = (p, h') \<longrightarrow> high_ok h' \<and> himem_break h' = himem_break h \<and>
      (p = 0 \<and> h' = h \<or>
       p = himem_start h \<and> unat (himem_start h') = unat p + unat n * 4096 \<and> unat (himem_start h') \<le> unat (himem_break h)))"
proof -
  have "candidate_ok (set rs) (HIGH_MEMORY_START, 0x200000, 0x100000)"
    by (simp add: candidate_ok_def claimable_def isaligned_nat)
  from candidate_fold [OF order_refl _ this] assms
  have c: "candidate_ok (set rs) (fold consider_region rs (HIGH_MEMORY_START, 0x200000, 0x100000))" by (simp add: list_all_iff)
  obtain start stop n where f: "fold consider_region rs (HIGH_MEMORY_START, 0x200000, 0x100000) = (start, stop, n)"
    by (rule prod_cases3)
  note c = c [unfolded f]
  have "\<not> start < HIGH_MEMORY_START" using c by (simp add: candidate_ok_def not_less)
  then have "AllocHighInit rs high_reset =
      \<lparr>himem_start = start, himem_break = stop, n_pages_high = aligndown (stop - start) 0x1000 div 0x1000\<rparr>"
    using f by (simp add: AllocHighInit_def)
  with high_ok_init [OF c] c have "let h = AllocHighInit rs high_reset in
      high_ok h \<and> HIGH_MEMORY_START \<le> himem_start h \<and> claimable (set rs) (himem_start h) (himem_break h)"
    by (simp add: candidate_ok_def)
  then show ?thesis using AllocateHighMemory_ok by blast
qed

lemma region_above_4g:
  assumes "candidate_ok R best" and "e820_type r = E820_REGION_AVAILABLE" and "unat (e820_base r) = 0x100000000"
    and "0 < unat (e820_length r)" and "unat (e820_length r) < 2 ^ 63"
  shows "consider_region r best = (0, ucast (e820_base r + e820_length r), e820_base r + e820_length r)"
proof -
  obtain start stop n where best: "best = (start, stop, n)" by (cases best)
  have "unat n = unat stop - unat start" using assms(1) unfolding best by (simp add: candidate_ok_def)
  then have n: "unat n < 4294967296" using unat_u32_less [of stop] by linarith
  let ?e = "e820_base r + e820_length r"
  have e: "unat ?e = 0x100000000 + unat (e820_length r)" using assms(3,5) by (simp add: unat_word_ariths)
  have z: "alignup (ucast (e820_base r)) 0x1000 = 0"
  proof -
    have "unat (ucast (e820_base r) :: u32) = 0" using assms(3) by (simp add: unat_ucast_32)
    then have "ucast (e820_base r) = (0 :: u32)" by (simp add: unat_eq_0)
    then show ?thesis by (simp add: alignup_def)
  qed
  have "\<not> e820_base r < ucast HIGH_MEMORY_START" "e820_length r \<noteq> 0" "\<not> ?e \<le> 0" "n < ?e"
    using assms(3,4) e n by (auto simp: word_less_nat_alt word_le_nat_alt unat_eq_0)
  with assms(2) z show ?thesis unfolding best by (simp add: consider_region_def Let_def)
qed

text \<open>
  C35. Memory at 4 GiB misleads the boot manager. If the map ends with an available region that starts at 4 GiB, its start is
  truncated to 0 and it wins against every region below: whatever those are, the claimed range goes from 1 MiB to the
  low 32 bits of the region's end.
\<close>

theorem high_memory_truncated:
  assumes "\<forall>r \<in> set rs. below_4g r" and "e820_type r = E820_REGION_AVAILABLE" and "unat (e820_base r) = 0x100000000"
    and "0 < unat (e820_length r)" and "unat (e820_length r) < 2 ^ 63"
  shows "himem_start (AllocHighInit (rs @ [r]) high_reset) = HIGH_MEMORY_START \<and>
    himem_break (AllocHighInit (rs @ [r]) high_reset) = ucast (e820_base r + e820_length r)"
proof -
  have "candidate_ok (set rs) (HIGH_MEMORY_START, 0x200000, 0x100000)"
    by (simp add: candidate_ok_def claimable_def isaligned_nat)
  from candidate_fold [OF order_refl _ this] assms(1)
  have "candidate_ok (set rs) (fold consider_region rs (HIGH_MEMORY_START, 0x200000, 0x100000))" by (simp add: list_all_iff)
  from region_above_4g [OF this assms(2-5)] show ?thesis by (simp add: AllocHighInit_def)
qed

definition ex_map :: "MemoryRegionE820 list" where
  "ex_map = [\<lparr>e820_base = 0, e820_length = 0x9F000, e820_type = 1\<rparr>, \<lparr>e820_base = 0x100000, e820_length = 0xBFF00000, e820_type = 1\<rparr>]"

theorem high_memory_correct_witness:
  "high_ok (AllocHighInit ex_map high_reset)"
  using high_memory_correct [of ex_map] by (simp add: ex_map_def below_4g_def Let_def)

theorem high_memory_truncated_witness:
  "himem_break (AllocHighInit (ex_map @ [\<lparr>e820_base = 0x100000000, e820_length = 0x100000000, e820_type = 1\<rparr>]) high_reset) = 0"
  using high_memory_truncated [of ex_map "\<lparr>e820_base = 0x100000000, e820_length = 0x100000000, e820_type = 1\<rparr>"]
  by (simp add: ex_map_def below_4g_def)

end
