(* ===== verification/BootDisk.thy ===== *)
theory BootDisk
  imports KString
begin

text \<open>
  The disks of the boot manager: reading sectors (\<^verbatim>\<open>src/bootmanager/core/storage/diskread.c\<close>), the partition table of a disk
  (\<^verbatim>\<open>mbr.c\<close>) and the partitions of all drives (\<^verbatim>\<open>partition.c\<close>). The services of the BIOS are the argument
  \<open>bios\<close> of the definitions. A read that the caller uses without looking at its status has no result when it fails or when it
  writes another number of bytes than the buffer has.
\<close>

section \<open>The services of the BIOS\<close>

text \<open>
  Function 42h of interrupt 13h reads sectors, function 48h reports the bytes of a sector, function 41h answers in
  \<^verbatim>\<open>ebx\<close> if the extensions are there, and function 4B01h succeeds for a CD. \<open>None\<close> is a set carry flag.
\<close>

record bios =
  bios_read :: "u32 \<Rightarrow> u64 \<Rightarrow> u16 \<Rightarrow> u8 list option"
  bios_sector_size :: "u32 \<Rightarrow> u16 option"
  bios_extensions :: "u32 \<Rightarrow> u32 option"
  bios_is_cd :: "u32 \<Rightarrow> bool"

abbreviation SECTOR_SIZE :: nat where "SECTOR_SIZE \<equiv> 512"

definition read_from_disk_lomem :: "bios \<Rightarrow> u32 \<Rightarrow> u64 \<Rightarrow> u32 \<Rightarrow> Status \<times> u8 list" where
  "read_from_disk_lomem b drive lba n_sectors =
     (case bios_read b (drive AND 0xFF) lba (ucast n_sectors) of Some bytes \<Rightarrow> (STATUS_OK, bytes) | None \<Rightarrow> (STATUS_BAD, []))"

definition GetSectorSizeForDrive :: "bios \<Rightarrow> u32 \<Rightarrow> u32" where
  "GetSectorSizeForDrive b drive =
     (case bios_sector_size b drive of Some n \<Rightarrow> ucast n | None \<Rightarrow> if drive \<ge> 0xE0 then 2048 else 512)"

text \<open>Reading to an address above 1 MiB, in chunks that fit the buffer below; the bytes stored so far are the last argument.\<close>

partial_function (option) read_chunks :: "bios \<Rightarrow> u32 \<Rightarrow> u64 \<Rightarrow> nat \<Rightarrow> nat \<Rightarrow> nat \<Rightarrow> u8 list \<Rightarrow> (Status \<times> u8 list) option" where
  "read_chunks b drive lba n max_chunk sector_size acc =
     (if n = 0 then Some (STATUS_OK, acc)
      else
        let chunk = min n max_chunk;
            (st, bytes) = read_from_disk_lomem b drive lba (of_nat chunk)
        in if st \<noteq> STATUS_OK then Some (STATUS_BAD, acc)
        else if length bytes \<noteq> chunk * sector_size then None
        else read_chunks b drive (lba + of_nat chunk) (n - chunk) max_chunk sector_size (acc @ bytes))"

declare read_chunks.simps [code]

definition ReadFromDisk :: "bios \<Rightarrow> u32 \<Rightarrow> u64 \<Rightarrow> int \<Rightarrow> u32 \<Rightarrow> (Status \<times> u8 list) option" where
  "ReadFromDisk b drive lba n_sectors addr =
     (let sector_size = GetSectorSizeForDrive b (drive AND 0xFF)
      in if sector_size = 0 then None
      else if addr \<ge> 0x100000
      then read_chunks b drive lba (nat n_sectors) (4096 div unat sector_size) (unat sector_size) []
      else Some (read_from_disk_lomem b drive lba (word_of_int n_sectors)))"

section \<open>Partition tables\<close>

definition u16_at :: "nat \<Rightarrow> u8 list \<Rightarrow> u16" where
  "u16_at i bs = ucast (bs ! i) OR push_bit 8 (ucast (bs ! (i + 1)))"

definition u32_at :: "nat \<Rightarrow> u8 list \<Rightarrow> u32" where
  "u32_at i bs = ucast (u16_at i bs) OR push_bit 16 (ucast (u16_at (i + 2) bs))"

record MBREntry =
  mbr_status :: u8
  mbr_first_chs :: "u8 list"
  mbr_type :: u8
  mbr_last_chs :: "u8 list"
  mbr_lba_first :: u32
  mbr_n_sectors :: u32

abbreviation MAX_MBR_ENTRIES :: nat where "MAX_MBR_ENTRIES \<equiv> 4"
abbreviation MBR_BOOTSECT_OFFSET :: nat where "MBR_BOOTSECT_OFFSET \<equiv> 446"
abbreviation MBR_ENTRY_SIZE :: nat where "MBR_ENTRY_SIZE \<equiv> 16"

definition mbr_entry :: "u8 list \<Rightarrow> MBREntry" where
  "mbr_entry bs = \<lparr>mbr_status = bs ! 0, mbr_first_chs = take 3 (drop 1 bs), mbr_type = bs ! 4, mbr_last_chs = take 3 (drop 5 bs),
     mbr_lba_first = u32_at 8 bs, mbr_n_sectors = u32_at 12 bs\<rparr>"

definition zero_entry :: MBREntry where
  "zero_entry = \<lparr>mbr_status = 0, mbr_first_chs = [0, 0, 0], mbr_type = 0, mbr_last_chs = [0, 0, 0], mbr_lba_first = 0, mbr_n_sectors = 0\<rparr>"

text \<open>Without the signature the table of the caller stays as it was, here the argument \<open>dest\<close>.\<close>

definition ReadMBRTable :: "u8 list \<Rightarrow> MBREntry list \<Rightarrow> int \<times> MBREntry list" where
  "ReadMBRTable src dest =
     (if src ! 510 \<noteq> 0x55 \<or> src ! 511 \<noteq> 0xAA then (- 1, dest)
      else (0, map (\<lambda>i. let e = mbr_entry (drop (i * MBR_ENTRY_SIZE + MBR_BOOTSECT_OFFSET) src)
                        in if mbr_n_sectors e = 0 \<or> mbr_type e = 0 then zero_entry else e) [0..<MAX_MBR_ENTRIES]))"

section \<open>Drives and their partitions\<close>

record Partition =
  drive_index :: u32
  lba_start :: u32
  n_sectors :: u32
  part_identifier :: string
  part_type :: u8
  present :: bool

abbreviation PART_EMPTY :: u8 where "PART_EMPTY \<equiv> 0"
abbreviation PART_FAT32_CHS :: u8 where "PART_FAT32_CHS \<equiv> 0x0B"
abbreviation PART_FAT32_LBA :: u8 where "PART_FAT32_LBA \<equiv> 0x0C"
abbreviation PART_ISO9660_VOL :: u8 where "PART_ISO9660_VOL \<equiv> 0xCD"
abbreviation MAX_SYSTEM_DRIVES :: nat where "MAX_SYSTEM_DRIVES \<equiv> 8"
abbreviation IDENTIFIER_LIMIT :: u32 where "IDENTIFIER_LIMIT \<equiv> 12"

definition no_partition :: Partition where
  "no_partition = \<lparr>drive_index = 0, lba_start = 0, n_sectors = 0, part_identifier = replicate 12 NUL, part_type = 0, present = False\<rparr>"

type_synonym partitions = "nat \<Rightarrow> nat \<Rightarrow> Partition"

definition DriveIsPresent :: "bios \<Rightarrow> u32 \<Rightarrow> bool" where
  "DriveIsPresent b drive_num =
     (case bios_extensions b (drive_num AND 0xFF) of None \<Rightarrow> False | Some ebx \<Rightarrow> ebx AND 0xFFFF = 0xAA55)"

definition DriveIsCDROM :: "bios \<Rightarrow> u32 \<Rightarrow> bool" where
  "DriveIsCDROM b drive_num \<longleftrightarrow> drive_num \<ge> 0xE0 \<or> bios_is_cd b (drive_num AND 0xFF)"

text \<open>The partitions of a hard disk, numbered \<open>hdd\<close> among the hard disks and \<open>disk\<close> among all disks.\<close>

fun add_partitions :: "u32 \<Rightarrow> nat \<Rightarrow> nat \<Rightarrow> nat \<Rightarrow> MBREntry list \<Rightarrow> partitions \<Rightarrow> partitions option" where
  "add_partitions drive disk hdd mbre [] ps = Some ps"
| "add_partitions drive disk hdd mbre (e # es) ps =
     (if mbr_n_sectors e = 0 \<or> mbr_type e = PART_EMPTY then add_partitions drive disk hdd (Suc mbre) es ps
      else do {
        (n, name) \<leftarrow> snprintf (part_identifier (ps disk mbre)) IDENTIFIER_LIMIT (''hd%d/p%d'' @ [NUL]) [VInt (of_nat hdd), VInt (of_nat mbre)];
        add_partitions drive disk hdd (Suc mbre) es
          (ps(disk := (ps disk)(mbre := \<lparr>drive_index = drive, lba_start = mbr_lba_first e, n_sectors = mbr_n_sectors e,
             part_identifier = name, part_type = mbr_type e, present = True\<rparr>)))
      })"

record probing =
  disks_used :: nat
  cds_used :: nat
  hdds_used :: nat
  bootsector :: "u8 list"
  system_partitions :: partitions

text \<open>
  One drive. The boot sector is read into a buffer of 2048 bytes, which keeps the rest of what it had. The table of a disk
  without a signature is never written and then used: there is no result.
\<close>

definition probe_drive :: "bios \<Rightarrow> u32 \<Rightarrow> u32 \<Rightarrow> u32 \<Rightarrow> probing \<Rightarrow> probing option" where
  "probe_drive b boot_device buffer drive_num st =
     (if \<not> DriveIsPresent b drive_num then Some st
      else if DriveIsCDROM b drive_num then
        if drive_num < 0xE0 \<and> drive_num \<noteq> boot_device then Some st
        else do {
          let p = system_partitions st (disks_used st) 0;
          (n, name) \<leftarrow> snprintf (part_identifier p) IDENTIFIER_LIMIT (''cd%u'' @ [NUL]) [VInt (of_nat (cds_used st))];
          Some (st\<lparr>system_partitions := (system_partitions st)(disks_used st := (system_partitions st (disks_used st))
                (0 := \<lparr>drive_index = drive_num, lba_start = 0, n_sectors = - 1, part_identifier = name, part_type = PART_ISO9660_VOL, present = True\<rparr>)),
              disks_used := disks_used st + 1, cds_used := cds_used st + 1\<rparr>)
        }
      else do {
        (status, bytes) \<leftarrow> ReadFromDisk b drive_num 0 1 buffer;
        if status \<noteq> STATUS_OK then Some st
        else if length bytes > 2048 then None
        else do {
          let sector = bytes @ drop (length bytes) (bootsector st);
          let (r, table) = ReadMBRTable sector [];
          if r \<noteq> 0 then None
          else do {
            ps \<leftarrow> add_partitions drive_num (disks_used st) (hdds_used st) 0 table (system_partitions st);
            Some (st\<lparr>bootsector := sector, system_partitions := ps, hdds_used := hdds_used st + 1, disks_used := disks_used st + 1\<rparr>)
          }
        }
      })"

fun probe_drives :: "bios \<Rightarrow> u32 \<Rightarrow> u32 \<Rightarrow> u32 list \<Rightarrow> probing \<Rightarrow> probing option" where
  "probe_drives b boot_device buffer [] st = Some st"
| "probe_drives b boot_device buffer (d # ds) st =
     (if disks_used st < MAX_SYSTEM_DRIVES then Option.bind (probe_drive b boot_device buffer d st) (probe_drives b boot_device buffer ds)
      else Some st)"

text \<open>Without any disk the boot manager stops.\<close>

definition InitPartitionTable :: "bios \<Rightarrow> u32 \<Rightarrow> u32 \<Rightarrow> (nat \<times> partitions) option" where
  "InitPartitionTable b boot_device buffer = do {
     st \<leftarrow> probe_drives b boot_device buffer (map of_nat [0x80..<0x100])
       \<lparr>disks_used = 0, cds_used = 0, hdds_used = 0, bootsector = replicate 2048 0, system_partitions = (\<lambda>_ _. no_partition)\<rparr>;
     if disks_used st = 0 then None else Some (disks_used st, system_partitions st)
   }"

definition GetPartitionEntryFromDisk :: "partitions \<Rightarrow> nat \<Rightarrow> nat \<Rightarrow> Partition option" where
  "GetPartitionEntryFromDisk ps index part =
     (if index < MAX_SYSTEM_DRIVES \<and> part < MAX_MBR_ENTRIES then Some (ps index part) else None)"

end
