(* ===== verification/Fat32.thy ===== *)
theory Fat32
  imports BootHeap BootDisk
begin

text \<open>
  Files on FAT32 volumes, \<^verbatim>\<open>src/bootmanager/core/fs/fat32/fat32.c\<close>: finding a file in the root directory and reading it along
  its chain of clusters, and what reading a file gives.
\<close>

section \<open>Data\<close>

abbreviation FAT32_EOF :: u32 where "FAT32_EOF \<equiv> 0x0FFFFFF8"
abbreviation FAT32_BAD_CLUSTER :: u32 where "FAT32_BAD_CLUSTER \<equiv> 0x0FFFFFF7"
abbreviation SIZEOF_FAT32FILEDATA :: u32 where "SIZEOF_FAT32FILEDATA \<equiv> 36"

text \<open>The fields of the parameter block that are used, and the place of each in the sector.\<close>

record BIOSParameterBlock =
  sectors_per_cluster :: u8
  reserved_sectors :: u16
  n_fats :: u8
  sectors_per_fat :: u32
  root_cluster :: u32

definition parameter_block :: "u8 list \<Rightarrow> BIOSParameterBlock" where
  "parameter_block bs = \<lparr>sectors_per_cluster = bs ! 13, reserved_sectors = u16_at 14 bs, n_fats = bs ! 16,
     sectors_per_fat = u32_at 36 bs, root_cluster = u32_at 44 bs\<rparr>"

record DirectoryEntry =
  de_name :: "u8 list"
  de_attributes :: u8
  de_first_cluster_high :: u16
  de_first_cluster_low :: u16
  de_size :: u32

definition directory_entry :: "u8 list \<Rightarrow> DirectoryEntry" where
  "directory_entry bs = \<lparr>de_name = take 11 bs, de_attributes = bs ! 11, de_first_cluster_high = u16_at 20 bs,
     de_first_cluster_low = u16_at 26 bs, de_size = u32_at 28 bs\<rparr>"

record FAT32FileData =
  first_cluster :: u32
  attributes :: u8
  part :: Partition

record File =
  internal :: ptr
  cursor :: u32
  filesize :: u32
  loaded :: bool
  ended :: bool
  file_type :: u8

record fat_state = boot_heap +
  fat_files :: "ptr \<rightharpoonup> FAT32FileData"

section \<open>Sectors and clusters\<close>

text \<open>
  The buffers are on the stack of the boot manager, which is below 1 MiB. A sector whose status is not looked at has to be read in
  full for its content to be known.
\<close>

abbreviation STACK_BUFFER :: u32 where "STACK_BUFFER \<equiv> 0x8F000"

definition sector_of :: "bios \<Rightarrow> u32 \<Rightarrow> u32 \<Rightarrow> u8 list option" where
  "sector_of b drive lba = do {
     (st, bytes) \<leftarrow> ReadFromDisk b drive (ucast lba) 1 STACK_BUFFER;
     if st = STATUS_OK \<and> length bytes = SECTOR_SIZE then Some bytes else None
   }"

definition FindFAT :: "Partition \<Rightarrow> BIOSParameterBlock \<Rightarrow> u32" where
  "FindFAT p bpb = lba_start p + ucast (reserved_sectors bpb)"

definition FindDataStart :: "Partition \<Rightarrow> BIOSParameterBlock \<Rightarrow> u32" where
  "FindDataStart p bpb = FindFAT p bpb + ucast (n_fats bpb) * sectors_per_fat bpb"

definition ClusterToLBA :: "Partition \<Rightarrow> BIOSParameterBlock \<Rightarrow> u32 \<Rightarrow> u32" where
  "ClusterToLBA p bpb c = FindDataStart p bpb + (c - 2) * ucast (sectors_per_cluster bpb)"

definition ReadFAT32Entry :: "bios \<Rightarrow> Partition \<Rightarrow> BIOSParameterBlock \<Rightarrow> u32 \<Rightarrow> u32 option" where
  "ReadFAT32Entry b p bpb cluster = do {
     let fat_offset = cluster * 4;
     buf \<leftarrow> sector_of b (drive_index p) (FindFAT p bpb + fat_offset div 512);
     Some (u32_at (unat (fat_offset mod 512)) buf AND 0x0FFFFFFF)
   }"

section \<open>Finding a file\<close>

abbreviation SPACE_CHAR :: char where "SPACE_CHAR \<equiv> CHR '' ''"

definition FATEntryToString :: "string \<Rightarrow> string" where
  "FATEntryToString raw =
     map upper (takeWhile (\<lambda>c. c \<noteq> SPACE_CHAR) (take 8 raw)) @
     (if raw ! 8 \<noteq> SPACE_CHAR then CHR ''.'' # map upper (takeWhile (\<lambda>c. c \<noteq> SPACE_CHAR) (take 3 (drop 8 raw))) else []) @ [NUL]"

datatype 's scanned = Ended Status File 's | Continue

definition open_entry :: "Partition \<Rightarrow> DirectoryEntry \<Rightarrow> File \<Rightarrow> 'a fat_state_scheme \<Rightarrow> (Status \<times> File \<times> 'a fat_state_scheme) option" where
  "open_entry p de f s = do {
     (private, s1) \<leftarrow> kmalloc_boot SIZEOF_FAT32FILEDATA s;
     if private = 0 then Some (STATUS_OUT_OF_MEMORY, f, s1)
     else Some (STATUS_OK, f\<lparr>cursor := 0, ended := False, internal := private, loaded := True, filesize := de_size de\<rparr>,
       s1\<lparr>fat_files := (fat_files s1)(private \<mapsto>
         \<lparr>first_cluster = (push_bit 16 (ucast (de_first_cluster_high de)) OR ucast (de_first_cluster_low de)) AND 0x0FFFFFFF,
          attributes = de_attributes de, part = p\<rparr>)\<rparr>)
   }"

fun scan_entries :: "Partition \<Rightarrow> string \<Rightarrow> DirectoryEntry list \<Rightarrow> File \<Rightarrow> 'a fat_state_scheme \<Rightarrow> 'a fat_state_scheme scanned option" where
  "scan_entries p filename [] f s = Some Continue"
| "scan_entries p filename (de # des) f s =
     (if de_name de ! 0 = 0 then Some (Ended STATUS_NOT_FOUND f s)
      else if de_name de ! 0 = 0xE5 then scan_entries p filename des f s
      else if de_attributes de = 0x0F then scan_entries p filename des f s
      else do {
        r \<leftarrow> strcasecmp (Some (FATEntryToString (map (\<lambda>c. char_of (unat c)) (de_name de)))) (Some filename);
        if r = 0 then map_option (\<lambda>(st, f', s'). Ended st f' s') (open_entry p de f s)
        else scan_entries p filename des f s
      })"

definition sector_entries :: "u8 list \<Rightarrow> DirectoryEntry list" where
  "sector_entries sector = map (\<lambda>i. directory_entry (drop (32 * i) sector)) [0..<16]"

fun scan_sectors :: "bios \<Rightarrow> Partition \<Rightarrow> string \<Rightarrow> u32 \<Rightarrow> nat \<Rightarrow> File \<Rightarrow> 'a fat_state_scheme \<Rightarrow> 'a fat_state_scheme scanned option" where
  "scan_sectors b p filename lba 0 f s = Some Continue"
| "scan_sectors b p filename lba (Suc n) f s = do {
     sector \<leftarrow> sector_of b (drive_index p) lba;
     r \<leftarrow> scan_entries p filename (sector_entries sector) f s;
     case r of Continue \<Rightarrow> scan_sectors b p filename (lba + 1) n f s | Ended st f' s' \<Rightarrow> Some (Ended st f' s')
   }"

partial_function (option) ScanDirectoryFor :: "bios \<Rightarrow> Partition \<Rightarrow> BIOSParameterBlock \<Rightarrow> u32 \<Rightarrow> string \<Rightarrow> File \<Rightarrow> 'a fat_state_scheme \<Rightarrow>
    (Status \<times> File \<times> 'a fat_state_scheme) option" where
  "ScanDirectoryFor b p bpb cluster filename f s =
     (if \<not> (cluster < FAT32_EOF \<and> cluster \<ge> 2) then Some (STATUS_NOT_FOUND, f, s)
      else Option.bind (scan_sectors b p filename (ClusterToLBA p bpb cluster) (unat (sectors_per_cluster bpb)) f s) (\<lambda>r.
        case r of
          Ended st f' s' \<Rightarrow> Some (st, f', s')
        | Continue \<Rightarrow> Option.bind (ReadFAT32Entry b p bpb cluster) (\<lambda>next_cluster.
            if next_cluster = FAT32_BAD_CLUSTER then Some (STATUS_NOT_FOUND, f, s)
            else ScanDirectoryFor b p bpb next_cluster filename f s)))"

declare ScanDirectoryFor.simps [code]

definition OpenFile_FAT32 :: "bios \<Rightarrow> Partition \<Rightarrow> string \<Rightarrow> File \<Rightarrow> 'a fat_state_scheme \<Rightarrow> (Status \<times> File \<times> 'a fat_state_scheme) option" where
  "OpenFile_FAT32 b p path f s = do {
     bytes \<leftarrow> sector_of b (drive_index p) (lba_start p);
     let bpb = parameter_block bytes;
     ScanDirectoryFor b p bpb (root_cluster bpb) path (f\<lparr>file_type := PART_FAT32_LBA\<rparr>) s
   }"

section \<open>Reading a file\<close>

text \<open>Following the chain to the cluster of the cursor; \<open>Inl\<close> when it ends before.\<close>

fun skip_clusters :: "bios \<Rightarrow> Partition \<Rightarrow> BIOSParameterBlock \<Rightarrow> nat \<Rightarrow> u32 \<Rightarrow> (unit + u32) option" where
  "skip_clusters b p bpb 0 cluster = Some (Inr cluster)"
| "skip_clusters b p bpb (Suc n) cluster = do {
     c \<leftarrow> ReadFAT32Entry b p bpb cluster;
     if c \<ge> FAT32_EOF then Some (Inl ()) else skip_clusters b p bpb n c
   }"

text \<open>
  The sectors of a cluster from the one of the cursor on: \<open>n\<close> of them are left, \<open>out\<close> has been read and \<open>off\<close> is the
  place in the sector. A sector that cannot be read ends the reading with an error (\<open>Inl\<close>).
\<close>

fun read_sectors :: "bios \<Rightarrow> u32 \<Rightarrow> u32 \<Rightarrow> nat \<Rightarrow> u32 \<Rightarrow> u32 \<Rightarrow> u8 list \<Rightarrow> u32 \<Rightarrow> ((u8 list \<times> u32) + (u8 list \<times> u32)) option" where
  "read_sectors b drive lba 0 n_bytes off out curs = Some (Inr (out, curs))"
| "read_sectors b drive lba (Suc n) n_bytes off out curs =
     (if \<not> of_nat (length out) < n_bytes then Some (Inr (out, curs))
      else do {
        (st, sector) \<leftarrow> ReadFromDisk b drive (ucast lba) 1 STACK_BUFFER;
        if st \<noteq> STATUS_OK then Some (Inl (out, curs))
        else if length sector \<noteq> SECTOR_SIZE then None
        else do {
          let can_read = 512 - off;
          let rest = n_bytes - of_nat (length out);
          let to_copy = (if rest < can_read then rest else can_read);
          read_sectors b drive (lba + 1) n n_bytes 0 (out @ take (unat to_copy) (drop (unat off) sector)) (curs + to_copy)
        }
      })"

partial_function (option) read_clusters :: "bios \<Rightarrow> Partition \<Rightarrow> BIOSParameterBlock \<Rightarrow> u32 \<Rightarrow> u32 \<Rightarrow> u8 list \<Rightarrow> u32 \<Rightarrow>
    ((u8 list \<times> u32) + (u8 list \<times> u32)) option" where
  "read_clusters b p bpb n_bytes cluster out curs =
     (if \<not> (of_nat (length out) < n_bytes \<and> cluster < FAT32_EOF) then Some (Inr (out, curs))
      else
        let offset_in_cluster = curs mod (ucast (sectors_per_cluster bpb) * 512);
            sector_in_cluster = offset_in_cluster div 512
        in Option.bind
          (read_sectors b (drive_index p) (ClusterToLBA p bpb cluster + sector_in_cluster)
            (unat (sectors_per_cluster bpb) - unat sector_in_cluster) n_bytes (offset_in_cluster mod 512) out curs)
          (\<lambda>r. case r of
             Inl e \<Rightarrow> Some (Inl e)
           | Inr (out', curs') \<Rightarrow> Option.bind (ReadFAT32Entry b p bpb cluster) (\<lambda>c. read_clusters b p bpb n_bytes c out' curs')))"

declare read_clusters.simps [code]

text \<open>The result is the number returned, the bytes stored and the file with its cursor. A cluster without sectors divides by 0.\<close>

definition ReadFile_FAT32 :: "bios \<Rightarrow> File \<Rightarrow> u32 \<Rightarrow> 'a fat_state_scheme \<Rightarrow> (int \<times> u8 list \<times> File) option" where
  "ReadFile_FAT32 b f n_bytes s = do {
     d \<leftarrow> fat_files s (internal f);
     (st, bytes) \<leftarrow> ReadFromDisk b (drive_index (part d)) (ucast (lba_start (part d))) 1 STACK_BUFFER;
     if st \<noteq> STATUS_OK then Some (- 1, [], f)
     else if length bytes \<noteq> SECTOR_SIZE then None
     else do {
       let bpb = parameter_block bytes;
       let bytes_per_cluster = ucast (sectors_per_cluster bpb) * 512;
       if bytes_per_cluster = 0 then None
       else do {
         c \<leftarrow> skip_clusters b (part d) bpb (unat (cursor f div bytes_per_cluster)) (first_cluster d);
         case c of
           Inl u \<Rightarrow> Some (0, [], f)
         | Inr cluster \<Rightarrow> do {
             r \<leftarrow> read_clusters b (part d) bpb n_bytes cluster [] (cursor f);
             case r of
               Inl (out, curs) \<Rightarrow> Some (- 1, out, f\<lparr>cursor := curs\<rparr>)
             | Inr (out, curs) \<Rightarrow> Some (sint (of_nat (length out) :: u32), out, f\<lparr>cursor := curs\<rparr>)
           }
       }
     }
   }"

section \<open>Volumes\<close>

text \<open>
  What the properties take for granted of the BIOS: each sector of the drive can be read and has 512 bytes.
\<close>

definition disk_ok :: "bios \<Rightarrow> u32 \<Rightarrow> (u32 \<Rightarrow> u8 list) \<Rightarrow> bool" where
  "disk_ok b drive sec \<longleftrightarrow>
     (\<forall>lba. ReadFromDisk b drive (ucast lba) 1 STACK_BUFFER = Some (STATUS_OK, sec lba) \<and> length (sec lba) = SECTOR_SIZE)"

lemma disk_okD:
  assumes "disk_ok b drive sec"
  shows "ReadFromDisk b drive (ucast lba) 1 STACK_BUFFER = Some (STATUS_OK, sec lba)" and "length (sec lba) = 512"
    and "sector_of b drive lba = Some (sec lba)"
  using assms by (simp_all add: disk_ok_def sector_of_def)

definition fat_next :: "(u32 \<Rightarrow> u8 list) \<Rightarrow> Partition \<Rightarrow> BIOSParameterBlock \<Rightarrow> u32 \<Rightarrow> u32" where
  "fat_next sec p bpb c = u32_at (unat (c * 4 mod 512)) (sec (FindFAT p bpb + c * 4 div 512)) AND 0x0FFFFFFF"

lemma ReadFAT32Entry_ok: "disk_ok b (drive_index p) sec \<Longrightarrow> ReadFAT32Entry b p bpb c = Some (fat_next sec p bpb c)"
  by (simp add: ReadFAT32Entry_def fat_next_def disk_okD Let_def)

text \<open>The clusters of a file, in order, and the bytes in them.\<close>

fun file_chain :: "(u32 \<Rightarrow> u32) \<Rightarrow> u32 \<Rightarrow> u32 list \<Rightarrow> bool" where
  "file_chain nx c [] \<longleftrightarrow> FAT32_EOF \<le> c"
| "file_chain nx c (d # ds) \<longleftrightarrow> c = d \<and> c < FAT32_EOF \<and> file_chain nx (nx c) ds"

definition sectors_from :: "(u32 \<Rightarrow> u8 list) \<Rightarrow> u32 \<Rightarrow> nat \<Rightarrow> u8 list" where
  "sectors_from sec lba n = concat (map (\<lambda>i. sec (lba + of_nat i)) [0..<n])"

definition cluster_bytes :: "(u32 \<Rightarrow> u8 list) \<Rightarrow> Partition \<Rightarrow> BIOSParameterBlock \<Rightarrow> u32 \<Rightarrow> u8 list" where
  "cluster_bytes sec p bpb c = sectors_from sec (ClusterToLBA p bpb c) (unat (sectors_per_cluster bpb))"

lemma sectors_from_Suc: "sectors_from sec lba (Suc n) = sec lba @ sectors_from sec (lba + 1) n"
proof -
  have "[0..<Suc n] = 0 # map Suc [0..<n]" by (simp add: map_Suc_upt upt_conv_Cons del: upt_Suc)
  then show ?thesis by (simp add: sectors_from_def o_def add.assoc del: upt_Suc)
qed

lemma length_sectors_from: "disk_ok b drive sec \<Longrightarrow> length (sectors_from sec lba n) = n * 512"
proof (induction n arbitrary: lba)
  case 0
  then show ?case by (simp add: sectors_from_def)
next
  case (Suc n)
  then show ?case by (simp add: sectors_from_Suc disk_okD)
qed

lemma drop_sectors: "disk_ok b drive sec \<Longrightarrow> k \<le> n \<Longrightarrow> drop (k * 512) (sectors_from sec lba n) = sectors_from sec (lba + of_nat k) (n - k)"
proof (induction k arbitrary: lba n)
  case 0
  then show ?case by simp
next
  case (Suc k)
  then obtain m where n: "n = Suc m" by (cases n) auto
  have "drop (Suc k * 512) (sectors_from sec lba n) = drop (k * 512) (sectors_from sec (lba + 1) m)"
    using disk_okD(2) [OF Suc.prems(1)] by (simp add: n sectors_from_Suc)
  also have "\<dots> = sectors_from sec (lba + 1 + of_nat k) (m - k)" using Suc n by simp
  finally show ?case by (simp add: n add.assoc)
qed

lemma read_sectors_spec:
  assumes "disk_ok b drive sec" and "unat off < 512" and "length out \<le> unat n_bytes"
  shows "\<exists>got. read_sectors b drive lba n n_bytes off out curs = Some (Inr (out @ got, curs + of_nat (length got))) \<and>
    got = take (unat n_bytes - length out) (drop (unat off) (sectors_from sec lba n))"
  using assms(2,3)
proof (induction n arbitrary: lba off out curs)
  case 0
  then show ?case by (simp add: sectors_from_def)
next
  case (Suc n)
  have len: "unat (of_nat (length out) :: u32) = length out"
    using le_less_trans [OF Suc.prems(2) unat_u32_less] by (rule unat_of_nat_small)
  show ?case
  proof (cases "length out < unat n_bytes")
    case False
    then show ?thesis using Suc.prems(2) len by (simp add: word_less_nat_alt)
  next
    case True
    define to_copy where "to_copy = (if n_bytes - of_nat (length out) < 512 - off then n_bytes - of_nat (length out) else 512 - off)"
    let ?got = "take (unat to_copy) (drop (unat off) (sec lba))"
    have r: "unat (n_bytes - of_nat (length out)) = unat n_bytes - length out"
      using True len by (simp add: unat_sub word_le_nat_alt)
    have o: "unat (512 - off) = 512 - unat off" using Suc.prems(1) by (simp add: unat_sub word_le_nat_alt)
    have tc: "unat to_copy = min (unat n_bytes - length out) (512 - unat off)"
      using r o by (simp add: to_copy_def word_less_nat_alt min_def)
    have gl: "length ?got = unat to_copy" using tc disk_okD(2) [OF assms(1)] by simp
    have "unat to_copy \<le> unat n_bytes - length out" unfolding tc by simp
    then have ol: "length (out @ ?got) \<le> unat n_bytes" using gl True by simp
    obtain got where got: "read_sectors b drive (lba + 1) n n_bytes 0 (out @ ?got) (curs + to_copy) =
        Some (Inr ((out @ ?got) @ got, curs + to_copy + of_nat (length got)))"
      "got = take (unat n_bytes - length (out @ ?got)) (sectors_from sec (lba + 1) n)"
      using Suc.IH [of 0 "out @ ?got" "lba + 1" "curs + to_copy"] ol by auto
    have "read_sectors b drive lba (Suc n) n_bytes off out curs =
        read_sectors b drive (lba + 1) n n_bytes 0 (out @ ?got) (curs + to_copy)"
      using True len disk_okD [OF assms(1)] by (simp add: word_less_nat_alt Let_def to_copy_def)
    moreover have "curs + to_copy + of_nat (length got) = curs + of_nat (length (?got @ got))"
      using gl by (simp add: add.assoc)
    moreover have "?got @ got = take (unat n_bytes - length out) (drop (unat off) (sectors_from sec lba (Suc n)))"
    proof (cases "unat n_bytes - length out \<le> 512 - unat off")
      case True
      then show ?thesis using got(2) gl tc disk_okD(2) [OF assms(1)] by (simp add: sectors_from_Suc)
    next
      case False
      then show ?thesis using got(2) gl tc disk_okD(2) [OF assms(1)] Suc.prems(1) by (simp add: sectors_from_Suc)
    qed
    ultimately show ?thesis using got(1) by (intro exI [of _ "?got @ got"]) simp
  qed
qed

lemma read_clusters_spec:
  assumes "disk_ok b (drive_index p) sec" and "sectors_per_cluster bpb \<noteq> 0" and "file_chain (fat_next sec p bpb) c cs"
    and "length out \<le> unat n" and "unat curs + unat n < 2 ^ 32 + length out" and "unat curs < 2 ^ 32"
    and "cs = [] \<or> unat curs mod (unat (sectors_per_cluster bpb) * 512) = k"
  shows "\<exists>got. read_clusters b p bpb n c out curs = Some (Inr (out @ got, curs + of_nat (length got))) \<and>
    got = take (unat n - length out) (drop k (concat (map (cluster_bytes sec p bpb) cs)))"
  using assms(3-7)
proof (induction cs arbitrary: c out curs k)
  case Nil
  then have "\<not> c < FAT32_EOF" by (simp add: not_less)
  then show ?case by (subst read_clusters.simps) simp
next
  case (Cons d ds)
  let ?spc = "unat (sectors_per_cluster bpb)"
  let ?m = "ucast (sectors_per_cluster bpb) * 512 :: u32"
  have c: "c = d" "c < FAT32_EOF" "file_chain (fat_next sec p bpb) (fat_next sec p bpb c) ds" using Cons.prems(1) by auto
  have len: "unat (of_nat (length out) :: u32) = length out"
    using le_less_trans [OF Cons.prems(2) unat_u32_less] by (rule unat_of_nat_small)
  show ?case
  proof (cases "length out < unat n")
    case False
    then show ?thesis using Cons.prems(2) len by (subst read_clusters.simps) (simp add: word_less_nat_alt)
  next
    case True
    have spc: "0 < ?spc" "?spc < 256" using assms(2) unsigned_less [of "sectors_per_cluster bpb", where 'a = nat]
      by (simp_all add: unat_gt_0)
    have m: "unat ?m = ?spc * 512"
      using spc(2) by (simp add: unat_word_ariths unsigned_ucast_eq take_bit_nat_eq_self)
    have k: "unat (curs mod ?m) = k" "k < ?spc * 512" using Cons.prems(5) m spc(1) by (auto simp: unat_mod)
    have kd: "unat (curs mod ?m div 512) = k div 512" "unat (curs mod ?m mod 512) = k mod 512"
      unfolding k(1) [symmetric] by (simp_all add: unat_div unat_mod)
    have kl: "k div 512 < ?spc" using k(2) by (simp add: div_less_iff_less_mult)
    define lba where "lba = ClusterToLBA p bpb c + curs mod ?m div 512"
    have dr: "drop (k mod 512) (sectors_from sec lba (?spc - k div 512)) = drop k (cluster_bytes sec p bpb c)"
    proof -
      have "lba = ClusterToLBA p bpb c + of_nat (k div 512)" unfolding lba_def kd(1) [symmetric] by simp
      with drop_sectors [OF assms(1) less_imp_le [OF kl], of "ClusterToLBA p bpb c"]
      have "sectors_from sec lba (?spc - k div 512) = drop (k div 512 * 512) (cluster_bytes sec p bpb c)"
        by (simp add: cluster_bytes_def)
      then show ?thesis by (simp add: add.commute [of "k mod 512"])
    qed
    have "unat (curs mod ?m mod 512) < 512" by (simp add: kd(2))
    from read_sectors_spec [OF assms(1) this Cons.prems(2), of lba "?spc - k div 512" curs, unfolded kd(2) dr]
    obtain got where got: "read_sectors b (drive_index p) lba (?spc - k div 512) n (curs mod ?m mod 512) out curs =
        Some (Inr (out @ got, curs + of_nat (length got)))"
      "got = take (unat n - length out) (drop k (cluster_bytes sec p bpb c))" by blast
    have gl: "length got = min (unat n - length out) (?spc * 512 - k)"
      unfolding got(2) cluster_bytes_def by (simp add: length_sectors_from [OF assms(1)])
    let ?curs = "curs + of_nat (length got)"
    have gn: "length got \<le> unat n - length out" using gl by simp
    have ol: "length (out @ got) \<le> unat n" using gn True by simp
    have wrap: "unat curs + length got < 4294967296" using Cons.prems(3) gn True by simp
    have uc: "unat ?curs = unat curs + length got"
      using unat_plus_no_wrap [of curs "of_nat (length got)"] wrap by (simp add: unat_of_nat_small)
    have w2: "unat ?curs + unat n < 2 ^ 32 + length (out @ got)" using Cons.prems(3) uc by simp
    have step: "read_clusters b p bpb n c out curs = read_clusters b p bpb n (fat_next sec p bpb c) (out @ got) ?curs"
      using True len c(2) got(1) ReadFAT32Entry_ok [OF assms(1)] kd(1)
      by (subst read_clusters.simps) (simp add: word_less_nat_alt Let_def lba_def)
    define k' where "k' = unat ?curs mod (?spc * 512)"
    obtain got' where got': "read_clusters b p bpb n (fat_next sec p bpb c) (out @ got) ?curs =
        Some (Inr ((out @ got) @ got', ?curs + of_nat (length got')))"
      "got' = take (unat n - length (out @ got)) (drop k' (concat (map (cluster_bytes sec p bpb) ds)))"
      using Cons.IH [OF c(3) ol w2 _ disjI2 [OF k'_def [symmetric]]] by auto
    have cl: "length (cluster_bytes sec p bpb c) = ?spc * 512" unfolding cluster_bytes_def by (rule length_sectors_from [OF assms(1)])
    have "got @ got' = take (unat n - length out) (drop k (cluster_bytes sec p bpb c @ concat (map (cluster_bytes sec p bpb) ds)))"
    proof (cases "unat n - length out \<le> ?spc * 512 - k")
      case True
      then have "got' = []" using got'(2) gl by simp
      with True got(2) cl show ?thesis by simp
    next
      case False
      then have gk: "length got = ?spc * 512 - k" using gl by simp
      have "unat curs mod (?spc * 512) = k" using Cons.prems(5) by simp
      then have "k' = (k + length got) mod (?spc * 512)" unfolding k'_def uc by (metis mod_add_left_eq)
      then have "k' = 0" using gk k(2) by simp
      with False gk got(2) got'(2) cl k(2) show ?thesis by simp
    qed
    then have all: "got @ got' = take (unat n - length out) (drop k (concat (map (cluster_bytes sec p bpb) (d # ds))))"
      by (simp add: c(1))
    have "read_clusters b p bpb n c out curs = Some (Inr (out @ got @ got', curs + of_nat (length (got @ got'))))"
      unfolding step got'(1) by (simp add: add.assoc)
    with all show ?thesis by blast
  qed
qed

lemma skip_clusters_spec:
  assumes "disk_ok b (drive_index p) sec"
  shows "file_chain (fat_next sec p bpb) c cs \<Longrightarrow> cs \<noteq> [] \<Longrightarrow>
    \<exists>r. skip_clusters b p bpb k c = Some r \<and>
      (if k < length cs then r = Inr (cs ! k) \<and> file_chain (fat_next sec p bpb) (cs ! k) (drop k cs) else r = Inl ())"
proof (induction k arbitrary: c cs)
  case 0
  then show ?case by (cases cs) auto
next
  case (Suc k)
  then obtain ds where cs: "cs = c # ds" "file_chain (fat_next sec p bpb) (fat_next sec p bpb c) ds" by (cases cs) auto
  show ?case
  proof (cases ds)
    case Nil
    with cs show ?thesis by (simp add: ReadFAT32Entry_ok [OF assms])
  next
    case (Cons d es)
    then have lt: "\<not> FAT32_EOF \<le> fat_next sec p bpb c" using cs(2) by (auto simp: not_le)
    have "ds \<noteq> []" using Cons by simp
    from Suc.IH [OF cs(2) this] obtain r where "skip_clusters b p bpb k (fat_next sec p bpb c) = Some r"
      "if k < length ds then r = Inr (ds ! k) \<and> file_chain (fat_next sec p bpb) (ds ! k) (drop k ds) else r = Inl ()" by blast
    with lt show ?thesis by (intro exI [of _ r]) (simp add: ReadFAT32Entry_ok [OF assms] cs(1))
  qed
qed

lemma drop_clusters:
  assumes "\<And>c. length (bytes c) = m"
  shows "drop (k * m + j) (concat (map bytes cs)) = drop j (concat (map bytes (drop k cs)))"
proof (induction cs arbitrary: k)
  case Nil
  then show ?case by simp
next
  case (Cons c cs)
  show ?case
  proof (cases k)
    case 0
    then show ?thesis by simp
  next
    case (Suc i)
    then show ?thesis using assms Cons.IH [of i] by (simp add: add.assoc)
  qed
qed

lemma ReadFile_FAT32_chain:
  assumes "fat_files s (internal f) = Some d" and "disk_ok b (drive_index (part d)) sec"
    and "bpb = parameter_block (sec (lba_start (part d)))" and "sectors_per_cluster bpb \<noteq> 0"
    and "file_chain (fat_next sec (part d) bpb) (first_cluster d) cs" and "cs \<noteq> []" and "unat (cursor f) + unat n < 2 ^ 31"
  shows "\<exists>out. ReadFile_FAT32 b f n s = Some (int (length out), out, f\<lparr>cursor := cursor f + of_nat (length out)\<rparr>) \<and>
    out = take (unat n) (drop (unat (cursor f)) (concat (map (cluster_bytes sec (part d) bpb) cs)))"
proof -
  let ?p = "part d" let ?spc = "unat (sectors_per_cluster bpb)" let ?m = "ucast (sectors_per_cluster bpb) * 512 :: u32"
  let ?all = "concat (map (cluster_bytes sec ?p bpb) cs)"
  have spc: "0 < ?spc" "?spc < 256" using assms(4) unsigned_less [of "sectors_per_cluster bpb", where 'a = nat]
    by (simp_all add: unat_gt_0)
  have m: "unat ?m = ?spc * 512" using spc(2) by (simp add: unat_word_ariths unsigned_ucast_eq take_bit_nat_eq_self)
  then have m0: "?m \<noteq> 0" using spc(1) by (metis mult_is_0 unat_0 neq0_conv zero_neq_numeral)
  define k where "k = unat (cursor f) div (?spc * 512)"
  define j where "j = unat (cursor f) mod (?spc * 512)"
  have kj: "unat (cursor f) = k * (?spc * 512) + j" unfolding k_def j_def by (rule div_mult_mod_eq [symmetric])
  have uk: "unat (cursor f div ?m) = k" by (simp add: unat_div m k_def)
  have cl: "length (cluster_bytes sec ?p bpb c) = ?spc * 512" for c
    unfolding cluster_bytes_def by (rule length_sectors_from [OF assms(2)])
  have dr: "drop (unat (cursor f)) ?all = drop j (concat (map (cluster_bytes sec ?p bpb) (drop k cs)))"
    unfolding kj by (rule drop_clusters [OF cl])
  have read: "ReadFile_FAT32 b f n s = Option.bind (skip_clusters b ?p bpb k (first_cluster d)) (\<lambda>c. case c of
      Inl u \<Rightarrow> Some (0, [], f)
    | Inr cluster \<Rightarrow> Option.bind (read_clusters b ?p bpb n cluster [] (cursor f)) (\<lambda>r. case r of
        Inl (out, curs) \<Rightarrow> Some (- 1, out, f\<lparr>cursor := curs\<rparr>)
      | Inr (out, curs) \<Rightarrow> Some (sint (of_nat (length out) :: u32), out, f\<lparr>cursor := curs\<rparr>)))"
    using m0 uk disk_okD(1,2) [OF assms(2)] by (simp add: ReadFile_FAT32_def Let_def assms(1) assms(3) [symmetric])
  obtain r where r: "skip_clusters b ?p bpb k (first_cluster d) = Some r"
    "if k < length cs then r = Inr (cs ! k) \<and> file_chain (fat_next sec ?p bpb) (cs ! k) (drop k cs) else r = Inl ()"
    using skip_clusters_spec [OF assms(2,5,6)] by blast
  show ?thesis
  proof (cases "k < length cs")
    case False
    then show ?thesis using r read dr by simp
  next
    case True
    then have chain: "file_chain (fat_next sec ?p bpb) (cs ! k) (drop k cs)" and rr: "r = Inr (cs ! k)" using r(2) by simp_all
    obtain got where got: "read_clusters b ?p bpb n (cs ! k) [] (cursor f) = Some (Inr (got, cursor f + of_nat (length got)))"
      "got = take (unat n) (drop (unat (cursor f)) ?all)"
      using read_clusters_spec [OF assms(2,4) chain, of "[]" n "cursor f" j] assms(7) dr by (auto simp: j_def)
    have "length got < 2 ^ 31" using got(2) assms(7) by simp
    then have "sint (of_nat (length got) :: u32) = int (length got)" by (simp add: signed_of_nat signed_take_bit_int_eq_self)
    with got read r(1) rr show ?thesis by simp
  qed
qed

text \<open>
  C21. Reading a file of a FAT32 volume. If the clusters of the file are a chain of the allocation table, reading \<open>n\<close> bytes gives the
  bytes of those clusters from the cursor on, \<open>n\<close> of them or as many as are left, returns their number and moves the
  cursor past them. The size in the directory entry plays no part: what follows the end of the file in its last cluster is
  read as well.
\<close>

theorem fat32_read_correct:
  assumes "fat_files s (internal f) = Some d" and "disk_ok b (drive_index (part d)) sec"
    and "bpb = parameter_block (sec (lba_start (part d)))" and "sectors_per_cluster bpb \<noteq> 0"
    and "file_chain (fat_next sec (part d) bpb) (first_cluster d) cs" and "cs \<noteq> []" and "unat (cursor f) + unat n < 2 ^ 31"
  shows "\<exists>out. ReadFile_FAT32 b f n s = Some (int (length out), out, f\<lparr>cursor := cursor f + of_nat (length out)\<rparr>) \<and>
    out = take (unat n) (drop (unat (cursor f)) (concat (map (cluster_bytes sec (part d) bpb) cs)))"
  using assms by (rule ReadFile_FAT32_chain)

section \<open>The directory\<close>

definition directory :: "(u32 \<Rightarrow> u8 list) \<Rightarrow> Partition \<Rightarrow> BIOSParameterBlock \<Rightarrow> u32 list \<Rightarrow> DirectoryEntry list" where
  "directory sec p bpb cs = concat (map (\<lambda>c. concat (map (\<lambda>i. sector_entries (sec (ClusterToLBA p bpb c + of_nat i)))
     [0..<unat (sectors_per_cluster bpb)])) cs)"

definition named :: "string \<Rightarrow> DirectoryEntry \<Rightarrow> bool" where
  "named filename de \<longleftrightarrow> de_name de ! 0 \<noteq> 0xE5 \<and> de_attributes de \<noteq> 0x0F \<and>
     strcasecmp (Some (FATEntryToString (map (\<lambda>c. char_of (unat c)) (de_name de)))) (Some filename) = Some 0"

text \<open>The first entry of that name before the end of the directory; the result of opening it.\<close>

definition lookup_entry :: "Partition \<Rightarrow> string \<Rightarrow> DirectoryEntry list \<Rightarrow> File \<Rightarrow> 'a fat_state_scheme \<Rightarrow> (Status \<times> File \<times> 'a fat_state_scheme) option" where
  "lookup_entry p filename des f s =
     (case find (named filename) (takeWhile (\<lambda>de. de_name de ! 0 \<noteq> 0) des) of
        None \<Rightarrow> Some (STATUS_NOT_FOUND, f, s)
      | Some de \<Rightarrow> open_entry p de f s)"

lemma cstr_rd_le: "cstr s xs \<Longrightarrow> i \<le> length xs \<Longrightarrow> rd s i = Some (if i < length xs then xs ! i else NUL)"
  using cstr_rd(1,2) [of s xs] by (cases "i = length xs") simp_all

lemma casecmp_from_total:
  assumes "cstr s xs" and "cstr t ys"
  shows "i \<le> length xs \<Longrightarrow> i \<le> length ys \<Longrightarrow> \<exists>r. casecmp_from s t i = Some r"
proof (induction "length xs - i" arbitrary: i)
  case 0
  then have "rd s i = Some NUL" "\<exists>d. rd t i = Some d" using cstr_rd_le [OF assms(1), of i] cstr_rd_le [OF assms(2), of i] by auto
  then show ?case by (subst casecmp_from.simps) (auto simp: Let_def lower_def char_code_def tolower_def)
next
  case (Suc n)
  obtain c d where c: "rd s i = Some c" and d: "rd t i = Some d"
    using cstr_rd_le [OF assms(1) Suc.prems(1)] cstr_rd_le [OF assms(2) Suc.prems(2)] by auto
  show ?case
  proof (cases "lower c \<noteq> lower d \<or> lower c = 0")
    case True
    then show ?thesis using c d by (subst casecmp_from.simps) (auto simp: Let_def)
  next
    case False
    then have "d \<noteq> NUL" by (auto simp: lower_def char_code_def tolower_def)
    then have "i < length ys" using d cstr_rd_le [OF assms(2) Suc.prems(2)] by (auto split: if_splits)
    then have "\<exists>r. casecmp_from s t (Suc i) = Some r" using Suc.hyps by (intro Suc.hyps(1)) linarith+
    then show ?thesis using c d False by (subst casecmp_from.simps) (auto simp: Let_def)
  qed
qed

lemma strcasecmp_total:
  assumes "NUL \<in> set s" and "cstr t ys"
  shows "\<exists>r. strcasecmp (Some s) (Some t) = Some r"
proof -
  obtain xs rest where "s = xs @ NUL # rest" "NUL \<notin> set xs" using split_list_first [OF assms(1)] by blast
  then have "cstr s xs" by (simp add: cstr_def)
  from casecmp_from_total [OF this assms(2), of 0] show ?thesis by (simp add: strcasecmp_def)
qed

lemma FATEntryToString_ends: "NUL \<in> set (FATEntryToString raw)"
  by (simp add: FATEntryToString_def)

lemma scan_entries_lookup:
  assumes "cstr filename xs"
  shows "scan_entries p filename des f s =
    (if find (named filename) (takeWhile (\<lambda>de. de_name de ! 0 \<noteq> 0) des) = None \<and> (\<forall>de \<in> set des. de_name de ! 0 \<noteq> 0)
     then Some Continue else map_option (\<lambda>(st, f', s'). Ended st f' s') (lookup_entry p filename des f s))"
proof (induction des)
  case Nil
  then show ?case by simp
next
  case (Cons de des)
  obtain r where r: "strcasecmp (Some (FATEntryToString (map (\<lambda>c. char_of (unat c)) (de_name de)))) (Some filename) = Some r"
    using strcasecmp_total [OF FATEntryToString_ends assms] by blast
  show ?case
  proof (cases "named filename de \<or> de_name de ! 0 = 0")
    case True
    then show ?thesis using r by (auto simp: lookup_entry_def named_def)
  next
    case False
    then have "scan_entries p filename (de # des) f s = scan_entries p filename des f s" using r by (auto simp: named_def)
    moreover have "lookup_entry p filename (de # des) f s = lookup_entry p filename des f s" using False by (simp add: lookup_entry_def)
    ultimately show ?thesis using Cons.IH False by simp
  qed
qed

lemma scan_entries_append:
  "scan_entries p filename (des @ es) f s =
     Option.bind (scan_entries p filename des f s) (\<lambda>r. case r of Continue \<Rightarrow> scan_entries p filename es f s | Ended st f' s' \<Rightarrow> Some (Ended st f' s'))"
proof (induction des)
  case Nil
  then show ?case by simp
next
  case (Cons de des)
  show ?case
  proof (cases "strcasecmp (Some (FATEntryToString (map (\<lambda>c. char_of (unat c)) (de_name de)))) (Some filename)")
    case None
    with Cons show ?thesis by simp
  next
    case (Some r)
    with Cons show ?thesis by (cases "open_entry p de f s") auto
  qed
qed

lemma scan_sectors_ok:
  assumes "disk_ok b (drive_index p) sec"
  shows "scan_sectors b p filename lba n f s =
    scan_entries p filename (concat (map (\<lambda>i. sector_entries (sec (lba + of_nat i))) [0..<n])) f s"
proof (induction n arbitrary: lba)
  case 0
  then show ?case by simp
next
  case (Suc n)
  have "[0..<Suc n] = 0 # map Suc [0..<n]" by (simp add: map_Suc_upt upt_conv_Cons del: upt_Suc)
  then have "concat (map (\<lambda>i. sector_entries (sec (lba + of_nat i))) [0..<Suc n]) =
      sector_entries (sec lba) @ concat (map (\<lambda>i. sector_entries (sec (lba + 1 + of_nat i))) [0..<n])"
    by (simp add: o_def add.assoc del: upt_Suc)
  then show ?case using Suc.IH [of "lba + 1"] by (simp add: disk_okD [OF assms] scan_entries_append del: upt_Suc)
qed

lemma ScanDirectoryFor_ok:
  assumes "disk_ok b (drive_index p) sec"
  shows "file_chain (fat_next sec p bpb) c cs \<Longrightarrow> \<forall>c \<in> set cs. 2 \<le> c \<and> c \<noteq> FAT32_BAD_CLUSTER \<Longrightarrow>
    ScanDirectoryFor b p bpb c filename f s =
      map_option (\<lambda>r. case r of Continue \<Rightarrow> (STATUS_NOT_FOUND, f, s) | Ended st f' s' \<Rightarrow> (st, f', s'))
        (scan_entries p filename (directory sec p bpb cs) f s)"
proof (induction cs arbitrary: c)
  case Nil
  then have "\<not> c < FAT32_EOF" by (simp add: not_less)
  then show ?case by (subst ScanDirectoryFor.simps) (simp add: directory_def)
next
  case (Cons d ds)
  then have c: "c = d" "c < FAT32_EOF" "2 \<le> c" "file_chain (fat_next sec p bpb) (fat_next sec p bpb c) ds" by auto
  have bad: "fat_next sec p bpb c \<noteq> FAT32_BAD_CLUSTER"
  proof (cases ds)
    case Nil
    then show ?thesis using c(4) by auto
  next
    case (Cons e es)
    then show ?thesis using c(4) Cons.prems(2) by auto
  qed
  let ?here = "concat (map (\<lambda>i. sector_entries (sec (ClusterToLBA p bpb c + of_nat i))) [0..<unat (sectors_per_cluster bpb)])"
  have d: "directory sec p bpb (d # ds) = ?here @ directory sec p bpb ds" by (simp add: directory_def c(1))
  have IH: "ScanDirectoryFor b p bpb (fat_next sec p bpb c) filename f s =
      map_option (\<lambda>r. case r of Continue \<Rightarrow> (STATUS_NOT_FOUND, f, s) | Ended st f' s' \<Rightarrow> (st, f', s'))
        (scan_entries p filename (directory sec p bpb ds) f s)"
    using Cons.IH [OF c(4)] Cons.prems(2) by simp
  show ?case unfolding d scan_entries_append
    by (subst ScanDirectoryFor.simps)
      (cases "scan_entries p filename ?here f s",
       simp_all add: c(2,3) scan_sectors_ok [OF assms] ReadFAT32Entry_ok [OF assms] bad IH split: scanned.splits)
qed


section \<open>An example\<close>

text \<open>A volume with one sector per cluster: parameters, allocation table, an empty root directory in cluster 2 and a file in cluster 3.\<close>

definition ex_sector :: "u32 \<Rightarrow> u8 list" where
  "ex_sector lba =
     (if lba = 0 then (replicate 512 0)[13 := 1, 14 := 1, 16 := 1, 36 := 1, 44 := 2]
      else if lba = 1 then (replicate 512 0)[8 := 0xF8, 9 := 0xFF, 10 := 0xFF, 11 := 0x0F, 12 := 0xF8, 13 := 0xFF, 14 := 0xFF, 15 := 0x0F]
      else if lba = 2 then replicate 512 0
      else replicate 512 7)"

text \<open>A BIOS with one disk of the given sectors.\<close>

definition disk_bios :: "(u32 \<Rightarrow> u8 list) \<Rightarrow> bios" where
  "disk_bios sec = \<lparr>bios_read = (\<lambda>drive lba n. Some (sec (ucast lba))), bios_sector_size = (\<lambda>_. Some 512),
     bios_extensions = (\<lambda>_. None), bios_is_cd = (\<lambda>_. False)\<rparr>"

abbreviation ex_bios :: bios where "ex_bios \<equiv> disk_bios ex_sector"

definition ex_fat :: fat_state where
  "ex_fat = \<lparr>pool = \<lparr>frame_start = 0x35, n_frames = 0x4B, free_frames = 0\<rparr>, bh_links = (\<lambda>_. 0), bh_slabs = Map.empty,
     bh_caches = (\<lambda>_. \<lparr>sc_slabs = 0, sc_objsize = 0\<rparr>), bh_initialized = False,
     fat_files = [0x40000 \<mapsto> \<lparr>first_cluster = 3, attributes = 0x20, part = no_partition\<rparr>]\<rparr>"

definition ex_file :: File where
  "ex_file = \<lparr>internal = 0x40000, cursor = 500, filesize = 505, loaded = True, ended = False, file_type = PART_FAT32_LBA\<rparr>"

lemma ucast_up_down: "ucast (ucast (x :: u32) :: u64) = x"
  by (rule word_unat_eq_iff [THEN iffD2]) (simp add: unat_ucast_32 unat_ucast_64)

lemma disk_ok_bios: "(\<And>lba. length (sec lba) = 512) \<Longrightarrow> disk_ok (disk_bios sec) drive sec"
  by (simp add: disk_ok_def ReadFromDisk_def GetSectorSizeForDrive_def read_from_disk_lomem_def disk_bios_def Let_def ucast_up_down)

lemma disk_ok_ex: "disk_ok ex_bios drive ex_sector"
  by (rule disk_ok_bios) (simp add: ex_sector_def)

lemma ex_volume:
  "parameter_block (ex_sector 0) = \<lparr>sectors_per_cluster = 1, reserved_sectors = 1, n_fats = 1, sectors_per_fat = 1, root_cluster = 2\<rparr>"
  by (simp add: ex_sector_def parameter_block_def u16_at_def u32_at_def)

lemma ex_clusters:
  assumes "bpb = parameter_block (ex_sector 0)"
  shows "ClusterToLBA no_partition bpb c = c" and "fat_next ex_sector no_partition bpb 2 = 0x0FFFFFF8"
    and "fat_next ex_sector no_partition bpb 3 = 0x0FFFFFF8"
  unfolding assms ex_volume
  by (simp_all add: ClusterToLBA_def FindDataStart_def FindFAT_def no_partition_def fat_next_def ex_sector_def u16_at_def u32_at_def)

theorem fat32_read_correct_witness:
  "\<exists>out. ReadFile_FAT32 ex_bios ex_file 100 ex_fat = Some (12, out, ex_file\<lparr>cursor := 512\<rparr>) \<and> out = replicate 12 7"
proof -
  define d where "d = \<lparr>first_cluster = 3, attributes = 0x20, part = no_partition\<rparr>"
  define bpb where "bpb = parameter_block (ex_sector 0)"
  have p: "part d = no_partition" "lba_start (part d) = 0" "sectors_per_cluster bpb = 1" by (simp_all add: d_def no_partition_def bpb_def ex_volume)
  note c = ex_clusters [OF bpb_def]
  have ch: "file_chain (fat_next ex_sector (part d) bpb) (first_cluster d) [3]" using c(3) by (simp add: d_def)
  have f: "fat_files ex_fat (internal ex_file) = Some d" by (simp add: ex_fat_def ex_file_def d_def)
  have b: "cluster_bytes ex_sector (part d) bpb 3 = replicate 512 7"
    by (simp add: cluster_bytes_def sectors_from_def p c(1) ex_sector_def)
  from fat32_read_correct [OF f disk_ok_ex bpb_def [folded p(2)] _ ch, of 100] show ?thesis
    by (auto simp: p(3) b ex_file_def)
qed


end
