(* ===== verification/Iso9660.thy ===== *)
theory Iso9660
  imports Fat32
begin

text \<open>
  Files on CDs, \<^verbatim>\<open>src/bootmanager/core/fs/iso9660/iso9660.c\<close>, the choice of the file system
  (\<^verbatim>\<open>src/bootmanager/core/fs/fs.c\<close>), and what reading a file of a CD gives. An access outside of a buffer has no result.
\<close>

section \<open>Data\<close>

abbreviation CD_SECTOR_SIZE :: nat where "CD_SECTOR_SIZE \<equiv> 2048"
abbreviation DESCRIPTOR_ADDR_LBA :: u32 where "DESCRIPTOR_ADDR_LBA \<equiv> 16"
abbreviation MAX_READ_RETRIES :: nat where "MAX_READ_RETRIES \<equiv> 3"
abbreviation ENTRY_DIRECTORY :: u8 where "ENTRY_DIRECTORY \<equiv> 2"
abbreviation SIZEOF_DRIVERFILEDATA :: u32 where "SIZEOF_DRIVERFILEDATA \<equiv> 36"

record DriverFileData =
  starting_lba :: u32
  iso_size :: u32
  volume :: Partition

record cd_state = fat_state +
  cd_files :: "ptr \<rightharpoonup> DriverFileData"

text \<open>The fields of a directory record that are used; its name is what follows.\<close>

record ISO9660DirectoryRecord =
  rec_length :: u8
  rec_lba :: u32
  rec_data_length :: u32
  rec_flags :: u8
  rec_file_id_length :: u8
  rec_file_id :: string

definition directory_record :: "u8 list \<Rightarrow> ISO9660DirectoryRecord" where
  "directory_record bs = \<lparr>rec_length = bs ! 0, rec_lba = u32_at 2 bs, rec_data_length = u32_at 10 bs, rec_flags = bs ! 25,
     rec_file_id_length = bs ! 32, rec_file_id = map (\<lambda>c. char_of (unat c)) (drop 33 bs)\<rparr>"

section \<open>Opening\<close>

text \<open>A sector is read into a buffer of 2048 bytes, which keeps the rest of what it had.\<close>

definition read_cd_sector :: "bios \<Rightarrow> u32 \<Rightarrow> u64 \<Rightarrow> u8 list \<Rightarrow> (Status \<times> u8 list) option" where
  "read_cd_sector b drive lba buf = do {
     (st, bytes) \<leftarrow> ReadFromDisk b drive lba 1 STACK_BUFFER;
     if length bytes > CD_SECTOR_SIZE then None else Some (st, bytes @ drop (length bytes) buf)
   }"

fun read_retry :: "bios \<Rightarrow> u32 \<Rightarrow> u64 \<Rightarrow> nat \<Rightarrow> u8 list \<Rightarrow> (bool \<times> u8 list) option" where
  "read_retry b drive lba 0 buf = Some (False, buf)"
| "read_retry b drive lba (Suc n) buf = do {
     (st, buf') \<leftarrow> read_cd_sector b drive lba buf;
     if st = STATUS_OK then Some (True, buf') else read_retry b drive lba n buf'
   }"

definition IsPrimaryVolumeDescriptor :: "u8 list \<Rightarrow> bool" where
  "IsPrimaryVolumeDescriptor pvd \<longleftrightarrow> pvd ! 0 = 1 \<and> pvd ! 6 = 1 \<and> take 5 (drop 1 pvd) = [0x43, 0x44, 0x30, 0x30, 0x31]"

text \<open>The length of a name without its version.\<close>

definition name_length :: "ISO9660DirectoryRecord \<Rightarrow> nat" where
  "name_length e = length (takeWhile (\<lambda>c. c \<noteq> CHR '';'') (take (unat (rec_file_id_length e)) (rec_file_id e)))"

definition open_record :: "Partition \<Rightarrow> ISO9660DirectoryRecord \<Rightarrow> File \<Rightarrow> 'a cd_state_scheme \<Rightarrow> (Status \<times> File \<times> 'a cd_state_scheme) option" where
  "open_record p e f s = do {
     (data, s1) \<leftarrow> kmalloc_boot SIZEOF_DRIVERFILEDATA s;
     if data = 0 then Some (STATUS_OUT_OF_MEMORY, f, s1)
     else Some (STATUS_OK, f\<lparr>internal := data, cursor := 0, ended := False, loaded := True, filesize := rec_data_length e\<rparr>,
       s1\<lparr>cd_files := (cd_files s1)(data \<mapsto> \<lparr>starting_lba = rec_lba e, iso_size = rec_data_length e, volume = p\<rparr>)\<rparr>)
   }"

text \<open>The records of the directory: the header of each and its name, up to the version, have to be inside the buffer.\<close>

partial_function (option) scan_records :: "Partition \<Rightarrow> string \<Rightarrow> u8 list \<Rightarrow> u32 \<Rightarrow> u32 \<Rightarrow> File \<Rightarrow> 'a cd_state_scheme \<Rightarrow>
    (Status \<times> File \<times> 'a cd_state_scheme) option" where
  "scan_records p path buf data_length off f s =
     (if \<not> off < data_length then Some (STATUS_NOT_FOUND, f, s)
      else if length buf < unat off + 33 then None
      else
        let e = directory_record (drop (unat off) buf)
        in if rec_length e = 0 then scan_records p path buf data_length (alignup (off + 1) 2048) f s
        else if rec_flags e AND ENTRY_DIRECTORY \<noteq> 0 then scan_records p path buf data_length (off + ucast (rec_length e)) f s
        else if length (rec_file_id e) < unat (rec_file_id_length e) \<and> CHR '';'' \<notin> set (rec_file_id e) then None
        else Option.bind (strlen path) (\<lambda>n.
          if n \<noteq> name_length e then scan_records p path buf data_length (off + ucast (rec_length e)) f s
          else Option.bind (strncasecmp (Some path) (Some (rec_file_id e)) (name_length e)) (\<lambda>r.
            if r \<noteq> 0 then scan_records p path buf data_length (off + ucast (rec_length e)) f s
            else open_record p e f s)))"

declare scan_records.simps [code]

definition FindDirectoryEntry :: "bios \<Rightarrow> Partition \<Rightarrow> string \<Rightarrow> File \<Rightarrow> u8 list \<Rightarrow> 'a cd_state_scheme \<Rightarrow>
    (Status \<times> File \<times> 'a cd_state_scheme) option" where
  "FindDirectoryEntry b p path f pvd s = do {
     slash \<leftarrow> strchr (Some path) (char_code (CHR ''/''));
     if slash \<noteq> None then Some (STATUS_UNSUPPORTED, f, s)
     else do {
       let root = directory_record (drop 156 pvd);
       (ok, buf) \<leftarrow> read_retry b (drive_index p) (ucast (rec_lba root)) MAX_READ_RETRIES (replicate CD_SECTOR_SIZE 0);
       if \<not> ok then Some (STATUS_RETRY, f, s)
       else scan_records p path buf (rec_data_length root) 0 f s
     }
   }"

text \<open>Searching for the volume descriptor, in at most 32 sectors; the boot manager stops if one of them cannot be read.\<close>

fun find_descriptor :: "bios \<Rightarrow> u32 \<Rightarrow> nat \<Rightarrow> nat \<Rightarrow> u8 list \<Rightarrow> (bool \<times> u8 list) option" where
  "find_descriptor b drive i 0 buf = Some (False, buf)"
| "find_descriptor b drive i (Suc n) buf = do {
     (ok, buf') \<leftarrow> read_retry b drive (ucast (DESCRIPTOR_ADDR_LBA + of_nat i)) MAX_READ_RETRIES buf;
     if \<not> ok then None
     else if IsPrimaryVolumeDescriptor buf' then Some (True, buf')
     else find_descriptor b drive (Suc i) n buf'
   }"

definition OpenFile_ISO9660 :: "bios \<Rightarrow> Partition \<Rightarrow> string \<Rightarrow> File \<Rightarrow> 'a cd_state_scheme \<Rightarrow> (Status \<times> File \<times> 'a cd_state_scheme) option" where
  "OpenFile_ISO9660 b p path f0 s = do {
     let f = f0\<lparr>file_type := PART_ISO9660_VOL\<rparr>;
     (pvd_found, pvd) \<leftarrow> find_descriptor b (drive_index p) 0 32 (replicate CD_SECTOR_SIZE 0);
     if \<not> pvd_found then Some (STATUS_UNSUPPORTED, f, s)
     else FindDirectoryEntry b p path f pvd s
   }"

section \<open>Reading\<close>

text \<open>
  \<open>out\<close> are the bytes stored so far. The buffer is on the stack and not cleared, so that a short sector leaves bytes in it that
  are not known; a read that fails ends the loop.
\<close>

partial_function (option) iso_loop :: "bios \<Rightarrow> DriverFileData \<Rightarrow> u32 \<Rightarrow> u8 list \<Rightarrow> u32 \<Rightarrow> (u8 list \<times> u32) option" where
  "iso_loop b d bytes_to_read out curs =
     (if \<not> of_nat (length out) < bytes_to_read then Some (out, curs)
      else Option.bind (ReadFromDisk b (drive_index (volume d)) (ucast (starting_lba d + curs div 2048)) 1 STACK_BUFFER) (\<lambda>(st, sector).
        if st \<noteq> STATUS_OK then Some (out, curs)
        else if length sector \<noteq> CD_SECTOR_SIZE then None
        else
          let offset_in_sector = curs mod 2048;
              left_in_sector = 2048 - offset_in_sector;
              left_to_read = bytes_to_read - of_nat (length out);
              chunk = (if left_to_read < left_in_sector then left_to_read else left_in_sector)
          in iso_loop b d bytes_to_read (out @ take (unat chunk) (drop (unat offset_in_sector) sector)) (curs + chunk)))"

declare iso_loop.simps [code]

definition ReadFile_ISO9660 :: "bios \<Rightarrow> File \<Rightarrow> u32 \<Rightarrow> 'a cd_state_scheme \<Rightarrow> (int \<times> u8 list \<times> File) option" where
  "ReadFile_ISO9660 b f n_bytes s =
     (if ended f then Some (0, [], f)
      else do {
        d \<leftarrow> cd_files s (internal f);
        let available_bytes = iso_size d - cursor f;
        (out, curs) \<leftarrow> iso_loop b d (if n_bytes > available_bytes then available_bytes else n_bytes) [] (cursor f);
        Some (sint (of_nat (length out) :: u32), out, f\<lparr>cursor := curs, ended := curs \<ge> iso_size d\<rparr>)
      })"

text \<open>
  A file is stored in consecutive sectors. When these can be read, a read inside of the file gives its bytes from the cursor on; one
  that comes to the end of the file sets \<open>ended\<close>, after which a read gives nothing even if the cursor has been moved back.
\<close>

definition cd_ok :: "bios \<Rightarrow> u32 \<Rightarrow> (u32 \<Rightarrow> u8 list) \<Rightarrow> bool" where
  "cd_ok b drive sec \<longleftrightarrow>
     (\<forall>lba. ReadFromDisk b drive (ucast lba) 1 STACK_BUFFER = Some (STATUS_OK, sec lba) \<and> length (sec lba) = CD_SECTOR_SIZE)"

definition cd_byte :: "(u32 \<Rightarrow> u8 list) \<Rightarrow> DriverFileData \<Rightarrow> nat \<Rightarrow> u8" where
  "cd_byte sec d j = sec (starting_lba d + of_nat (j div 2048)) ! (j mod 2048)"

lemma sector_slice:
  assumes "length (sec (starting_lba d + of_nat (c div 2048))) = 2048" and "k \<le> 2048 - c mod 2048"
  shows "take k (drop (c mod 2048) (sec (starting_lba d + of_nat (c div 2048)))) = map (cd_byte sec d) [c..<c + k]"
proof (rule nth_equalityI)
  show "length (take k (drop (c mod 2048) (sec (starting_lba d + of_nat (c div 2048))))) = length (map (cd_byte sec d) [c..<c + k])"
    using assms by simp
next
  fix i assume "i < length (take k (drop (c mod 2048) (sec (starting_lba d + of_nat (c div 2048)))))"
  then have i: "i < k" "c mod 2048 + i < 2048" using assms by auto
  have "c + i = (c mod 2048 + i) + 2048 * (c div 2048)" using div_mult_mod_eq [of c 2048] by linarith
  then have "(c + i) div 2048 = c div 2048" "(c + i) mod 2048 = c mod 2048 + i"
    using i(2) div_mult_self2 [of 2048 "c mod 2048 + i" "c div 2048"] mod_mult_self2 [of "c mod 2048 + i" 2048 "c div 2048"]
    by (simp_all only: div_less mod_less add_0_right zero_neq_numeral [symmetric]) auto
  then show "take k (drop (c mod 2048) (sec (starting_lba d + of_nat (c div 2048)))) ! i = map (cd_byte sec d) [c..<c + k] ! i"
    using i assms(1) by (simp add: cd_byte_def)
qed

lemma iso_loop_bytes:
  assumes "cd_ok b (drive_index (volume d)) sec"
  shows "length out \<le> unat n \<Longrightarrow> unat curs + (unat n - length out) < 2 ^ 32 \<Longrightarrow>
    iso_loop b d n out curs =
      Some (out @ map (cd_byte sec d) [unat curs..<unat curs + (unat n - length out)], curs + (n - of_nat (length out)))"
proof (induction "unat n - length out" arbitrary: out curs rule: less_induct)
  case less
  have "length out < 4294967296" using less.prems(1) unat_u32_less [of n] by linarith
  then have lo: "unat (of_nat (length out) :: u32) = length out" by (rule unat_of_nat_small)
  show ?case
  proof (cases "length out = unat n")
    case True
    then show ?thesis by (subst iso_loop.simps) simp
  next
    case False
    then have lt: "(of_nat (length out) :: u32) < n" using less.prems(1) lo by (simp add: word_less_nat_alt)
    define left where "left = n - of_nat (length out)"
    define chunk where "chunk = (if left < 2048 - curs mod 2048 then left else 2048 - curs mod 2048)"
    have left: "unat left = unat n - length out" unfolding left_def using lt lo by (simp add: unat_sub)
    have md: "unat (curs mod 2048) = unat curs mod 2048" "unat (curs div 2048) = unat curs div 2048" by (simp_all add: unat_mod unat_div)
    have "unat (2048 - curs mod 2048) = 2048 - unat curs mod 2048"
      using md(1) by (subst unat_sub) (simp_all add: word_le_nat_alt)
    then have ch: "unat chunk = min (unat n - length out) (2048 - unat curs mod 2048)"
      using left by (auto simp: chunk_def word_less_nat_alt)
    have pos: "0 < unat chunk" using ch False less.prems(1) by simp
    let ?out = "out @ take (unat chunk) (drop (unat (curs mod 2048)) (sec (starting_lba d + curs div 2048)))"
    have sd: "starting_lba d + curs div 2048 = starting_lba d + of_nat (unat curs div 2048)" unfolding md(2) [symmetric] by simp
    have slice: "?out = out @ map (cd_byte sec d) [unat curs..<unat curs + unat chunk]"
      unfolding sd md(1) using sector_slice [of sec d "unat curs" "unat chunk"] assms ch by (simp add: cd_ok_def)
    have len: "length ?out = length out + unat chunk" unfolding slice by simp
    have le: "length out + unat chunk \<le> unat n" using ch less.prems(1) by simp
    have uc: "unat (curs + chunk) = unat curs + unat chunk"
      using less.prems le by (intro unat_plus_no_wrap) simp
    have "iso_loop b d n out curs = iso_loop b d n ?out (curs + chunk)"
      using assms lt by (subst iso_loop.simps) (simp add: cd_ok_def Let_def chunk_def left_def)
    also have "\<dots> = Some (?out @ map (cd_byte sec d) [unat (curs + chunk)..<unat (curs + chunk) + (unat n - length ?out)],
        curs + chunk + (n - of_nat (length ?out)))"
    proof (rule less.hyps)
      show "unat n - length ?out < unat n - length out" "length ?out \<le> unat n" unfolding len using pos le False less.prems(1) by simp_all
      show "unat (curs + chunk) + (unat n - length ?out) < 2 ^ 32" unfolding len uc using less.prems(2) le by simp
    qed
    also have "curs + chunk + (n - of_nat (length ?out)) = curs + (n - of_nat (length out))" unfolding len by simp
    also have "?out @ map (cd_byte sec d) [unat (curs + chunk)..<unat (curs + chunk) + (unat n - length ?out)] =
        out @ map (cd_byte sec d) [unat curs..<unat curs + (unat n - length out)]"
      unfolding len uc unfolding slice using le upt_add_eq_append [of "unat curs" "unat curs + unat chunk" "unat n - length out - unat chunk"] by simp
    finally show ?thesis .
  qed
qed

lemma ReadFile_ISO9660_bytes:
  assumes "cd_files s (internal f) = Some d" and "cd_ok b (drive_index (volume d)) sec" and "\<not> ended f"
    and "unat (cursor f) + unat n \<le> unat (iso_size d)" and "unat n < 2 ^ 31"
  shows "ReadFile_ISO9660 b f n s = Some (int (unat n), map (cd_byte sec d) [unat (cursor f)..<unat (cursor f) + unat n],
    f\<lparr>cursor := cursor f + n, ended := cursor f + n = iso_size d\<rparr>)"
proof -
  have sz: "unat (iso_size d) < 4294967296" by (rule unat_u32_less)
  have "unat (iso_size d - cursor f) = unat (iso_size d) - unat (cursor f)" using assms(4) by (simp add: unat_sub word_le_nat_alt)
  then have av: "\<not> n > iso_size d - cursor f" using assms(4) by (simp add: word_less_nat_alt)
  have lp: "iso_loop b d n [] (cursor f) = Some (map (cd_byte sec d) [unat (cursor f)..<unat (cursor f) + unat n], cursor f + n)"
    using iso_loop_bytes [OF assms(2), of "[]" n "cursor f"] assms(4) sz by simp
  have uc: "unat (cursor f + n) = unat (cursor f) + unat n" using assms(4) sz by (intro unat_plus_no_wrap) linarith
  then have en: "cursor f + n \<ge> iso_size d \<longleftrightarrow> cursor f + n = iso_size d" using assms(4) by (simp add: word_le_nat_alt word_unat_eq_iff) linarith
  have u: "uint n = int (unat n)" by simp
  have st: "signed_take_bit 31 (int k) = int k" if "k < 2 ^ 31" for k using that by (intro signed_take_bit_int_eq_self) simp_all
  have "signed_take_bit 31 (int (unat n)) = int (unat n)" by (rule st [OF assms(5)])
  then have "sint n = int (unat n)" unfolding sint_uint u by simp
  then show ?thesis unfolding ReadFile_ISO9660_def using assms(1,3) av lp en by (simp add: Let_def)
qed

lemma ReadFile_ISO9660_ended: "ended f \<Longrightarrow> ReadFile_ISO9660 b f n s = Some (0, [], f)"
  by (simp add: ReadFile_ISO9660_def)

section \<open>The choice of the file system\<close>

abbreviation PART_ISO9660_VOL2 :: u8 where "PART_ISO9660_VOL2 \<equiv> 0xDB"

text \<open>The last entry looked at when there is none of that name is not used any more.\<close>

fun find_partition :: "partitions \<Rightarrow> string \<Rightarrow> (nat \<times> nat) list \<Rightarrow> Partition option option" where
  "find_partition ps name [] = Some None"
| "find_partition ps name ((i, j) # ijs) = do {
     p \<leftarrow> GetPartitionEntryFromDisk ps i j;
     if n_sectors p \<noteq> 0 \<and> part_type p \<noteq> PART_EMPTY then do {
       r \<leftarrow> strcmp (part_identifier p) name;
       if r = 0 then Some (Some p) else find_partition ps name ijs
     } else find_partition ps name ijs
   }"

definition no_file :: File where
  "no_file = \<lparr>internal = 0, cursor = 0, filesize = 0, loaded = False, ended = False, file_type = PART_EMPTY\<rparr>"

definition OpenFile :: "bios \<Rightarrow> partitions \<Rightarrow> string \<Rightarrow> string \<Rightarrow> 'a cd_state_scheme \<Rightarrow> (File \<times> 'a cd_state_scheme) option" where
  "OpenFile b ps name path s = do {
     found \<leftarrow> find_partition ps name (List.product [0..<MAX_SYSTEM_DRIVES] [0..<MAX_MBR_ENTRIES]);
     case found of
       None \<Rightarrow> Some (no_file, s)
     | Some p \<Rightarrow>
         if part_type p = PART_FAT32_CHS \<or> part_type p = PART_FAT32_LBA then do {
           (st, f, s1) \<leftarrow> OpenFile_FAT32 b p path (no_file\<lparr>file_type := PART_FAT32_LBA\<rparr>) s;
           Some (if st \<noteq> STATUS_OK then f\<lparr>loaded := False\<rparr> else f, s1)
         } else if part_type p = PART_ISO9660_VOL \<or> part_type p = PART_ISO9660_VOL2 then do {
           (st, f, s1) \<leftarrow> OpenFile_ISO9660 b p path (no_file\<lparr>file_type := PART_ISO9660_VOL\<rparr>) s;
           Some (if st \<noteq> STATUS_OK then f\<lparr>loaded := False\<rparr> else f, s1)
         } else None
   }"

text \<open>The boot manager stops when fewer bytes could be read than asked for.\<close>

definition ReadFromFile :: "bios \<Rightarrow> File \<Rightarrow> u32 \<Rightarrow> 'a cd_state_scheme \<Rightarrow> (u32 \<times> u8 list \<times> File) option" where
  "ReadFromFile b f n_bytes s =
     (if file_type f = PART_FAT32_CHS \<or> file_type f = PART_FAT32_LBA then do {
        (r, out, f') \<leftarrow> ReadFile_FAT32 b f n_bytes s;
        if word_of_int r \<noteq> n_bytes then None else Some (n_bytes, out, f')
      } else if file_type f = PART_ISO9660_VOL \<or> file_type f = PART_ISO9660_VOL2 then do {
        (r, out, f') \<leftarrow> ReadFile_ISO9660 b f n_bytes s;
        if word_of_int r \<noteq> n_bytes then None else Some (n_bytes, out, f')
      } else Some (0, [], f))"

definition CloseFile :: "File \<Rightarrow> File" where
  "CloseFile f = f\<lparr>cursor := 0, ended := True, internal := 0, loaded := False\<rparr>"

end
