(* ===== verification/ElfLoader.thy ===== *)
theory ElfLoader
  imports Iso9660
begin

text \<open>
  Loading the kernel, \<^verbatim>\<open>src/bootmanager/core/elfldr/elfloader.c\<close>: the segments of an ELF file are copied to their physical
  addresses. Physical memory is a function from addresses to bytes; it is the memory that the kernel is loaded to, apart from the
  memory of the boot manager, whose structures have maps of their own.
\<close>

section \<open>Data\<close>

record ELFHeader =
  elf_magic :: "u8 list"
  elf_bits :: u8
  elf_endianness :: u8
  elf_abi :: u8
  elf_isa :: u16
  elf_entry :: u32
  pht_off :: u32
  pht_entry_size :: u16
  pht_n_entries :: u16

definition elf_header :: "u8 list \<Rightarrow> ELFHeader" where
  "elf_header bs = \<lparr>elf_magic = take 4 bs, elf_bits = bs ! 4, elf_endianness = bs ! 5, elf_abi = bs ! 7, elf_isa = u16_at 18 bs,
     elf_entry = u32_at 24 bs, pht_off = u32_at 28 bs, pht_entry_size = u16_at 42 bs, pht_n_entries = u16_at 44 bs\<rparr>"

abbreviation SIZEOF_ELFHEADER :: u32 where "SIZEOF_ELFHEADER \<equiv> 52"
abbreviation SIZEOF_ELFPROGRAMSEGMENT :: u32 where "SIZEOF_ELFPROGRAMSEGMENT \<equiv> 32"
abbreviation SEGMENT_LOAD :: u32 where "SEGMENT_LOAD \<equiv> 1"
abbreviation ELF_SEGMENT_EXECUTABLE :: nat where "ELF_SEGMENT_EXECUTABLE \<equiv> 1"

record ELFProgramSegment =
  seg_type :: u32
  seg_offset :: u32
  seg_vaddr :: u32
  seg_paddr :: u32
  seg_size :: u32
  seg_size_mem :: u32
  seg_flags :: u32

definition program_segment :: "u8 list \<Rightarrow> ELFProgramSegment" where
  "program_segment bs = \<lparr>seg_type = u32_at 0 bs, seg_offset = u32_at 4 bs, seg_vaddr = u32_at 8 bs, seg_paddr = u32_at 12 bs,
     seg_size = u32_at 16 bs, seg_size_mem = u32_at 20 bs, seg_flags = u32_at 24 bs\<rparr>"

definition IsValidELFFile :: "ELFHeader \<Rightarrow> bool" where
  "IsValidELFFile h \<longleftrightarrow> elf_magic h = [0x7F, 0x45, 0x4C, 0x46] \<and> elf_abi h = 0 \<and> elf_isa h = 3 \<and> elf_endianness h = 1 \<and> elf_bits h = 1"

section \<open>Loading\<close>

type_synonym memory = "u32 \<Rightarrow> u8"

definition store_bytes :: "u32 \<Rightarrow> u8 list \<Rightarrow> memory \<Rightarrow> memory" where
  "store_bytes addr bs mem = (\<lambda>a. if unat (a - addr) < length bs then bs ! unat (a - addr) else mem a)"

definition zero_bytes :: "u32 \<Rightarrow> u32 \<Rightarrow> memory \<Rightarrow> memory" where
  "zero_bytes addr n mem = (\<lambda>a. if a - addr < n then 0 else mem a)"

record loading =
  segments_loaded :: nat
  virt_offset :: u32
  highest_addr_used :: u32
  ram :: memory

text \<open>The loop over the program headers: \<open>Inl\<close> when a segment could not be read.\<close>

fun load_segments :: "bios \<Rightarrow> ELFHeader \<Rightarrow> nat \<Rightarrow> nat \<Rightarrow> File \<Rightarrow> loading \<Rightarrow> 'a cd_state_scheme \<Rightarrow>
    ((loading \<times> File) + (loading \<times> File)) option" where
  "load_segments b h i 0 f l s = Some (Inr (l, f))"
| "load_segments b h i (Suc n) f l s = do {
     (r, bytes, f1) \<leftarrow> ReadFromFile b (f\<lparr>cursor := pht_off h + of_nat i * ucast (pht_entry_size h)\<rparr>) SIZEOF_ELFPROGRAMSEGMENT s;
     if length bytes \<noteq> 32 then None
     else do {
       let seg = program_segment bytes;
       if seg_type seg \<noteq> SEGMENT_LOAD then load_segments b h (Suc i) n f1 l s
       else do {
         (r, bytes, f2) \<leftarrow> ReadFromFile b (f1\<lparr>cursor := seg_offset seg\<rparr>) (seg_size seg) s;
         let l1 = l\<lparr>segments_loaded := segments_loaded l + 1,
           ram := store_bytes (seg_paddr seg) bytes (zero_bytes (seg_paddr seg) (seg_size_mem seg) (ram l))\<rparr>;
         if r \<noteq> seg_size seg then Some (Inl (l1, f2))
         else do {
           let l2 = (if IS_SET (seg_flags seg) ELF_SEGMENT_EXECUTABLE then l1\<lparr>virt_offset := seg_vaddr seg - seg_paddr seg\<rparr> else l1);
           let seg_end = seg_paddr seg + seg_size_mem seg;
           let l3 = (if seg_end > highest_addr_used l2 then l2\<lparr>highest_addr_used := seg_end\<rparr> else l2);
           load_segments b h (Suc i) n f2 l3 s
         }
       }
     }
   }"

text \<open>
  A file that is no ELF file, and one without a segment to load, stop the boot manager. The entry point is \<open>None\<close> where it is not set.
\<close>

definition ReadELFToMemory :: "bios \<Rightarrow> File \<Rightarrow> memory \<Rightarrow> high_memory \<Rightarrow> 'a cd_state_scheme \<Rightarrow>
    (Status \<times> u32 option \<times> File \<times> memory \<times> high_memory) option" where
  "ReadELFToMemory b f mem hm s = do {
     (r, bytes, f1) \<leftarrow> ReadFromFile b (f\<lparr>cursor := 0, ended := False\<rparr>) SIZEOF_ELFHEADER s;
     if length bytes \<noteq> 52 then None
     else do {
       let h = elf_header bytes;
       if \<not> IsValidELFFile h then None
       else do {
         x \<leftarrow> load_segments b h 0 (unat (pht_n_entries h)) f1
           \<lparr>segments_loaded = 0, virt_offset = 0, highest_addr_used = 0, ram = mem\<rparr> s;
         case x of
           Inl (l, f2) \<Rightarrow> Some (STATUS_BAD, None, f2, ram l, hm)
         | Inr (l, f2) \<Rightarrow>
             if segments_loaded l = 0 then None
             else Some (STATUS_OK, Some (elf_entry h - virt_offset l), f2, ram l, AllocHighBreakAt (pagealign (highest_addr_used l)) 0 hm)
       }
     }
   }"

section \<open>What is in memory afterwards\<close>

text \<open>
  A file with the given content: reading inside of it gives the bytes at the cursor and moves only the cursor. The files of a
  FAT32 volume are such files (\<open>fat32_file_reads\<close>). A file of a CD is one only until its last byte is read, which sets
  \<open>ended\<close> (\<open>ReadFile_ISO9660_bytes\<close>, \<open>ReadFile_ISO9660_ended\<close>).
\<close>

definition file_reads :: "bios \<Rightarrow> File \<Rightarrow> u8 list \<Rightarrow> 'a cd_state_scheme \<Rightarrow> bool" where
  "file_reads b f content s \<longleftrightarrow> length content < 2 ^ 32 \<and> (\<forall>c n. unat c + unat n \<le> length content \<longrightarrow>
     ReadFromFile b (f\<lparr>cursor := c\<rparr>) n s = Some (n, take (unat n) (drop (unat c) content), f\<lparr>cursor := c + n\<rparr>))"

definition segment_at :: "u8 list \<Rightarrow> ELFHeader \<Rightarrow> nat \<Rightarrow> ELFProgramSegment" where
  "segment_at content h i = program_segment (take 32 (drop (unat (pht_off h) + i * unat (pht_entry_size h)) content))"

definition load_segment :: "u8 list \<Rightarrow> ELFProgramSegment \<Rightarrow> loading \<Rightarrow> loading" where
  "load_segment content seg l = l\<lparr>segments_loaded := segments_loaded l + 1,
     ram := store_bytes (seg_paddr seg) (take (unat (seg_size seg)) (drop (unat (seg_offset seg)) content))
       (zero_bytes (seg_paddr seg) (seg_size_mem seg) (ram l)),
     virt_offset := (if IS_SET (seg_flags seg) ELF_SEGMENT_EXECUTABLE then seg_vaddr seg - seg_paddr seg else virt_offset l),
     highest_addr_used := (if seg_paddr seg + seg_size_mem seg > highest_addr_used l then seg_paddr seg + seg_size_mem seg else highest_addr_used l)\<rparr>"

definition loadable :: "u8 list \<Rightarrow> ELFHeader \<Rightarrow> ELFProgramSegment list" where
  "loadable content h = filter (\<lambda>seg. seg_type seg = SEGMENT_LOAD) (map (segment_at content h) [0..<unat (pht_n_entries h)])"

definition segment_in :: "u8 list \<Rightarrow> ELFProgramSegment \<Rightarrow> bool" where
  "segment_in content seg \<longleftrightarrow> unat (seg_offset seg) + unat (seg_size seg) \<le> length content \<and> seg_size seg \<le> seg_size_mem seg \<and>
     unat (seg_paddr seg) + unat (seg_size_mem seg) \<le> 0xFFFFF000"

lemma header_cursor:
  assumes "unat (pht_off h) + i * unat (pht_entry_size h) < 2 ^ 32"
  shows "unat (pht_off h + of_nat i * ucast (pht_entry_size h)) = unat (pht_off h) + i * unat (pht_entry_size h)"
proof (cases "unat (pht_entry_size h) = 0")
  case True
  then show ?thesis by (simp add: unat_eq_0)
next
  case False
  have "unat (pht_entry_size h) < 2 ^ 16" using unsigned_less [of "pht_entry_size h", where 'a = nat] by simp
  then have "unat (pht_entry_size h) < 2 ^ 32" by (rule order.strict_trans) simp
  then have e: "unat (ucast (pht_entry_size h) :: u32) = unat (pht_entry_size h)" by (simp add: unsigned_ucast_eq take_bit_nat_eq_self)
  have "i \<le> i * unat (pht_entry_size h)" using False by simp
  also have "\<dots> < 4294967296" using assms by simp
  finally have "i < 4294967296" .
  then have i: "unat (of_nat i :: u32) = i" by (rule unat_of_nat_small)
  have m: "unat (of_nat i * ucast (pht_entry_size h) :: u32) = i * unat (pht_entry_size h)"
    using unat_mult_no_wrap [of "of_nat i" "ucast (pht_entry_size h)"] i e assms by simp
  show ?thesis using unat_plus_no_wrap [of "pht_off h" "of_nat i * ucast (pht_entry_size h)"] m assms by simp
qed

lemma load_segments_fold:
  assumes "file_reads b f content s"
  shows "\<forall>j < n. unat (pht_off h) + (i + j) * unat (pht_entry_size h) + 32 \<le> length content \<Longrightarrow>
    \<forall>seg \<in> set (map (segment_at content h) [i..<i + n]). seg_type seg = SEGMENT_LOAD \<longrightarrow> segment_in content seg \<Longrightarrow>
    \<exists>c'. load_segments b h i n (f\<lparr>cursor := c\<rparr>) l s =
      Some (Inr (fold (load_segment content) (filter (\<lambda>seg. seg_type seg = SEGMENT_LOAD) (map (segment_at content h) [i..<i + n])) l, f\<lparr>cursor := c'\<rparr>))"
proof (induction n arbitrary: i c l)
  case 0
  then show ?case by auto
next
  case (Suc n)
  let ?seg = "segment_at content h i"
  let ?cur = "pht_off h + of_nat i * ucast (pht_entry_size h)"
  have lc: "length content < 2 ^ 32" using assms by (simp add: file_reads_def)
  have i0: "unat (pht_off h) + i * unat (pht_entry_size h) + 32 \<le> length content" using Suc.prems(1) by force
  have uc: "unat ?cur = unat (pht_off h) + i * unat (pht_entry_size h)" by (rule header_cursor) (use i0 lc in simp)
  have rd1: "ReadFromFile b (f\<lparr>cursor := ?cur\<rparr>) 32 s =
      Some (32, take 32 (drop (unat (pht_off h) + i * unat (pht_entry_size h)) content), f\<lparr>cursor := ?cur + 32\<rparr>)"
    using assms i0 uc by (simp add: file_reads_def)
  have up: "[i..<i + Suc n] = i # [Suc i..<Suc i + n]" by (simp add: upt_conv_Cons)
  have IH: "\<exists>c'. load_segments b h (Suc i) n (f\<lparr>cursor := x\<rparr>) l' s =
      Some (Inr (fold (load_segment content) (filter (\<lambda>seg. seg_type seg = SEGMENT_LOAD) (map (segment_at content h) [Suc i..<Suc i + n])) l', f\<lparr>cursor := c'\<rparr>))"
    for x l'
  proof (rule Suc.IH)
    show "\<forall>j < n. unat (pht_off h) + (Suc i + j) * unat (pht_entry_size h) + 32 \<le> length content"
      using Suc.prems(1) by (metis Suc_less_eq add_Suc_shift)
    show "\<forall>seg \<in> set (map (segment_at content h) [Suc i..<Suc i + n]). seg_type seg = SEGMENT_LOAD \<longrightarrow> segment_in content seg"
      using Suc.prems(2) unfolding up by simp
  qed
  have len: "length (take 32 (drop (unat (pht_off h) + i * unat (pht_entry_size h)) content)) = 32" using i0 by simp
  show ?case
  proof (cases "seg_type ?seg = SEGMENT_LOAD")
    case False
    have "load_segments b h i (Suc n) (f\<lparr>cursor := c\<rparr>) l s = load_segments b h (Suc i) n (f\<lparr>cursor := ?cur + 32\<rparr>) l s"
      using rd1 len False by (simp add: Let_def segment_at_def [symmetric])
    then show ?thesis using IH False unfolding up by simp
  next
    case True
    have "segment_in content ?seg" using Suc.prems(2) True unfolding up by simp
    then have rd2: "ReadFromFile b (f\<lparr>cursor := seg_offset ?seg\<rparr>) (seg_size ?seg) s =
        Some (seg_size ?seg, take (unat (seg_size ?seg)) (drop (unat (seg_offset ?seg)) content), f\<lparr>cursor := seg_offset ?seg + seg_size ?seg\<rparr>)"
      using assms by (simp add: file_reads_def segment_in_def)
    have "load_segments b h i (Suc n) (f\<lparr>cursor := c\<rparr>) l s =
        load_segments b h (Suc i) n (f\<lparr>cursor := seg_offset ?seg + seg_size ?seg\<rparr>) (load_segment content ?seg l) s"
      using rd1 len True rd2
      by (cases "IS_SET (seg_flags ?seg) ELF_SEGMENT_EXECUTABLE"; cases "highest_addr_used l < seg_paddr ?seg + seg_size_mem ?seg")
        (simp_all add: Let_def segment_at_def [symmetric] load_segment_def)
    then show ?thesis using IH True unfolding up by simp
  qed
qed

definition in_segment :: "u32 \<Rightarrow> ELFProgramSegment \<Rightarrow> bool" where
  "in_segment a seg \<longleftrightarrow> a - seg_paddr seg < seg_size_mem seg"

definition segment_byte :: "u8 list \<Rightarrow> u32 \<Rightarrow> ELFProgramSegment \<Rightarrow> u8" where
  "segment_byte content a seg =
     (let i = unat (a - seg_paddr seg) in if i < unat (seg_size seg) then content ! (unat (seg_offset seg) + i) else 0)"

definition apart :: "ELFProgramSegment list \<Rightarrow> bool" where
  "apart segs \<longleftrightarrow> sorted_wrt (\<lambda>x y. \<forall>a. \<not> (in_segment a x \<and> in_segment a y)) segs"

lemma load_segment_ram:
  assumes "segment_in content seg"
  shows "ram (load_segment content seg l) a = (if in_segment a seg then segment_byte content a seg else ram l a)"
proof -
  have "length (take (unat (seg_size seg)) (drop (unat (seg_offset seg)) content)) = unat (seg_size seg)"
    and "unat (seg_size seg) \<le> unat (seg_size_mem seg)"
    using assms by (auto simp: segment_in_def word_le_nat_alt min_def)
  then show ?thesis
    by (auto simp: load_segment_def store_bytes_def zero_bytes_def in_segment_def segment_byte_def word_less_nat_alt Let_def)
qed

lemma fold_ram:
  "apart segs \<Longrightarrow> \<forall>seg \<in> set segs. segment_in content seg \<Longrightarrow>
   ram (fold (load_segment content) segs l) a =
     (case find (in_segment a) segs of Some seg \<Rightarrow> segment_byte content a seg | None \<Rightarrow> ram l a)"
proof (induction segs arbitrary: l)
  case Nil
  then show ?case by simp
next
  case (Cons x segs)
  have IH: "ram (fold (load_segment content) segs (load_segment content x l)) a =
      (case find (in_segment a) segs of Some seg \<Rightarrow> segment_byte content a seg | None \<Rightarrow> ram (load_segment content x l) a)"
    using Cons by (simp add: apart_def)
  have none: "in_segment a x \<Longrightarrow> find (in_segment a) segs = None" using Cons.prems(1) by (auto simp: apart_def find_None_iff)
  show ?case using IH none load_segment_ram [of content x l a] Cons.prems(2)
    by (cases "in_segment a x") (simp_all split: option.split)
qed

lemma fold_counts:
  "segments_loaded (fold (load_segment content) segs l) = segments_loaded l + length segs"
  "virt_offset (fold (load_segment content) segs l) =
     (case find (\<lambda>seg. IS_SET (seg_flags seg) ELF_SEGMENT_EXECUTABLE) (rev segs) of
        Some seg \<Rightarrow> seg_vaddr seg - seg_paddr seg | None \<Rightarrow> virt_offset l)"
proof (induction segs arbitrary: l)
  case Nil
  case 1 show ?case by simp
  case 2 show ?case by simp
next
  case (Cons x segs)
  case 1 show ?case using Cons(1) by (simp add: load_segment_def)
  have ap: "find P (us @ vs) = (case find P us of Some z \<Rightarrow> Some z | None \<Rightarrow> find P vs)" for P :: "ELFProgramSegment \<Rightarrow> bool" and us vs
    by (induction us) simp_all
  case 2 show ?case using Cons(2) [of "load_segment content x l"] by (auto simp: ap load_segment_def split: option.splits)
qed

lemma fold_highest:
  "highest_addr_used l \<le> highest_addr_used (fold (load_segment content) segs l) \<and>
   (\<forall>seg \<in> set segs. seg_paddr seg + seg_size_mem seg \<le> highest_addr_used (fold (load_segment content) segs l)) \<and>
   (\<exists>seg \<in> set segs. highest_addr_used (fold (load_segment content) segs l) = seg_paddr seg + seg_size_mem seg) \<or>
   highest_addr_used (fold (load_segment content) segs l) = highest_addr_used l \<and>
   (\<forall>seg \<in> set segs. seg_paddr seg + seg_size_mem seg \<le> highest_addr_used l)"
proof (induction segs arbitrary: l)
  case Nil
  then show ?case by simp
next
  case (Cons x segs)
  have "highest_addr_used (load_segment content x l) = max (highest_addr_used l) (seg_paddr x + seg_size_mem x)"
    by (auto simp: load_segment_def max_def)
  with Cons.IH [of "load_segment content x l"] show ?case
    by (auto simp: max_def split: if_splits intro: order_trans)
qed

text \<open>
  C23. Loading the kernel. For a valid ELF file whose segments to load are inside the file, do not overlap in memory and end below the
  last page of the address space, the loader comes back with success; each of these segments then has the bytes of the file
  followed by zeros at its physical address, and every other byte of memory is as it was. The pages handed out later begin above
  all segments. The entry point is moved by the distance between the virtual and the physical address of the last
  segment whose \<^emph>\<open>writable\<close> flag is set.
\<close>

theorem elf_load_correct:
  assumes "file_reads b (f\<lparr>ended := False\<rparr>) content s" and "52 \<le> length content" and "h = elf_header (take 52 content)"
    and "IsValidELFFile h" and "\<forall>j < unat (pht_n_entries h). unat (pht_off h) + j * unat (pht_entry_size h) + 32 \<le> length content"
    and "loadable content h \<noteq> []" and "\<forall>seg \<in> set (loadable content h). segment_in content seg" and "apart (loadable content h)"
  shows "\<exists>f' mem' hm'. ReadELFToMemory b f mem hm s =
      Some (STATUS_OK, Some (elf_entry h - (case find (\<lambda>seg. bit (seg_flags seg) 1) (rev (loadable content h)) of
        Some seg \<Rightarrow> seg_vaddr seg - seg_paddr seg | None \<Rightarrow> 0)), f', mem', hm') \<and>
    (\<forall>a. mem' a = (case find (in_segment a) (loadable content h) of Some seg \<Rightarrow> segment_byte content a seg | None \<Rightarrow> mem a)) \<and>
    (\<forall>seg \<in> set (loadable content h). unat (seg_paddr seg) + unat (seg_size_mem seg) \<le> unat (himem_start hm'))"
proof -
  let ?f = "f\<lparr>ended := False\<rparr>" let ?segs = "loadable content h"
  define l0 where "l0 = \<lparr>segments_loaded = 0, virt_offset = 0, highest_addr_used = 0, ram = mem\<rparr>"
  define l where "l = fold (load_segment content) ?segs l0"
  have rd: "ReadFromFile b (f\<lparr>cursor := 0, ended := False\<rparr>) 52 s = Some (52, take 52 content, ?f\<lparr>cursor := 52\<rparr>)"
  proof -
    have "ReadFromFile b (?f\<lparr>cursor := 0\<rparr>) 52 s = Some (52, take (unat (52 :: u32)) (drop (unat (0 :: u32)) content), ?f\<lparr>cursor := 0 + 52\<rparr>)"
      using assms(1,2) unfolding file_reads_def by (elim conjE allE [of _ 0] allE [of _ 52]) simp
    moreover have "f\<lparr>cursor := 0, ended := False\<rparr> = ?f\<lparr>cursor := 0\<rparr>" by simp
    ultimately show ?thesis by (simp only: unat_0 drop_0 add_0) simp
  qed
  have "\<forall>seg \<in> set (map (segment_at content h) [0..<0 + unat (pht_n_entries h)]). seg_type seg = SEGMENT_LOAD \<longrightarrow> segment_in content seg"
    using assms(7) by (auto simp: loadable_def)
  then obtain c' where ls: "load_segments b h 0 (unat (pht_n_entries h)) (?f\<lparr>cursor := 52\<rparr>) l0 s = Some (Inr (l, ?f\<lparr>cursor := c'\<rparr>))"
    using load_segments_fold [OF assms(1), of "unat (pht_n_entries h)" h 0 52 l0] assms(5) by (auto simp: l_def loadable_def)
  let ?hm = "AllocHighBreakAt (pagealign (highest_addr_used l)) 0 hm"
  have n: "segments_loaded l \<noteq> 0" using assms(6) by (simp add: l_def fold_counts(1) l0_def)
  have vo: "virt_offset l = (case find (\<lambda>seg. bit (seg_flags seg) 1) (rev ?segs) of Some seg \<Rightarrow> seg_vaddr seg - seg_paddr seg | None \<Rightarrow> 0)"
    unfolding l_def fold_counts(2) by (simp add: IS_SET_bit l0_def split: option.split)
  have "ReadELFToMemory b f mem hm s = Some (STATUS_OK, Some (elf_entry h - virt_offset l), ?f\<lparr>cursor := c'\<rparr>, ram l, ?hm)"
    unfolding ReadELFToMemory_def using rd assms(2,4) ls n by (simp add: Let_def assms(3) [symmetric] l0_def)
  moreover have "ram l a = (case find (in_segment a) ?segs of Some seg \<Rightarrow> segment_byte content a seg | None \<Rightarrow> mem a)" for a
    using fold_ram [OF assms(8,7), of l0 a] unfolding l_def by (simp add: l0_def split: option.split)
  moreover have "unat (seg_paddr seg) + unat (seg_size_mem seg) \<le> unat (himem_start ?hm)" if seg: "seg \<in> set ?segs" for seg
  proof -
    have e: "unat (x + y) = unat x + unat y" if "unat x + unat y \<le> 0xFFFFF000" for x y :: u32
      using that by (intro unat_plus_no_wrap) simp
    have ends: "unat (seg_paddr t + seg_size_mem t) = unat (seg_paddr t) + unat (seg_size_mem t)"
      "unat (seg_paddr t + seg_size_mem t) \<le> 0xFFFFF000" if "t \<in> set ?segs" for t
      using assms(7) that e [of "seg_paddr t" "seg_size_mem t"] by (auto simp: segment_in_def)
    have hi: "seg_paddr seg + seg_size_mem seg \<le> highest_addr_used l" "unat (highest_addr_used l) \<le> 0xFFFFF000"
      using fold_highest [of l0 content ?segs] seg ends(2) unfolding l_def [symmetric] by (auto simp: l0_def)
    have "unat (highest_addr_used l) \<le> unat (pagealign (highest_addr_used l))"
      unfolding pagealign_nat [OF hi(2)]
      using div_mult_mod_eq [of "unat (highest_addr_used l) + 4095" 4096] mod_less_divisor [of 4096 "unat (highest_addr_used l) + 4095"]
      by linarith
    moreover have "pagealign (highest_addr_used l) \<le> himem_start ?hm" by (auto simp: AllocHighBreakAt_def Let_def)
    ultimately show ?thesis using hi(1) ends(1) [OF seg] by (simp add: word_le_nat_alt)
  qed
  ultimately show ?thesis using vo by auto
qed

section \<open>An example\<close>

lemma fat32_file_reads:
  assumes "fat_files s (internal f) = Some d" and "disk_ok b (drive_index (part d)) sec"
    and "bpb = parameter_block (sec (lba_start (part d)))" and "sectors_per_cluster bpb \<noteq> 0"
    and "file_chain (fat_next sec (part d) bpb) (first_cluster d) cs" and "cs \<noteq> []"
    and "content = concat (map (cluster_bytes sec (part d) bpb) cs)" and "length content < 2 ^ 31" and "file_type f = PART_FAT32_LBA"
  shows "file_reads b f content s"
proof -
  have "ReadFromFile b (f\<lparr>cursor := c\<rparr>) n s = Some (n, take (unat n) (drop (unat c) content), f\<lparr>cursor := c + n\<rparr>)"
    if r: "unat c + unat n \<le> length content" for c n
  proof -
    have lt: "unat (cursor (f\<lparr>cursor := c\<rparr>)) + unat n < 2 ^ 31" using r assms(8) by simp
    have fd: "fat_files s (internal (f\<lparr>cursor := c\<rparr>)) = Some d" using assms(1) by simp
    let ?out = "take (unat n) (drop (unat c) content)"
    have len: "length ?out = unat n" using r by simp
    have "ReadFile_FAT32 b (f\<lparr>cursor := c\<rparr>) n s = Some (int (length ?out), ?out, f\<lparr>cursor := c + of_nat (length ?out)\<rparr>)"
      using ReadFile_FAT32_chain [OF fd assms(2-6) lt] unfolding assms(7) by simp
    then show ?thesis unfolding len using assms(9) by (simp add: ReadFromFile_def)
  qed
  then show ?thesis using assms(8) by (simp add: file_reads_def)
qed

text \<open>A file with one segment of eight bytes at 1 MiB, four of them in the file, that may be executed and read.\<close>

definition ex_elf :: "u8 list" where
  "ex_elf = (replicate 512 0)[0 := 0x7F, 1 := 0x45, 2 := 0x4C, 3 := 0x46, 4 := 1, 5 := 1, 18 := 3, 26 := 0x10, 27 := 0xC0, 28 := 52,
     42 := 32, 44 := 1, 52 := 1, 56 := 128, 62 := 0x10, 63 := 0xC0, 66 := 0x10, 68 := 4, 72 := 8, 76 := 5, 128 := 0xAA]"

definition elf_sector :: "u32 \<Rightarrow> u8 list" where
  "elf_sector lba = (if lba = 3 then ex_elf else ex_sector lba)"

definition ex_cd :: cd_state where
  "ex_cd = fat_state.extend ex_fat \<lparr>cd_files = Map.empty\<rparr>"

lemma take_4: "4 \<le> length xs \<Longrightarrow> take 4 xs = [xs ! 0, xs ! 1, xs ! 2, xs ! 3]"
  by (rule nth_equalityI) (auto simp: less_Suc_eq numeral_eq_Suc)

lemma length_ex_elf: "length ex_elf = 512"
  by (simp add: ex_elf_def)

lemma ex_elf_header: "elf_header (take 52 ex_elf) = \<lparr>elf_magic = [0x7F, 0x45, 0x4C, 0x46], elf_bits = 1, elf_endianness = 1, elf_abi = 0,
    elf_isa = 3, elf_entry = 0xC0100000, pht_off = 52, pht_entry_size = 32, pht_n_entries = 1\<rparr>"
proof -
  have "take 4 (take 52 ex_elf) = [0x7F, 0x45, 0x4C, 0x46]" using take_4 [of "ex_elf"] length_ex_elf by (simp add: ex_elf_def)
  then show ?thesis unfolding elf_header_def by (simp add: ex_elf_def u16_at_def u32_at_def)
qed

lemma ex_elf_segment:
  "segment_at ex_elf (elf_header (take 52 ex_elf)) 0 = \<lparr>seg_type = 1, seg_offset = 128, seg_vaddr = 0xC0100000, seg_paddr = 0x100000,
     seg_size = 4, seg_size_mem = 8, seg_flags = 5\<rparr>"
  unfolding segment_at_def ex_elf_header by (simp add: program_segment_def ex_elf_def u16_at_def u32_at_def)

lemma ex_elf_reads: "file_reads (disk_bios elf_sector) (ex_file\<lparr>ended := False\<rparr>) ex_elf ex_cd"
proof -
  define d where "d = \<lparr>first_cluster = 3, attributes = 0x20, part = no_partition\<rparr>"
  define bpb where "bpb = parameter_block (ex_sector 0)"
  have p: "lba_start (part d) = 0" "part d = no_partition" "elf_sector 0 = ex_sector 0" "sectors_per_cluster bpb = 1"
    by (simp_all add: d_def no_partition_def elf_sector_def bpb_def ex_volume)
  have b: "bpb = parameter_block (elf_sector (lba_start (part d)))" unfolding p(1,3) by (rule bpb_def)
  have "FindFAT no_partition bpb = 1" by (simp add: FindFAT_def bpb_def ex_volume no_partition_def)
  then have nx: "fat_next elf_sector (part d) bpb 3 = 0x0FFFFFF8"
    using ex_clusters(3) [OF bpb_def] by (simp add: p fat_next_def elf_sector_def)
  have f: "fat_files ex_cd (internal (ex_file\<lparr>ended := False\<rparr>)) = Some d"
    by (simp add: ex_cd_def fat_state.extend_def ex_fat_def ex_file_def d_def)
  have "length (elf_sector lba) = 512" for lba by (simp add: elf_sector_def length_ex_elf ex_sector_def)
  then have dk: "disk_ok (disk_bios elf_sector) (drive_index (part d)) elf_sector" by (rule disk_ok_bios)
  have ch: "file_chain (fat_next elf_sector (part d) bpb) (first_cluster d) [3]" using nx by (simp add: d_def)
  have "ex_elf = concat (map (cluster_bytes elf_sector (part d) bpb) [3])"
    using ex_clusters(1) [OF bpb_def, of 3] by (simp add: cluster_bytes_def sectors_from_def p elf_sector_def)
  from fat32_file_reads [OF f dk b _ ch _ this] show ?thesis by (simp add: p(4) length_ex_elf ex_file_def)
qed

theorem elf_load_correct_witness:
  "\<exists>f' mem' hm'. ReadELFToMemory (disk_bios elf_sector) ex_file (\<lambda>_. 1) high_reset ex_cd = Some (STATUS_OK, Some 0xC0100000, f', mem', hm') \<and>
     mem' 0x100000 = 0xAA \<and> mem' 0x100004 = 0 \<and> mem' 0x100008 = 1"
proof -
  let ?h = "elf_header (take 52 ex_elf)"
  have n: "unat (pht_n_entries ?h) = 1" by (simp add: ex_elf_header)
  have l: "loadable ex_elf ?h = [segment_at ex_elf ?h 0]" by (simp add: loadable_def n ex_elf_segment)
  have v: "IsValidELFFile ?h" by (simp add: IsValidELFFile_def ex_elf_header)
  have t: "\<forall>j < unat (pht_n_entries ?h). unat (pht_off ?h) + j * unat (pht_entry_size ?h) + 32 \<le> length ex_elf"
    by (simp add: ex_elf_header length_ex_elf)
  have i: "\<forall>seg \<in> set (loadable ex_elf ?h). segment_in ex_elf seg" by (simp add: l ex_elf_segment segment_in_def length_ex_elf)
  have a: "apart (loadable ex_elf ?h)" by (simp add: l apart_def)
  have bytes: "ex_elf ! 128 = 0xAA" by (simp add: ex_elf_def)
  have ne: "loadable ex_elf ?h \<noteq> []" "52 \<le> length ex_elf" by (simp_all add: l length_ex_elf)
  have off: "(case find (\<lambda>seg. bit (seg_flags seg) 1) (rev (loadable ex_elf ?h)) of Some seg \<Rightarrow> seg_vaddr seg - seg_paddr seg | None \<Rightarrow> 0) = 0"
    unfolding l ex_elf_segment by simp
  have en: "elf_entry ?h - 0 = 0xC0100000" unfolding ex_elf_header by simp
  from elf_load_correct [OF ex_elf_reads ne(2) refl v t ne(1) i a, of "\<lambda>_. 1" high_reset, unfolded off en]
  obtain f' mem' hm' where r: "ReadELFToMemory (disk_bios elf_sector) ex_file (\<lambda>_. 1) high_reset ex_cd = Some (STATUS_OK, Some 0xC0100000, f', mem', hm')"
    "\<And>a. mem' a = (case find (in_segment a) (loadable ex_elf ?h) of Some seg \<Rightarrow> segment_byte ex_elf a seg | None \<Rightarrow> 1)"
    by blast
  have "mem' 0x100000 = 0xAA" "mem' 0x100004 = 0" "mem' 0x100008 = 1"
    unfolding r(2) l ex_elf_segment by (simp_all add: in_segment_def segment_byte_def bytes)
  with r(1) show ?thesis by blast
qed

end
