(* ===== verification/Spec2Isabelle.thy ===== *)
theory Spec2Isabelle
  imports PortQueue Irq UserCopy Arith64 ProcessTable DeviceTree Calls Startup BootInfo ElfLoader
begin

text \<open>
  A verification of the DragonWare kernel, a small message passing kernel for 32-bit x86, and of parts of the boot manager that
  loads it.

  \<^bold>\<open>The program.\<close> The boot loader passes a memory map, modules and a command line
  (\<^verbatim>\<open>src/sys/init/bootinfo.c\<close>). The kernel cuts the map around its own image and the modules
  (\<^verbatim>\<open>src/sys/mem/mm.c\<close>), keeps a bit per physical frame (\<^verbatim>\<open>src/sys/mem/frame.c\<close>), maps frames through two-level page
  tables that are visible to the kernel through a recursive entry (\<^verbatim>\<open>src/sys/ddk/ia32/vmm.c\<close>) and builds a slab heap on
  top (\<^verbatim>\<open>src/sys/lib/kmalloc.c\<close>). Threads (\<^verbatim>\<open>src/sys/task\<close>) are scheduled in a circle
  (\<^verbatim>\<open>src/sys/sched/schedule.c\<close>). A process (\<^verbatim>\<open>src/sys/task/process.c\<close>) has an address space, a table of handles
  and capabilities. Handles stand for objects: ports, sections of memory, threads and devices (\<^verbatim>\<open>src/sys/iomgr\<close>). Programs
  enter the kernel by an interrupt or by \<^verbatim>\<open>sysenter\<close> (\<^verbatim>\<open>src/sys/syscall\<close>), exchange messages through ports
  (\<^verbatim>\<open>src/sys/syscall/ipc.c\<close>), and drivers, which are programs, get interrupts as messages (\<^verbatim>\<open>src/sys/ddk/ia32/irq.c\<close>).

  \<^bold>\<open>The model.\<close> The state of the kernel is a chain of record extensions, one per component, in the order in which the
  components build on each other: \<open>region_state\<close>, \<open>frame_state\<close>, \<open>vm_state\<close>, \<open>heap_state\<close>, \<open>task_state\<close>,
  \<open>object_state\<close>, \<open>irq_state\<close>, \<open>process_state\<close> and \<open>device_state\<close>. An operation is a function on the first record
  that has the fields it uses and is polymorphic in the rest, so that the later components call it as the code does. Machine
  integers are words of their width. Physical memory is a function from frames and word indices to words, and every access to
  virtual memory walks the page tables that are in it. Structures that the kernel allocates are in typed maps from the
  addresses that the model of \<open>kmalloc\<close> returned; freeing one takes it out of its map, so that a later use of it has no
  result. The result \<open>None\<close> means that the kernel does not come back: a page fault in the kernel, a call of
  \<^verbatim>\<open>FatalError\<close>, undefined behaviour of C or a loop without end. Errors that the code reports are values of
  \<open>Status\<close>. The build modelled is the release build, in which \<^verbatim>\<open>kassert\<close> does nothing.

  \<^bold>\<open>Theories.\<close>
  \<^item> \<open>Prelude\<close>: machine types, status codes and macros of \<^verbatim>\<open>src/freestanding/common\<close>, bitmaps, and the locale
    \<open>slot_alloc\<close>, the contract of an allocator of numbered slots. It is interpreted on the frames (\<open>Frames\<close>), on the
    handles (\<open>Handles\<close>) and on the temporary mappings (\<open>ProcessTable\<close>).
  \<^item> \<open>Regions\<close>, \<open>Frames\<close>, \<open>BootInfo\<close>: \<^verbatim>\<open>mm.c\<close>, \<^verbatim>\<open>frame.c\<close>, \<^verbatim>\<open>bootinfo.c\<close>. The regions are
    exactly the usable memory outside the kernel and the modules, no frame handed out meets them, and frames held at the same time
    are different.
  \<^item> \<open>VMM\<close>, \<open>UserCopy\<close>: \<^verbatim>\<open>vmm.c\<close>, \<^verbatim>\<open>usercopy.c\<close>. Mapping and unmapping a page refine the update of a partial
    function from pages to entries (\<open>vmap\<close>) under the invariant \<open>vm_inv\<close>; copies to and from user memory are inverse.
  \<^item> \<open>Heap\<close>, \<open>HeapContract\<close>: \<^verbatim>\<open>kmalloc.c\<close>. The locale \<open>object_heap\<close> states what a heap promises and is
    interpreted on \<open>kmalloc\<close> and \<open>kfree\<close>: blocks held at the same time do not overlap.
  \<^item> \<open>Tasks\<close>, \<open>Scheduling\<close>, \<open>ContextSwitch\<close>: \<^verbatim>\<open>task.c\<close>, \<^verbatim>\<open>schedule.c\<close>, \<^verbatim>\<open>ctxswitch.asm\<close> and the port
    bitmap of \<^verbatim>\<open>gdt.c\<close>. The linked list refines a list of threads, the round robin is fair, and a switch away and back
    restores the registers.
  \<^item> \<open>Objects\<close>, \<open>Handles\<close>, \<open>Ipc\<close>, \<open>PortQueue\<close>: sections, ports, objects, handle tables and messages. The locale
    \<open>bounded_queue\<close> is interpreted on the ring of a port; sending and receiving keep the invariant \<open>objects_ok\<close> whatever
    a process passes.
  \<^item> \<open>Interrupts\<close>, \<open>Irq\<close>: \<^verbatim>\<open>pic.c\<close>, \<^verbatim>\<open>irq.c\<close>, \<^verbatim>\<open>idt.c\<close>, \<^verbatim>\<open>gdt.c\<close> and critical sections: the
    descriptor tables, the nesting of critical sections and the relay of interrupts to drivers.
  \<^item> \<open>Processes\<close>, \<open>ProcessTable\<close>: \<^verbatim>\<open>process.c\<close>. The list of processes, the window of temporary mappings and the
    kernel's part of a new address space.
  \<^item> \<open>Devices\<close>, \<open>DeviceTree\<close>: \<^verbatim>\<open>devmgr.c\<close>, \<^verbatim>\<open>node.c\<close>, \<^verbatim>\<open>output.c\<close>. The lookup of a path follows the
    relation \<open>resolves\<close>.
  \<^item> \<open>Syscalls\<close>, \<open>Calls\<close>, \<open>Startup\<close>: \<^verbatim>\<open>src/sys/syscall\<close>, \<^verbatim>\<open>exception.c\<close>, \<^verbatim>\<open>sysenter.asm\<close>,
    \<^verbatim>\<open>task.asm\<close>. What system calls do to registers, ports and handles, that both ways into the kernel agree, and how a
    thread first enters user mode.
  \<^item> \<open>KString\<close>, \<open>Arith64\<close>: \<^verbatim>\<open>src/freestanding/string\<close> and \<^verbatim>\<open>src/freestanding/compat/arith64.c\<close>. Formatted output
    stays in its buffer; the division routines divide.
  \<^item> \<open>BootHeap\<close>, \<open>BootDisk\<close>, \<open>Fat32\<close>, \<open>Iso9660\<close>, \<open>ElfLoader\<close>: of the boot manager (\<^verbatim>\<open>src/bootmanager/core\<close>), a program of its own
    with its own state, the memory (\<^verbatim>\<open>frame.c\<close>, \<^verbatim>\<open>kmalloc.c\<close>, \<^verbatim>\<open>highmem.c\<close>), the disks (\<^verbatim>\<open>diskread.c\<close>,
    \<^verbatim>\<open>mbr.c\<close>, \<^verbatim>\<open>partition.c\<close>), the files on FAT32 volumes (\<^verbatim>\<open>fat32.c\<close>) and CDs (\<^verbatim>\<open>iso9660.c\<close>, \<^verbatim>\<open>fs.c\<close>) and the loading of
    the kernel (\<^verbatim>\<open>elfloader.c\<close>). The nested loops over clusters and sectors read
    the bytes of the chain of clusters and find the first entry of a directory; the pages handed out for modules are in one region;
    after the kernel is loaded, its segments, and nothing else, have changed in memory.

  \<^bold>\<open>Loops.\<close> There is no fuel. A loop over data of known length is structural or has a termination proof; a loop over a
  linked list or user memory is a \<open>partial_function\<close> in the option type, whose value on a cyclic list is \<open>None\<close>, and the
  theorems about it prove that it has a result under the invariant of the structure. Where a loop of the code does not end, this
  is a theorem (\<open>InitFrameManager_hangs\<close>).

  \<^bold>\<open>Arguments.\<close> Addresses that the linker chooses, the version of the system, and the function by which a framebuffer driver
  reports its mode are arguments of the definitions that use them. So are the services of the BIOS, of which the theorems on
  volumes assume that the sectors of the drive can be read and have 512 bytes (\<open>disk_ok\<close>).

  \<^bold>\<open>Not modelled.\<close> Log messages. The instructions that save the registers at an interrupt and load descriptor tables, and the
  assembly before \<^verbatim>\<open>KernelMain\<close>: they act on processor state the model does not have. Caching of translations: a changed
  page table entry counts at once. A second processor, and interrupts in the middle of an operation: the kernel runs on one
  processor with interrupts off in its calls. Drivers for serial ports and screens, fonts and the console of the kernel, whose
  effect is in the hardware. The menu and the console of the boot manager, and its instructions: its boot sectors and its calls of the BIOS switch the processor to real
  mode, which the model does not have. The servers, the user library and the C library: separate programs that use the kernel only
  through the system calls modelled here.
\<close>

end
